(* ===== verification/Prelude.thy ===== *)
theory Prelude
  imports Main "HOL-Library.Word" "HOL-Library.Char_ord" "HOL-Library.List_Lexorder"
begin

text \<open>
  What the components share: results of fallible Rust code (\<open>Result<T, E>\<close> as a sum with
  the error on the left), the slice operations of the standard library that the code calls
  (\<open>partition_point\<close>, \<open>sort_by_key\<close>), text helpers, and the lemma collections that the
  component proofs name.
\<close>

named_theorems result_simps
  \<open>equations of the result operations\<close>

named_theorems walk_simps
  \<open>equations and frame facts of the tree walk\<close>

section \<open>Results\<close>

type_synonym ('a, 'e) result = "'e + 'a"

abbreviation Ok :: "'a \<Rightarrow> ('a, 'e) result" where
  "Ok \<equiv> Inr"

abbreviation Err :: "'e \<Rightarrow> ('a, 'e) result" where
  "Err \<equiv> Inl"

text \<open>The \<open>?\<close> operator, \<open>Result::map\<close> and \<open>Result::map_err\<close>.\<close>

definition result_bind :: "('a, 'e) result \<Rightarrow> ('a \<Rightarrow> ('b, 'e) result) \<Rightarrow> ('b, 'e) result" where
  "result_bind r f = (case r of Inl e \<Rightarrow> Err e | Inr a \<Rightarrow> f a)"

definition map_err :: "('e \<Rightarrow> 'f) \<Rightarrow> ('a, 'e) result \<Rightarrow> ('a, 'f) result" where
  "map_err f r = (case r of Inl e \<Rightarrow> Err (f e) | Inr a \<Rightarrow> Ok a)"

definition ok_or :: "'e \<Rightarrow> 'a option \<Rightarrow> ('a, 'e) result" where
  "ok_or e m = (case m of None \<Rightarrow> Err e | Some a \<Rightarrow> Ok a)"

definition is_ok :: "('a, 'e) result \<Rightarrow> bool" where
  "is_ok r = (case r of Inl _ \<Rightarrow> False | Inr _ \<Rightarrow> True)"

lemma result_bind_simps [simp, result_simps]:
  "result_bind (Err e) f = Err e"
  "result_bind (Ok a) f = f a"
  by (simp_all add: result_bind_def)

lemma map_err_simps [simp, result_simps]:
  "map_err f (Err e) = Err (f e)"
  "map_err f (Ok a) = Ok a"
  by (simp_all add: map_err_def)

lemma ok_or_simps [simp, result_simps]:
  "ok_or e None = Err e"
  "ok_or e (Some a) = Ok a"
  by (simp_all add: ok_or_def)

lemma is_ok_simps [simp, result_simps]:
  "\<not> is_ok (Err e)"
  "is_ok (Ok a)"
  by (simp_all add: is_ok_def)

lemma result_bind_eq_Ok [result_simps]:
  "result_bind r f = Ok b \<longleftrightarrow> (\<exists>a. r = Ok a \<and> f a = Ok b)"
  by (cases r) auto

lemma result_bind_eq_Err [result_simps]:
  "result_bind r f = Err e \<longleftrightarrow> r = Err e \<or> (\<exists>a. r = Ok a \<and> f a = Err e)"
  by (cases r) auto

lemma map_err_eq_Ok [simp, result_simps]: "map_err f r = Ok a \<longleftrightarrow> r = Ok a"
  by (cases r) auto

lemma map_err_eq_Err [result_simps]: "map_err f r = Err e \<longleftrightarrow> (\<exists>e'. r = Err e' \<and> e = f e')"
  by (cases r) auto

text \<open>\<open>iter().map(f).collect::<Result<Vec<_>, _>>()\<close>: the first error ends it.\<close>

fun collect_results :: "('a, 'e) result list \<Rightarrow> ('a list, 'e) result" where
  "collect_results [] = Ok []"
| "collect_results (r # rs) =
     result_bind r (\<lambda>a. result_bind (collect_results rs) (\<lambda>as. Ok (a # as)))"

lemma collect_results_Ok: "collect_results rs = Ok as \<longleftrightarrow> rs = map Ok as"
  by (induction rs arbitrary: as) (auto simp: result_bind_eq_Ok Cons_eq_map_conv)

lemma collect_results_Err:
  "collect_results rs = Err e \<longleftrightarrow> (\<exists>as rest. rs = map Ok as @ Err e # rest)"
proof (induction rs)
  case Nil
  then show ?case by simp
next
  case (Cons r rs)
  show ?case
  proof (cases r)
    case (Inl e')
    have "(\<exists>as rest. Inl e' # rs = map Ok as @ Err e # rest) \<longleftrightarrow> e' = e"
      by (metis (no_types, lifting) Nil_is_map_conv append_Nil list.inject list.map_disc_iff
          map_eq_Cons_D old.sum.distinct(1) append_Cons neq_Nil_conv sum.inject(1))
    with Inl show ?thesis by simp
  next
    case (Inr a)
    have "(\<exists>as rest. r # rs = map Ok as @ Err e # rest) \<longleftrightarrow>
          (\<exists>as rest. rs = map Ok as @ Err e # rest)" (is "?L = ?R")
    proof
      assume ?L
      then obtain as rest where *: "r # rs = map Ok as @ Err e # rest" by blast
      with Inr obtain as' where "as = a # as'" by (cases as) auto
      with * show ?R by auto
    next
      assume ?R
      then obtain as rest where "rs = map Ok as @ Err e # rest" by blast
      with Inr have "r # rs = map Ok (a # as) @ Err e # rest" by simp
      then show ?L by blast
    qed
    with Cons Inr show ?thesis by (auto simp: result_bind_eq_Err)
  qed
qed

section \<open>Slices\<close>

text \<open>
  \<open>slice::partition_point\<close> of the standard library: the branch-free binary search of
  \<open>slice::binary_search_by\<close>, where \<open>pred\<close> true is \<open>Less\<close> and false is \<open>Greater\<close>.
\<close>

function partition_point_loop :: "('a \<Rightarrow> bool) \<Rightarrow> 'a list \<Rightarrow> nat \<Rightarrow> nat \<Rightarrow> nat" where
  "partition_point_loop pred xs base sz =
     (if 1 < sz
      then (let half = sz div 2; mid = base + half
            in partition_point_loop pred xs (if pred (xs ! mid) then mid else base) (sz - half))
      else base)"
  by pat_completeness auto
termination
  by (relation "measure (\<lambda>(pred, xs, base, sz). sz)") auto

declare partition_point_loop.simps [simp del]

definition partition_point :: "('a \<Rightarrow> bool) \<Rightarrow> 'a list \<Rightarrow> nat" where
  "partition_point pred xs =
     (if xs = [] then 0
      else let base = partition_point_loop pred xs 0 (length xs)
           in base + (if pred (xs ! base) then 1 else 0))"

lemma partition_point_loop_split:
  assumes "k \<le> length xs" and "\<forall>i < length xs. pred (xs ! i) \<longleftrightarrow> i < k"
    and "0 < sz" and "base + sz \<le> length xs" and "k \<le> base + sz"
    and "base = 0 \<or> base < k"
  shows "let b = partition_point_loop pred xs base sz
         in b < length xs \<and> k \<le> b + 1 \<and> (b = 0 \<or> b < k)"
  using assms
proof (induction pred xs base sz rule: partition_point_loop.induct)
  case (1 pred xs base sz)
  show ?case
  proof (cases "1 < sz")
    case False
    with "1.prems" show ?thesis by (simp add: partition_point_loop.simps [of pred xs base sz])
  next
    case True
    define half where "half = sz div 2"
    define base' where "base' = (if pred (xs ! (base + half)) then base + half else base)"
    from True have half: "0 < half" "half < sz" by (auto simp: half_def)
    with "1.prems" have in_range: "base + half < length xs" by linarith
    have "let b = partition_point_loop pred xs base' (sz - half)
          in b < length xs \<and> k \<le> b + 1 \<and> (b = 0 \<or> b < k)"
      unfolding base'_def half_def
      by (rule "1.IH" [OF True refl refl])
        (use "1.prems" in_range half in \<open>auto simp: half_def split: if_splits\<close>)
    moreover from True have
      "partition_point_loop pred xs base sz = partition_point_loop pred xs base' (sz - half)"
      unfolding base'_def half_def
      by (subst partition_point_loop.simps) (simp only: Let_def if_True)
    ultimately show ?thesis by simp
  qed
qed

lemma partition_point_eq:
  assumes k: "k \<le> length xs" and part: "\<forall>i < length xs. pred (xs ! i) \<longleftrightarrow> i < k"
  shows "partition_point pred xs = k"
proof (cases "xs = []")
  case True
  with k show ?thesis by (simp add: partition_point_def)
next
  case False
  define b where "b = partition_point_loop pred xs 0 (length xs)"
  from False partition_point_loop_split [OF k part, of "length xs" 0]
  have b: "b < length xs" "k \<le> b + 1" "b = 0 \<or> b < k"
    by (auto simp: b_def Let_def k)
  from False have "partition_point pred xs = b + (if pred (xs ! b) then 1 else 0)"
    by (simp add: partition_point_def b_def Let_def)
  with b part show ?thesis by auto
qed

text \<open>On a slice that the predicate splits, it is the length of the longest true prefix.\<close>

lemma partition_point_takeWhile:
  assumes "sorted_wrt (\<lambda>x y. pred y \<longrightarrow> pred x) xs"
  shows "partition_point pred xs = length (takeWhile pred xs)"
proof (rule partition_point_eq)
  show "length (takeWhile pred xs) \<le> length xs"
    by (rule length_takeWhile_le)
  show "\<forall>i < length xs. pred (xs ! i) \<longleftrightarrow> i < length (takeWhile pred xs)"
  proof (intro allI impI iffI)
    fix i assume i: "i < length xs" "pred (xs ! i)"
    show "i < length (takeWhile pred xs)"
    proof (rule ccontr)
      let ?n = "length (takeWhile pred xs)"
      assume "\<not> i < ?n"
      then have n: "?n \<le> i" by simp
      with i have "\<not> pred (xs ! ?n)" by (intro nth_length_takeWhile) simp
      moreover from this i n have "?n < i" by (cases "?n = i") auto
      with assms i have "pred (xs ! ?n)" by (auto simp: sorted_wrt_iff_nth_less)
      ultimately show False by simp
    qed
  next
    fix i assume "i < length (takeWhile pred xs)"
    then show "pred (xs ! i)"
      by (metis nth_mem set_takeWhileD takeWhile_nth)
  qed
qed

lemma sorted_wrt_map_key:
  "sorted (map f xs) \<longleftrightarrow> sorted_wrt (\<lambda>x y. f x \<le> f y) xs"
  by (simp add: sorted_wrt_map)

text \<open>The slice between two partition points of a sorted list holds the equal keys, in order.\<close>

lemma sorted_equal_range:
  fixes f :: "'a \<Rightarrow> 'b::linorder"
  assumes "sorted (map f xs)"
  shows "drop (partition_point (\<lambda>x. f x < k) xs) (take (partition_point (\<lambda>x. f x \<le> k) xs) xs)
         = filter (\<lambda>x. f x = k) xs"
proof -
  have lt: "partition_point (\<lambda>x. f x < k) xs = length (takeWhile (\<lambda>x. f x < k) xs)"
    using assms unfolding sorted_wrt_map_key
    by (intro partition_point_takeWhile) (auto elim!: sorted_wrt_mono_rel [rotated])
  have le: "partition_point (\<lambda>x. f x \<le> k) xs = length (takeWhile (\<lambda>x. f x \<le> k) xs)"
    using assms unfolding sorted_wrt_map_key
    by (intro partition_point_takeWhile) (auto elim!: sorted_wrt_mono_rel [rotated])
  have "drop (length (takeWhile (\<lambda>x. f x < k) xs)) (takeWhile (\<lambda>x. f x \<le> k) xs)
        = filter (\<lambda>x. f x = k) xs"
    using assms
  proof (induction xs)
    case Nil
    then show ?case by simp
  next
    case (Cons x xs)
    then have IH: "drop (length (takeWhile (\<lambda>x. f x < k) xs)) (takeWhile (\<lambda>x. f x \<le> k) xs)
        = filter (\<lambda>x. f x = k) xs" and le: "\<forall>y \<in> set xs. f x \<le> f y"
      by auto
    consider "f x < k" | "f x = k" | "k < f x" by fastforce
    then show ?case
    proof cases
      case 2
      with le have "takeWhile (\<lambda>x. f x < k) xs = []"
        by (cases xs) auto
      with 2 IH show ?thesis by simp
    next
      case 3
      with le have "filter (\<lambda>x. f x = k) xs = []" by (auto simp: filter_empty_conv)
      with 3 show ?thesis by auto
    qed (use IH in auto)
  qed
  then show ?thesis
    by (simp add: lt le takeWhile_eq_take [symmetric])
qed

lemma find_append:
  "find P (xs @ ys) = (case find P xs of Some x \<Rightarrow> Some x | None \<Rightarrow> find P ys)"
  by (induction xs) auto

lemma find_append_if:
  "find P (xs @ ys) = (if \<exists>x \<in> set xs. P x then find P xs else find P ys)"
  by (induction xs) auto

lemma set_map_filter [simp]: "y \<in> set (List.map_filter f xs) \<longleftrightarrow> (\<exists>x \<in> set xs. f x = Some y)"
  by (induction xs) (auto simp: List.map_filter_def)

lemma map_filter_concat:
  "List.map_filter f (concat xss) = concat (map (List.map_filter f) xss)"
  by (induction xss) (auto simp: List.map_filter_def)

text \<open>\<open>Iterator::find_map\<close>.\<close>

fun find_map :: "('a \<Rightarrow> 'b option) \<Rightarrow> 'a list \<Rightarrow> 'b option" where
  "find_map f [] = None"
| "find_map f (x # xs) = (case f x of Some y \<Rightarrow> Some y | None \<Rightarrow> find_map f xs)"

section \<open>Ordered maps\<close>

text \<open>\<open>BTreeMap::insert\<close> on the list of bindings in key order.\<close>

fun btree_insert :: "'k::linorder \<Rightarrow> 'v \<Rightarrow> ('k \<times> 'v) list \<Rightarrow> ('k \<times> 'v) list" where
  "btree_insert k v [] = [(k, v)]"
| "btree_insert k v ((k', v') # m) =
     (if k = k' then (k, v) # m
      else if k < k' then (k, v) # (k', v') # m
      else (k', v') # btree_insert k v m)"

definition btree_map_wf :: "('k::linorder \<times> 'v) list \<Rightarrow> bool" where
  "btree_map_wf m = (sorted (map fst m) \<and> distinct (map fst m))"

lemma btree_insert_keys: "fst ` set (btree_insert k v m) = insert k (fst ` set m)"
  by (induction k v m rule: btree_insert.induct) auto

lemma btree_insert_wf: "btree_map_wf m \<Longrightarrow> btree_map_wf (btree_insert k v m)"
proof (induction k v m rule: btree_insert.induct)
  case (2 k v k' v' m)
  then show ?case
    using btree_insert_keys [of k v m] by (auto simp: btree_map_wf_def)
qed (simp add: btree_map_wf_def)

lemma map_of_btree_insert:
  "btree_map_wf m \<Longrightarrow> map_of (btree_insert k v m) = (map_of m)(k \<mapsto> v)"
proof (induction k v m rule: btree_insert.induct)
  case (2 k v k' v' m)
  then show ?case by (auto simp: btree_map_wf_def fun_eq_iff)
qed auto

text \<open>An ordered map is determined by what it binds.\<close>

lemma btree_map_unique:
  assumes "btree_map_wf m" "btree_map_wf m'" "map_of m = map_of m'"
  shows "m = m'"
proof -
  have rebuild: "map (\<lambda>k. (k, the (map_of l k))) (map fst l) = l"
    if "btree_map_wf l" for l :: "('a \<times> 'b) list"
    using that by (auto simp: btree_map_wf_def comp_def intro!: map_idI)
  have "fst ` set m = fst ` set m'"
    using assms(3) by (metis dom_map_of_conv_image_fst)
  then have "map fst m = map fst m'"
    using assms(1,2) by (intro sorted_distinct_set_unique) (auto simp: btree_map_wf_def)
  then show ?thesis
    using rebuild [OF assms(1)] rebuild [OF assms(2)] assms(3) by metis
qed

end
