(* ===== verification/Text.thy ===== *)
theory Text
  imports Prelude
begin

text \<open>
  Text and paths as the Rust standard library gives them to the program. A \<open>str\<close> is the list
  of its UTF-8 bytes (\<open>string\<close>, one \<open>char\<close> per byte), so lengths and offsets count bytes. A
  \<open>Path\<close> on Unix is a list of bytes that need not be UTF-8; \<open>to_str\<close> refuses such a path and
  \<open>display\<close> replaces what is not UTF-8.
\<close>

section \<open>Bytes and UTF-8\<close>

abbreviation byte_of :: "char \<Rightarrow> nat" where
  "byte_of c \<equiv> of_char c"

definition is_continuation :: "char \<Rightarrow> bool" where
  "is_continuation c = (128 \<le> byte_of c \<and> byte_of c \<le> 191)"

text \<open>Whether a second byte may follow a first byte of a three- or four-byte sequence.\<close>

definition second_ok :: "nat \<Rightarrow> nat \<Rightarrow> bool" where
  "second_ok a b =
     (if a = 224 then 160 \<le> b \<and> b \<le> 191
      else if a = 237 then 128 \<le> b \<and> b \<le> 159
      else if a = 240 then 144 \<le> b \<and> b \<le> 191
      else if a = 244 then 128 \<le> b \<and> b \<le> 143
      else 128 \<le> b \<and> b \<le> 191)"

text \<open>
  The next sequence of a non-empty byte string: whether it is a valid scalar value, and how
  many bytes it takes (for an invalid one, how many bytes the decoder replaces at once).
\<close>

fun utf8_next :: "string \<Rightarrow> bool \<times> nat" where
  "utf8_next [] = (False, 0)"
| "utf8_next (c # cs) =
     (let a = byte_of c in
      if a < 128 then (True, 1)
      else if 194 \<le> a \<and> a \<le> 223 then
        (case cs of d # _ \<Rightarrow> if is_continuation d then (True, 2) else (False, 1) | [] \<Rightarrow> (False, 1))
      else if 224 \<le> a \<and> a \<le> 239 then
        (case cs of
           d # ds \<Rightarrow>
             if \<not> second_ok a (byte_of d) then (False, 1)
             else (case ds of e # _ \<Rightarrow> if is_continuation e then (True, 3) else (False, 2)
                            | [] \<Rightarrow> (False, 2))
         | [] \<Rightarrow> (False, 1))
      else if 240 \<le> a \<and> a \<le> 244 then
        (case cs of
           d # ds \<Rightarrow>
             if \<not> second_ok a (byte_of d) then (False, 1)
             else (case ds of
                     e # es \<Rightarrow>
                       if \<not> is_continuation e then (False, 2)
                       else (case es of
                               f # _ \<Rightarrow> if is_continuation f then (True, 4) else (False, 3)
                             | [] \<Rightarrow> (False, 3))
                   | [] \<Rightarrow> (False, 2))
         | [] \<Rightarrow> (False, 1))
      else (False, 1))"

lemma utf8_next_pos: "s \<noteq> [] \<Longrightarrow> 0 < snd (utf8_next s)"
  by (cases s) (auto simp: Let_def split: list.splits)

lemma drop_utf8_next_less: "Suc (length cs) - snd (utf8_next (c # cs)) < Suc (length cs)"
  using utf8_next_pos [of "c # cs"] by (simp del: utf8_next.simps)

text \<open>\<open>str::from_utf8\<close> succeeds.\<close>

function utf8_valid :: "string \<Rightarrow> bool" where
  "utf8_valid [] = True"
| "utf8_valid (c # cs) =
     (fst (utf8_next (c # cs)) \<and> utf8_valid (drop (snd (utf8_next (c # cs))) (c # cs)))"
  by pat_completeness auto
termination
  by (relation "measure length") (auto simp del: utf8_next.simps intro: drop_utf8_next_less)

text \<open>The three bytes of U+FFFD.\<close>

definition replacement_character :: string where
  "replacement_character = [char_of (239::nat), char_of (191::nat), char_of (189::nat)]"

text \<open>\<open>String::from_utf8_lossy\<close>, which \<open>Path::to_string_lossy\<close> and \<open>Path::display\<close> apply.\<close>

function utf8_lossy :: "string \<Rightarrow> string" where
  "utf8_lossy [] = []"
| "utf8_lossy (c # cs) =
     (let (ok, n) = utf8_next (c # cs)
      in (if ok then take n (c # cs) else replacement_character)
         @ utf8_lossy (drop (snd (utf8_next (c # cs))) (c # cs)))"
  by pat_completeness auto
termination
  by (relation "measure length") (auto simp del: utf8_next.simps intro: drop_utf8_next_less)

lemmas utf8_unfold = utf8_next.simps utf8_valid.simps utf8_lossy.simps

declare utf8_next.simps [simp del] utf8_valid.simps(2) [simp del] utf8_lossy.simps(2) [simp del]

lemma utf8_lossy_valid: "utf8_valid s \<Longrightarrow> utf8_lossy s = s"
proof (induction s rule: utf8_valid.induct)
  case (2 c cs)
  obtain ok n where n: "utf8_next (c # cs) = (ok, n)" by (cases "utf8_next (c # cs)")
  from "2.prems" n have "ok" and v: "utf8_valid (drop n (c # cs))"
    by (auto simp: utf8_valid.simps)
  with "2.IH" n have "utf8_lossy (drop n (c # cs)) = drop n (c # cs)"
    by simp
  with n \<open>ok\<close> show ?case
    by (simp add: utf8_lossy.simps del: drop.simps take.simps)
qed simp

text \<open>ASCII text is UTF-8.\<close>

lemma utf8_valid_ascii: "\<forall>c \<in> set s. byte_of c < (128::nat) \<Longrightarrow> utf8_valid s"
  by (induction s) (auto simp: utf8_valid.simps utf8_next.simps)

text \<open>\<open>str::is_char_boundary\<close>, and slicing \<open>&s[start..end]\<close>, which panics off a boundary.\<close>

definition is_char_boundary :: "string \<Rightarrow> nat \<Rightarrow> bool" where
  "is_char_boundary s i =
     (i = 0 \<or> i = length s \<or> (i < length s \<and> \<not> is_continuation (s ! i)))"

definition str_slice :: "string \<Rightarrow> nat \<Rightarrow> nat \<Rightarrow> string option" where
  "str_slice s start end =
     (if start \<le> end \<and> is_char_boundary s start \<and> is_char_boundary s end
      then Some (take (end - start) (drop start s)) else None)"

section \<open>Splitting and joining\<close>

text \<open>\<open>str::split(c)\<close>: always at least one part.\<close>

fun split_char :: "char \<Rightarrow> string \<Rightarrow> string list" where
  "split_char d [] = [[]]"
| "split_char d (c # cs) =
     (if c = d then [] # split_char d cs
      else (case split_char d cs of p # ps \<Rightarrow> (c # p) # ps | [] \<Rightarrow> [[c]]))"

fun join :: "string \<Rightarrow> string list \<Rightarrow> string" where
  "join sep [] = []"
| "join sep [x] = x"
| "join sep (x # y # ys) = x @ sep @ join sep (y # ys)"

lemma split_char_nonempty [simp]: "split_char d s \<noteq> []"
  by (induction s) (auto split: list.splits)

lemma split_char_no_sep: "p \<in> set (split_char d s) \<Longrightarrow> d \<notin> set p"
  by (induction s arbitrary: p) (auto split: list.splits if_splits)

lemma join_Cons: "join sep (x # xs) = x @ (if xs = [] then [] else sep @ join sep xs)"
  by (cases xs) auto

lemma join_split_char: "join [d] (split_char d s) = s"
  by (induction s) (auto simp: join_Cons split: list.splits)

lemma split_char_append_sep: "d \<notin> set p \<Longrightarrow> split_char d (p @ d # s) = p # split_char d s"
  by (induction p) auto

lemma split_char_single: "d \<notin> set p \<Longrightarrow> split_char d p = [p]"
  by (induction p) auto

lemma split_char_sep: "split_char d (a @ d # b) = split_char d a @ split_char d b"
  by (induction a) (auto split: list.splits simp: append_eq_Cons_conv)

lemma split_char_join:
  "xs \<noteq> [] \<Longrightarrow> \<forall>x \<in> set xs. d \<notin> set x \<Longrightarrow> split_char d (join [d] xs) = xs"
  by (induction xs rule: induct_list012) (auto simp: split_char_append_sep split_char_single)

text \<open>\<open>strip_prefix\<close>, \<open>strip_suffix\<close> and their tests.\<close>

definition starts_with :: "string \<Rightarrow> string \<Rightarrow> bool" where
  "starts_with s p = (take (length p) s = p)"

definition strip_prefix :: "string \<Rightarrow> string \<Rightarrow> string option" where
  "strip_prefix s p = (if starts_with s p then Some (drop (length p) s) else None)"

definition ends_with :: "string \<Rightarrow> string \<Rightarrow> bool" where
  "ends_with s p = (length p \<le> length s \<and> drop (length s - length p) s = p)"

definition strip_suffix :: "string \<Rightarrow> string \<Rightarrow> string option" where
  "strip_suffix s p = (if ends_with s p then Some (take (length s - length p) s) else None)"

lemma strip_prefix_Some: "strip_prefix s p = Some r \<longleftrightarrow> s = p @ r"
  by (auto simp: strip_prefix_def starts_with_def) (metis append_take_drop_id)

lemma strip_suffix_Some: "strip_suffix s p = Some r \<longleftrightarrow> s = r @ p"
  by (auto simp: strip_suffix_def ends_with_def) (metis append_take_drop_id)

text \<open>\<open>str::to_ascii_lowercase\<close>.\<close>

definition ascii_lower :: "char \<Rightarrow> char" where
  "ascii_lower c = (if CHR ''A'' \<le> c \<and> c \<le> CHR ''Z'' then char_of (byte_of c + 32) else c)"

definition to_ascii_lowercase :: "string \<Rightarrow> string" where
  "to_ascii_lowercase s = map ascii_lower s"

section \<open>Lines and whitespace\<close>

definition strip_cr :: "string \<Rightarrow> string" where
  "strip_cr l = (case strip_suffix l [CHR 0x0D] of Some r \<Rightarrow> r | None \<Rightarrow> l)"

text \<open>\<open>str::lines\<close>: a last line that is empty is no line, and only a finished line loses its \<open>\r\<close>.\<close>

definition str_lines :: "string \<Rightarrow> string list" where
  "str_lines s =
     (let ps = split_char (CHR 0x0A) s
      in map strip_cr (butlast ps) @ (if last ps = [] then [] else [last ps]))"

text \<open>
  The length in bytes of the white-space character (\<open>char::is_whitespace\<close>) that a text starts
  with, and zero when it starts with none.
\<close>

definition ws_len :: "string \<Rightarrow> nat" where
  "ws_len s =
     (case map byte_of (take 3 s) of
        [] \<Rightarrow> 0
      | a # rest \<Rightarrow>
          if a = 32 \<or> (9 \<le> a \<and> a \<le> 13) then 1
          else if a = 194 \<and> rest \<noteq> [] \<and> (hd rest = 133 \<or> hd rest = 160) then 2
          else (case rest of
                  [b, c] \<Rightarrow>
                    if a = 225 \<and> b = 154 \<and> c = 128 then 3
                    else if a = 226 \<and> b = 128 \<and> ((128 \<le> c \<and> c \<le> 138) \<or> c = 168 \<or> c = 169 \<or> c = 175) then 3
                    else if a = 226 \<and> b = 129 \<and> c = 159 then 3
                    else if a = 227 \<and> b = 128 \<and> c = 128 then 3
                    else 0
                | _ \<Rightarrow> 0))"

lemma ws_len_Nil [simp]: "ws_len [] = 0"
  by (simp add: ws_len_def)

function trim_start :: "string \<Rightarrow> string" where
  "trim_start s = (if ws_len s = 0 then s else trim_start (drop (ws_len s) s))"
  by pat_completeness auto
termination
proof (relation "measure length")
  fix s assume "ws_len s \<noteq> 0"
  then have "s \<noteq> []" by auto
  with \<open>ws_len s \<noteq> 0\<close> show "(drop (ws_len s) s, s) \<in> measure length" by (cases s) auto
qed simp

declare trim_start.simps [simp del]

text \<open>The length of the white-space character that a text ends with, and \<open>str::trim\<close>.\<close>

definition ws_tail :: "string \<Rightarrow> nat" where
  "ws_tail s =
     (case filter (\<lambda>k. k \<le> length s \<and> ws_len (drop (length s - k) s) = k) [1, 2, 3] of
        [] \<Rightarrow> 0 | k # _ \<Rightarrow> k)"

function trim_end :: "string \<Rightarrow> string" where
  "trim_end s = (if s = [] \<or> ws_tail s = 0 then s else trim_end (take (length s - ws_tail s) s))"
  by pat_completeness auto
termination by (relation "measure length") auto

declare trim_end.simps [simp del]

definition str_trim :: "string \<Rightarrow> string" where
  "str_trim s = trim_end (trim_start s)"

text \<open>\<open>s.trim().is_empty()\<close>, and \<open>s.split_whitespace().next()\<close>.\<close>

definition is_blank :: "string \<Rightarrow> bool" where
  "is_blank s = (trim_start s = [])"

fun take_word :: "string \<Rightarrow> string" where
  "take_word [] = []"
| "take_word (c # cs) = (if 0 < ws_len (c # cs) then [] else c # take_word cs)"

definition first_word :: "string \<Rightarrow> string option" where
  "first_word s = (let t = trim_start s in if t = [] then None else Some (take_word t))"

lemma ws_len_ascii:
  "byte_of c < (128::nat) \<Longrightarrow> 0 < ws_len (c # cs) \<longleftrightarrow> byte_of c = (32::nat) \<or> (9 \<le> byte_of c \<and> byte_of c \<le> (13::nat))"
  by (auto simp: ws_len_def split: list.splits)

lemma first_word_ascii:
  assumes "w \<noteq> []" and word: "\<forall>c \<in> set w. 33 \<le> byte_of c \<and> byte_of c < (128::nat)"
    and rest: "rest = [] \<or> 0 < ws_len rest"
  shows "first_word (w @ rest) = Some w"
proof -
  have no: "ws_len (c # cs) = 0" if "c \<in> set w" for c cs
    using word [rule_format, OF that] ws_len_ascii [of c cs] by (cases "ws_len (c # cs)") auto
  have "trim_start (w @ rest) = w @ rest"
    using assms(1) no by (cases w) (simp_all add: trim_start.simps)
  moreover have "take_word (w @ rest) = w"
    using no rest
  proof (induction w)
    case Nil
    then show ?case by (cases rest) auto
  qed simp
  ultimately show ?thesis using assms(1) by (simp add: first_word_def)
qed

section \<open>Numbers\<close>

text \<open>\<open>Display\<close> of an unsigned integer.\<close>

definition digit :: "nat \<Rightarrow> char" where
  "digit n = (if n < 10 then char_of (48 + n) else char_of (87 + n))"

fun decimal :: "nat \<Rightarrow> string" where
  "decimal n = (if n < 10 then [digit n] else decimal (n div 10) @ [digit (n mod 10)])"

declare decimal.simps [simp del]

text \<open>\<open>{:0w$x}\<close> of a value below \<open>16 ^ w\<close>: exactly \<open>w\<close> lower-case digits.\<close>

fun hex_pad :: "nat \<Rightarrow> nat \<Rightarrow> string" where
  "hex_pad 0 n = []"
| "hex_pad (Suc w) n = hex_pad w (n div 16) @ [digit (n mod 16)]"

lemma byte_of_digit: "n < 16 \<Longrightarrow> byte_of (digit n) = (if n < 10 then 48 + n else 87 + n)"
  by (auto simp: digit_def)

lemma digit_eq_iff [simp]: "m < 16 \<Longrightarrow> n < 16 \<Longrightarrow> digit m = digit n \<longleftrightarrow> m = n"
proof -
  assume "m < 16" "n < 16"
  note b = byte_of_digit [OF \<open>m < 16\<close>] byte_of_digit [OF \<open>n < 16\<close>]
  have "m = n" if "digit m = digit n"
  proof -
    from that have "byte_of (digit m) = byte_of (digit n)" by simp
    with \<open>m < 16\<close> \<open>n < 16\<close> show ?thesis
      unfolding b by (cases "m < 10"; cases "n < 10") simp_all
  qed
  then show ?thesis by auto
qed

lemma length_hex_pad [simp]: "length (hex_pad w n) = w"
  by (induction w arbitrary: n) auto

lemma hex_pad_inject:
  "m < 16 ^ w \<Longrightarrow> n < 16 ^ w \<Longrightarrow> hex_pad w m = hex_pad w n \<longleftrightarrow> m = n"
proof (induction w arbitrary: m n)
  case (Suc w)
  then have "m div 16 < 16 ^ w" "n div 16 < 16 ^ w"
    by (auto simp: less_mult_imp_div_less mult.commute)
  with Suc.IH show ?case
    by (auto) (metis mod_mult_div_eq)
qed auto

lemma decimal_inject: "decimal m = decimal n \<longleftrightarrow> m = n"
proof (induction m arbitrary: n rule: decimal.induct)
  case (1 m)
  have ne: "decimal k \<noteq> []" for k by (subst decimal.simps) simp
  show ?case
  proof (cases "m < 10 \<or> n < 10")
    case True
    then show ?thesis
      using ne [of "m div 10"] ne [of "n div 10"]
      by (subst decimal.simps, subst (2) decimal.simps) (auto simp: not_less)
  next
    case False
    with "1" [of "n div 10"] show ?thesis
      by (subst decimal.simps, subst (2) decimal.simps)
        (auto simp: not_less dest: trans_less_add1, metis mod_mult_div_eq)
  qed
qed

lemma digit_set_decimal: "c \<in> set (decimal n) \<Longrightarrow> \<exists>k < 10. c = digit k"
proof (induction n rule: decimal.induct)
  case (1 n)
  then show ?case
    by (subst (asm) decimal.simps) (auto split: if_splits intro: exI [of _ "n mod 10"])
qed

end
