(* ===== verification/Vocabulary.thy ===== *)
theory Vocabulary
  imports Text "HOL-Library.Product_Lexorder" "HOL-Library.Sublist"
begin

text \<open>
  The values that \<open>crates/stiles-types/src\<close> shares between every part of the program: paths,
  spans, diagnostics, languages, rule ids, panics, coverage gaps. A \<open>usize\<close> that the code only
  compares and copies (byte offsets, node ids) is a \<open>nat\<close>.
\<close>

section \<open>Paths\<close>

text \<open>
  A \<open>Path\<close> on Unix is its bytes. \<open>Path::components\<close> drops empty parts and \<open>.\<close> parts; the last
  part is the file name unless it is \<open>..\<close>.
\<close>

type_synonym path = string

definition path_components :: "path \<Rightarrow> string list" where
  "path_components p = filter (\<lambda>c. c \<noteq> [] \<and> c \<noteq> ''.'') (split_char (CHR ''/'') p)"

text \<open>
  \<open>Path::components\<close> itself: the root of an absolute path and a leading \<open>.\<close> count. Paths are
  compared, ordered, hashed and tested for containment by their components.
\<close>

datatype component = RootDir | CurDir | ParentDir | Normal string

fun component_key :: "component \<Rightarrow> nat \<times> string" where
  "component_key RootDir = (0, [])"
| "component_key CurDir = (1, [])"
| "component_key ParentDir = (2, [])"
| "component_key (Normal s) = (3, s)"

lemma component_key_inject [simp]: "component_key a = component_key b \<longleftrightarrow> a = b"
  by (cases a; cases b) auto

instantiation component :: linorder
begin
definition less_eq_component :: "component \<Rightarrow> component \<Rightarrow> bool" where
  "a \<le> b \<longleftrightarrow> component_key a \<le> component_key b"
definition less_component :: "component \<Rightarrow> component \<Rightarrow> bool" where
  "a < b \<longleftrightarrow> component_key a < component_key b"
instance
proof
  fix x y z :: component
  show "x < y \<longleftrightarrow> x \<le> y \<and> \<not> y \<le> x" unfolding less_eq_component_def less_component_def by (rule less_le_not_le)
  show "x \<le> x" unfolding less_eq_component_def by (rule order_refl)
  show "x \<le> y \<Longrightarrow> y \<le> z \<Longrightarrow> x \<le> z" unfolding less_eq_component_def by (rule order_trans)
  show "x \<le> y \<Longrightarrow> y \<le> x \<Longrightarrow> x = y"
    unfolding less_eq_component_def using order_antisym component_key_inject by blast
  show "x \<le> y \<or> y \<le> x" unfolding less_eq_component_def by (rule linear)
qed
end

definition components :: "path \<Rightarrow> component list" where
  "components p =
     (case split_char (CHR ''/'') p of
        [] \<Rightarrow> []
      | c # cs \<Rightarrow> if c = [] \<and> cs \<noteq> [] then [RootDir] else if c = ''.'' then [CurDir] else [])
     @ map (\<lambda>c. if c = ''..'' then ParentDir else Normal c) (path_components p)"

definition path_starts_with :: "path \<Rightarrow> path \<Rightarrow> bool" where
  "path_starts_with p base = prefix (components base) (components p)"

text \<open>\<open>PathBuf::join\<close>: an absolute path stands on its own.\<close>

definition path_join :: "path \<Rightarrow> path \<Rightarrow> path" where
  "path_join base p =
     (if p \<noteq> [] \<and> hd p = CHR ''/'' then p
      else if base = [] \<or> last base = CHR ''/'' then base @ p
      else base @ ''/'' @ p)"

text \<open>Joining one ordinary component onto a path adds that component.\<close>

definition ordinary_name :: "string \<Rightarrow> bool" where
  "ordinary_name n = (n \<noteq> [] \<and> n \<noteq> ''.'' \<and> n \<noteq> ''..'' \<and> CHR ''/'' \<notin> set n)"

lemma path_components_sep:
  "path_components (a @ CHR ''/'' # b) = path_components a @ path_components b"
  by (simp add: path_components_def split_char_sep)

definition lead_component :: "string list \<Rightarrow> component list" where
  "lead_component parts =
     (case parts of
        [] \<Rightarrow> []
      | c # cs \<Rightarrow> if c = [] \<and> cs \<noteq> [] then [RootDir] else if c = ''.'' then [CurDir] else [])"

lemma components_alt:
  "components p = lead_component (split_char (CHR ''/'') p)
     @ map (\<lambda>c. if c = ''..'' then ParentDir else Normal c) (path_components p)"
  by (simp add: components_def lead_component_def)

text \<open>A name that stands for one component, \<open>..\<close> among them.\<close>

definition part_name :: "string \<Rightarrow> bool" where
  "part_name n = (n \<noteq> [] \<and> n \<noteq> ''.'' \<and> CHR ''/'' \<notin> set n)"

definition part_component :: "string \<Rightarrow> component" where
  "part_component n = (if n = ''..'' then ParentDir else Normal n)"

lemma part_name_parts: "part_name n \<Longrightarrow> split_char (CHR ''/'') n = [n] \<and> path_components n = [n]"
  by (simp add: part_name_def split_char_single path_components_def)

lemma components_sep:
  assumes "part_name n" "p \<noteq> []"
  shows "components (p @ CHR ''/'' # n) = components p @ [part_component n]"
proof -
  obtain c cs where cs: "split_char (CHR ''/'') p = c # cs"
    by (cases "split_char (CHR ''/'') p") auto
  have "c \<noteq> [] \<or> cs \<noteq> []" using assms(2) cs by (cases p) (auto split: if_splits list.splits)
  then have "lead_component (split_char (CHR ''/'') p @ [n]) = lead_component (split_char (CHR ''/'') p)"
    by (auto simp: cs lead_component_def)
  with part_name_parts [OF assms(1)] show ?thesis
    by (simp add: components_alt split_char_sep path_components_sep part_component_def)
qed

lemma components_ordinary: "ordinary_name n \<Longrightarrow> components n = [Normal n]"
  by (auto simp: ordinary_name_def components_def path_components_def split_char_single)

lemma components_part: "part_name n \<Longrightarrow> components n = [part_component n]"
  using part_name_parts [of n] by (simp add: components_def part_component_def part_name_def)

lemma components_join_part:
  assumes "part_name n"
  shows "components (path_join base n) = components base @ [part_component n]"
proof -
  have n: "n \<noteq> []" "hd n \<noteq> CHR ''/''"
    using assms by (cases n; auto simp: part_name_def)+
  consider "base = []" | p where "base = p @ ''/''" "p \<noteq> []" | "base = ''/''"
    | "base \<noteq> []" "last base \<noteq> CHR ''/''"
    by (metis append_butlast_last_id append_Nil)
  then show ?thesis
  proof cases
    case 1
    then show ?thesis using n components_part [OF assms]
      by (simp add: path_join_def) (simp add: components_def path_components_def)
  next
    case (2 p)
    have "components (p @ ''/'') = components p"
      using \<open>p \<noteq> []\<close> by (cases p) (auto simp: components_def split_char_sep path_components_sep
          path_components_def split: list.splits if_splits)
    then show ?thesis using n 2 components_sep [OF assms 2(2)] by (simp add: path_join_def)
  next
    case 3
    then show ?thesis
      using n assms part_name_parts [OF assms]
      by (simp add: path_join_def components_def path_components_def part_component_def part_name_def)
  next
    case 4
    then show ?thesis using n components_sep [OF assms 4(1)] by (simp add: path_join_def)
  qed
qed

lemma ordinary_part: "ordinary_name n \<Longrightarrow> part_name n \<and> part_component n = Normal n"
  by (simp add: ordinary_name_def part_name_def part_component_def)

lemma components_join [walk_simps]:
  "ordinary_name n \<Longrightarrow> components (path_join base n) = components base @ [Normal n]"
  using ordinary_part [of n] components_join_part [of n base] by simp

lemma components_parts: "components p = lead_component (split_char (CHR ''/'') p) @ map part_component (path_components p)"
  unfolding components_alt part_component_def ..

lemma path_components_part: "n \<in> set (path_components p) \<Longrightarrow> part_name n"
  using split_char_no_sep [of n "CHR ''/''" p] by (auto simp: path_components_def part_name_def)


definition file_name :: "path \<Rightarrow> string option" where
  "file_name p =
     (case rev (path_components p) of
        [] \<Rightarrow> None
      | c # _ \<Rightarrow> if c = ''..'' then None else Some c)"

text \<open>\<open>rsplit_once('.')\<close>: what stands before and after the last dot.\<close>

definition rsplit_dot :: "string \<Rightarrow> (string \<times> string) option" where
  "rsplit_dot s =
     (case rev (split_char (CHR ''.'') s) of
        [] \<Rightarrow> None
      | [_] \<Rightarrow> None
      | a # rest \<Rightarrow> Some (join ''.'' (rev rest), a))"

text \<open>\<open>Path::extension\<close>: none for a name with no dot after its first byte.\<close>

definition extension :: "path \<Rightarrow> string option" where
  "extension p =
     (case file_name p of
        None \<Rightarrow> None
      | Some n \<Rightarrow>
          (case rsplit_dot n of
             None \<Rightarrow> None
           | Some (before, after) \<Rightarrow> if before = [] then None else Some after))"

text \<open>\<open>std::env::consts::DLL_EXTENSION\<close> on Linux.\<close>

definition dll_extension :: string where
  "dll_extension = ''so''"

text \<open>\<open>Path::parent\<close>: the path without its last component, and without what trails it.\<close>

definition trim_parts :: "string list \<Rightarrow> string list" where
  "trim_parts ps = rev (dropWhile (\<lambda>c. c = [] \<or> c = ''.'') (rev ps))"

definition path_parent :: "path \<Rightarrow> path option" where
  "path_parent p =
     (if components p = [] \<or> components p = [RootDir] then None
      else if path_components p = [] then Some []
      else (let ps = trim_parts (butlast (trim_parts (split_char (CHR ''/'') p)))
            in Some (if ps = []
                     then (case components p of RootDir # _ \<Rightarrow> ''/'' | CurDir # _ \<Rightarrow> ''.'' | _ \<Rightarrow> [])
                     else join ''/'' ps)))"

abbreviation trivial_part :: "string \<Rightarrow> bool" where
  "trivial_part c \<equiv> c = [] \<or> c = ''.''"

lemma trim_parts_split: "\<exists>ts. ps = trim_parts ps @ ts \<and> (\<forall>t \<in> set ts. trivial_part t)"
proof -
  have "ps = trim_parts ps @ rev (takeWhile (\<lambda>c. trivial_part c) (rev ps))"
    by (simp add: trim_parts_def flip: rev_append)
  moreover have "\<forall>t \<in> set (rev (takeWhile (\<lambda>c. trivial_part c) (rev ps))). trivial_part t"
    by (auto dest: set_takeWhileD)
  ultimately show ?thesis by blast
qed

lemma trim_parts_last: "trim_parts ps \<noteq> [] \<Longrightarrow> \<not> trivial_part (last (trim_parts ps))"
  using hd_dropWhile [of "\<lambda>c. trivial_part c" "rev ps"] by (simp add: trim_parts_def last_rev)

lemma filter_trim_parts:
  "filter (\<lambda>c. c \<noteq> [] \<and> c \<noteq> ''.'') (trim_parts ps) = filter (\<lambda>c. c \<noteq> [] \<and> c \<noteq> ''.'') ps"
proof -
  obtain ts where "ps = trim_parts ps @ ts" and t: "\<forall>t \<in> set ts. trivial_part t"
    using trim_parts_split by blast
  then have "filter (\<lambda>c. c \<noteq> [] \<and> c \<noteq> ''.'') ps =
      filter (\<lambda>c. c \<noteq> [] \<and> c \<noteq> ''.'') (trim_parts ps) @ filter (\<lambda>c. c \<noteq> [] \<and> c \<noteq> ''.'') ts"
    by (metis filter_append)
  moreover have "filter (\<lambda>c. c \<noteq> [] \<and> c \<noteq> ''.'') ts = []" using t by (auto simp: filter_empty_conv)
  ultimately show ?thesis by simp
qed

lemma path_parent_components:
  assumes "path_components p \<noteq> []"
  shows "\<exists>q. path_parent p = Some q \<and> components q = butlast (components p)"
proof -
  let ?nt = "\<lambda>c. c \<noteq> [] \<and> c \<noteq> ''.''" and ?g = "\<lambda>c. if c = ''..'' then ParentDir else Normal c"
  define parts where "parts = split_char (CHR ''/'') p"
  define P0 where "P0 = trim_parts parts"
  define ps where "ps = trim_parts (butlast P0)"
  have pc: "path_components p = filter ?nt P0"
    by (simp add: path_components_def P0_def parts_def filter_trim_parts)
  with assms have P0: "P0 \<noteq> []" by auto
  then have last0: "?nt (last P0)" unfolding P0_def using trim_parts_last by blast
  have "filter ?nt P0 = filter ?nt (butlast P0) @ [last P0]"
    using last0 by (subst append_butlast_last_id [OF P0, symmetric]) simp
  then have split: "path_components p = filter ?nt ps @ [last P0]"
    by (simp add: pc ps_def filter_trim_parts)
  have comps: "components p = lead_component parts @ map ?g (path_components p)"
    by (simp add: components_alt parts_def)
  have nonroot: "components p \<noteq> []" "components p \<noteq> [RootDir]"
    by (auto simp: comps split append_eq_Cons_conv)
  have parent: "path_parent p = Some (if ps = []
      then (case components p of RootDir # _ \<Rightarrow> ''/'' | CurDir # _ \<Rightarrow> ''.'' | _ \<Rightarrow> []) else join ''/'' ps)"
    using assms nonroot by (simp add: path_parent_def ps_def P0_def parts_def Let_def)
  show ?thesis
  proof (cases "ps = []")
    case True
    have "lead_component parts \<in> {[], [RootDir], [CurDir]}"
      by (auto simp: lead_component_def split: list.splits)
    then show ?thesis using True parent
      by (auto simp: comps split) (simp_all add: components_def path_components_def)
  next
    case False
    obtain t1 where t1: "parts = P0 @ t1" using trim_parts_split [of parts] unfolding P0_def by blast
    obtain t2 where t2: "butlast P0 = ps @ t2" using trim_parts_split [of "butlast P0"] unfolding ps_def by blast
    have whole: "parts = ps @ t2 @ [last P0] @ t1"
      using t1 t2 append_butlast_last_id [OF P0] by (metis append.assoc)
    have "\<forall>x \<in> set ps. CHR ''/'' \<notin> set x"
      using split_char_no_sep [of _ "CHR ''/''" p] whole unfolding parts_def [symmetric] by auto
    then have "split_char (CHR ''/'') (join ''/'' ps) = ps"
      using False split_char_join by blast
    moreover have "lead_component ps = lead_component parts"
      using False trim_parts_last [of "butlast P0"] unfolding whole ps_def [symmetric]
      by (cases ps) (auto simp: lead_component_def split: if_splits)
    ultimately have "components (join ''/'' ps) = lead_component parts @ map ?g (filter ?nt ps)"
      by (simp add: components_alt path_components_def)
    then have "components (join ''/'' ps) = butlast (components p)"
      by (simp add: comps split butlast_append)
    then show ?thesis using parent False by simp
  qed
qed

lemma file_name_join:
  assumes n: "ordinary_name n"
  shows "file_name (path_join p n) = Some n"
proof (cases "path_components (path_join p n)" rule: rev_cases)
  case Nil
  have "Normal n \<in> set (components (path_join p n))" by (simp add: components_join [OF n])
  with Nil show ?thesis
    by (auto simp: components_alt lead_component_def split: list.splits if_splits)
next
  case (snoc cs c)
  have "last (components (path_join p n)) = (if c = ''..'' then ParentDir else Normal c)"
    by (simp add: components_alt snoc)
  then show ?thesis
    using snoc by (auto simp: components_join [OF n] file_name_def split: if_splits)
qed

lemma extension_join: "ordinary_name n \<Longrightarrow> extension (path_join p n) = extension n"
  using file_name_join [of n p] file_name_join [of n "[]"]
  by (simp add: extension_def path_join_def ordinary_name_def split: if_splits)

definition to_str :: "string \<Rightarrow> string option" where
  "to_str s = (if utf8_valid s then Some s else None)"

abbreviation display :: "path \<Rightarrow> string" where
  "display p \<equiv> utf8_lossy p"

text \<open>
  A \<open>FilePath\<close> keeps the bytes of the path it was built from, so on Unix \<open>encode\<close> and
  \<open>decode\<close> move bytes and nothing else.
\<close>

datatype file_path = FilePath (file_path_bytes: "string")

definition encode_path :: "path \<Rightarrow> string" where
  "encode_path p = p"

definition decode_path :: "string \<Rightarrow> path" where
  "decode_path bytes = bytes"

definition FilePath_from :: "path \<Rightarrow> file_path" where
  "FilePath_from p = FilePath (encode_path p)"

definition as_path :: "file_path \<Rightarrow> path" where
  "as_path f = decode_path (file_path_bytes f)"

lemma as_path_from [simp]: "as_path (FilePath_from p) = p"
  by (simp add: as_path_def FilePath_from_def encode_path_def decode_path_def)

section \<open>Spans, locations, suggestions\<close>

record span =
  span_file :: file_path
  span_start :: nat
  span_end :: nat

text \<open>\<open>Span::new\<close> asserts \<open>start <= end\<close>; \<open>None\<close> is the panic.\<close>

definition Span_new :: "file_path \<Rightarrow> nat \<Rightarrow> nat \<Rightarrow> span option" where
  "Span_new file start end =
     (if start \<le> end then Some \<lparr>span_file = file, span_start = start, span_end = end\<rparr> else None)"

definition span_wf :: "span \<Rightarrow> bool" where
  "span_wf s = (span_start s \<le> span_end s)"

lemma Span_new_wf: "Span_new f a b = Some s \<Longrightarrow> span_wf s"
  by (auto simp: Span_new_def span_wf_def split: if_splits)

record location =
  location_span :: span
  location_message :: string

record suggestion =
  suggestion_span :: span
  suggestion_replacement :: string
  suggestion_message :: string

section \<open>Severities, rule ids, languages\<close>

datatype severity = Help | Info | Warn | Error

fun severity_rank :: "severity \<Rightarrow> nat" where
  "severity_rank Help = 0"
| "severity_rank Info = 1"
| "severity_rank Warn = 2"
| "severity_rank Error = 3"

lemma severity_rank_inject [simp]: "severity_rank a = severity_rank b \<longleftrightarrow> a = b"
  by (cases a; cases b) auto

text \<open>The derived order: the order of the variants.\<close>

instantiation severity :: linorder
begin

definition less_eq_severity :: "severity \<Rightarrow> severity \<Rightarrow> bool" where
  "a \<le> b \<longleftrightarrow> severity_rank a \<le> severity_rank b"

definition less_severity :: "severity \<Rightarrow> severity \<Rightarrow> bool" where
  "a < b \<longleftrightarrow> severity_rank a < severity_rank b"

instance
  by standard (auto simp: less_eq_severity_def less_severity_def)

end

datatype rule_id = RuleId (rule_name: string)

text \<open>\<open>Ord for RuleId\<close> compares the names.\<close>

definition rule_id_le :: "rule_id \<Rightarrow> rule_id \<Rightarrow> bool" where
  "rule_id_le a b \<longleftrightarrow> rule_name a \<le> rule_name b"

instantiation rule_id :: linorder
begin

definition less_eq_rule_id :: "rule_id \<Rightarrow> rule_id \<Rightarrow> bool" where
  "less_eq_rule_id = rule_id_le"

definition less_rule_id :: "rule_id \<Rightarrow> rule_id \<Rightarrow> bool" where
  "a < b \<longleftrightarrow> rule_name a < rule_name b"

instance
  by standard (auto simp: less_eq_rule_id_def rule_id_le_def less_rule_id_def rule_id.expand)

end

datatype language = Rust | TypeScript

definition from_extension :: "string \<Rightarrow> language option" where
  "from_extension ext =
     (if ext = ''rs'' then Some Rust
      else if ext = ''ts'' \<or> ext = ''mts'' \<or> ext = ''cts'' \<or> ext = ''tsx'' then Some TypeScript
      else None)"

fun language_name :: "language \<Rightarrow> string" where
  "language_name Rust = ''Rust''"
| "language_name TypeScript = ''TypeScript''"

section \<open>Diagnostics\<close>

record diagnostic =
  diag_rule_id :: rule_id
  diag_message :: string
  diag_span :: span
  diag_origins :: "location list"
  diag_related :: "location list"
  diag_suggestions :: "suggestion list"
  diag_severity :: severity

definition Diagnostic_new :: "rule_id \<Rightarrow> severity \<Rightarrow> string \<Rightarrow> span \<Rightarrow> diagnostic" where
  "Diagnostic_new rule sev msg sp =
     \<lparr>diag_rule_id = rule, diag_message = msg, diag_span = sp, diag_origins = [],
      diag_related = [], diag_suggestions = [], diag_severity = sev\<rparr>"

definition with_origin :: "diagnostic \<Rightarrow> location \<Rightarrow> diagnostic" where
  "with_origin d l = d\<lparr>diag_origins := diag_origins d @ [l]\<rparr>"

definition with_related :: "diagnostic \<Rightarrow> location \<Rightarrow> diagnostic" where
  "with_related d l = d\<lparr>diag_related := diag_related d @ [l]\<rparr>"

definition with_suggestion :: "diagnostic \<Rightarrow> suggestion \<Rightarrow> diagnostic" where
  "with_suggestion d s = d\<lparr>diag_suggestions := diag_suggestions d @ [s]\<rparr>"

definition with_severity :: "diagnostic \<Rightarrow> severity \<Rightarrow> diagnostic" where
  "with_severity d s = d\<lparr>diag_severity := s\<rparr>"

section \<open>Panics\<close>

text \<open>
  A panic payload is a \<open>&str\<close>, a \<open>String\<close>, or some other value. What a call into plugin
  code does is either a return or a panic with a payload; \<open>Panic::catch\<close> turns the second
  into a value.
\<close>

datatype panic_payload = StrPayload string | StringPayload string | OtherPayload

datatype panic = Panic (panic_message: string)

fun from_payload :: "panic_payload \<Rightarrow> panic" where
  "from_payload (StrPayload text) = Panic text"
| "from_payload (StringPayload text) = Panic text"
| "from_payload OtherPayload = Panic ''a panic whose payload is not a string''"

definition Panic_catch :: "('a, panic_payload) result \<Rightarrow> ('a, panic) result" where
  "Panic_catch work = map_err from_payload work"

section \<open>Coverage\<close>

datatype provider_name = ProviderName (provider_str: string)

datatype coverage_gap =
    OutsideRoot (gap_root: path)
  | Unreachable (gap_root: path)
  | ExcludedByToolchain (gap_root: path)
  | StaleSource
  | NoProject

fun gap_help :: "coverage_gap \<Rightarrow> string" where
  "gap_help (OutsideRoot _) =
     ''check the file from inside its own project, or exclude it from stiles''"
| "gap_help (Unreachable _) =
     ''reference the file from a source the toolchain already loads, or exclude it from stiles''"
| "gap_help (ExcludedByToolchain _) =
     ''remove the file from the toolchain's exclusion list, or exclude it from stiles''"
| "gap_help StaleSource = ''re-run stiles''"
| "gap_help NoProject =
     ''add the project file the toolchain reads, such as tsconfig.json, at or above the file, or exclude it from stiles''"

fun gap_display :: "coverage_gap \<Rightarrow> string" where
  "gap_display (OutsideRoot root) =
     ''the file is outside '' @ display root @ '', the root the provider loaded''"
| "gap_display (Unreachable root) =
     ''the file is inside '' @ display root @ '', but nothing the toolchain loaded reaches it''"
| "gap_display (ExcludedByToolchain root) =
     ''the toolchain loaded at '' @ display root @ '' was configured to exclude this file''"
| "gap_display StaleSource =
     ''the text stiles parsed differs from the text the toolchain analyzed''"
| "gap_display NoProject =
     ''no project file at or above the file names a project to analyze it in''"

record uncovered_file =
  uncovered_path :: path
  uncovered_gaps :: "(provider_name \<times> coverage_gap) list"

definition newline :: string where
  "newline = [CHR 0x0A]"

definition uncovered_display :: "uncovered_file \<Rightarrow> string" where
  "uncovered_display u =
     (if uncovered_gaps u = []
      then ''no decoration providers were configured, so no file can be analyzed''
      else ''no decoration provider covers this file, so semantic rules cannot run''
           @ concat (map (\<lambda>(name, gap).
               newline @ ''  '' @ provider_str name @ '': '' @ gap_display gap) (uncovered_gaps u)))"

text \<open>The help text tells the gap's variant: two gaps share a remedy only if they share a kind.\<close>

fun gap_kind :: "coverage_gap \<Rightarrow> nat" where
  "gap_kind (OutsideRoot _) = 0"
| "gap_kind (Unreachable _) = 1"
| "gap_kind (ExcludedByToolchain _) = 2"
| "gap_kind StaleSource = 3"
| "gap_kind NoProject = 4"

lemma gap_help_kind: "gap_help a = gap_help b \<longleftrightarrow> gap_kind a = gap_kind b"
  by (cases a; cases b) simp_all

end
