(* ===== verification/RuleOptions.thy ===== *)
theory RuleOptions
  imports Vocabulary
begin

text \<open>
  The options table of \<open>crates/stiles-types/src/rule_options.rs\<close>: what a project set for each
  rule, the part of it a pass is handed, and its validation against the declared rules. A
  \<open>BTreeSet<String>\<close> is the sorted list of its distinct elements.
\<close>

record rule_option =
  option_rule :: string
  option_name :: string
  option_values :: "string list"

datatype rule_options = RuleOptions (options_list: "rule_option list")

definition options_names :: "rule_options \<Rightarrow> rule_id \<Rightarrow> string \<Rightarrow> string list option" where
  "options_names os rule opt =
     map_option option_values
       (find (\<lambda>c. option_rule c = rule_name rule \<and> option_name c = opt) (options_list os))"

definition options_for_rules :: "rule_options \<Rightarrow> rule_id list \<Rightarrow> rule_options" where
  "options_for_rules os rules =
     RuleOptions (filter (\<lambda>c. \<exists>r \<in> set rules. rule_name r = option_rule c) (options_list os))"

text \<open>A \<open>BTreeSet\<close> collected from an iterator, and its membership test.\<close>

definition btree_set :: "'a::linorder list \<Rightarrow> 'a list" where
  "btree_set xs = remdups_adj (sort xs)"

lemma set_btree_set [simp]: "set (btree_set xs) = set xs"
  by (simp add: btree_set_def)

lemma btree_set_Nil_iff [simp]: "btree_set xs = [] \<longleftrightarrow> xs = []"
  by (metis set_btree_set set_empty)

lemma sorted_remdups_adj_distinct: "sorted xs \<Longrightarrow> distinct (remdups_adj xs)"
  by (induction xs rule: remdups_adj.induct) auto

lemma sorted_btree_set [simp]: "sorted (btree_set xs)" "distinct (btree_set xs)"
  by (simp_all add: btree_set_def sorted_remdups_adj sorted_remdups_adj_distinct)

datatype validate_rule_options_error =
  UnknownRules (unknown_rules: "string list") (declared_rules: "string list")

definition validate_options ::
  "rule_options \<Rightarrow> string list \<Rightarrow> (unit, validate_rule_options_error) result" where
  "validate_options os declared =
     (let unknown = btree_set (filter (\<lambda>r. r \<notin> set declared) (map option_rule (options_list os)))
      in if unknown = [] then Ok () else Err (UnknownRules unknown declared))"

definition list_or_nothing :: "string list \<Rightarrow> string" where
  "list_or_nothing names = (if names = [] then ''nothing'' else join '', '' names)"

fun validate_error_display :: "validate_rule_options_error \<Rightarrow> string" where
  "validate_error_display (UnknownRules unknown declared) =
     ''[rules.options] configures '' @ join '', '' unknown
     @ '', which no configured lint reports; the lints loaded here report ''
     @ list_or_nothing declared"

section \<open>What a pass is handed\<close>

lemma find_filter_same:
  "(\<And>x. x \<in> set xs \<Longrightarrow> P x \<Longrightarrow> Q x) \<Longrightarrow> find P (filter Q xs) = find P xs"
  by (induction xs) auto

text \<open>
  Cutting the table down to the rules a pass declares loses nothing the pass may ask for and
  leaves nothing of other rules: a lookup for a declared rule answers as in the whole table, and a
  lookup for a rule the pass did not declare finds nothing.
\<close>

theorem options_for_rules_names:
  "options_names (options_for_rules os rules) rule opt =
     (if rule \<in> set rules then options_names os rule opt else None)"
proof (cases "rule \<in> set rules")
  case True
  then show ?thesis
    by (auto simp: options_names_def options_for_rules_def intro!: arg_cong [where f = "map_option _"]
        find_filter_same)
next
  case False
  then have "find (\<lambda>c. option_rule c = rule_name rule \<and> option_name c = opt)
      (filter (\<lambda>c. \<exists>r \<in> set rules. rule_name r = option_rule c) (options_list os)) = None"
    by (auto simp: find_None_iff) (metis rule_id.expand)
  with False show ?thesis
    by (simp add: options_names_def options_for_rules_def)
qed

text \<open>
  The table is accepted exactly when every rule it configures is declared; a refusal names
  each unknown rule once, in order, and only rules the table really configures.
\<close>

theorem validate_options_spec:
  "(validate_options os declared = Ok () \<longleftrightarrow>
      option_rule ` set (options_list os) \<subseteq> set declared) \<and>
   (\<forall>e. validate_options os declared = Err e \<longrightarrow>
      set (unknown_rules e) = option_rule ` set (options_list os) - set declared \<and>
      unknown_rules e \<noteq> [] \<and> sorted (unknown_rules e) \<and> distinct (unknown_rules e) \<and>
      declared_rules e = declared)"
  by (auto simp: validate_options_def Let_def filter_empty_conv split: if_splits)

theorem validate_options_spec_witness:
  "validate_options (RuleOptions [\<lparr>option_rule = ''b'', option_name = ''x'', option_values = []\<rparr>,
       \<lparr>option_rule = ''a'', option_name = ''x'', option_values = []\<rparr>,
       \<lparr>option_rule = ''b'', option_name = ''y'', option_values = []\<rparr>]) [''c''] =
     Err (UnknownRules [''a'', ''b''] [''c'']) \<and>
   set (unknown_rules (UnknownRules [''a'', ''b''] [''c''])) = {''a'', ''b''}"
  (is "validate_options ?os _ = _ \<and> _")
proof -
  have v: "validate_options ?os [''c''] = Err (UnknownRules [''a'', ''b''] [''c''])"
    by code_simp
  show ?thesis
    using validate_options_spec [of ?os "[''c'']"] v by auto
qed

end
