(* ===== verification/Config.thy ===== *)
theory Config
  imports RuleOptions
begin

text \<open>
  The configuration of \<open>crates/stiles/src/config.rs\<close> and \<open>crates/stiles/src/config/\<close>: what a
  \<open>[[lints]]\<close> entry may say, which revisions and remotes are accepted, the rule filter, and the
  options table. TOML and the search for the file are third-party code: the parsed table is the
  record \<open>config_table\<close>, and gitoxide's parser and printer of remotes are arguments.
\<close>

section \<open>Errors with context\<close>

text \<open>An \<open>anyhow::Error\<close>: a cause, and the context added on the way out.\<close>

datatype 'c anyhow = Cause 'c | Context string "'c anyhow"

definition with_context :: "string \<Rightarrow> ('a, 'c anyhow) result \<Rightarrow> ('a, 'c anyhow) result" where
  "with_context msg r = map_err (Context msg) r"

fun root_cause :: "'c anyhow \<Rightarrow> 'c" where
  "root_cause (Cause c) = c"
| "root_cause (Context _ e) = root_cause e"

lemma with_context_simps [simp, result_simps]:
  "with_context msg (Err e) = Err (Context msg e)"
  "with_context msg (Ok a) = Ok a"
  by (simp_all add: with_context_def)

lemma with_context_Ok [simp]: "with_context msg r = Ok a \<longleftrightarrow> r = Ok a"
  by (simp add: with_context_def)

datatype config_error =
    Bail string
  | RevLength string
  | RevCharacters string

section \<open>Revisions\<close>

datatype git_rev = GitRev (rev_str: string)

definition hash_length :: nat where
  "hash_length = 40"

definition lower_hex :: "char \<Rightarrow> bool" where
  "lower_hex c =
     ((CHR ''0'' \<le> c \<and> c \<le> CHR ''9'') \<or> (CHR ''a'' \<le> c \<and> c \<le> CHR ''f''))"

definition GitRev_new :: "string \<Rightarrow> (git_rev, config_error anyhow) result" where
  "GitRev_new r =
     (if length r \<noteq> hash_length then Err (Cause (RevLength r))
      else if \<not> list_all lower_hex r then Err (Cause (RevCharacters r))
      else Ok (GitRev r))"

section \<open>Remotes\<close>

text \<open>The parts of a \<open>gix::url::Url\<close> that the program reads or sets.\<close>

datatype scheme = Https | Http | Ssh | GitScheme | FileScheme | Ext | Helper string | HelperUrl string

record gix_url =
  url_scheme :: scheme
  url_serialize_alternative_form :: bool
  url_user :: "string option"
  url_password :: "string option"
  url_host :: "string option"
  url_path :: string

datatype git_url = GitUrl (gix_url_of: gix_url)

definition GitUrl_new ::
  "(string \<Rightarrow> gix_url option) \<Rightarrow> string \<Rightarrow> (git_url, config_error anyhow) result" where
  "GitUrl_new gix_parse url =
     (case gix_parse url of
        Some u \<Rightarrow> Ok (GitUrl u)
      | None \<Rightarrow> Err (Cause (Bail ''cannot read the git remote'')))"

definition redacted_userinfo :: string where
  "redacted_userinfo = ''***''"

definition redacted :: "gix_url \<Rightarrow> gix_url" where
  "redacted url =
     url\<lparr>url_password := None,
         url_user := (case (url_serialize_alternative_form url, url_user url) of
                        (True, user) \<Rightarrow> user
                      | (False, Some _) \<Rightarrow> Some redacted_userinfo
                      | (False, None) \<Rightarrow> None)\<rparr>"

definition git_url_display :: "(gix_url \<Rightarrow> string) \<Rightarrow> git_url \<Rightarrow> string" where
  "git_url_display to_bstring u = to_bstring (redacted (gix_url_of u))"

definition is_ascii_alphanumeric :: "char \<Rightarrow> bool" where
  "is_ascii_alphanumeric c =
     ((CHR ''0'' \<le> c \<and> c \<le> CHR ''9'') \<or> (CHR ''A'' \<le> c \<and> c \<le> CHR ''Z'')
      \<or> (CHR ''a'' \<le> c \<and> c \<le> CHR ''z''))"

text \<open>\<open>trim_end_matches\<close> and \<open>trim_matches\<close> of one character.\<close>

definition trim_end_char :: "char \<Rightarrow> string \<Rightarrow> string" where
  "trim_end_char c s = rev (dropWhile (\<lambda>x. x = c) (rev s))"

definition trim_char :: "char \<Rightarrow> string \<Rightarrow> string" where
  "trim_char c s = trim_end_char c (dropWhile (\<lambda>x. x = c) s)"

text \<open>
  \<open>chars().map(..)\<close> over UTF-8 text replaces a whole character at once: the continuation bytes of
  a replaced character go with its first byte.
\<close>

definition map_non_alphanumeric :: "string \<Rightarrow> string" where
  "map_non_alphanumeric s =
     map (\<lambda>c. if is_ascii_alphanumeric c then c else CHR ''-'')
       (filter (\<lambda>c. \<not> is_continuation c) s)"

definition fallback_slug :: string where
  "fallback_slug = ''repository''"

definition slug :: "git_url \<Rightarrow> string" where
  "slug u =
     (let p = utf8_lossy (url_path (gix_url_of u));
          s = trim_end_char (CHR ''/'') p;
          s = last (split_char (CHR ''/'') s);
          s = (case strip_suffix s ''.git'' of Some r \<Rightarrow> r | None \<Rightarrow> s);
          s = trim_char (CHR ''-'') (map_non_alphanumeric s)
      in if s = [] then fallback_slug else s)"

section \<open>Lint sources\<close>

datatype lint_path = LintPath string

record git_lint_source =
  source_url :: git_url
  source_rev :: git_rev

datatype lint_source = PathSource lint_path | GitSource git_lint_source

record lint_entry =
  entry_path :: "string option"
  entry_git :: "string option"
  entry_rev :: "string option"

definition to_source ::
  "(string \<Rightarrow> gix_url option) \<Rightarrow> lint_entry \<Rightarrow> (lint_source, config_error anyhow) result" where
  "to_source gix_parse e =
     (case (entry_path e, entry_git e, entry_rev e) of
        (Some _, Some _, _) \<Rightarrow> Err (Cause (Bail ''can only define either path or git, not both''))
      | (Some _, None, Some _) \<Rightarrow> Err (Cause (Bail ''can only define rev with git, not with path''))
      | (Some p, None, None) \<Rightarrow> Ok (PathSource (LintPath p))
      | (None, Some git, Some r) \<Rightarrow>
          result_bind (with_context ''failed to read the git remote of a lint'' (GitUrl_new gix_parse git))
            (\<lambda>url. result_bind (with_context ''failed to read the rev of a lint'' (GitRev_new r))
              (\<lambda>r'. Ok (GitSource \<lparr>source_url = url, source_rev = r'\<rparr>)))
      | (None, Some _, None) \<Rightarrow> Err (Cause (Bail ''must define rev with git''))
      | (None, None, Some _) \<Rightarrow> Err (Cause (Bail ''must define git with rev''))
      | (None, None, None) \<Rightarrow> Err (Cause (Bail ''must define either path, or git and rev'')))"

section \<open>The rule filter\<close>

datatype rule_filter = All | Only "string list" | Except "string list"

definition RuleFilter_new :: "string list \<Rightarrow> string list \<Rightarrow> (rule_filter, config_error anyhow) result" where
  "RuleFilter_new enable disable =
     (if enable = [] \<and> disable = [] then Ok All
      else if disable = [] then Ok (Only (btree_set enable))
      else if enable = [] then Ok (Except (btree_set disable))
      else Err (Cause (Bail ''[rules] names both enable and disable; naming the rules that run already says which do not'')))"

fun admits :: "rule_filter \<Rightarrow> rule_id \<Rightarrow> bool" where
  "admits All rule = True"
| "admits (Only named) rule = (rule_name rule \<in> set named)"
| "admits (Except named) rule = (rule_name rule \<notin> set named)"

fun filter_named :: "rule_filter \<Rightarrow> string list" where
  "filter_named All = []"
| "filter_named (Only named) = named"
| "filter_named (Except named) = named"

definition validate_filter :: "rule_filter \<Rightarrow> string list \<Rightarrow> (unit, config_error anyhow) result" where
  "validate_filter f declared =
     (let unknown = filter (\<lambda>n. n \<notin> set declared) (filter_named f)
      in if unknown = [] then Ok ()
         else Err (Cause (Bail (''[rules] names '' @ join '', '' unknown
                @ '', which no configured lint reports; the lints loaded here report ''
                @ (if declared = [] then ''nothing'' else join '', '' declared)))))"

section \<open>The options table and the whole file\<close>

text \<open>A \<open>BTreeMap\<close> is the list of its bindings in key order.\<close>

type_synonym options_table = "(string \<times> (string \<times> string list) list) list"

definition read_options :: "options_table \<Rightarrow> rule_options" where
  "read_options t =
     RuleOptions (concat (map (\<lambda>(rule, options).
       map (\<lambda>(name, values). \<lparr>option_rule = rule, option_name = name, option_values = values\<rparr>) options) t))"

record rules_table =
  table_enable :: "string list"
  table_disable :: "string list"
  table_options :: options_table

record config_table =
  table_ignore :: "string list"
  table_lints :: "lint_entry list"
  table_rules :: rules_table
  table_stiles_source :: "string option"

record stiles_config =
  config_root :: path
  config_ignore :: "string list"
  config_lints :: "lint_source list"
  config_rules :: rule_filter
  config_options :: rule_options
  config_stiles_source :: "path option"

definition lint_path_resolve :: "lint_path \<Rightarrow> path \<Rightarrow> path" where
  "lint_path_resolve lp root = (case lp of LintPath p \<Rightarrow> path_join root p)"

text \<open>
  \<open>StilesConfig::load\<close> once the search found the project: \<open>project\<close> is its root, the path of its
  configuration file as printed, and the table, when there is a file.
\<close>

definition config_load ::
  "(string \<Rightarrow> gix_url option) \<Rightarrow> (path \<times> string \<times> config_table option, config_error anyhow) result \<Rightarrow>
   (stiles_config, config_error anyhow) result" where
  "config_load gix_parse project =
     result_bind project (\<lambda>(root, configuration_path, table).
       case table of
         None \<Rightarrow> Ok \<lparr>config_root = root, config_ignore = [], config_lints = [], config_rules = All,
                    config_options = RuleOptions [], config_stiles_source = None\<rparr>
       | Some t \<Rightarrow>
           result_bind (with_context (''failed to read '' @ configuration_path)
               (RuleFilter_new (table_enable (table_rules t)) (table_disable (table_rules t))))
             (\<lambda>rules.
               result_bind (with_context (''failed to read '' @ configuration_path)
                   (collect_results (map (\<lambda>(i, e).
                      with_context (''failed to read [[lints]] entry '' @ decimal (i + 1)) (to_source gix_parse e))
                      (List.enumerate 0 (table_lints t)))))
                 (\<lambda>lints.
                   Ok \<lparr>config_root = root, config_ignore = table_ignore t, config_lints = lints,
                       config_rules = rules, config_options = read_options (table_options (table_rules t)),
                       config_stiles_source = map_option (path_join root) (table_stiles_source t)\<rparr>)))"

section \<open>Properties\<close>

text \<open>
  A \<open>[[lints]]\<close> entry is accepted exactly when it names one source: a path alone, or a remote
  that git can read together with a full, lower-case, 40-digit commit hash. Every other combination
  of the three keys is refused, whatever the values are.
\<close>

theorem to_source_accepts:
  "is_ok (to_source gix_parse e) \<longleftrightarrow>
     (\<exists>p. entry_path e = Some p \<and> entry_git e = None \<and> entry_rev e = None) \<or>
     (\<exists>g r. entry_path e = None \<and> entry_git e = Some g \<and> entry_rev e = Some r \<and>
        gix_parse g \<noteq> None \<and> length r = 40 \<and> list_all lower_hex r)"
  by (cases "entry_path e"; cases "entry_git e"; cases "entry_rev e")
    (auto simp: to_source_def GitUrl_new_def GitRev_new_def hash_length_def split: option.splits)

text \<open>A pinned source carries the hash it was written with.\<close>

lemma to_source_git:
  "to_source gix_parse e = Ok (GitSource s) \<Longrightarrow>
     entry_rev e = Some (rev_str (source_rev s)) \<and> length (rev_str (source_rev s)) = 40 \<and>
     list_all lower_hex (rev_str (source_rev s))"
  by (cases "entry_path e"; cases "entry_git e"; cases "entry_rev e")
    (auto simp: to_source_def GitUrl_new_def GitRev_new_def hash_length_def result_bind_eq_Ok
      split: option.splits if_splits)

lemma trim_end_char_subset: "set (trim_end_char c s) \<subseteq> set s"
  by (auto simp: trim_end_char_def dest: set_dropWhileD)

lemma trim_char_subset: "set (trim_char c s) \<subseteq> set s"
  using trim_end_char_subset [of c "dropWhile (\<lambda>x. x = c) s"]
  by (auto simp: trim_char_def dest: set_dropWhileD)

lemma trim_end_char_last: "trim_end_char c s \<noteq> [] \<Longrightarrow> last (trim_end_char c s) \<noteq> c"
  using hd_dropWhile [of "\<lambda>x. x = c" "rev s"] by (simp add: trim_end_char_def last_rev)

definition slug_char :: "char \<Rightarrow> bool" where
  "slug_char c = (is_ascii_alphanumeric c \<or> c = CHR ''-'')"

lemma slug_chars:
  "slug u \<noteq> []" "list_all slug_char (slug u)" "last (slug u) \<noteq> CHR ''-''"
proof -
  define s where "s = last (split_char (CHR ''/'') (trim_end_char (CHR ''/'') (utf8_lossy (url_path (gix_url_of u)))))"
  define s' where "s' = (case strip_suffix s ''.git'' of Some r \<Rightarrow> r | None \<Rightarrow> s)"
  define t where "t = trim_char (CHR ''-'') (map_non_alphanumeric s')"
  have eq: "slug u = (if t = [] then fallback_slug else t)"
    unfolding slug_def Let_def s_def s'_def t_def ..
  have "set t \<subseteq> set (map_non_alphanumeric s')"
    unfolding t_def by (rule trim_char_subset)
  then have chars: "list_all slug_char t"
    by (auto simp: list_all_iff slug_char_def map_non_alphanumeric_def)
  have fb: "list_all slug_char fallback_slug" "fallback_slug \<noteq> []" "last fallback_slug \<noteq> CHR ''-''"
    by (simp_all add: fallback_slug_def slug_char_def is_ascii_alphanumeric_def less_eq_char_def)
  have last: "t \<noteq> [] \<Longrightarrow> last t \<noteq> CHR ''-''"
    by (simp add: t_def trim_char_def trim_end_char_last)
  show "slug u \<noteq> []" "list_all slug_char (slug u)" "last (slug u) \<noteq> CHR ''-''"
    using chars fb last by (auto simp: eq)
qed

lemma slug_char_no_sep: "\<not> slug_char (CHR ''/'')" "\<not> slug_char (CHR ''.'')"
  by (simp_all add: slug_char_def is_ascii_alphanumeric_def less_eq_char_def)

lemma slug_char_ordinary: "s \<noteq> [] \<Longrightarrow> list_all slug_char s \<Longrightarrow> ordinary_name s"
  using slug_char_no_sep by (auto simp: ordinary_name_def list_all_iff)

text \<open>
  The directory name a remote gives is always a single, ordinary path component: it is not
  empty, it holds only ASCII letters, digits and dashes (so no separator and no dot), and it does
  not end in a dash. No remote can therefore name a directory outside its place in the cache.
\<close>

theorem slug_is_component:
  "slug u \<noteq> [] \<and> list_all slug_char (slug u) \<and> last (slug u) \<noteq> CHR ''-'' \<and>
   components (slug u) = [Normal (slug u)]"
  by (simp add: slug_chars components_ordinary slug_char_ordinary)

text \<open>
  C12: No credential is printed. What gitoxide is asked to print for a remote never has a password,
  and has a user only for an scp-like remote (its login) or as the fixed \<open>***\<close>; remotes that differ
  only in the credentials of a URL print alike.
\<close>

theorem git_url_display_redacts:
  "\<exists>u. git_url_display to_bstring url = to_bstring u \<and> url_password u = None \<and>
       (url_user u = None \<or> url_user u = Some ''***'' \<or>
        url_serialize_alternative_form (gix_url_of url) \<and> url_user u = url_user (gix_url_of url)) \<and>
       (url_serialize_alternative_form (gix_url_of url) = False \<longrightarrow>
        (\<forall>user pw. url_user (gix_url_of url) \<noteq> None \<longrightarrow>
          git_url_display to_bstring (GitUrl ((gix_url_of url)\<lparr>url_user := Some user, url_password := pw\<rparr>)) =
          git_url_display to_bstring url))"
  by (rule exI [of _ "redacted (gix_url_of url)"])
    (auto simp: git_url_display_def redacted_def redacted_userinfo_def split: option.splits bool.splits)

definition sample_url :: gix_url where
  "sample_url = \<lparr>url_scheme = Https, url_serialize_alternative_form = False, url_user = Some ''tok'', url_password = None,
     url_host = Some ''github.com'', url_path = ''/aonyx-ai/rules.git''\<rparr>"

theorem git_url_display_redacts_witness:
  "git_url_display (\<lambda>u. case url_user u of Some n \<Rightarrow> n | None \<Rightarrow> [])
     (GitUrl (sample_url\<lparr>url_user := Some ''other'', url_password := Some ''secret''\<rparr>)) =
   git_url_display (\<lambda>u. case url_user u of Some n \<Rightarrow> n | None \<Rightarrow> []) (GitUrl sample_url)"
  using git_url_display_redacts [of "\<lambda>u. case url_user u of Some n \<Rightarrow> n | None \<Rightarrow> []" "GitUrl sample_url"]
  by (auto simp: sample_url_def)

text \<open>
  The filter a project writes decides each rule. An \<open>enable\<close> list admits exactly its rules, a
  \<open>disable\<close> list admits exactly the others, neither admits all, and both together are refused. A
  filter passes validation exactly when every rule it names is declared by a loaded lint.
\<close>

theorem rule_filter_spec:
  "(is_ok (RuleFilter_new enable disable) \<longleftrightarrow> enable = [] \<or> disable = []) \<and>
   (\<forall>f. RuleFilter_new enable disable = Ok f \<longrightarrow>
      (\<forall>rule. admits f rule \<longleftrightarrow>
         (enable = [] \<or> rule_name rule \<in> set enable) \<and> rule_name rule \<notin> set disable) \<and>
      (is_ok (validate_filter f declared) \<longleftrightarrow> set enable \<union> set disable \<subseteq> set declared))"
  by (auto simp: RuleFilter_new_def validate_filter_def Let_def filter_empty_conv split: if_splits)

theorem rule_filter_spec_witness:
  "admits (Only [''a'']) (RuleId ''a'') \<and> \<not> admits (Only [''a'']) (RuleId ''b'')"
proof -
  have "RuleFilter_new [''a''] [] = Ok (Only [''a''])"
    by (simp add: RuleFilter_new_def btree_set_def)
  with rule_filter_spec [of "[''a'']" "[]" "[]"] show ?thesis by auto
qed

lemma find_concat_map_key:
  assumes that: "\<And>rule options c. c \<in> set (f rule options) \<Longrightarrow> option_rule c = rule"
    and "distinct (map fst t)"
  shows "find (\<lambda>c. option_rule c = k \<and> P c) (concat (map (\<lambda>(rule, options). f rule options) t)) =
         (case map_of t k of None \<Rightarrow> None | Some options \<Rightarrow> find P (f k options))"
  using assms(2)
proof (induction t)
  case (Cons x t)
  obtain rule options where x: "x = (rule, options)" by fastforce
  have other: "rule \<noteq> k \<Longrightarrow> find (\<lambda>c. option_rule c = k \<and> P c) (f rule options) = None"
    using that by (auto simp: find_None_iff)
  have same: "rule = k \<Longrightarrow> find (\<lambda>c. option_rule c = k \<and> P c) (f rule options) = find P (f k options)"
    using that by (auto intro: find_cong)
  have "rule = k \<Longrightarrow> map_of t k = None"
    using Cons.prems x by (auto simp: map_of_eq_None_iff)
  with Cons x other same show ?case
    by (cases "rule = k") (auto simp: find_append split: option.splits)
qed simp

lemma find_map_key:
  "find (\<lambda>c. option_name c = k)
     (map (\<lambda>(name, values). \<lparr>option_rule = r, option_name = name, option_values = values\<rparr>) os) =
   map_option (\<lambda>values. \<lparr>option_rule = r, option_name = k, option_values = values\<rparr>) (map_of os k)"
  by (induction os) auto

text \<open>
  Flattening the options tables loses nothing: a rule that asks for an option reads exactly the
  list the file nests under that rule and that name, an empty list included, and nothing where the
  file sets nothing.
\<close>

theorem read_options_names:
  assumes "btree_map_wf t"
  shows "options_names (read_options t) rule opt =
         Option.bind (map_of t (rule_name rule)) (\<lambda>options. map_of options opt)"
proof -
  from assms have d: "distinct (map fst t)" by (simp add: btree_map_wf_def)
  define f where "f = (\<lambda>rule. map (\<lambda>(name, values).
    \<lparr>option_rule = rule, option_name = name, option_values = values :: string list\<rparr>))"
  have f: "\<And>rule options c. c \<in> set (f rule options) \<Longrightarrow> option_rule c = rule"
    by (auto simp: f_def)
  have "options_names (read_options t) rule opt = map_option option_values
      (find (\<lambda>c. option_rule c = rule_name rule \<and> option_name c = opt)
        (concat (map (\<lambda>(rule, options). f rule options) t)))"
    by (simp add: options_names_def read_options_def f_def)
  also have "\<dots> = Option.bind (map_of t (rule_name rule)) (\<lambda>options. map_of options opt)"
    by (subst find_concat_map_key [OF f d, where P = "\<lambda>c. option_name c = opt" and k = "rule_name rule"])
      (auto simp: f_def find_map_key option.map_comp o_def option.map_ident split: option.splits)
  finally show ?thesis .
qed

theorem read_options_names_witness:
  "options_names (read_options [(''a'', [(''x'', [])]), (''b'', [(''x'', [''1''])])]) (RuleId ''b'') ''x'' =
   Some [''1'']"
proof -
  have "btree_map_wf [(''a'', [(''x'', [])]), (''b'', [(''x'', [''1''])])]"
    by code_simp
  from read_options_names [OF this, of "RuleId ''b''" "''x''"] show ?thesis by simp
qed

end
