(* ===== verification/Abi.thy ===== *)
theory Abi
  imports Config
begin

unbundle bit_operations_syntax

text \<open>
  The plugin boundary: protocol versions (\<open>crates/stiles-types/src/plugin/abi_version.rs\<close>), layout
  fingerprints (\<open>plugin/fingerprint.rs\<close>), and in \<open>crates/stiles/src/custom_lints\<close> the handshake
  (\<open>handshake.rs\<close>), the digest (\<open>digest.rs\<close>), the tag (\<open>abi_tag.rs\<close>) and the archive name
  (\<open>prebuilt/asset_name.rs\<close>). Integers keep their width: \<open>u32\<close> is \<open>32 word\<close>, \<open>u64\<close> is \<open>64 word\<close>,
  and \<open>wrapping_mul\<close> is the product of words.
\<close>

section \<open>Protocol versions\<close>

datatype abi_version = AbiVersion (abi_major: "32 word") (abi_minor: "32 word")

text \<open>The derived order: the major first, then the minor.\<close>

instantiation abi_version :: linorder
begin

definition less_eq_abi_version :: "abi_version \<Rightarrow> abi_version \<Rightarrow> bool" where
  "a \<le> b \<longleftrightarrow> abi_major a < abi_major b \<or> (abi_major a = abi_major b \<and> abi_minor a \<le> abi_minor b)"

definition less_abi_version :: "abi_version \<Rightarrow> abi_version \<Rightarrow> bool" where
  "a < b \<longleftrightarrow> abi_major a < abi_major b \<or> (abi_major a = abi_major b \<and> abi_minor a < abi_minor b)"

instance
  by standard (auto simp: less_eq_abi_version_def less_abi_version_def abi_version.expand)

end

definition abi_floor :: "abi_version \<Rightarrow> abi_version" where
  "abi_floor v = (if abi_major v = 0 then v else AbiVersion (abi_major v) 0)"

definition abi_accepts :: "abi_version \<Rightarrow> abi_version \<Rightarrow> bool" where
  "abi_accepts host plugin = (plugin \<ge> abi_floor host \<and> plugin \<le> host)"

definition abi_display :: "abi_version \<Rightarrow> string" where
  "abi_display v = decimal (unat (abi_major v)) @ ''.'' @ decimal (unat (abi_minor v))"

section \<open>Fingerprints and digests\<close>

definition fnv_offset :: "64 word" where
  "fnv_offset = 0xcbf29ce484222325"

definition fnv_prime :: "64 word" where
  "fnv_prime = 0x00000100000001b3"

definition fnv_step :: "64 word \<Rightarrow> nat \<Rightarrow> 64 word" where
  "fnv_step hash byte = (hash XOR of_nat byte) * fnv_prime"

text \<open>The loop of \<open>mix\<close> over the eight bytes, and \<open>u64::to_le_bytes\<close>.\<close>

definition to_le_bytes :: "64 word \<Rightarrow> nat list" where
  "to_le_bytes w = map (\<lambda>i. unat (drop_bit (8 * i) w AND 255)) [0..<8]"

definition fnv_mix :: "64 word \<Rightarrow> nat list \<Rightarrow> 64 word" where
  "fnv_mix hash bytes = foldl fnv_step hash bytes"

definition stable_fingerprint :: "64 word list \<Rightarrow> 64 word" where
  "stable_fingerprint ids =
     foldl (\<lambda>hash i. fnv_mix hash (to_le_bytes i))
       (fnv_mix fnv_offset (to_le_bytes (of_nat (length ids)))) ids"

definition digest :: "string \<Rightarrow> string" where
  "digest text = hex_pad 16 (unat (fnv_mix fnv_offset (map of_char text)))"

section \<open>The handshake\<close>

record abi_identity =
  id_abi_version :: abi_version
  id_types_fingerprint :: "64 word"
  id_language_fingerprint :: "64 word"

datatype handshake_mismatch =
    AbiVersionMismatch abi_version abi_version
  | TypesFingerprint
  | LanguageFingerprint

definition validate_handshake ::
  "abi_identity \<Rightarrow> abi_identity \<Rightarrow> (unit, handshake_mismatch) result" where
  "validate_handshake host plugin =
     (if \<not> abi_accepts (id_abi_version host) (id_abi_version plugin)
      then Err (AbiVersionMismatch (id_abi_version plugin) (id_abi_version host))
      else if id_types_fingerprint host \<noteq> id_types_fingerprint plugin then Err TypesFingerprint
      else if id_language_fingerprint host \<noteq> id_language_fingerprint plugin then Err LanguageFingerprint
      else Ok ())"

fun mismatch_display :: "handshake_mismatch \<Rightarrow> string" where
  "mismatch_display (AbiVersionMismatch plugin host) =
     (let floor = abi_floor host;
          accepted = (if floor = host then abi_display host
                      else abi_display floor @ ''-'' @ abi_display host)
      in ''plugin (ABI '' @ abi_display plugin @ '') incompatible with stiles (ABI '' @ accepted @ '')'')"
| "mismatch_display TypesFingerprint =
     ''plugin built against another stiles-types; match its stiles pin''"
| "mismatch_display LanguageFingerprint =
     ''plugin built against another stiles-rust; match its stiles pin''"

section \<open>Tags and archive names\<close>

definition tag_input :: "abi_identity \<Rightarrow> string" where
  "tag_input i =
     abi_display (abi_floor (id_abi_version i)) @ newline
     @ hex_pad 16 (unat (id_types_fingerprint i)) @ newline
     @ hex_pad 16 (unat (id_language_fingerprint i))"

datatype abi_tag = AbiTag (tag_str: string)

definition AbiTag_new :: "abi_identity \<Rightarrow> string \<Rightarrow> abi_tag" where
  "AbiTag_new i target = AbiTag (digest (tag_input i) @ ''-'' @ target)"

datatype asset_name = AssetName (asset_str: string)

definition AssetName_new :: "git_rev \<Rightarrow> abi_tag \<Rightarrow> asset_name" where
  "AssetName_new r tag = AssetName (rev_str r @ ''-'' @ tag_str tag @ ''.tar.gz'')"

definition asset_sidecar :: "asset_name \<Rightarrow> string" where
  "asset_sidecar a = asset_str a @ ''.sha256''"

section \<open>Which plugins a host reads\<close>

lemma abi_accepts_iff:
  "abi_accepts host plugin \<longleftrightarrow>
     (if abi_major host = 0 then plugin = host
      else abi_major plugin = abi_major host \<and> abi_minor plugin \<le> abi_minor host)"
  by (cases host; cases plugin)
    (auto simp: abi_accepts_def abi_floor_def less_eq_abi_version_def)

text \<open>
  Before 1.0 a host reads a plugin of its own protocol version and no other; from 1.0 it reads
  every plugin of its major up to its own minor. The handshake succeeds exactly when that holds and
  both fingerprints agree, and a refusal names the first field that differs.
\<close>

theorem validate_handshake_spec:
  "(validate_handshake host plugin = Ok () \<longleftrightarrow>
      (if abi_major (id_abi_version host) = 0 then id_abi_version plugin = id_abi_version host
       else abi_major (id_abi_version plugin) = abi_major (id_abi_version host) \<and>
            abi_minor (id_abi_version plugin) \<le> abi_minor (id_abi_version host)) \<and>
      id_types_fingerprint host = id_types_fingerprint plugin \<and>
      id_language_fingerprint host = id_language_fingerprint plugin) \<and>
   (\<exists>a b. validate_handshake host plugin = Err (AbiVersionMismatch a b)) =
      (\<not> abi_accepts (id_abi_version host) (id_abi_version plugin)) \<and>
   (validate_handshake host plugin = Err TypesFingerprint \<longleftrightarrow>
      abi_accepts (id_abi_version host) (id_abi_version plugin) \<and>
      id_types_fingerprint host \<noteq> id_types_fingerprint plugin)"
  by (auto simp: validate_handshake_def abi_accepts_iff)

section \<open>FNV-1a steps are reversible\<close>

definition fnv_prime_inverse :: "64 word" where
  "fnv_prime_inverse = 0xce965057aff6957b"

lemma fnv_prime_inverse: "fnv_prime * fnv_prime_inverse = 1"
  by (simp add: fnv_prime_def fnv_prime_inverse_def)

lemma fnv_prime_cancel: "a * fnv_prime = b * fnv_prime \<longleftrightarrow> a = b"
proof
  assume "a * fnv_prime = b * fnv_prime"
  then have "a * (fnv_prime * fnv_prime_inverse) = b * (fnv_prime * fnv_prime_inverse)"
    by (simp only: mult.assoc [symmetric])
  then show "a = b" by (simp add: fnv_prime_inverse)
qed simp

lemma word_xor_cancel: "a XOR c = b XOR c \<longleftrightarrow> a = (b :: 'a::len word)"
  by (metis xor.assoc xor.right_neutral xor_self_eq)

lemma fnv_step_state: "fnv_step a x = fnv_step b x \<longleftrightarrow> a = b"
  by (simp add: fnv_step_def fnv_prime_cancel word_xor_cancel)

lemma fnv_step_byte: "x < 256 \<Longrightarrow> y < 256 \<Longrightarrow> fnv_step a x = fnv_step a y \<longleftrightarrow> x = y"
  by (auto simp: fnv_step_def fnv_prime_cancel xor.commute [of a] word_xor_cancel
      word_of_nat_eq_iff take_bit_nat_eq_self_iff take_bit_nat_eq_self)

lemma fnv_mix_state: "fnv_mix a xs = fnv_mix b xs \<longleftrightarrow> a = b"
  by (induction xs arbitrary: a b) (simp_all add: fnv_mix_def fnv_step_state)

lemma fnv_mix_append: "fnv_mix h (xs @ ys) = fnv_mix (fnv_mix h xs) ys"
  by (simp add: fnv_mix_def)

lemma fnv_mix_one_byte:
  assumes "x < 256" "y < 256" "x \<noteq> y"
  shows "fnv_mix h (xs @ x # ys) \<noteq> fnv_mix h (xs @ y # ys)"
proof -
  have "fnv_mix h (xs @ z # ys) = fnv_mix (fnv_step (fnv_mix h xs) z) ys" for z
    by (simp add: fnv_mix_def)
  with assms show ?thesis by (simp add: fnv_mix_state fnv_step_byte)
qed

lemma unat_u64: "unat (w :: 64 word) < 16 ^ 16"
  using unsigned_less [of w, where ?'a = nat] by simp

lemma hex16_inject: "hex_pad 16 (unat a) = hex_pad 16 (unat b) \<longleftrightarrow> a = (b :: 64 word)"
  using hex_pad_inject [OF unat_u64 unat_u64, of a b] by (auto intro: unsigned_word_eqI)

lemma digest_inject: "digest s = digest t \<longleftrightarrow>
    fnv_mix fnv_offset (map of_char s) = fnv_mix fnv_offset (map of_char t)"
  by (simp only: digest_def hex16_inject)

text \<open>
  A digest is always sixteen lower-case hexadecimal digits, and changing any single byte of the
  text changes it: two texts that differ in exactly one byte never share a name in the cache or on a
  release.
\<close>

theorem digest_one_byte:
  "length (digest s) = 16 \<and> (c \<noteq> d \<longrightarrow> digest (xs @ c # ys) \<noteq> digest (xs @ d # ys))"
proof -
  have "byte_of c \<noteq> (byte_of d :: nat)" if "c \<noteq> d"
    using that by simp
  then show ?thesis
    using fnv_mix_one_byte [of "of_char c" "of_char d" fnv_offset "map of_char xs" "map of_char ys"]
    by (auto simp: digest_inject) (simp add: digest_def)
qed

theorem digest_one_byte_witness:
  "digest ''https://a.example/r'' \<noteq> digest ''https://b.example/r''"
  using digest_one_byte [of "[]" "CHR ''a''" "CHR ''b''" "''https://''" "''.example/r''"] by simp

section \<open>What a tag says\<close>

lemma newline_notin_digits: "CHR 0x0A \<notin> set (decimal n)" "CHR 0x0A \<notin> set (hex_pad w n)"
    "CHR ''.'' \<notin> set (decimal n)"
proof -
  have d: "digit k \<noteq> CHR 0x0A" "digit k \<noteq> CHR ''.''" if "k < 16" for k
    using byte_of_digit [OF that] by (auto split: if_splits)
  show "CHR 0x0A \<notin> set (decimal n)" "CHR ''.'' \<notin> set (decimal n)"
    using digit_set_decimal [of _ n] d by (metis less_trans numeral_less_iff semiring_norm(76,78,81))+
  show "CHR 0x0A \<notin> set (hex_pad w n)"
    by (induction w arbitrary: n) (auto simp: d(1) [symmetric] dest: d(1) [symmetric])
qed

lemma abi_display_inject: "abi_display a = abi_display b \<longleftrightarrow> a = b"
proof
  assume "abi_display a = abi_display b"
  then have "split_char (CHR ''.'') (abi_display a) = split_char (CHR ''.'') (abi_display b)" by simp
  then show "a = b"
    by (cases a; cases b)
      (auto simp: abi_display_def split_char_append_sep split_char_single newline_notin_digits
        decimal_inject intro: unsigned_word_eqI)
qed simp

lemma newline_notin_abi_display: "CHR 0x0A \<notin> set (abi_display v)"
  by (simp add: abi_display_def newline_notin_digits)

text \<open>The text under the digest determines the floor and both fingerprints.\<close>

lemma tag_input_inject:
  "tag_input i = tag_input j \<longleftrightarrow>
     abi_floor (id_abi_version i) = abi_floor (id_abi_version j) \<and>
     id_types_fingerprint i = id_types_fingerprint j \<and>
     id_language_fingerprint i = id_language_fingerprint j"
proof
  assume eq: "tag_input i = tag_input j"
  have parts: "split_char (CHR 0x0A) (tag_input k) =
      [abi_display (abi_floor (id_abi_version k)), hex_pad 16 (unat (id_types_fingerprint k)),
       hex_pad 16 (unat (id_language_fingerprint k))]" for k
    by (simp add: tag_input_def newline_def split_char_append_sep split_char_single
        newline_notin_digits newline_notin_abi_display del: hex_pad.simps)
  from eq parts [of i] parts [of j] show "abi_floor (id_abi_version i) = abi_floor (id_abi_version j) \<and>
     id_types_fingerprint i = id_types_fingerprint j \<and>
     id_language_fingerprint i = id_language_fingerprint j"
    by (simp add: abi_display_inject hex16_inject)
qed (simp add: tag_input_def)

lemma abi_floor_eq_accepts:
  "abi_floor a = abi_floor b \<Longrightarrow> abi_accepts a b \<longleftrightarrow> b \<le> a"
  by (cases a; cases b)
    (auto simp: abi_accepts_iff abi_floor_def less_eq_abi_version_def split: if_splits)

text \<open>
  C13: Two identities put the same text under the tag's digest exactly when they have the same
  protocol floor and the same two fingerprints. For such a pair the handshake passes unless the
  plugin's protocol is newer than the host's, which before 1.0 cannot happen.
\<close>

theorem tag_input_handshake:
  "(tag_input host = tag_input builder \<longleftrightarrow>
      abi_floor (id_abi_version host) = abi_floor (id_abi_version builder) \<and>
      id_types_fingerprint host = id_types_fingerprint builder \<and>
      id_language_fingerprint host = id_language_fingerprint builder) \<and>
   (tag_input host = tag_input builder \<longrightarrow>
      (validate_handshake host builder = Ok () \<longleftrightarrow> id_abi_version builder \<le> id_abi_version host)) \<and>
   (tag_input host = tag_input builder \<and> abi_major (id_abi_version host) = 0 \<longrightarrow>
      validate_handshake host builder = Ok ())"
  using abi_floor_eq_accepts [of "id_abi_version host" "id_abi_version builder"]
  by (auto simp: tag_input_inject validate_handshake_def abi_floor_def split: if_splits)

definition sample_identity :: "32 word \<Rightarrow> 32 word \<Rightarrow> abi_identity" where
  "sample_identity a b = \<lparr>id_abi_version = AbiVersion a b, id_types_fingerprint = 7,
     id_language_fingerprint = 9\<rparr>"

theorem tag_input_handshake_witness:
  "validate_handshake (sample_identity 1 4) (sample_identity 1 2) = Ok () \<and>
   validate_handshake (sample_identity 1 2) (sample_identity 1 4) \<noteq> Ok () \<and>
   validate_handshake (sample_identity 0 7) (sample_identity 0 7) = Ok ()"
proof -
  have "tag_input (sample_identity 1 4) = tag_input (sample_identity 1 2)"
    by (simp add: tag_input_inject sample_identity_def abi_floor_def)
  then show ?thesis
    using tag_input_handshake [of "sample_identity 1 4" "sample_identity 1 2"]
      tag_input_handshake [of "sample_identity 1 2" "sample_identity 1 4"]
      tag_input_handshake [of "sample_identity 0 7" "sample_identity 0 7"]
    by (simp add: sample_identity_def less_eq_abi_version_def)
qed

end
