(* ===== verification/Decorations.thy ===== *)
theory Decorations
  imports Vocabulary
begin

text \<open>
  The decoration map of \<open>crates/stiles-types/src\<close>: \<open>decoration_key.rs\<close>, \<open>decoration_entry.rs\<close>,
  \<open>decoration_map.rs\<close> and \<open>decoration_lookup.rs\<close>. Entries stay in insertion order; the first read
  seals a list of their positions sorted by node, and a lookup is two binary searches over it.

  A decoration type \<open>T\<close> reaches the map as its key, the erasure into stabby's box and stabby's
  checked downcast. The last two are stabby's code and are fields of the record \<open>decoration\<close>; the
  documented law that reading back what was erased yields it is \<open>stable_downcast\<close>.
\<close>

section \<open>Keys and entries\<close>

datatype decoration_key = DecorationKey (key_str: string)

record ('v, 'e) decoration =
  deco_key :: decoration_key
  deco_erase :: "'v \<Rightarrow> 'e"
  deco_downcast :: "'e \<Rightarrow> 'v option"

definition stable_downcast :: "('v, 'e) decoration \<Rightarrow> bool" where
  "stable_downcast T = (\<forall>v. deco_downcast T (deco_erase T v) = Some v)"

record 'e entry =
  entry_node_id :: nat
  entry_key :: decoration_key
  entry_value :: 'e

definition Entry_new :: "('v, 'e) decoration \<Rightarrow> nat \<Rightarrow> 'v \<Rightarrow> 'e entry" where
  "Entry_new T n v =
     \<lparr>entry_node_id = n, entry_key = deco_key T, entry_value = deco_erase T v\<rparr>"

definition entry_read :: "('v, 'e) decoration \<Rightarrow> 'e entry \<Rightarrow> 'v option" where
  "entry_read T e = deco_downcast T (entry_value e)"

section \<open>The lookup handle\<close>

record 'e decoration_lookup =
  lookup_order :: "nat list"
  lookup_entries :: "'e entry list"

definition lookup_on :: "'e decoration_lookup \<Rightarrow> nat \<Rightarrow> 'e entry list" where
  "lookup_on h n =
     (let order = lookup_order h; entries = lookup_entries h;
          at = (\<lambda>position. entry_node_id (entries ! position));
          start = partition_point (\<lambda>position. at position < n) order;
          end = partition_point (\<lambda>position. at position \<le> n) order
      in map (\<lambda>position. entries ! position) (drop start (take end order)))"

definition lookup_first :: "('v, 'e) decoration \<Rightarrow> 'e decoration_lookup \<Rightarrow> nat \<Rightarrow> 'v option" where
  "lookup_first T h n =
     (case find (\<lambda>e. entry_key e = deco_key T) (lookup_on h n) of
        None \<Rightarrow> None
      | Some e \<Rightarrow> entry_read T e)"

definition lookup_get_all :: "('v, 'e) decoration \<Rightarrow> 'e decoration_lookup \<Rightarrow> nat \<Rightarrow> 'v list" where
  "lookup_get_all T h n =
     List.map_filter (entry_read T) (filter (\<lambda>e. entry_key e = deco_key T) (lookup_on h n))"

section \<open>The map\<close>

record 'e decoration_map =
  map_entries :: "'e entry list"
  map_sealed :: "nat list option"

definition map_new :: "'e decoration_map" where
  "map_new = \<lparr>map_entries = [], map_sealed = None\<rparr>"

definition map_insert :: "('v, 'e) decoration \<Rightarrow> nat \<Rightarrow> 'v \<Rightarrow> 'e decoration_map \<Rightarrow> 'e decoration_map"
  where
  "map_insert T n v m = \<lparr>map_entries = map_entries m @ [Entry_new T n v], map_sealed = None\<rparr>"

definition map_merge :: "'e decoration_map \<Rightarrow> 'e decoration_map \<Rightarrow> 'e decoration_map" where
  "map_merge m other = \<lparr>map_entries = map_entries m @ map_entries other, map_sealed = None\<rparr>"

text \<open>\<open>OnceLock::get_or_init\<close>: the first read stores the order, later reads reuse it.\<close>

definition sorted_positions :: "'e entry list \<Rightarrow> nat list" where
  "sorted_positions entries = sort_key (\<lambda>at. entry_node_id (entries ! at)) [0..<length entries]"

definition map_lookup :: "'e decoration_map \<Rightarrow> 'e decoration_lookup \<times> 'e decoration_map" where
  "map_lookup m =
     (let order = (case map_sealed m of
                     Some order \<Rightarrow> order
                   | None \<Rightarrow> sorted_positions (map_entries m))
      in (\<lparr>lookup_order = order, lookup_entries = map_entries m\<rparr>, m\<lparr>map_sealed := Some order\<rparr>))"

definition map_get :: "('v, 'e) decoration \<Rightarrow> nat \<Rightarrow> 'e decoration_map \<Rightarrow> 'v option \<times> 'e decoration_map"
  where
  "map_get T n m = (let (h, m') = map_lookup m in (lookup_first T h n, m'))"

definition map_get_all :: "('v, 'e) decoration \<Rightarrow> nat \<Rightarrow> 'e decoration_map \<Rightarrow> 'v list \<times> 'e decoration_map"
  where
  "map_get_all T n m = (let (h, m') = map_lookup m in (lookup_get_all T h n, m'))"

section \<open>The invariant\<close>

text \<open>A seal that is present is the sorted list of positions of the entries now in the map.\<close>

definition map_invar :: "'e decoration_map \<Rightarrow> bool" where
  "map_invar m =
     (case map_sealed m of None \<Rightarrow> True | Some order \<Rightarrow> order = sorted_positions (map_entries m))"

lemma map_invar_new [simp]: "map_invar map_new"
  by (simp add: map_invar_def map_new_def)

lemma map_invar_insert [simp]: "map_invar (map_insert T n v m)"
  by (simp add: map_invar_def map_insert_def)

lemma map_invar_merge [simp]: "map_invar (map_merge m other)"
  by (simp add: map_invar_def map_merge_def)

lemma map_invar_lookup [simp]: "map_invar m \<Longrightarrow> map_invar (snd (map_lookup m))"
  by (auto simp: map_invar_def map_lookup_def Let_def split: option.splits)

lemma map_lookup_entries [simp]: "map_entries (snd (map_lookup m)) = map_entries m"
  by (simp add: map_lookup_def Let_def)

section \<open>A lookup is a filter in insertion order\<close>

text \<open>The abstraction: the entries on each node, oldest first.\<close>

definition entries_on :: "'e decoration_map \<Rightarrow> nat \<Rightarrow> 'e entry list" where
  "entries_on m n = filter (\<lambda>e. entry_node_id e = n) (map_entries m)"

lemma lookup_on_sorted:
  assumes "lookup_order h = sorted_positions (lookup_entries h)"
  shows "lookup_on h n = filter (\<lambda>e. entry_node_id e = n) (lookup_entries h)"
proof -
  define es where "es = lookup_entries h"
  define at where "at = (\<lambda>position. entry_node_id (es ! position))"
  define order where "order = sort_key at [0..<length es]"
  have "lookup_on h n = map ((!) es)
      (drop (partition_point (\<lambda>p. at p < n) order) (take (partition_point (\<lambda>p. at p \<le> n) order) order))"
    using assms by (simp add: lookup_on_def es_def at_def order_def sorted_positions_def Let_def)
  also have "\<dots> = map ((!) es) (filter (\<lambda>p. at p = n) order)"
    by (subst sorted_equal_range) (simp_all add: order_def)
  also have "filter (\<lambda>p. at p = n) order = filter (\<lambda>p. at p = n) [0..<length es]"
    unfolding order_def by (rule sort_key_stable)
  also have "map ((!) es) (filter (\<lambda>p. at p = n) [0..<length es]) =
      filter (\<lambda>e. entry_node_id e = n) (map ((!) es) [0..<length es])"
    by (simp add: filter_map at_def o_def)
  finally show ?thesis
    by (simp add: es_def map_nth)
qed

lemma map_lookup_on:
  assumes "map_invar m"
  shows "lookup_on (fst (map_lookup m)) n = entries_on m n"
  using assms
  by (subst lookup_on_sorted)
    (auto simp: map_invar_def map_lookup_def entries_on_def Let_def split: option.splits)

section \<open>The interface to the pipeline and the rules\<close>

text \<open>
  What a client relies on: a store of items per node, in order, with a merge that appends. The
  operations are stated over what a lookup returns (\<open>on\<close>), under an invariant.
\<close>

locale decoration_store =
  fixes empty :: 'm
    and merge :: "'m \<Rightarrow> 'm \<Rightarrow> 'm"
    and on :: "'m \<Rightarrow> nat \<Rightarrow> 'x list"
    and invar :: "'m \<Rightarrow> bool"
  assumes on_empty: "on empty n = []"
    and on_merge: "invar a \<Longrightarrow> invar b \<Longrightarrow> on (merge a b) n = on a n @ on b n"
    and invar_empty: "invar empty"
    and invar_merge: "invar a \<Longrightarrow> invar b \<Longrightarrow> invar (merge a b)"
begin

lemma invar_merges: "invar m \<Longrightarrow> \<forall>x \<in> set ms. invar x \<Longrightarrow> invar (foldl merge m ms)"
  by (induction ms arbitrary: m) (auto simp: invar_merge)

lemma on_merges:
  "invar m \<Longrightarrow> \<forall>x \<in> set ms. invar x \<Longrightarrow>
   on (foldl merge m ms) n = on m n @ concat (map (\<lambda>x. on x n) ms)"
  by (induction ms arbitrary: m) (auto simp: invar_merge on_merge)

text \<open>The earliest map that answers a question about a node decides it.\<close>

lemma find_merges:
  assumes "invar m" and "\<forall>x \<in> set ms. invar x"
  shows "find P (on (foldl merge m ms) n) =
         (case find P (on m n) of
            Some x \<Rightarrow> Some x
          | None \<Rightarrow> find P (concat (map (\<lambda>x. on x n) ms)))"
  by (simp add: on_merges [OF assms] find_append)

end

locale decoration_builder = decoration_store +
  fixes insert :: "'i \<Rightarrow> 'm \<Rightarrow> 'm"
    and node_of :: "'i \<Rightarrow> nat"
    and item_of :: "'i \<Rightarrow> 'x"
  assumes on_insert: "invar m \<Longrightarrow>
      on (insert i m) n = on m n @ (if n = node_of i then [item_of i] else [])"
    and invar_insert: "invar m \<Longrightarrow> invar (insert i m)"
begin

lemma invar_inserts: "invar m \<Longrightarrow> invar (fold insert is m)"
  by (induction "is" arbitrary: m) (auto simp: invar_insert)

lemma on_inserts:
  "invar m \<Longrightarrow> on (fold insert is m) n = on m n @ map item_of (filter (\<lambda>i. n = node_of i) is)"
  by (induction "is" arbitrary: m) (auto simp: invar_insert on_insert)

end

text \<open>The code's map provides that interface, with lookups through the sealed index.\<close>

definition map_on :: "'e decoration_map \<Rightarrow> nat \<Rightarrow> 'e entry list" where
  "map_on m n = lookup_on (fst (map_lookup m)) n"

lemma map_on_entries: "map_invar m \<Longrightarrow> map_on m n = entries_on m n"
  by (simp add: map_on_def map_lookup_on)

lemma entries_on_new [simp]: "entries_on map_new n = []"
  by (simp add: entries_on_def map_new_def)

lemma entries_on_insert [simp]:
  "entries_on (map_insert T k v m) n = entries_on m n @ (if n = k then [Entry_new T k v] else [])"
  by (auto simp: entries_on_def map_insert_def Entry_new_def)

lemma entries_on_merge [simp]: "entries_on (map_merge a b) n = entries_on a n @ entries_on b n"
  by (simp add: entries_on_def map_merge_def)

lemma entries_on_lookup [simp]: "entries_on (snd (map_lookup m)) n = entries_on m n"
  by (simp add: entries_on_def)

interpretation dm: decoration_builder map_new map_merge map_on map_invar
  "\<lambda>(T, n, v). map_insert T n v" "\<lambda>(T, n, v). n" "\<lambda>(T, n, v). Entry_new T n v"
  by unfold_locales (auto simp: map_on_entries)

lemma map_get_fst: "fst (map_get T n m) =
    (case find (\<lambda>e. entry_key e = deco_key T) (map_on m n) of
       None \<Rightarrow> None | Some e \<Rightarrow> entry_read T e)"
  by (simp add: map_get_def map_on_def lookup_first_def case_prod_unfold Let_def)

lemma map_get_all_fst: "fst (map_get_all T n m) =
    List.map_filter (entry_read T) (filter (\<lambda>e. entry_key e = deco_key T) (map_on m n))"
  by (simp add: map_get_all_def map_on_def lookup_get_all_def case_prod_unfold Let_def)

lemma map_get_snd [simp]: "snd (map_get T n m) = snd (map_lookup m)"
  by (simp add: map_get_def case_prod_unfold Let_def)

lemma map_get_all_snd [simp]: "snd (map_get_all T n m) = snd (map_lookup m)"
  by (simp add: map_get_all_def case_prod_unfold Let_def)

lemma find_filter: "find P (filter Q xs) = find (\<lambda>x. Q x \<and> P x) xs"
  by (induction xs) auto

section \<open>Maps the program can hold\<close>

text \<open>
  Every map the program builds starts empty and goes through inserts, merges and reads (a read
  seals). The invariant holds of all of them. The map stores erased values only, so an insert of a
  value of any type is an insert of its erasure.
\<close>

inductive map_reachable :: "'e decoration_map \<Rightarrow> bool" where
  reach_new: "map_reachable map_new"
| reach_erased: "map_reachable m \<Longrightarrow>
    map_reachable (map_insert (T :: ('e, 'e) decoration) n v m)"
| reach_merge: "map_reachable m \<Longrightarrow> map_reachable other \<Longrightarrow> map_reachable (map_merge m other)"
| reach_read: "map_reachable m \<Longrightarrow> map_reachable (snd (map_lookup m))"

lemma reach_insert: "map_reachable m \<Longrightarrow> map_reachable (map_insert T n v m)"
  using reach_erased [of m "\<lparr>deco_key = deco_key T, deco_erase = id, deco_downcast = Some\<rparr>" n
      "deco_erase T v"]
  by (simp add: map_insert_def Entry_new_def)

lemma map_reachable_invar: "map_reachable m \<Longrightarrow> map_invar m"
  by (induction rule: map_reachable.induct) auto

lemmas map_reachable_rules = reach_new reach_insert reach_merge reach_read

text \<open>
  C6: On every map the program can build, in whatever order it inserted, merged and read, the two
  binary searches over the sealed index give exactly what a scan of the entries in insertion order
  gives: \<open>get\<close> reads the first entry of the node with the type's key, \<open>get_all\<close> reads all of them
  oldest first, and a read never changes what the map holds.
\<close>

theorem map_get_is_scan:
  assumes "map_reachable m"
  shows "fst (map_get T n m) =
           (case find (\<lambda>e. entry_node_id e = n \<and> entry_key e = deco_key T) (map_entries m) of
              None \<Rightarrow> None | Some e \<Rightarrow> entry_read T e) \<and>
         fst (map_get_all T n m) =
           List.map_filter (entry_read T)
             (filter (\<lambda>e. entry_node_id e = n \<and> entry_key e = deco_key T) (map_entries m)) \<and>
         map_entries (snd (map_get T n m)) = map_entries m \<and>
         map_entries (snd (map_get_all T n m)) = map_entries m"
  using map_reachable_invar [OF assms]
  by (simp add: map_get_fst map_get_all_fst map_on_entries entries_on_def find_filter conj_commute)

text \<open>Two decoration types over one erased type, for the witnesses.\<close>

definition sample_text :: "(string, string + nat) decoration" where
  "sample_text = \<lparr>deco_key = DecorationKey ''text'', deco_erase = Inl,
     deco_downcast = (\<lambda>x. case x of Inl t \<Rightarrow> Some t | Inr _ \<Rightarrow> None)\<rparr>"

definition sample_count :: "(nat, string + nat) decoration" where
  "sample_count = \<lparr>deco_key = DecorationKey ''count'', deco_erase = Inr,
     deco_downcast = (\<lambda>x. case x of Inl _ \<Rightarrow> None | Inr t \<Rightarrow> Some t)\<rparr>"

definition sample_map :: "(string + nat) decoration_map" where
  "sample_map = map_insert sample_text 7 ''b'' (snd (map_lookup (map_insert sample_count 7 4
     (map_insert sample_text 9 ''c'' (map_insert sample_text 7 ''a'' map_new)))))"

lemma sample_map_reachable: "map_reachable sample_map"
  by (simp add: sample_map_def map_reachable_rules)

lemma sample_map_on:
  "map_on sample_map 7 = [Entry_new sample_text 7 ''a'', Entry_new sample_count 7 4, Entry_new sample_text 7 ''b'']"
  "map_on sample_map 9 = [Entry_new sample_text 9 ''c'']"
  using map_reachable_invar [OF sample_map_reachable]
  by (simp_all add: map_on_entries entries_on_def sample_map_def map_insert_def map_new_def
      map_lookup_def Let_def Entry_new_def)

lemmas sample_simps = map_get_fst map_get_all_fst sample_map_on List.map_filter_def entry_read_def
  Entry_new_def sample_text_def sample_count_def

lemma sample_map_reads:
  "fst (map_get_all sample_text 7 sample_map) = [''a'', ''b'']"
  "fst (map_get sample_text 7 sample_map) = Some ''a''"
  "fst (map_get sample_text 9 sample_map) = Some ''c''"
  by (simp_all add: sample_simps)

theorem map_get_is_scan_witness:
  "fst (map_get sample_text 7 sample_map) = Some ''a'' \<and>
   fst (map_get_all sample_text 7 sample_map) = [''a'', ''b'']"
  using map_get_is_scan [OF sample_map_reachable, of sample_text 7]
  by (simp add: sample_map_def map_insert_def map_new_def map_lookup_def Let_def Entry_new_def
      sample_text_def sample_count_def entry_read_def List.map_filter_def)

text \<open>
  What a provider records is what a rule reads back. After an insert of a value of type \<open>T\<close> on a
  node, reading every \<open>T\<close> of that node gives what it gave before and the new value last; reading one
  \<open>T\<close> gives the new value only when the node had no entry under the key before; other nodes read as
  before.
\<close>

theorem map_insert_read_back:
  assumes "stable_downcast T" and "map_reachable m"
  shows "fst (map_get_all T n (map_insert T n v m)) = fst (map_get_all T n m) @ [v] \<and>
         fst (map_get T n (map_insert T n v m)) =
           (if \<exists>e \<in> set (map_on m n). entry_key e = deco_key T then fst (map_get T n m) else Some v) \<and>
         (\<forall>k U. k \<noteq> n \<longrightarrow>
            fst (map_get U k (map_insert T n v m)) = (fst (map_get U k m) :: 'u option) \<and>
            fst (map_get_all U k (map_insert T n v m)) = (fst (map_get_all U k m) :: 'u list))"
proof -
  note inv = map_reachable_invar [OF assms(2)]
  have read: "entry_read T (Entry_new T n v) = Some v"
    using assms(1) by (simp add: entry_read_def Entry_new_def stable_downcast_def)
  have key: "entry_key (Entry_new T n v) = deco_key T"
    by (simp add: Entry_new_def)
  show ?thesis
    using read key
    by (simp add: map_get_fst map_get_all_fst map_on_entries inv find_append_if List.map_filter_def)
qed

theorem map_insert_read_back_witness:
  "fst (map_get_all sample_text 7 (map_insert sample_text 7 ''z'' sample_map)) = [''a'', ''b'', ''z''] \<and>
   fst (map_get sample_text 7 (map_insert sample_text 7 ''z'' sample_map)) = Some ''a''"
proof -
  have st: "stable_downcast sample_text"
    by (simp add: stable_downcast_def sample_text_def)
  have "\<exists>e \<in> set (map_on sample_map 7). entry_key e = deco_key sample_text"
    by (simp add: sample_simps)
  then show ?thesis
    using map_insert_read_back [where ?'u = nat, OF st sample_map_reachable, of 7 "''z''"]
    by (simp add: sample_map_reads)
qed

text \<open>
  Merging keeps what is there first. A lookup in a map merged with another gives the first map's
  answer whenever the first map holds an entry of that key on the node, and the other's answer
  otherwise; reading all of them gives both lists, the first map's before the other's.
\<close>

theorem map_merge_first_wins:
  assumes "map_reachable m" and "map_reachable other"
  shows "fst (map_get T n (map_merge m other)) =
           (if \<exists>e \<in> set (map_on m n). entry_key e = deco_key T
            then fst (map_get T n m) else fst (map_get T n other)) \<and>
         fst (map_get_all T n (map_merge m other)) =
           fst (map_get_all T n m) @ fst (map_get_all T n other)"
  using map_reachable_invar [OF assms(1)] map_reachable_invar [OF assms(2)]
  by (simp add: map_get_fst map_get_all_fst dm.on_merge find_append_if List.map_filter_def)

theorem map_merge_first_wins_witness:
  "fst (map_get sample_count 9 (map_merge sample_map (map_insert sample_count 9 5 map_new))) = Some 5 \<and>
   fst (map_get sample_text 9 (map_merge sample_map (map_insert sample_text 9 ''q'' map_new))) = Some ''c''"
proof -
  note r = sample_map_reachable reach_insert [OF reach_new]
  have "\<not> (\<exists>e \<in> set (map_on sample_map 9). entry_key e = deco_key sample_count)"
    and "\<exists>e \<in> set (map_on sample_map 9). entry_key e = deco_key sample_text"
    and "fst (map_get sample_count 9 (map_insert sample_count 9 5 map_new)) = Some 5"
    by (simp_all add: sample_simps map_on_entries)
  then show ?thesis
    using map_merge_first_wins [OF r(1) r(2), of sample_count 9 sample_count 9 5]
      map_merge_first_wins [OF r(1) r(2), of sample_text 9 sample_text 9 "''q''"]
    by (simp add: sample_map_reads)
qed

end
