(* ===== verification/Syntax.thy ===== *)
theory Syntax
  imports Decorations
begin

text \<open>
  The decorated tree and node of \<open>crates/stiles-types/src\<close> (\<open>decorated_tree.rs\<close>,
  \<open>decorated_node.rs\<close>). A tree-sitter node is data that the parser hands over: a finite ordered
  tree whose nodes carry an id, a kind, a byte range, whether they are named and the field they
  stand in. Its documented accessors read that tree. The parser itself is third-party code and an
  argument of the pipeline.
\<close>

section \<open>Tree-sitter nodes\<close>

text \<open>The byte range is kept as start and length, since a node never ends before it starts.\<close>

datatype ts_node = TsNode
  (ts_id: nat) (ts_kind: string) (ts_start: nat) (ts_len: nat) (ts_named: bool)
  (ts_field: "string option") (ts_children: "ts_node list")

definition ts_end :: "ts_node \<Rightarrow> nat" where
  "ts_end t = ts_start t + ts_len t"

definition ts_named_children :: "ts_node \<Rightarrow> ts_node list" where
  "ts_named_children t = filter ts_named (ts_children t)"

definition nth_opt :: "'a list \<Rightarrow> nat \<Rightarrow> 'a option" where
  "nth_opt xs i = (if i < length xs then Some (xs ! i) else None)"

section \<open>Decorated nodes and trees\<close>

record 'e decorated_node =
  dn_node :: ts_node
  dn_source :: string
  dn_file :: file_path
  dn_decorations :: "'e decoration_lookup"

definition dn_sibling :: "'e decorated_node \<Rightarrow> ts_node \<Rightarrow> 'e decorated_node" where
  "dn_sibling n t = n\<lparr>dn_node := t\<rparr>"

definition dn_kind :: "'e decorated_node \<Rightarrow> string" where
  "dn_kind n = ts_kind (dn_node n)"

definition dn_id :: "'e decorated_node \<Rightarrow> nat" where
  "dn_id n = ts_id (dn_node n)"

definition dn_is_named :: "'e decorated_node \<Rightarrow> bool" where
  "dn_is_named n = ts_named (dn_node n)"

text \<open>Indexing the source by the byte range panics (\<open>None\<close>) off a character boundary.\<close>

definition dn_text :: "'e decorated_node \<Rightarrow> string option" where
  "dn_text n = str_slice (dn_source n) (ts_start (dn_node n)) (ts_end (dn_node n))"

definition dn_span :: "'e decorated_node \<Rightarrow> span" where
  "dn_span n = \<lparr>span_file = dn_file n, span_start = ts_start (dn_node n), span_end = ts_end (dn_node n)\<rparr>"

text \<open>The assertion of \<open>Span::new\<close> holds for every node.\<close>

lemma dn_span_new: "Span_new (dn_file n) (ts_start (dn_node n)) (ts_end (dn_node n)) = Some (dn_span n)"
  by (simp add: Span_new_def dn_span_def ts_end_def)

definition dn_named_child_count :: "'e decorated_node \<Rightarrow> nat" where
  "dn_named_child_count n = length (ts_named_children (dn_node n))"

definition dn_named_child :: "'e decorated_node \<Rightarrow> nat \<Rightarrow> 'e decorated_node option" where
  "dn_named_child n i = map_option (dn_sibling n) (nth_opt (ts_named_children (dn_node n)) i)"

definition dn_child_count :: "'e decorated_node \<Rightarrow> nat" where
  "dn_child_count n = length (ts_children (dn_node n))"

definition dn_child :: "'e decorated_node \<Rightarrow> nat \<Rightarrow> 'e decorated_node option" where
  "dn_child n i = map_option (dn_sibling n) (nth_opt (ts_children (dn_node n)) i)"

definition dn_child_by_field_name :: "'e decorated_node \<Rightarrow> string \<Rightarrow> 'e decorated_node option" where
  "dn_child_by_field_name n name =
     map_option (dn_sibling n) (find (\<lambda>c. ts_field c = Some name) (ts_children (dn_node n)))"

text \<open>The count is cast to \<open>u32\<close>, which wraps.\<close>

definition dn_named_children :: "'e decorated_node \<Rightarrow> 'e decorated_node list" where
  "dn_named_children n =
     List.map_filter (dn_named_child n) [0..<dn_named_child_count n mod 2 ^ 32]"

definition dn_decoration :: "('v, 'e) decoration \<Rightarrow> 'e decorated_node \<Rightarrow> 'v option" where
  "dn_decoration T n = lookup_first T (dn_decorations n) (dn_id n)"

definition dn_decorations_of_type :: "('v, 'e) decoration \<Rightarrow> 'e decorated_node \<Rightarrow> 'v list" where
  "dn_decorations_of_type T n = lookup_get_all T (dn_decorations n) (dn_id n)"

record 'e decorated_tree =
  dt_tree :: ts_node
  dt_language :: language
  dt_source :: string
  dt_file :: file_path
  dt_decorations :: "'e decoration_map"

definition DecoratedTree_new :: "ts_node \<Rightarrow> language \<Rightarrow> string \<Rightarrow> path \<Rightarrow> 'e decorated_tree" where
  "DecoratedTree_new t lang src file =
     \<lparr>dt_tree = t, dt_language = lang, dt_source = src, dt_file = FilePath_from file,
      dt_decorations = map_new\<rparr>"

definition dt_merge_decorations :: "'e decoration_map \<Rightarrow> 'e decorated_tree \<Rightarrow> 'e decorated_tree" where
  "dt_merge_decorations m t = t\<lparr>dt_decorations := map_merge (dt_decorations t) m\<rparr>"

definition dt_root_node :: "'e decorated_tree \<Rightarrow> 'e decorated_node" where
  "dt_root_node t =
     \<lparr>dn_node = dt_tree t, dn_source = dt_source t, dn_file = dt_file t,
      dn_decorations = fst (map_lookup (dt_decorations t))\<rparr>"

section \<open>Children\<close>

lemma map_filter_nth_opt:
  "List.map_filter (nth_opt xs) [0..<k] = take k xs"
proof (induction k)
  case 0
  then show ?case by (simp add: List.map_filter_def)
next
  case (Suc k)
  then show ?case
    by (simp add: List.map_filter_def nth_opt_def take_Suc_conv_app_nth)
qed

lemma dn_named_children_eq:
  "dn_named_children n =
     map (dn_sibling n) (take (dn_named_child_count n mod 2 ^ 32) (ts_named_children (dn_node n)))"
proof -
  have "List.map_filter (\<lambda>i. map_option f (g i)) is = map f (List.map_filter g is)"
    for f :: "ts_node \<Rightarrow> 'a decorated_node" and g :: "nat \<Rightarrow> ts_node option" and "is"
    by (induction "is") (auto simp: List.map_filter_def)
  then show ?thesis
    by (simp add: dn_named_children_def dn_named_child_def [abs_def] map_filter_nth_opt)
qed

lemma dn_sibling_sel [simp]:
  "dn_node (dn_sibling n t) = t"
  "dn_source (dn_sibling n t) = dn_source n"
  "dn_file (dn_sibling n t) = dn_file n"
  "dn_decorations (dn_sibling n t) = dn_decorations n"
  by (simp_all add: dn_sibling_def)

text \<open>A node with fewer than \<open>2 ^ 32\<close> named children, all the way down, hands out all of them.\<close>

fun ts_small :: "ts_node \<Rightarrow> bool" where
  "ts_small (TsNode i k s l nm f cs) = (length cs < 2 ^ 32 \<and> list_all ts_small cs)"

lemma ts_small_children: "ts_small t \<Longrightarrow> c \<in> set (ts_children t) \<Longrightarrow> ts_small c"
  by (cases t) (auto simp: list_all_iff)

lemma ts_small_length: "ts_small t \<Longrightarrow> length (ts_children t) < 2 ^ 32"
  by (cases t) auto

lemma dn_named_children_all:
  assumes "ts_small (dn_node n)"
  shows "dn_named_children n = map (dn_sibling n) (ts_named_children (dn_node n))"
proof -
  have "length (ts_named_children (dn_node n)) \<le> length (ts_children (dn_node n))"
    by (simp add: ts_named_children_def)
  also have "\<dots> < 2 ^ 32" using assms by (rule ts_small_length)
  finally show ?thesis
    by (simp add: dn_named_children_eq dn_named_child_count_def)
qed

lemma size_list_take: "size_list f (take k xs) \<le> size_list f xs"
  by (induction xs arbitrary: k) (auto simp: take_Cons split: nat.splits)

lemma size_list_filter: "size_list f (filter P xs) \<le> size_list f xs"
  by (induction xs) auto

lemma size_ts_children: "size_list size (ts_children t) < size t"
  by (cases t) simp

text \<open>What the walk recurses over is smaller than the node.\<close>

lemma dn_named_children_size:
  "size_list (\<lambda>c. size (dn_node c)) (dn_named_children n) < size (dn_node n)"
proof -
  have "size_list (\<lambda>c. size (dn_node c)) (dn_named_children n) =
      size_list size (take (dn_named_child_count n mod 2 ^ 32) (ts_named_children (dn_node n)))"
    by (simp add: dn_named_children_eq size_list_conv_sum_list o_def)
  also have "\<dots> \<le> size_list size (ts_children (dn_node n))"
    unfolding ts_named_children_def by (rule order_trans [OF size_list_take size_list_filter])
  also have "\<dots> < size (dn_node n)"
    by (rule size_ts_children)
  finally show ?thesis .
qed

lemma dn_named_child_size:
  "c \<in> set (dn_named_children n) \<Longrightarrow> size (dn_node c) < size (dn_node n)"
  using size_list_estimation' [of c "dn_named_children n" "size (dn_node c)" "\<lambda>c. size (dn_node c)"]
    dn_named_children_size [of n] by simp

end
