(* ===== verification/Walker.thy ===== *)
theory Walker
  imports Syntax RuleOptions "HOL-Library.Multiset"
begin

text \<open>
  Lint passes and the tree walk: \<open>crates/stiles-types/src/lint_pass.rs\<close> and
  \<open>crates/stiles-core/src\<close> (\<open>lint.rs\<close>, \<open>tree_walker.rs\<close> and their errors). A pass is plugin code:
  a state and three functions on it, which are fields of the record \<open>lint_pass\<close>; its state type
  is a type variable.
\<close>

section \<open>Passes and lints\<close>

record ('s, 'e) lint_pass =
  pass_state :: 's
  pass_language :: "'s \<Rightarrow> language"
  pass_configure :: "'s \<Rightarrow> rule_options \<Rightarrow> (unit, panic) result \<times> 's"
  pass_check_node :: "'s \<Rightarrow> 'e decorated_node \<Rightarrow> (diagnostic list, panic) result \<times> 's"

datatype Declared = Rules "rule_id list" | Unchecked

record ('s, 'e) lint =
  lint_pass :: "('s, 'e) lint_pass"
  lint_declared :: Declared

definition Lint_new :: "('s, 'e) lint_pass \<Rightarrow> rule_id list \<Rightarrow> ('s, 'e) lint" where
  "Lint_new pass rules = \<lparr>lint_pass = pass, lint_declared = Rules rules\<rparr>"

definition Lint_unchecked :: "('s, 'e) lint_pass \<Rightarrow> ('s, 'e) lint" where
  "Lint_unchecked pass = \<lparr>lint_pass = pass, lint_declared = Unchecked\<rparr>"

definition lint_language :: "('s, 'e) lint \<Rightarrow> language" where
  "lint_language l = pass_language (lint_pass l) (pass_state (lint_pass l))"

definition lint_rules :: "('s, 'e) lint \<Rightarrow> rule_id list" where
  "lint_rules l = (case lint_declared l of Rules rules \<Rightarrow> rules | Unchecked \<Rightarrow> [])"

section \<open>Errors of the walk\<close>

record pass_panic =
  panic_kind :: string
  panic_span :: span
  panic_panic :: panic

definition pass_panic_display :: "pass_panic \<Rightarrow> string" where
  "pass_panic_display p =
     ''a lint pass panicked while checking a '' @ panic_kind p @ '' at byte ''
     @ decimal (span_start (panic_span p)) @ '' of '' @ display (as_path (span_file (panic_span p)))
     @ '': '' @ panic_message (panic_panic p)"

record undeclared_rule =
  undeclared_id :: rule_id
  undeclared_declared :: "rule_id list"
  undeclared_span :: span

definition undeclared_display :: "undeclared_rule \<Rightarrow> string" where
  "undeclared_display u =
     ''a lint pass reported `'' @ rule_name (undeclared_id u) @ ''` at byte ''
     @ decimal (span_start (undeclared_span u)) @ '' of ''
     @ display (as_path (span_file (undeclared_span u))) @ '', but its plugin ''
     @ (if undeclared_declared u = [] then ''declares no rules for it''
        else ''declares only ''
             @ join '', '' (map (\<lambda>r. ''`'' @ rule_name r @ ''`'') (undeclared_declared u))
             @ '' for it'')"

datatype walk_lints_error = Panicked pass_panic | Undeclared undeclared_rule

section \<open>One node, one lint\<close>

definition lint_check_node ::
  "('s, 'e) lint \<Rightarrow> 'e decorated_node \<Rightarrow> (diagnostic list, walk_lints_error) result \<times> ('s, 'e) lint"
  where
  "lint_check_node l node =
     (let (checked, s') = pass_check_node (lint_pass l) (pass_state (lint_pass l)) node;
          l' = l\<lparr>lint_pass := (lint_pass l)\<lparr>pass_state := s'\<rparr>\<rparr>
      in (case checked of
            Inl p \<Rightarrow>
              Err (Panicked \<lparr>panic_kind = dn_kind node, panic_span = dn_span node, panic_panic = p\<rparr>)
          | Inr found \<Rightarrow>
              (case lint_declared l of
                 Unchecked \<Rightarrow> Ok found
               | Rules rules \<Rightarrow>
                   (case find (\<lambda>d. diag_rule_id d \<notin> set rules) found of
                      Some stray \<Rightarrow>
                        Err (Undeclared \<lparr>undeclared_id = diag_rule_id stray,
                          undeclared_declared = rules, undeclared_span = dn_span node\<rparr>)
                    | None \<Rightarrow> Ok found)),
          l'))"

text \<open>The loop over the lints at one node; an error leaves the later lints untouched.\<close>

fun check_lints ::
  "'e decorated_node \<Rightarrow> ('s, 'e) lint list \<Rightarrow> diagnostic list \<Rightarrow>
   (diagnostic list, walk_lints_error) result \<times> ('s, 'e) lint list" where
  "check_lints node [] diagnostics = (Ok diagnostics, [])"
| "check_lints node (l # ls) diagnostics =
     (case lint_check_node l node of
        (Inl e, l') \<Rightarrow> (Err e, l' # ls)
      | (Inr found, l') \<Rightarrow>
          (case check_lints node ls (diagnostics @ found) of (r, ls') \<Rightarrow> (r, l' # ls')))"

section \<open>The walk\<close>

lemma visit_measure:
  "Suc (2 * size_list (\<lambda>c. size (dn_node c)) (dn_named_children n)) < 2 * size (dn_node n)"
  using dn_named_children_size [of n] by linarith

text \<open>\<open>visit_node\<close> and the loop over the children, which is \<open>visit_nodes\<close>.\<close>

function visit_node ::
    "'e decorated_node \<Rightarrow> ('s, 'e) lint list \<Rightarrow> diagnostic list \<Rightarrow>
     (diagnostic list, walk_lints_error) result \<times> ('s, 'e) lint list"
  and visit_nodes ::
    "'e decorated_node list \<Rightarrow> ('s, 'e) lint list \<Rightarrow> diagnostic list \<Rightarrow>
     (diagnostic list, walk_lints_error) result \<times> ('s, 'e) lint list" where
  "visit_node node lints diagnostics =
     (case (if dn_is_named node then check_lints node lints diagnostics else (Ok diagnostics, lints)) of
        (Inl e, lints') \<Rightarrow> (Err e, lints')
      | (Inr ds, lints') \<Rightarrow> visit_nodes (dn_named_children node) lints' ds)"
| "visit_nodes [] lints diagnostics = (Ok diagnostics, lints)"
| "visit_nodes (c # cs) lints diagnostics =
     (case visit_node c lints diagnostics of
        (Inl e, lints') \<Rightarrow> (Err e, lints')
      | (Inr ds, lints') \<Rightarrow> visit_nodes cs lints' ds)"
  by pat_completeness auto
termination
  by (relation "measure (\<lambda>x. case x of Inl (n, _, _) \<Rightarrow> 2 * size (dn_node n)
        | Inr (ns, _, _) \<Rightarrow> 2 * size_list (\<lambda>c. size (dn_node c)) ns + 1)")
    (auto simp: visit_measure)

declare visit_node.simps [simp del]

text \<open>
  \<open>walk_lints\<close> borrows the lints of the tree's language out of the caller's slice and walks with
  them; \<open>put_back\<close> is the slice after the borrow ends.
\<close>

fun put_back :: "('a \<Rightarrow> bool) \<Rightarrow> 'a list \<Rightarrow> 'a list \<Rightarrow> 'a list" where
  "put_back P [] ys = []"
| "put_back P (x # xs) ys =
     (if P x then (case ys of y # ys' \<Rightarrow> y # put_back P xs ys' | [] \<Rightarrow> x # put_back P xs [])
      else x # put_back P xs ys)"

definition walk_lints ::
  "'e decorated_tree \<Rightarrow> ('s, 'e) lint list \<Rightarrow>
   (diagnostic list, walk_lints_error) result \<times> ('s, 'e) lint list" where
  "walk_lints tree lints =
     (let matching = (\<lambda>l. lint_language l = dt_language tree);
          (r, walked) = visit_node (dt_root_node tree) (filter matching lints) []
      in (r, put_back matching lints walked))"

text \<open>\<open>walk\<close> lends each pass to an unchecked lint.\<close>

definition walk ::
  "'e decorated_tree \<Rightarrow> ('s, 'e) lint_pass list \<Rightarrow>
   (diagnostic list, walk_lints_error) result \<times> ('s, 'e) lint_pass list" where
  "walk tree passes =
     (let (r, lints) = walk_lints tree (map Lint_unchecked passes)
      in (r, map lint_pass lints))"

section \<open>The walk is a run over the named nodes in document order\<close>

text \<open>The nodes the walk visits, in pre-order.\<close>

function named_nodes :: "'e decorated_node \<Rightarrow> 'e decorated_node list" where
  "named_nodes node =
     (if dn_is_named node then [node] else []) @ concat (map named_nodes (dn_named_children node))"
  by pat_completeness auto
termination
  by (relation "measure (\<lambda>n. size (dn_node n))") (auto dest: dn_named_child_size)

declare named_nodes.simps [simp del]

fun run_nodes ::
  "'e decorated_node list \<Rightarrow> ('s, 'e) lint list \<Rightarrow> diagnostic list \<Rightarrow>
   (diagnostic list, walk_lints_error) result \<times> ('s, 'e) lint list" where
  "run_nodes [] lints ds = (Ok ds, lints)"
| "run_nodes (n # ns) lints ds =
     (case check_lints n lints ds of
        (Inl e, lints') \<Rightarrow> (Err e, lints')
      | (Inr ds', lints') \<Rightarrow> run_nodes ns lints' ds')"

lemma run_nodes_append [walk_simps]:
  "run_nodes (xs @ ys) lints ds =
     (case run_nodes xs lints ds of
        (Inl e, lints') \<Rightarrow> (Err e, lints')
      | (Inr ds', lints') \<Rightarrow> run_nodes ys lints' ds')"
  by (induction xs arbitrary: lints ds) (auto split: prod.splits sum.splits)

lemma visit_run:
  "visit_node node lints ds = run_nodes (named_nodes node) lints ds"
  "visit_nodes nodes lints ds = run_nodes (concat (map named_nodes nodes)) lints ds"
proof (induction node lints ds and nodes lints ds rule: visit_node_visit_nodes.induct)
  case (1 node lints ds)
  then show ?case
    by (subst visit_node.simps, subst named_nodes.simps)
      (auto simp: run_nodes_append split: prod.splits sum.splits)
next
  case (3 c cs lints ds)
  then show ?case
    by (auto simp: run_nodes_append split: prod.splits sum.splits)
qed simp

section \<open>Document order\<close>

function ts_preorder :: "ts_node \<Rightarrow> ts_node list" where
  "ts_preorder t = (if ts_named t then [t] else []) @ concat (map ts_preorder (ts_named_children t))"
  by pat_completeness auto
termination
proof (relation "measure size", goal_cases)
  case (2 t c)
  then have "size c \<le> size_list size (ts_children t)"
    by (auto simp: ts_named_children_def intro: size_list_estimation')
  with size_ts_children [of t] show ?case by simp
qed simp

declare ts_preorder.simps [simp del]

lemma named_nodes_preorder:
  "ts_small (dn_node n) \<Longrightarrow> named_nodes n = map (dn_sibling n) (ts_preorder (dn_node n))"
proof (induction n rule: named_nodes.induct)
  case (1 n)
  have sib: "dn_sibling (dn_sibling n a) b = dn_sibling n b" "dn_sibling n (dn_node n) = n" for a b
    by (simp_all add: dn_sibling_def)
  have "named_nodes (dn_sibling n c) = map (dn_sibling n) (ts_preorder c)"
    if "c \<in> set (ts_named_children (dn_node n))" for c
  proof -
    from that "1.prems" have "ts_small c"
      by (auto simp: ts_named_children_def intro: ts_small_children)
    with that "1.prems" "1.IH" [of "dn_sibling n c"] show ?thesis
      by (simp add: dn_named_children_all sib cong: map_cong)
  qed
  then show ?case
    by (subst named_nodes.simps, subst ts_preorder.simps)
      (simp add: dn_named_children_all "1.prems" dn_is_named_def sib map_concat o_def cong: map_cong)
qed

section \<open>What one check changes\<close>

definition lint_step :: "('s, 'e) lint \<Rightarrow> 'e decorated_node \<Rightarrow> ('s, 'e) lint" where
  "lint_step l n = snd (lint_check_node l n)"

definition lint_found :: "('s, 'e) lint \<Rightarrow> 'e decorated_node \<Rightarrow> diagnostic list" where
  "lint_found l n = (case fst (lint_check_node l n) of Inl _ \<Rightarrow> [] | Inr found \<Rightarrow> found)"

lemma lint_check_node_frame [walk_simps]:
  "lint_declared (snd (lint_check_node l n)) = lint_declared l"
  by (simp add: lint_check_node_def Let_def case_prod_unfold)

lemma lint_check_node_eq:
  "lint_check_node l n = (case fst (lint_check_node l n) of Inl e \<Rightarrow> Err e | Inr _ \<Rightarrow> Ok (lint_found l n), lint_step l n)"
  by (cases "lint_check_node l n") (auto simp: lint_step_def lint_found_def split: sum.splits)

definition lint_allows :: "('s, 'e) lint \<Rightarrow> diagnostic \<Rightarrow> bool" where
  "lint_allows l d = (lint_declared l = Unchecked \<or> diag_rule_id d \<in> set (lint_rules l))"

lemma lint_check_node_allows:
  assumes "fst (lint_check_node l n) = Ok found" and "d \<in> set found"
  shows "lint_allows l d"
  using assms
  by (auto simp: lint_check_node_def lint_allows_def lint_rules_def Let_def case_prod_unfold
      find_None_iff split: sum.splits Declared.splits option.splits)

text \<open>What an error says: which node, and that the rule really is undeclared.\<close>

definition error_about :: "walk_lints_error \<Rightarrow> 'e decorated_node \<Rightarrow> ('s, 'e) lint \<Rightarrow> bool" where
  "error_about e n l =
     (case e of
        Panicked p \<Rightarrow> panic_span p = dn_span n \<and> panic_kind p = dn_kind n
      | Undeclared u \<Rightarrow> undeclared_span u = dn_span n \<and> lint_declared l = Rules (undeclared_declared u) \<and>
          undeclared_id u \<notin> set (undeclared_declared u))"

lemma lint_check_node_error:
  "fst (lint_check_node l n) = Err e \<Longrightarrow> error_about e n l"
  by (auto simp: lint_check_node_def error_about_def Let_def case_prod_unfold find_Some_iff
      split: sum.splits Declared.splits option.splits)

section \<open>What a run changes\<close>

fun lint_report :: "('s, 'e) lint \<Rightarrow> 'e decorated_node list \<Rightarrow> diagnostic list" where
  "lint_report l [] = []"
| "lint_report l (n # ns) = lint_found l n @ lint_report (lint_step l n) ns"

fun lint_after :: "('s, 'e) lint \<Rightarrow> 'e decorated_node list \<Rightarrow> ('s, 'e) lint" where
  "lint_after l [] = l"
| "lint_after l (n # ns) = lint_after (lint_step l n) ns"

lemma lint_declared_after [walk_simps]: "lint_declared (lint_after l ns) = lint_declared l"
  by (induction ns arbitrary: l) (auto simp: lint_step_def walk_simps)

lemma check_lints_Ok:
  "check_lints n ls acc = (Ok ds, ls') \<longleftrightarrow>
     (\<forall>l \<in> set ls. is_ok (fst (lint_check_node l n))) \<and>
     ds = acc @ concat (map (\<lambda>l. lint_found l n) ls) \<and> ls' = map (\<lambda>l. lint_step l n) ls"
proof (induction ls arbitrary: acc ls')
  case Nil
  then show ?case by auto
next
  case (Cons l ls)
  obtain r l' where l: "lint_check_node l n = (r, l')" by fastforce
  show ?case
  proof (cases r)
    case (Inl e)
    with l show ?thesis by simp
  next
    case (Inr f)
    obtain r2 k where k: "check_lints n ls (acc @ f) = (r2, k)" by fastforce
    from Cons.IH [of "acc @ f" k] Cons.IH [of "acc @ f" "map (\<lambda>l. lint_step l n) ls"] k l Inr
    show ?thesis by (auto simp: lint_found_def lint_step_def)
  qed
qed

lemma check_lints_Err:
  "check_lints n ls acc = (Err e, ls') \<Longrightarrow> \<exists>l \<in> set ls. fst (lint_check_node l n) = Err e"
proof (induction ls arbitrary: acc ls')
  case (Cons l ls)
  then show ?case
    by (auto split: prod.splits sum.splits)
qed simp

lemma check_lints_declared: "check_lints n ls acc = (r, ls') \<Longrightarrow>
    map lint_declared ls' = map lint_declared ls"
  by (induction ls arbitrary: acc r ls')
    (auto split: prod.splits sum.splits dest: arg_cong [where f = "\<lambda>x. lint_declared (snd x)"]
      simp: lint_check_node_frame)

lemma run_nodes_declared: "run_nodes ns ls acc = (r, ls') \<Longrightarrow>
    map lint_declared ls' = map lint_declared ls"
  by (induction ns arbitrary: ls acc)
    (auto split: prod.splits sum.splits dest!: check_lints_declared)

lemma check_lints_prefix:
  "check_lints n ls acc = (Ok ds, ls') \<Longrightarrow> check_lints n ls (xs @ acc) = (Ok (xs @ ds), ls')"
  by (simp add: check_lints_Ok)

lemma run_nodes_prefix:
  "run_nodes ns ls [] = (Ok ds, ls') \<Longrightarrow> run_nodes ns ls xs = (Ok (xs @ ds), ls')"
proof -
  have "run_nodes ns ls acc = (Ok ds, ls') \<Longrightarrow> run_nodes ns ls (xs @ acc) = (Ok (xs @ ds), ls')" for acc
    by (induction ns arbitrary: ls acc)
      (auto split: prod.splits sum.splits dest: check_lints_prefix [where xs = xs])
  from this [of "[]"] show "run_nodes ns ls [] = (Ok ds, ls') \<Longrightarrow> ?thesis" by simp
qed

lemma run_nodes_Ok:
  assumes "run_nodes ns ls acc = (Ok ds, ls')"
  shows "ls' = map (\<lambda>l. lint_after l ns) ls \<and>
         mset ds = mset acc + (\<Sum>l\<leftarrow>ls. mset (lint_report l ns)) \<and>
         (\<forall>l \<in> set ls. run_nodes ns [l] [] = (Ok (lint_report l ns), [lint_after l ns]))"
  using assms
proof (induction ns arbitrary: ls acc)
  case Nil
  then show ?case by (auto simp: sum_list_0)
next
  case (Cons n ns)
  then obtain ds1 ls1 where c: "check_lints n ls acc = (Ok ds1, ls1)"
    and r: "run_nodes ns ls1 ds1 = (Ok ds, ls')"
    by (auto split: prod.splits sum.splits)
  note c' = c [unfolded check_lints_Ok]
  from Cons.IH [OF r] c' have
    after: "ls' = map (\<lambda>l. lint_after l (n # ns)) ls" and
    ds: "mset ds = mset ds1 + (\<Sum>l\<leftarrow>ls. mset (lint_report (lint_step l n) ns))" and
    alone: "\<forall>l \<in> set ls. run_nodes ns [lint_step l n] [] =
      (Ok (lint_report (lint_step l n) ns), [lint_after (lint_step l n) ns])"
    by (auto simp: o_def)
  have "run_nodes (n # ns) [l] [] = (Ok (lint_report l (n # ns)), [lint_after l (n # ns)])"
    if "l \<in> set ls" for l
  proof -
    from that c' have "check_lints n [l] [] = (Ok (lint_found l n), [lint_step l n])"
      by (subst check_lints_Ok) simp
    with alone that show ?thesis by (simp add: run_nodes_prefix)
  qed
  moreover have "mset ds = mset acc + (\<Sum>l\<leftarrow>ls. mset (lint_report l (n # ns)))"
    using c' by (simp add: ds mset_concat o_def sum_list_addf)
  ultimately show ?case using after by blast
qed

lemma put_back_map:
  "put_back P xs (map f (filter P xs)) = map (\<lambda>x. if P x then f x else x) xs"
  by (induction xs) auto

lemma put_back_frame:
  "length ys = length (filter P xs) \<Longrightarrow>
   length (put_back P xs ys) = length xs \<and>
   (\<forall>i < length xs. \<not> P (xs ! i) \<longrightarrow> put_back P xs ys ! i = xs ! i)"
proof (induction xs arbitrary: ys)
  case (Cons x xs)
  show ?case
  proof (cases "P x")
    case True
    with Cons.prems obtain y ys' where "ys = y # ys'" "length ys' = length (filter P xs)"
      by (cases ys) auto
    with True Cons.IH [of ys'] show ?thesis by (auto simp: nth_Cons split: nat.splits)
  next
    case False
    with Cons show ?thesis by (auto simp: nth_Cons split: nat.splits)
  qed
qed simp

lemma in_sum_list_mset: "x \<in># (\<Sum>l\<leftarrow>ls. f l) \<longleftrightarrow> (\<exists>l \<in> set ls. x \<in># f l)"
  by (induction ls) auto

lemma run_nodes_length: "length (snd (run_nodes ns ls acc)) = length ls"
  using run_nodes_declared [of ns ls acc] by (metis length_map prod.collapse)

lemma run_nodes_Err:
  fixes ls :: "('s, 'e) lint list"
  assumes "run_nodes ns ls acc = (Err e, ls')"
  shows "\<exists>n \<in> set ns. \<exists>l :: ('s, 'e) lint. lint_declared l \<in> lint_declared ` set ls \<and> error_about e n l"
  using assms
proof (induction ns arbitrary: ls acc)
  case (Cons n ns)
  show ?case
  proof (cases "check_lints n ls acc")
    case (Pair r ls1)
    show ?thesis
    proof (cases r)
      case (Inl e1)
      with Cons.prems Pair obtain l where "l \<in> set ls" "fst (lint_check_node l n) = Err e"
        using check_lints_Err [of n ls acc e] by auto
      then show ?thesis
        by (intro bexI [of _ n] exI [of _ l]) (auto intro: lint_check_node_error)
    next
      case (Inr ds1)
      with Cons.prems Pair have "run_nodes ns ls1 ds1 = (Err e, ls')" by simp
      from Cons.IH [OF this] check_lints_declared [OF Pair] show ?thesis
        by (metis list.set_intros(2) list.set_map)
    qed
  qed
qed simp

lemma lint_report_allows:
  assumes "run_nodes ns [l] [] = (Ok (lint_report l ns), ls')" and "d \<in> set (lint_report l ns)"
  shows "lint_allows l d"
  using assms(2)
proof (induction ns arbitrary: l)
  case (Cons n ns)
  have allows: "lint_allows (lint_step l n) d = lint_allows l d"
    by (simp add: lint_allows_def lint_rules_def lint_step_def lint_check_node_frame)
  from Cons consider "d \<in> set (lint_found l n)" | "d \<in> set (lint_report (lint_step l n) ns)"
    by auto
  then show ?case
  proof cases
    case 1
    then show ?thesis
      by (cases "fst (lint_check_node l n)") (auto simp: lint_found_def intro: lint_check_node_allows)
  next
    case 2
    with Cons.IH allows show ?thesis by simp
  qed
qed simp

text \<open>
  What a pass reports on its own, node by node, its state going from one node to the next: nothing
  here knows of other passes, of rules or of languages.
\<close>

fun pass_reports :: "('s, 'e) lint_pass \<Rightarrow> 'e decorated_node list \<Rightarrow> diagnostic list list" where
  "pass_reports p [] = []"
| "pass_reports p (n # ns) =
     (case pass_check_node p (pass_state p) n of
        (Inl _, s) \<Rightarrow> []
      | (Inr found, s) \<Rightarrow> found # pass_reports (p\<lparr>pass_state := s\<rparr>) ns)"

lemma pass_reports_step:
  assumes "is_ok (fst (lint_check_node l n))"
  shows "pass_reports (lint_pass l) (n # ns) = lint_found l n # pass_reports (lint_pass (lint_step l n)) ns"
  using assms
  by (auto simp: lint_check_node_def lint_found_def lint_step_def Let_def case_prod_unfold
      split: sum.splits Declared.splits option.splits)

lemma lint_step_allows: "lint_allows (lint_step l n) d = lint_allows l d"
  by (simp add: lint_allows_def lint_rules_def lint_step_def lint_check_node_frame)

text \<open>A run that succeeds is every pass on its own, interleaved node by node, in the order of the lints.\<close>

lemma run_nodes_reports:
  assumes "run_nodes ns ls acc = (Ok ds, ls')"
  shows "(\<forall>l \<in> set ls. length (pass_reports (lint_pass l) ns) = length ns \<and>
            (\<forall>d \<in> set (concat (pass_reports (lint_pass l) ns)). lint_allows l d)) \<and>
         ds = acc @ concat (map (\<lambda>i. concat (map (\<lambda>l. pass_reports (lint_pass l) ns ! i) ls)) [0..<length ns])"
  using assms
proof (induction ns arbitrary: ls acc)
  case (Cons n ns)
  then obtain ds1 ls1 where c: "check_lints n ls acc = (Ok ds1, ls1)"
    and r: "run_nodes ns ls1 ds1 = (Ok ds, ls')" by (auto split: prod.splits sum.splits)
  note c' = c [unfolded check_lints_Ok]
  have step: "pass_reports (lint_pass l) (n # ns) = lint_found l n # pass_reports (lint_pass (lint_step l n)) ns"
    if "l \<in> set ls" for l using that c' pass_reports_step by blast
  have found: "\<forall>d \<in> set (lint_found l n). lint_allows l d" if "l \<in> set ls" for l
    by (cases "fst (lint_check_node l n)") (auto simp: lint_found_def intro: lint_check_node_allows)
  note ih = Cons.IH [OF r]
  have "length (pass_reports (lint_pass l) (n # ns)) = length (n # ns) \<and>
      (\<forall>d \<in> set (concat (pass_reports (lint_pass l) (n # ns))). lint_allows l d)" if "l \<in> set ls" for l
    using ih c' found [OF that] that by (auto simp: step [OF that] lint_step_allows simp del: pass_reports.simps)
  moreover have first: "map (\<lambda>l. pass_reports (lint_pass l) (n # ns) ! 0) ls = map (\<lambda>l. lint_found l n) ls"
    and rest: "map (\<lambda>l. pass_reports (lint_pass l) (n # ns) ! Suc i) ls = map (\<lambda>l. pass_reports (lint_pass l) ns ! i) ls1" for i
    using c' by (simp_all add: step comp_def del: pass_reports.simps)
  have "concat (map (\<lambda>i. concat (map (\<lambda>l. pass_reports (lint_pass l) (n # ns) ! i) ls)) [0..<Suc (length ns)])
      = concat (map (\<lambda>l. lint_found l n) ls)
        @ concat (map (\<lambda>i. concat (map (\<lambda>l. pass_reports (lint_pass l) ns ! i) ls1)) [0..<length ns])"
    unfolding map_upt_Suc first rest by simp
  then have "ds = acc @ concat (map (\<lambda>i. concat (map (\<lambda>l. pass_reports (lint_pass l) (n # ns) ! i) ls)) [0..<length (n # ns)])"
    using conjunct2 [OF ih] conjunct1 [OF conjunct2 [OF c']] by (simp only: list.size append_assoc add_0_right add_Suc_right)
  ultimately show ?case by blast
qed simp

section \<open>Properties of the walk\<close>

text \<open>A tree and two passes for the witnesses: one pass per language, counting what it sees.\<close>

definition sample_tree :: "unit decorated_tree" where
  "sample_tree = DecoratedTree_new
     (TsNode 1 ''source_file'' 0 9 True None
       [TsNode 2 ''fn'' 0 4 True None [TsNode 3 ''name'' 1 2 True None []],
        TsNode 4 '';'' 4 1 False None [], TsNode 5 ''fn'' 5 4 True None []])
     Rust ''abcd;efgh'' ''src/lib.rs''"

definition sample_diag :: "'e decorated_node \<Rightarrow> diagnostic" where
  "sample_diag n = Diagnostic_new (RuleId ''r'') Warn (dn_kind n) (dn_span n)"

definition sample_pass :: "language \<Rightarrow> (nat, unit) lint_pass" where
  "sample_pass lang = \<lparr>pass_state = 0, pass_language = (\<lambda>_. lang),
     pass_configure = (\<lambda>s _. (Ok (), s)),
     pass_check_node = (\<lambda>s n. (Ok (if dn_kind n = ''fn'' then [sample_diag n] else []), Suc s))\<rparr>"

definition sample_lints :: "(nat, unit) lint list" where
  "sample_lints = [Lint_new (sample_pass Rust) [RuleId ''r''],
     Lint_new (sample_pass TypeScript) [RuleId ''r'']]"

lemma ts_preorder_sample:
  "map ts_id (ts_preorder (dt_tree sample_tree)) = [1, 2, 3, 5]"
  by (simp add: sample_tree_def DecoratedTree_new_def ts_preorder.simps ts_named_children_def)

lemma sample_walk_ok:
  "\<exists>ds. walk_lints sample_tree sample_lints = (Ok ds, snd (walk_lints sample_tree sample_lints)) \<and> ds \<noteq> []"
proof -
  have small: "ts_small (dn_node (dt_root_node sample_tree))"
    by (simp add: sample_tree_def DecoratedTree_new_def dt_root_node_def)
  have "\<exists>ds. fst (walk_lints sample_tree sample_lints) = Ok ds \<and> ds \<noteq> []"
    unfolding walk_lints_def Let_def visit_run named_nodes_preorder [OF small]
    by (simp add: sample_lints_def
        lint_language_def Lint_new_def sample_pass_def sample_tree_def dt_root_node_def
        DecoratedTree_new_def ts_preorder.simps ts_named_children_def lint_check_node_def dn_kind_def
        sample_diag_def Diagnostic_new_def)
  then show ?thesis by (metis prod.collapse)
qed

text \<open>
  C7: The recursive walk is a single left-to-right run over the named nodes in document order: on a
  tree whose nodes have fewer than 2^32 children, the visited nodes are exactly the pre-order of the
  named nodes, each wrapped with the tree's own source, file and decorations; every lint of the
  tree's language is offered each of them, and no other lint is.
\<close>

theorem walk_lints_document_order:
  assumes "ts_small (dt_tree tree)"
  shows "walk_lints tree lints =
    (let matching = (\<lambda>l. lint_language l = dt_language tree);
         nodes = map (dn_sibling (dt_root_node tree)) (ts_preorder (dt_tree tree));
         (r, walked) = run_nodes nodes (filter matching lints) []
     in (r, put_back matching lints walked))"
proof -
  have "dn_node (dt_root_node tree) = dt_tree tree"
    by (simp add: dt_root_node_def)
  then show ?thesis
    using assms by (simp add: walk_lints_def visit_run named_nodes_preorder)
qed

theorem walk_lints_document_order_witness:
  "fst (walk_lints sample_tree sample_lints) =
     Ok (map (\<lambda>t. sample_diag (dn_sibling (dt_root_node sample_tree) t))
          (filter (\<lambda>t. ts_kind t = ''fn'') (ts_preorder (dt_tree sample_tree))))"
proof -
  have "ts_small (dt_tree sample_tree)"
    by (simp add: sample_tree_def DecoratedTree_new_def)
  then show ?thesis
    unfolding walk_lints_document_order [OF \<open>ts_small (dt_tree sample_tree)\<close>] Let_def
    by (simp add: sample_lints_def lint_language_def Lint_new_def sample_pass_def sample_tree_def
        DecoratedTree_new_def ts_preorder.simps ts_named_children_def lint_check_node_def dn_kind_def
        sample_diag_def Diagnostic_new_def)
qed

text \<open>
  Lints do not influence one another. When the walk succeeds, every lint of the tree's language
  ends in the state, and contributed the diagnostics, of a walk with that lint alone; the
  diagnostics are together exactly those; and the lints of other languages are left as they were.
\<close>

theorem walk_lints_isolated:
  assumes "walk_lints tree lints = (Ok ds, lints')"
  defines "nodes \<equiv> named_nodes (dt_root_node tree)"
  shows "lints' = map (\<lambda>l. if lint_language l = dt_language tree then lint_after l nodes else l) lints \<and>
         mset ds = (\<Sum>l\<leftarrow>filter (\<lambda>l. lint_language l = dt_language tree) lints. mset (lint_report l nodes)) \<and>
         (\<forall>l \<in> set lints. lint_language l = dt_language tree \<longrightarrow>
            walk_lints tree [l] = (Ok (lint_report l nodes), [lint_after l nodes]))"
proof -
  define P where "P = (\<lambda>l :: ('a, 'b) lint. lint_language l = dt_language tree)"
  from assms(1) obtain walked where
    run: "run_nodes nodes (filter P lints) [] = (Ok ds, walked)" and
    lints': "lints' = put_back P lints walked"
    by (auto simp: walk_lints_def visit_run P_def nodes_def Let_def split: prod.splits)
  from run_nodes_Ok [OF run] have
    w: "walked = map (\<lambda>l. lint_after l nodes) (filter P lints)" and
    m: "mset ds = (\<Sum>l\<leftarrow>filter P lints. mset (lint_report l nodes))" and
    a: "\<forall>l \<in> set (filter P lints). run_nodes nodes [l] [] = (Ok (lint_report l nodes), [lint_after l nodes])"
    by simp_all
  have "walk_lints tree [l] = (Ok (lint_report l nodes), [lint_after l nodes])"
    if "l \<in> set lints" "P l" for l
    using a that by (auto simp: walk_lints_def visit_run nodes_def [symmetric] P_def)
  with m show ?thesis
    by (simp add: lints' w put_back_map) (simp add: P_def)
qed

theorem walk_lints_isolated_witness:
  "length (snd (walk_lints sample_tree sample_lints)) = 2 \<and>
   walk_lints sample_tree [hd sample_lints] =
     (Ok (lint_report (hd sample_lints) (named_nodes (dt_root_node sample_tree))),
      [lint_after (hd sample_lints) (named_nodes (dt_root_node sample_tree))])"
proof -
  from sample_walk_ok obtain ds where
    "walk_lints sample_tree sample_lints = (Ok ds, snd (walk_lints sample_tree sample_lints))" by blast
  from walk_lints_isolated [OF this] show ?thesis
    by (simp add: sample_lints_def lint_language_def Lint_new_def sample_pass_def sample_tree_def
        DecoratedTree_new_def)
qed

lemma walk_lints_allows:
  assumes "walk_lints tree lints = (Ok ds, lints')" and "d \<in> set ds"
  shows "\<exists>l \<in> set lints. lint_language l = dt_language tree \<and> lint_allows l d"
proof -
  define P where "P = (\<lambda>l :: ('a, 'b) lint. lint_language l = dt_language tree)"
  define nodes where "nodes = named_nodes (dt_root_node tree)"
  from assms(1) obtain walked where "run_nodes nodes (filter P lints) [] = (Ok ds, walked)"
    by (auto simp: walk_lints_def visit_run P_def nodes_def Let_def split: prod.splits)
  note ok = run_nodes_Ok [OF this]
  from ok assms(2) have "d \<in># (\<Sum>l\<leftarrow>filter P lints. mset (lint_report l nodes))"
    by (metis add_0 mset.simps(1) set_mset_mset)
  then obtain l where l: "l \<in> set lints" "P l" "d \<in> set (lint_report l nodes)"
    by (auto simp: in_sum_list_mset)
  with ok have "lint_allows l d"
    by (intro lint_report_allows) auto
  with l show ?thesis by (auto simp: P_def)
qed

text \<open>
  C8: Every diagnostic the walk returns is one that a lint of the tree's language reported at a
  node, and its rule is one that this lint declared, unless nothing declared its rules. The result
  is exactly what each of these passes reports on its own over the named nodes, node by node and,
  at a node, in the order of the lints: nothing is lost, doubled, or lent to another lint.
\<close>

theorem walk_lints_declared_only:
  assumes "walk_lints tree lints = (Ok ds, lints')"
  shows "let matching = filter (\<lambda>l. lint_language l = dt_language tree) lints;
             nodes = named_nodes (dt_root_node tree);
             reports = (\<lambda>l. pass_reports (lint_pass l) nodes)
         in ds = concat (map (\<lambda>i. concat (map (\<lambda>l. reports l ! i) matching)) [0..<length nodes]) \<and>
            (\<forall>l \<in> set matching. length (reports l) = length nodes \<and>
               (\<forall>d \<in> set (concat (reports l)). lint_declared l = Unchecked \<or> diag_rule_id d \<in> set (lint_rules l)))"
proof -
  from assms obtain walked where
    "run_nodes (named_nodes (dt_root_node tree)) (filter (\<lambda>l. lint_language l = dt_language tree) lints) [] = (Ok ds, walked)"
    by (auto simp: walk_lints_def visit_run Let_def split: prod.splits)
  from run_nodes_reports [OF this] show ?thesis by (simp add: Let_def lint_allows_def)
qed

theorem walk_lints_declared_only_witness:
  "(let (r, _) = walk_lints sample_tree sample_lints
    in \<exists>ds. r = Ok ds \<and> ds \<noteq> [] \<and> (\<forall>d \<in> set ds. diag_rule_id d = RuleId ''r''))"
proof -
  let ?nodes = "named_nodes (dt_root_node sample_tree)" and ?pass = "sample_pass Rust"
  from sample_walk_ok obtain ds where
    ds: "walk_lints sample_tree sample_lints = (Ok ds, snd (walk_lints sample_tree sample_lints))"
      "ds \<noteq> []" by blast
  have only: "filter (\<lambda>l. lint_language l = dt_language sample_tree) sample_lints = [Lint_new ?pass [RuleId ''r'']]"
    by (simp add: sample_lints_def lint_language_def Lint_new_def sample_pass_def sample_tree_def DecoratedTree_new_def)
  from walk_lints_declared_only [OF ds(1)]
  have "ds = concat (map (\<lambda>i. pass_reports ?pass ?nodes ! i) [0..<length ?nodes])"
    and "length (pass_reports ?pass ?nodes) = length ?nodes"
    and "\<forall>d \<in> set (concat (pass_reports ?pass ?nodes)). diag_rule_id d = RuleId ''r''"
    unfolding Let_def only by (simp_all add: Lint_new_def lint_rules_def)
  then have "\<forall>d \<in> set ds. diag_rule_id d = RuleId ''r''" by auto
  with ds(2) show ?thesis by (subst ds(1)) auto
qed

text \<open>
  When the walk fails, the error points at a named node of the tree that a lint was checking:
  a panic carries that node's kind and span; an undeclared rule carries that node's span, the
  complete list some lint of the tree's language declared, and a rule that is not on it. The lints
  of other languages are untouched even then.
\<close>

theorem walk_lints_error_located:
  fixes lints :: "('s, 'e) lint list"
  assumes "walk_lints tree lints = (Err e, lints')"
  shows "(\<exists>n \<in> set (named_nodes (dt_root_node tree)). \<exists>l :: ('s, 'e) lint.
            lint_declared l \<in> lint_declared ` {l \<in> set lints. lint_language l = dt_language tree} \<and>
            error_about e n l) \<and>
         length lints' = length lints \<and>
         (\<forall>i < length lints. lint_language (lints ! i) \<noteq> dt_language tree \<longrightarrow> lints' ! i = lints ! i)"
proof -
  define P where "P = (\<lambda>l :: ('s, 'e) lint. lint_language l = dt_language tree)"
  from assms obtain walked where
    run: "run_nodes (named_nodes (dt_root_node tree)) (filter P lints) [] = (Err e, walked)" and
    lints': "lints' = put_back P lints walked"
    by (auto simp: walk_lints_def visit_run P_def Let_def split: prod.splits)
  have "length walked = length (filter P lints)"
    using run run_nodes_length [of "named_nodes (dt_root_node tree)" "filter P lints" "[]"] by simp
  from put_back_frame [OF this] run_nodes_Err [OF run] show ?thesis
    by (simp add: lints' P_def)
qed

definition panicking_lint :: "(nat, unit) lint" where
  "panicking_lint = Lint_new ((sample_pass Rust)\<lparr>pass_check_node :=
     (\<lambda>s n. (if dn_kind n = ''name'' then Err (Panic ''boom'') else Ok [], s))\<rparr>) [RuleId ''r'']"

theorem walk_lints_error_located_witness:
  "\<exists>p. fst (walk_lints sample_tree [panicking_lint]) = Err (Panicked p) \<and>
       panic_kind p = ''name'' \<and>
       panic_span p \<in> dn_span ` set (named_nodes (dt_root_node sample_tree))"
proof -
  have small: "ts_small (dn_node (dt_root_node sample_tree))"
    by (simp add: sample_tree_def DecoratedTree_new_def dt_root_node_def)
  have "\<exists>p. fst (walk_lints sample_tree [panicking_lint]) = Err (Panicked p) \<and> panic_kind p = ''name''"
    unfolding walk_lints_def Let_def visit_run named_nodes_preorder [OF small]
    by (simp add: panicking_lint_def lint_language_def Lint_new_def sample_pass_def sample_tree_def
        dt_root_node_def DecoratedTree_new_def ts_preorder.simps ts_named_children_def
        lint_check_node_def dn_kind_def)
  then obtain p ls where p: "walk_lints sample_tree [panicking_lint] = (Err (Panicked p), ls)"
    "panic_kind p = ''name''" by (metis prod.collapse)
  from walk_lints_error_located [OF p(1)] p show ?thesis
    by (auto simp: error_about_def)
qed

end
