(* ===== verification/LintLoading.thy ===== *)
theory LintLoading
  imports Abi Walker "HOL-Library.Product_Lexorder"
begin

text \<open>
  Loading the project's lints: \<open>crates/stiles/src/custom_lints.rs\<close>, with the artifact search of
  \<open>custom_lints/artifact.rs\<close> and the cache layout of \<open>custom_lints/cache.rs\<close>. Cargo, the dynamic
  loader, the file system and the plugins are arguments; a plugin's factory is the pass it
  constructs or the panic it hands back.
\<close>

section \<open>Loaded lints\<close>

datatype load_error =
    LoadBail string
  | PassPanicked panic
  | SharedRule rule_id language path path
  | Handshake handshake_mismatch

record ('s, 'e) loaded_lint =
  loaded_factory :: "(('s, 'e) lint_pass, panic) result"
  loaded_language :: language
  loaded_rules :: "rule_id list"
  loaded_library :: path

type_synonym ('s, 'e) custom_lints = "('s, 'e) loaded_lint list"

text \<open>The closure of \<open>instantiate\<close>: construct, configure with the lint's own options, wrap.\<close>

definition instantiate_lint ::
  "rule_options \<Rightarrow> ('s, 'e) loaded_lint \<Rightarrow> (('s, 'e) lint, load_error anyhow) result" where
  "instantiate_lint options lint =
     result_bind
       (with_context ''a lint pass panicked while it was constructed''
         (map_err (\<lambda>p. Cause (PassPanicked p)) (loaded_factory lint)))
       (\<lambda>pass.
          let (configured, s') =
                pass_configure pass (pass_state pass) (options_for_rules options (loaded_rules lint))
          in result_bind
               (with_context ''a lint pass panicked while reading the project's options''
                 (map_err (\<lambda>p. Cause (PassPanicked p)) configured))
               (\<lambda>_. Ok (Lint_new (pass\<lparr>pass_state := s'\<rparr>) (loaded_rules lint))))"

definition instantiate ::
  "('s, 'e) custom_lints \<Rightarrow> rule_options \<Rightarrow> (('s, 'e) lint list, load_error anyhow) result" where
  "instantiate lints options = collect_results (map (instantiate_lint options) lints)"

definition declared :: "('s, 'e) custom_lints \<Rightarrow> string list" where
  "declared lints = btree_set (map rule_name (concat (map loaded_rules lints)))"

record declared_rule =
  dr_rule :: rule_id
  dr_languages :: "language list"

text \<open>One step of the inner loop of \<open>rules\<close>.\<close>

fun add_rule :: "language \<Rightarrow> rule_id \<Rightarrow> declared_rule list \<Rightarrow> declared_rule list" where
  "add_rule lang rule [] = [\<lparr>dr_rule = rule, dr_languages = [lang]\<rparr>]"
| "add_rule lang rule (k # ks) =
     (if dr_rule k = rule then k\<lparr>dr_languages := dr_languages k @ [lang]\<rparr> # ks
      else k # add_rule lang rule ks)"

definition declared_rules_of :: "('s, 'e) custom_lints \<Rightarrow> declared_rule list" where
  "declared_rules_of lints =
     sort_key (\<lambda>d. rule_name (dr_rule d))
       (fold (\<lambda>lint. fold (add_rule (loaded_language lint)) (loaded_rules lint)) lints [])"

text \<open>The two nested loops of \<open>refuse_shared_rules\<close>.\<close>

fun shared_with :: "('s, 'e) loaded_lint \<Rightarrow> ('s, 'e) loaded_lint list \<Rightarrow> load_error anyhow option" where
  "shared_with lint [] = None"
| "shared_with lint (other # others) =
     (if loaded_language lint \<noteq> loaded_language other then shared_with lint others
      else case find (\<lambda>r. r \<in> set (loaded_rules other)) (loaded_rules lint) of
             None \<Rightarrow> shared_with lint others
           | Some shared \<Rightarrow>
               Some (Cause (SharedRule shared (loaded_language lint) (loaded_library lint)
                       (loaded_library other))))"

fun refuse_shared_rules :: "('s, 'e) custom_lints \<Rightarrow> (unit, load_error anyhow) result" where
  "refuse_shared_rules [] = Ok ()"
| "refuse_shared_rules (lint # lints) =
     (case shared_with lint lints of Some e \<Rightarrow> Err e | None \<Rightarrow> refuse_shared_rules lints)"

section \<open>One library\<close>

text \<open>What a plugin exports, and what it lists once it is asked.\<close>

record ('s, 'e) exported_lint =
  exported_factory :: "(('s, 'e) lint_pass, panic) result"
  exported_language :: language
  exported_rules :: "rule_id list"

record ('s, 'e) plugin_declaration =
  decl_identity :: abi_identity
  decl_load :: "(('s, 'e) exported_lint list, panic) result"

definition load_library ::
  "(path \<Rightarrow> (('s, 'e) plugin_declaration, load_error anyhow) result) \<Rightarrow> path \<Rightarrow> abi_identity \<Rightarrow>
   (('s, 'e) loaded_lint list, load_error anyhow) result" where
  "load_library open_library library host =
     result_bind (open_library library) (\<lambda>decl.
       let plugin = decl_identity decl in
       if \<not> abi_accepts (id_abi_version host) (id_abi_version plugin)
       then Err (Cause (Handshake (AbiVersionMismatch (id_abi_version plugin) (id_abi_version host))))
       else result_bind
         (with_context ''failed the handshake with the plugin''
           (map_err (\<lambda>m. Cause (Handshake m)) (validate_handshake host plugin)))
         (\<lambda>_. result_bind
            (with_context ''the plugin panicked while listing what it exports''
              (map_err (\<lambda>p. Cause (PassPanicked p)) (decl_load decl)))
            (\<lambda>exported.
               let lints = map (\<lambda>x. \<lparr>loaded_factory = exported_factory x,
                                  loaded_language = exported_language x,
                                  loaded_rules = exported_rules x, loaded_library = library\<rparr>) exported
               in if lints = []
                  then Err (Cause (LoadBail ''the plugin exported no lints; a plugin that does nothing looks exactly like one that works, so this is treated as a mistake''))
                  else if \<not> list_all (\<lambda>l. loaded_rules l \<noteq> []) lints
                  then Err (Cause (LoadBail ''the plugin exported a lint that declares no rules; stiles refuses every diagnostic such a lint reports, so give it a `DeclaresRules` implementation that names them''))
                  else Ok lints)))"

definition load_libraries ::
  "(path \<Rightarrow> (('s, 'e) plugin_declaration, load_error anyhow) result) \<Rightarrow> path list \<Rightarrow> abi_identity \<Rightarrow>
   (('s, 'e) loaded_lint list, load_error anyhow) result" where
  "load_libraries open_library libraries host =
     result_bind (collect_results (map (\<lambda>l.
         with_context (''failed to load '' @ display l) (load_library open_library l host)) libraries))
       (\<lambda>loaded. Ok (concat loaded))"

section \<open>Properties of loaded lints\<close>

lemma find_shared_None:
  "find (\<lambda>r. r \<in> set ys) xs = None \<longleftrightarrow> set xs \<inter> set ys = {}"
  by (auto simp: find_None_iff)

lemma shared_with_None:
  "shared_with lint others = None \<longleftrightarrow>
     (\<forall>o' \<in> set others. loaded_language lint = loaded_language o' \<longrightarrow>
        set (loaded_rules lint) \<inter> set (loaded_rules o') = {})"
proof (induction others)
  case (Cons o' os)
  show ?case
    using Cons.IH find_shared_None [of "loaded_rules o'" "loaded_rules lint"]
    by (cases "find (\<lambda>r. r \<in> set (loaded_rules o')) (loaded_rules lint)") simp_all
qed simp

lemma refuse_shared_rules_Ok:
  "refuse_shared_rules lints = Ok () \<longleftrightarrow>
     sorted_wrt (\<lambda>x y. loaded_language x = loaded_language y \<longrightarrow>
       set (loaded_rules x) \<inter> set (loaded_rules y) = {}) lints"
proof (induction lints)
  case (Cons x xs)
  then show ?case
    using shared_with_None [of x xs] by (cases "shared_with x xs") simp_all
qed simp

text \<open>
  C10: Loading succeeds only on lints whose rules are unambiguous: the check passes exactly when no
  two lints of one language, from whichever plugins, declare a common rule; a refusal names a rule
  that two lints of that language really share, and their libraries.
\<close>

theorem refuse_shared_rules_spec:
  "(refuse_shared_rules lints = Ok () \<longleftrightarrow>
      (\<forall>i < length lints. \<forall>j < length lints. i < j \<and>
         loaded_language (lints ! i) = loaded_language (lints ! j) \<longrightarrow>
         set (loaded_rules (lints ! i)) \<inter> set (loaded_rules (lints ! j)) = {})) \<and>
   (\<forall>rule lang a b. refuse_shared_rules lints = Err (Cause (SharedRule rule lang a b)) \<longrightarrow>
      (\<exists>i j. i < j \<and> j < length lints \<and> rule \<in> set (loaded_rules (lints ! i)) \<inter> set (loaded_rules (lints ! j)) \<and>
         loaded_language (lints ! i) = lang \<and> loaded_language (lints ! j) = lang \<and>
         loaded_library (lints ! i) = a \<and> loaded_library (lints ! j) = b))"
proof -
  have sh: "shared_with lint others = Some (Cause (SharedRule rule lang a b)) \<Longrightarrow>
      \<exists>j < length others. rule \<in> set (loaded_rules lint) \<inter> set (loaded_rules (others ! j)) \<and>
        loaded_language lint = lang \<and> loaded_language (others ! j) = lang \<and>
        loaded_library lint = a \<and> loaded_library (others ! j) = b" for lint rule lang a b
      and others :: "('a, 'b) custom_lints"
    by (induction others)
      (force simp: find_Some_iff nth_Cons split: if_splits option.splits nat.splits)+
  have err: "refuse_shared_rules lints = Err (Cause (SharedRule rule lang a b)) \<Longrightarrow>
      \<exists>i j. i < j \<and> j < length lints \<and> rule \<in> set (loaded_rules (lints ! i)) \<inter> set (loaded_rules (lints ! j)) \<and>
         loaded_language (lints ! i) = lang \<and> loaded_language (lints ! j) = lang \<and>
         loaded_library (lints ! i) = a \<and> loaded_library (lints ! j) = b"
    for rule lang a b and lints :: "('a, 'b) custom_lints"
  proof (induction lints)
    case (Cons x xs)
    show ?case
    proof (cases "shared_with x xs")
      case None
      with Cons obtain i j where "i < j" "j < length xs"
        "rule \<in> set (loaded_rules (xs ! i)) \<inter> set (loaded_rules (xs ! j))"
        "loaded_language (xs ! i) = lang" "loaded_language (xs ! j) = lang"
        "loaded_library (xs ! i) = a" "loaded_library (xs ! j) = b" by auto
      then show ?thesis by (intro exI [of _ "Suc i"] exI [of _ "Suc j"]) auto
    next
      case (Some e)
      with Cons.prems sh [of x xs rule lang a b] obtain j where "j < length xs"
        "rule \<in> set (loaded_rules x) \<inter> set (loaded_rules (xs ! j))" "loaded_language x = lang"
        "loaded_language (xs ! j) = lang" "loaded_library x = a" "loaded_library (xs ! j) = b" by auto
      then show ?thesis by (intro exI [of _ 0] exI [of _ "Suc j"]) auto
    qed
  qed simp
  have "refuse_shared_rules lints = Ok () \<longleftrightarrow>
      (\<forall>i < length lints. \<forall>j < length lints. i < j \<and>
         loaded_language (lints ! i) = loaded_language (lints ! j) \<longrightarrow>
         set (loaded_rules (lints ! i)) \<inter> set (loaded_rules (lints ! j)) = {})"
    unfolding refuse_shared_rules_Ok sorted_wrt_iff_nth_less by (meson order.strict_trans)
  then show ?thesis using err by (intro conjI allI impI) blast+
qed


definition sample_loaded :: "language \<Rightarrow> string list \<Rightarrow> path \<Rightarrow> (unit, unit) loaded_lint" where
  "sample_loaded lang rules library =
     \<lparr>loaded_factory = Err (Panic ''none''), loaded_language = lang, loaded_rules = map RuleId rules,
      loaded_library = library\<rparr>"

theorem refuse_shared_rules_spec_witness:
  "refuse_shared_rules [sample_loaded Rust [''r''] ''a'', sample_loaded TypeScript [''r''] ''b''] = Ok () \<and>
   refuse_shared_rules [sample_loaded Rust [''r''] ''a'', sample_loaded Rust [''s'', ''r''] ''b''] \<noteq> Ok ()"
proof -
  let ?bad = "[sample_loaded Rust [''r''] ''a'', sample_loaded Rust [''s'', ''r''] ''b'']"
  have "refuse_shared_rules [sample_loaded Rust [''r''] ''a'', sample_loaded TypeScript [''r''] ''b''] = Ok ()"
    by (rule refuse_shared_rules_spec [THEN conjunct1, THEN iffD2])
      (auto simp: sample_loaded_def less_Suc_eq)
  moreover have "refuse_shared_rules ?bad \<noteq> Ok ()"
  proof
    assume "refuse_shared_rules ?bad = Ok ()"
    with refuse_shared_rules_spec [of ?bad] have
      "\<forall>i < length ?bad. \<forall>j < length ?bad. i < j \<and>
         loaded_language (?bad ! i) = loaded_language (?bad ! j) \<longrightarrow>
         set (loaded_rules (?bad ! i)) \<inter> set (loaded_rules (?bad ! j)) = {}" by blast
    from this [rule_format, of 0 1] show False by (simp add: sample_loaded_def)
  qed
  ultimately show ?thesis ..
qed

section \<open>Options reach the rules they name\<close>

lemma options_for_rules_skip:
  "option_rule e \<notin> rule_name ` set rules \<Longrightarrow>
     options_for_rules (RuleOptions (xs @ e # ys)) rules = options_for_rules (RuleOptions (xs @ ys)) rules"
  by (auto simp: options_for_rules_def image_iff)

lemma instantiate_lint_skip:
  "option_rule e \<notin> rule_name ` set (loaded_rules lint) \<Longrightarrow>
     instantiate_lint (RuleOptions (xs @ e # ys)) lint = instantiate_lint (RuleOptions (xs @ ys)) lint"
  by (simp add: instantiate_lint_def options_for_rules_skip)

lemma instantiate_Ok:
  "instantiate lints options = Ok ls \<longleftrightarrow>
     length ls = length lints \<and> (\<forall>i < length lints. instantiate_lint options (lints ! i) = Ok (ls ! i))"
  by (auto simp: instantiate_def collect_results_Ok list_eq_iff_nth_eq)

lemma instantiate_lint_rules:
  "instantiate_lint options lint = Ok l \<Longrightarrow> lint_rules l = loaded_rules lint"
  by (auto simp: instantiate_lint_def result_bind_eq_Ok Lint_new_def lint_rules_def case_prod_unfold Let_def)

text \<open>
  C11: An entry of the options table reaches only the lints that declare its rule. Instantiation
  gives one lint per loaded lint, in order, held to exactly the rules it declared; adding an entry
  for a rule that a lint does not declare leaves that lint as it was, and when no lint declares the
  rule, the whole outcome, errors included, is unchanged.
\<close>

theorem instantiate_options_isolated:
  "(instantiate lints (RuleOptions (xs @ e # ys)) = Ok ls \<and>
    instantiate lints (RuleOptions (xs @ ys)) = Ok ls' \<longrightarrow>
      map lint_rules ls = map loaded_rules lints \<and>
      (\<forall>i < length lints. option_rule e \<notin> rule_name ` set (loaded_rules (lints ! i)) \<longrightarrow> ls ! i = ls' ! i)) \<and>
   (option_rule e \<notin> set (declared lints) \<longrightarrow>
      instantiate lints (RuleOptions (xs @ e # ys)) = instantiate lints (RuleOptions (xs @ ys)))"
proof (intro conjI impI)
  assume "instantiate lints (RuleOptions (xs @ e # ys)) = Ok ls \<and>
    instantiate lints (RuleOptions (xs @ ys)) = Ok ls'"
  then have len: "length ls = length lints"
    and new: "\<And>i. i < length lints \<Longrightarrow> instantiate_lint (RuleOptions (xs @ e # ys)) (lints ! i) = Ok (ls ! i)"
    and old: "\<And>i. i < length lints \<Longrightarrow> instantiate_lint (RuleOptions (xs @ ys)) (lints ! i) = Ok (ls' ! i)"
    by (auto simp: instantiate_Ok)
  show "map lint_rules ls = map loaded_rules lints"
    by (rule nth_equalityI) (auto simp: len instantiate_lint_rules [OF new])
  show "\<forall>i < length lints. option_rule e \<notin> rule_name ` set (loaded_rules (lints ! i)) \<longrightarrow> ls ! i = ls' ! i"
    using new old instantiate_lint_skip by (metis Inr_inject)
next
  assume "option_rule e \<notin> set (declared lints)"
  then have "\<forall>lint \<in> set lints. option_rule e \<notin> rule_name ` set (loaded_rules lint)"
    by (auto simp: declared_def)
  then show "instantiate lints (RuleOptions (xs @ e # ys)) = instantiate lints (RuleOptions (xs @ ys))"
    unfolding instantiate_def by (metis (mono_tags, lifting) instantiate_lint_skip map_eq_conv)
qed

text \<open>A pass that keeps the options it was configured with.\<close>

definition recording_pass :: "(rule_options, unit) lint_pass" where
  "recording_pass = \<lparr>pass_state = RuleOptions [], pass_language = (\<lambda>_. Rust),
     pass_configure = (\<lambda>_ os. (Ok (), os)), pass_check_node = (\<lambda>s _. (Ok [], s))\<rparr>"

definition recording_lint :: "string \<Rightarrow> (rule_options, unit) loaded_lint" where
  "recording_lint rule = \<lparr>loaded_factory = Ok recording_pass, loaded_language = Rust,
     loaded_rules = [RuleId rule], loaded_library = ''lib.so''\<rparr>"

theorem instantiate_options_isolated_witness:
  "instantiate [recording_lint ''a'', recording_lint ''b'']
     (RuleOptions [\<lparr>option_rule = ''a'', option_name = ''n'', option_values = [''v'']\<rparr>])
   \<noteq> instantiate [recording_lint ''a'', recording_lint ''b''] (RuleOptions []) \<and>
   instantiate [recording_lint ''b'']
     (RuleOptions [\<lparr>option_rule = ''a'', option_name = ''n'', option_values = [''v'']\<rparr>])
   = instantiate [recording_lint ''b''] (RuleOptions [])"
proof -
  let ?e = "\<lparr>option_rule = ''a'', option_name = ''n'', option_values = [''v'']\<rparr>"
  have "instantiate [recording_lint ''b''] (RuleOptions ([] @ ?e # [])) =
      instantiate [recording_lint ''b''] (RuleOptions ([] @ []))"
    by (rule instantiate_options_isolated [THEN conjunct2, THEN mp])
      (simp add: declared_def recording_lint_def)
  moreover have "instantiate [recording_lint ''a'', recording_lint ''b''] (RuleOptions [?e]) \<noteq>
      instantiate [recording_lint ''a'', recording_lint ''b''] (RuleOptions [])"
    by (simp add: instantiate_def instantiate_lint_def recording_lint_def recording_pass_def
        options_for_rules_def Lint_new_def)
  ultimately show ?thesis by simp
qed


section \<open>The listing of declared rules\<close>

definition languages_in :: "declared_rule list \<Rightarrow> rule_id \<Rightarrow> language list" where
  "languages_in ds r = concat (map dr_languages (filter (\<lambda>d. dr_rule d = r) ds))"

lemma filter_notin_image: "y \<notin> f ` set xs \<Longrightarrow> filter (\<lambda>x. f x = y) xs = []"
  by (auto simp: filter_empty_conv)

lemma add_rule_rules:
  "map dr_rule (add_rule lang rule ds) =
     (if rule \<in> dr_rule ` set ds then map dr_rule ds else map dr_rule ds @ [rule])"
  by (induction ds) auto

lemma add_rule_distinct:
  "distinct (map dr_rule ds) \<Longrightarrow> distinct (map dr_rule (add_rule lang rule ds))"
  by (simp add: add_rule_rules)

lemma add_rule_languages:
  "distinct (map dr_rule ds) \<Longrightarrow>
     languages_in (add_rule lang rule ds) r = languages_in ds r @ (if r = rule then [lang] else [])"
proof (induction ds)
  case (Cons d ds)
  have "filter (\<lambda>x. dr_rule x = dr_rule d) ds = []" using Cons.prems by (simp add: filter_notin_image)
  with Cons show ?case by (auto simp: languages_in_def)
qed (simp add: languages_in_def)

lemma fold_add_rule:
  assumes "distinct (map dr_rule ds)"
  shows "distinct (map dr_rule (fold (add_rule lang) rules ds)) \<and>
    dr_rule ` set (fold (add_rule lang) rules ds) = dr_rule ` set ds \<union> set rules \<and>
    languages_in (fold (add_rule lang) rules ds) r =
      languages_in ds r @ replicate (count_list rules r) lang"
  using assms
proof (induction rules arbitrary: ds)
  case (Cons rule rules)
  have "dr_rule ` set (add_rule lang rule ds) = insert rule (dr_rule ` set ds)"
    using arg_cong [OF add_rule_rules [of lang rule ds], of set] by auto
  then show ?case
    using Cons.IH [OF add_rule_distinct [OF Cons.prems], of lang rule]
      add_rule_languages [OF Cons.prems, of lang rule r] by (auto simp: replicate_append_same)
qed simp

definition declaration_order :: "('s, 'e) custom_lints \<Rightarrow> rule_id \<Rightarrow> language list" where
  "declaration_order lints r =
     concat (map (\<lambda>lint. replicate (count_list (loaded_rules lint) r) (loaded_language lint)) lints)"

lemma fold_lints_add_rule:
  assumes "distinct (map dr_rule ds)"
  shows "let out = fold (\<lambda>lint. fold (add_rule (loaded_language lint)) (loaded_rules lint)) lints ds
    in distinct (map dr_rule out) \<and>
       dr_rule ` set out = dr_rule ` set ds \<union> (\<Union>lint \<in> set lints. set (loaded_rules lint)) \<and>
       languages_in out r = languages_in ds r @ declaration_order lints r"
  using assms
proof (induction lints arbitrary: ds)
  case (Cons lint lints)
  note step = fold_add_rule [OF Cons.prems, of "loaded_language lint" "loaded_rules lint"]
  show ?case
    using Cons.IH [OF conjunct1 [OF step [of r]]] step [of r]
    by (simp add: Let_def declaration_order_def Un_assoc)
qed (simp add: declaration_order_def)

lemma languages_in_distinct:
  assumes "distinct (map dr_rule ds)" "d \<in> set ds"
  shows "languages_in ds (dr_rule d) = dr_languages d"
proof -
  have "filter (\<lambda>x. dr_rule x = dr_rule d) ds = [d]"
    using assms by (induction ds) (auto simp: filter_notin_image)
  then show ?thesis by (simp add: languages_in_def)
qed

lemma declared_rules_of_rules: "dr_rule ` set (declared_rules_of lints) = (\<Union>lint \<in> set lints. set (loaded_rules lint))"
  using fold_lints_add_rule [of "[]" lints undefined] by (simp add: declared_rules_of_def Let_def)

text \<open>
  The listing of rules is the set of declared rules, each once and in the order of its name,
  and beside each rule stand the languages of the lints that declare it, in load order, once for
  every declaration.
\<close>

theorem declared_rules_of_spec:
  "map (\<lambda>d. rule_name (dr_rule d)) (declared_rules_of lints) = declared lints \<and>
   list_all (\<lambda>d. dr_languages d = declaration_order lints (dr_rule d)) (declared_rules_of lints)"
proof
  define out where
    "out = fold (\<lambda>lint. fold (add_rule (loaded_language lint)) (loaded_rules lint)) lints []"
  have out: "distinct (map dr_rule out)"
      "dr_rule ` set out = (\<Union>lint \<in> set lints. set (loaded_rules lint))"
      "languages_in out r = declaration_order lints r" for r
    using fold_lints_add_rule [of "[]" lints r] by (auto simp: out_def Let_def languages_in_def)
  have inj: "inj_on rule_name A" for A by (auto simp: inj_on_def rule_id.expand)
  have "distinct (map rule_name (map dr_rule out))"
    using out(1) inj by (simp only: distinct_map)
  then have "distinct (map (\<lambda>d. rule_name (dr_rule d)) (declared_rules_of lints))"
    unfolding declared_rules_of_def out_def [symmetric]
    by (simp add: distinct_map comp_def inj_on_def)
  moreover have "set (map (\<lambda>d. rule_name (dr_rule d)) (declared_rules_of lints)) = set (declared lints)"
    using out(2) unfolding declared_rules_of_def declared_def out_def [symmetric]
    by (auto simp: image_iff) (metis UN_iff imageE imageI)+
  ultimately show "map (\<lambda>d. rule_name (dr_rule d)) (declared_rules_of lints) = declared lints"
    by (intro sorted_distinct_set_unique) (simp_all add: declared_rules_of_def declared_def)
  show "list_all (\<lambda>d. dr_languages d = declaration_order lints (dr_rule d)) (declared_rules_of lints)"
    using languages_in_distinct [OF out(1)] out(3)
    by (auto simp: list_all_iff declared_rules_of_def out_def [symmetric])
qed

section \<open>A library that loads\<close>

lemma load_library_Ok:
  "load_library open_library library host = Ok lints \<longleftrightarrow>
     (\<exists>decl exported. open_library library = Ok decl \<and>
        validate_handshake host (decl_identity decl) = Ok () \<and> decl_load decl = Ok exported \<and>
        exported \<noteq> [] \<and> list_all (\<lambda>x. exported_rules x \<noteq> []) exported \<and>
        lints = map (\<lambda>x. \<lparr>loaded_factory = exported_factory x, loaded_language = exported_language x,
                   loaded_rules = exported_rules x, loaded_library = library\<rparr>) exported)"
  by (auto simp: load_library_def result_bind_eq_Ok validate_handshake_def Let_def list_all_iff
      split: if_splits)

text \<open>
  Nothing of a plugin runs before it passes the handshake, and nothing half-declared is
  accepted: a library loads exactly when it opens, its identity passes the handshake, listing its
  exports does not panic, and what it exports is non-empty with at least one rule for every lint;
  then it contributes one lint per export, in order, each remembering its library. For a protocol
  version the host does not read, the outcome depends on that version alone.
\<close>

theorem load_library_spec:
  "(load_library open_library library host = Ok lints \<longleftrightarrow>
      (\<exists>decl exported. open_library library = Ok decl \<and>
         validate_handshake host (decl_identity decl) = Ok () \<and> decl_load decl = Ok exported \<and>
         exported \<noteq> [] \<and> list_all (\<lambda>x. exported_rules x \<noteq> []) exported \<and>
         lints = map (\<lambda>x. \<lparr>loaded_factory = exported_factory x, loaded_language = exported_language x,
                    loaded_rules = exported_rules x, loaded_library = library\<rparr>) exported)) \<and>
   (open_library library = Ok decl \<and> \<not> abi_accepts (id_abi_version host) v \<and>
    id_abi_version (decl_identity decl) = v \<longrightarrow>
      load_library open_library library host =
        Err (Cause (Handshake (AbiVersionMismatch v (id_abi_version host)))))"
  using load_library_Ok [of open_library library host lints] by (auto simp: load_library_def)

definition sample_declaration :: "32 word \<Rightarrow> string list \<Rightarrow> (rule_options, unit) plugin_declaration" where
  "sample_declaration minor rules = \<lparr>decl_identity = sample_identity 1 minor,
     decl_load = Ok [\<lparr>exported_factory = Ok recording_pass, exported_language = Rust,
                      exported_rules = map RuleId rules\<rparr>]\<rparr>"

theorem load_library_spec_witness:
  "is_ok (load_library (\<lambda>_. Ok (sample_declaration 2 [''r''])) ''lib.so'' (sample_identity 1 3)) \<and>
   load_library (\<lambda>_. Ok (sample_declaration 4 [''r''])) ''lib.so'' (sample_identity 1 3) =
     Err (Cause (Handshake (AbiVersionMismatch (AbiVersion 1 4) (AbiVersion 1 3)))) \<and>
   \<not> is_ok (load_library (\<lambda>_. Ok (sample_declaration 2 [])) ''lib.so'' (sample_identity 1 3))"
proof -
  have "load_library (\<lambda>_. Ok (sample_declaration 2 [''r''])) ''lib.so'' (sample_identity 1 3) =
      Ok [recording_lint ''r'']"
    by (rule load_library_spec [THEN conjunct1, THEN iffD2])
      (simp add: sample_declaration_def sample_identity_def validate_handshake_def abi_accepts_iff
        recording_lint_def)
  moreover have "load_library (\<lambda>_. Ok (sample_declaration 4 [''r''])) ''lib.so'' (sample_identity 1 3) =
      Err (Cause (Handshake (AbiVersionMismatch (AbiVersion 1 4) (AbiVersion 1 3))))"
    using load_library_spec [THEN conjunct2, of "\<lambda>_. Ok (sample_declaration 4 [''r''])" "''lib.so''"
        "sample_declaration 4 [''r'']" "sample_identity 1 3" "AbiVersion 1 4"]
    by (simp add: sample_declaration_def sample_identity_def abi_accepts_iff)
  moreover have "load_library (\<lambda>_. Ok (sample_declaration 2 [])) ''lib.so'' (sample_identity 1 3) \<noteq> Ok l" for l
    by (simp add: load_library_spec [THEN conjunct1] sample_declaration_def)
  ultimately show ?thesis
    by (auto simp: is_ok_def split: sum.splits)
qed

end
