(* ===== verification/LintCache.thy ===== *)
theory LintCache
  imports LintLoading
begin

text \<open>
  The layout of the cache, \<open>crates/stiles/src/custom_lints/cache.rs\<close>: where fetched checkouts and
  unpacked archives sit. The process environment is the record \<open>environment\<close>; gitoxide's printer of
  remotes is one of its fields.
\<close>

section \<open>The environment\<close>

record environment =
  env_var :: "string \<Rightarrow> string option"
  env_xdg_cache_dir :: "path option"
  env_process_id :: nat
  env_print_url :: "gix_url \<Rightarrow> string"

definition present :: "string option \<Rightarrow> string option" where
  "present value = (case value of Some v \<Rightarrow> if v = [] then None else Some v | None \<Rightarrow> None)"

section \<open>The cache root\<close>

record cache_location =
  override_directory :: "string option"
  base_directory :: "path option"

definition cache_variable :: string where
  "cache_variable = ''STILES_CACHE_DIR''"

definition from_environment :: "environment \<Rightarrow> cache_location" where
  "from_environment env =
     \<lparr>override_directory = present (env_var env cache_variable),
      base_directory = env_xdg_cache_dir env\<rparr>"

definition resolve :: "cache_location \<Rightarrow> (path, load_error anyhow) result" where
  "resolve loc =
     (case override_directory loc of
        Some directory \<Rightarrow> Ok directory
      | None \<Rightarrow>
          (case base_directory loc of
             None \<Rightarrow> Err (Cause (LoadBail (''failed to find a cache directory for git lint sources; set ''
                       @ cache_variable @ '' to the directory stiles should keep them in'')))
           | Some base \<Rightarrow> Ok (path_join base ''stiles'')))"

definition cache_root :: "environment \<Rightarrow> (path, load_error anyhow) result" where
  "cache_root env = resolve (from_environment env)"

section \<open>Directories under it\<close>

definition remote_directory :: "environment \<Rightarrow> git_lint_source \<Rightarrow> string" where
  "remote_directory env source =
     slug (source_url source) @ ''-'' @ digest (git_url_display (env_print_url env) (source_url source))"

definition checkout_directory_in :: "environment \<Rightarrow> path \<Rightarrow> git_lint_source \<Rightarrow> path" where
  "checkout_directory_in env root source =
     path_join (path_join (path_join root ''git'') (remote_directory env source))
       (rev_str (source_rev source))"

definition checkout_directory :: "environment \<Rightarrow> git_lint_source \<Rightarrow> (path, load_error anyhow) result" where
  "checkout_directory env source =
     result_bind (with_context ''failed to find the directory for the checkout'' (cache_root env))
       (\<lambda>root. Ok (checkout_directory_in env root source))"

definition prebuilt_directory_in :: "environment \<Rightarrow> path \<Rightarrow> git_lint_source \<Rightarrow> abi_tag \<Rightarrow> path" where
  "prebuilt_directory_in env root source tag =
     path_join (path_join (path_join (path_join root ''prebuilt'') (remote_directory env source))
       (rev_str (source_rev source))) (tag_str tag)"

definition prebuilt_directory ::
  "environment \<Rightarrow> git_lint_source \<Rightarrow> abi_tag \<Rightarrow> (path, load_error anyhow) result" where
  "prebuilt_directory env source tag =
     result_bind (with_context ''failed to find the directory for the prebuilt lints'' (cache_root env))
       (\<lambda>root. Ok (prebuilt_directory_in env root source tag))"

definition staging_directory :: "environment \<Rightarrow> path \<Rightarrow> path" where
  "staging_directory env destination =
     destination @ ''.'' @ decimal (env_process_id env) @ ''.partial''"

section \<open>Where they sit\<close>

definition rev_wf :: "git_rev \<Rightarrow> bool" where
  "rev_wf r = (length (rev_str r) = hash_length \<and> list_all lower_hex (rev_str r))"

lemma GitRev_new_wf: "GitRev_new s = Ok r \<Longrightarrow> rev_wf r"
  by (auto simp: GitRev_new_def rev_wf_def split: if_splits)

lemma lower_hex_slug_char: "lower_hex c \<Longrightarrow> slug_char c"
  by (auto simp: lower_hex_def slug_char_def is_ascii_alphanumeric_def less_eq_char_def)

lemma digit_slug_char: "n < 16 \<Longrightarrow> slug_char (digit n)"
  using byte_of_digit [of n]
  by (auto simp: slug_char_def is_ascii_alphanumeric_def less_eq_char_def split: if_splits)

lemma hex_pad_slug_char: "list_all slug_char (hex_pad w n)"
  by (induction w arbitrary: n) (auto simp: digit_slug_char)

lemma rev_ordinary: "rev_wf r \<Longrightarrow> ordinary_name (rev_str r)"
  by (rule slug_char_ordinary) (auto simp: rev_wf_def hash_length_def list_all_iff lower_hex_slug_char)

lemma remote_directory_ordinary: "ordinary_name (remote_directory env source)"
  by (rule slug_char_ordinary)
    (auto simp: remote_directory_def slug_chars digest_def hex_pad_slug_char slug_char_def)

lemma ordinary_layout_names: "ordinary_name ''git''" "ordinary_name ''prebuilt''"
  by (simp_all add: ordinary_name_def)

lemma checkout_components:
  "rev_wf (source_rev source) \<Longrightarrow> components (checkout_directory_in env root source) =
     components root @ [Normal ''git'', Normal (remote_directory env source), Normal (rev_str (source_rev source))]"
  by (simp add: checkout_directory_in_def components_join rev_ordinary remote_directory_ordinary
      ordinary_layout_names)

lemma prebuilt_components:
  "rev_wf (source_rev source) \<Longrightarrow> ordinary_name (tag_str tag) \<Longrightarrow>
   components (prebuilt_directory_in env root source tag) =
     components root @ [Normal ''prebuilt'', Normal (remote_directory env source),
       Normal (rev_str (source_rev source)), Normal (tag_str tag)]"
  by (simp add: prebuilt_directory_in_def components_join rev_ordinary remote_directory_ordinary
      ordinary_layout_names)

lemma remote_directory_eq:
  "remote_directory env s = remote_directory env t \<longleftrightarrow>
     slug (source_url s) = slug (source_url t) \<and>
     digest (git_url_display (env_print_url env) (source_url s)) =
       digest (git_url_display (env_print_url env) (source_url t))"
proof -
  have "length (digest x) = length (digest y)" for x y by (simp add: digest_def)
  then show ?thesis by (auto simp: remote_directory_def)
qed

text \<open>
  Everything the cache holds for a pinned source sits below the cache root, in a directory of
  its own. A checkout and a prebuilt directory never coincide; two checkouts coincide only for one
  commit of remotes with the same name and the same digest of their printed form; and a prebuilt
  directory is shared only by one tag. Two sources that print alike and share a path (they differ
  in credentials) use the same directories.
\<close>

theorem cache_layout:
  assumes "rev_wf (source_rev s)" "rev_wf (source_rev t)"
    and "ordinary_name (tag_str a)" "ordinary_name (tag_str b)"
  shows
    "strict_prefix (components root) (components (checkout_directory_in env root s)) \<and>
     strict_prefix (components root) (components (prebuilt_directory_in env root s a)) \<and>
     components (checkout_directory_in env root s) \<noteq> components (prebuilt_directory_in env root t b) \<and>
     (components (checkout_directory_in env root s) = components (checkout_directory_in env root t) \<longleftrightarrow>
        remote_directory env s = remote_directory env t \<and> source_rev s = source_rev t) \<and>
     (components (prebuilt_directory_in env root s a) = components (prebuilt_directory_in env root t b) \<longleftrightarrow>
        remote_directory env s = remote_directory env t \<and> source_rev s = source_rev t \<and> a = b) \<and>
     (remote_directory env s = remote_directory env t \<longleftrightarrow>
        slug (source_url s) = slug (source_url t) \<and>
        digest (git_url_display (env_print_url env) (source_url s)) =
          digest (git_url_display (env_print_url env) (source_url t)))"
  using assms
  by (auto simp: checkout_components prebuilt_components remote_directory_eq strict_prefix_def
      git_rev.expand abi_tag.expand)

definition sample_environment :: environment where
  "sample_environment =
     \<lparr>env_var = (\<lambda>v. if v = ''STILES_CACHE_DIR'' then Some ''/c'' else None), env_xdg_cache_dir = None,
      env_process_id = 7, env_print_url = url_path\<rparr>"

definition sample_source :: "string \<Rightarrow> git_lint_source" where
  "sample_source user =
     \<lparr>source_url = GitUrl (sample_url\<lparr>url_user := Some user\<rparr>), source_rev = GitRev (replicate 40 (CHR ''a''))\<rparr>"

theorem cache_layout_witness:
  "components (checkout_directory_in sample_environment ''/c'' (sample_source ''x'')) =
   components (checkout_directory_in sample_environment ''/c'' (sample_source ''y'')) \<and>
   components (prebuilt_directory_in sample_environment ''/c'' (sample_source ''x'') (AbiTag ''t-a'')) \<noteq>
   components (prebuilt_directory_in sample_environment ''/c'' (sample_source ''x'') (AbiTag ''t-b''))"
proof -
  have wf: "rev_wf (source_rev (sample_source u))" for u
    by (simp add: rev_wf_def sample_source_def hash_length_def list_all_iff lower_hex_def less_eq_char_def)
  have tag: "ordinary_name (tag_str (AbiTag ''t-a''))" "ordinary_name (tag_str (AbiTag ''t-b''))"
    by (simp_all add: ordinary_name_def)
  have "remote_directory sample_environment (sample_source ''x'') =
      remote_directory sample_environment (sample_source ''y'')"
    by (simp add: remote_directory_def sample_source_def sample_environment_def slug_def
        git_url_display_def redacted_def)
  then show ?thesis
    using cache_layout [OF wf [of "''x''"] wf [of "''y''"] tag, of "''/c''" sample_environment]
      cache_layout [OF wf [of "''x''"] wf [of "''x''"] tag, of "''/c''" sample_environment]
    by (auto simp: sample_source_def)
qed

end
