(* ===== verification/Storage.thy ===== *)
theory Storage
  imports LintLoading
begin

text \<open>
  The file system as the loading code sees it: a record of the standard library's operations on a
  world, so that every call may fail, and the sequencing of fallible calls that \<open>?\<close> writes. The
  locale \<open>storage\<close> holds what the documentation of \<open>std::fs\<close> promises of these operations; it is
  interpreted on a file system held in a map.
\<close>

section \<open>Operations\<close>

record 'w os =
  os_exists :: "'w \<Rightarrow> path \<Rightarrow> bool"
  os_is_dir :: "'w \<Rightarrow> path \<Rightarrow> bool"
  os_is_file :: "'w \<Rightarrow> path \<Rightarrow> bool"
  os_canonicalize :: "'w \<Rightarrow> path \<Rightarrow> (path, string) result"
  os_open :: "'w \<Rightarrow> path \<Rightarrow> (unit, string) result"
  os_read :: "'w \<Rightarrow> path \<Rightarrow> (string, string) result"
  os_read_dir :: "'w \<Rightarrow> path \<Rightarrow> ((path, string) result list, string) result"
  os_write :: "'w \<Rightarrow> path \<Rightarrow> string \<Rightarrow> (unit, string) result \<times> 'w"
  os_remove_file :: "'w \<Rightarrow> path \<Rightarrow> (unit, string) result \<times> 'w"
  os_remove_dir_all :: "'w \<Rightarrow> path \<Rightarrow> (unit, string) result \<times> 'w"
  os_create_dir_all :: "'w \<Rightarrow> path \<Rightarrow> (unit, string) result \<times> 'w"
  os_rename :: "'w \<Rightarrow> path \<Rightarrow> path \<Rightarrow> (unit, string) result \<times> 'w"

text \<open>A fallible computation on a world, and \<open>?\<close> between two of them.\<close>

type_synonym ('w, 'a) io = "'w \<Rightarrow> ('a, load_error anyhow) result \<times> 'w"

definition io_ok :: "'a \<Rightarrow> ('w, 'a) io" where
  "io_ok a = (\<lambda>w. (Ok a, w))"

definition io_lift :: "('a, load_error anyhow) result \<Rightarrow> ('w, 'a) io" where
  "io_lift r = (\<lambda>w. (r, w))"

definition io_bind :: "('w, 'a) io \<Rightarrow> ('a \<Rightarrow> ('w, 'b) io) \<Rightarrow> ('w, 'b) io" where
  "io_bind f g = (\<lambda>w. case f w of (Inl e, w') \<Rightarrow> (Err e, w') | (Inr a, w') \<Rightarrow> g a w')"

definition io_context :: "string \<Rightarrow> ('w, 'a) io \<Rightarrow> ('w, 'a) io" where
  "io_context msg f = (\<lambda>w. (with_context msg (fst (f w)), snd (f w)))"

text \<open>A call of the operating system, its error kept as the cause.\<close>

definition io_call :: "('w \<Rightarrow> ('a, string) result \<times> 'w) \<Rightarrow> ('w, 'a) io" where
  "io_call f = (\<lambda>w. (map_err (\<lambda>e. Cause (LoadBail e)) (fst (f w)), snd (f w)))"

definition io_ensure :: "bool \<Rightarrow> string \<Rightarrow> ('w, unit) io" where
  "io_ensure b msg = io_lift (if b then Ok () else Err (Cause (LoadBail msg)))"

lemma io_simps [simp, result_simps]:
  "io_ok a w = (Ok a, w)"
  "io_lift r w = (r, w)"
  "fst (io_context msg f w) = with_context msg (fst (f w))"
  "snd (io_context msg f w) = snd (f w)"
  "fst (io_call g w) = map_err (\<lambda>e. Cause (LoadBail e)) (fst (g w))"
  "snd (io_call g w) = snd (g w)"
  "io_ensure True msg w = (Ok (), w)"
  "io_ensure False msg w = (Err (Cause (LoadBail msg)), w)"
  by (simp_all add: io_ok_def io_lift_def io_context_def io_call_def io_ensure_def)

lemma io_bind_apply:
  "io_bind f g w = (case fst (f w) of Inl e \<Rightarrow> (Err e, snd (f w)) | Inr a \<Rightarrow> g a (snd (f w)))"
  by (simp add: io_bind_def case_prod_unfold split: sum.splits prod.splits)

lemma io_bind_Ok:
  "io_bind f g w = (Ok b, w') \<longleftrightarrow> (\<exists>a. fst (f w) = Ok a \<and> g a (snd (f w)) = (Ok b, w'))"
  by (auto simp: io_bind_apply split: sum.splits)

lemma io_bind_ok_step: "fst (f w) = Ok a \<Longrightarrow> io_bind f g w = g a (snd (f w))"
  by (simp add: io_bind_apply)

lemma io_bind_err_step: "fst (f w) = Err e \<Longrightarrow> io_bind f g w = (Err e, snd (f w))"
  by (simp add: io_bind_apply)

text \<open>What every step keeps, the whole keeps.\<close>

definition io_keeps :: "('w \<Rightarrow> 'v) \<Rightarrow> ('w, 'a) io \<Rightarrow> bool" where
  "io_keeps view f = (\<forall>w. view (snd (f w)) = view w)"

lemma io_keeps_bind [intro]:
  "io_keeps view f \<Longrightarrow> (\<And>a. io_keeps view (g a)) \<Longrightarrow> io_keeps view (io_bind f g)"
  by (auto simp: io_keeps_def io_bind_apply split: sum.splits)

lemma io_keeps_bind_lift:
  "(\<And>a. r = Ok a \<Longrightarrow> io_keeps view (g a)) \<Longrightarrow> io_keeps view (io_bind (io_lift r) g)"
  by (auto simp: io_keeps_def io_bind_apply split: sum.splits)

lemma io_keeps_simps [simp]:
  "io_keeps view (io_ok a)" "io_keeps view (io_lift r)" "io_keeps view (io_ensure b msg)"
  "io_keeps view (io_context msg f) = io_keeps view f"
  by (simp_all add: io_keeps_def io_ensure_def)

lemma io_keepsD: "io_keeps view f \<Longrightarrow> view (snd (f w)) = view w"
  by (simp add: io_keeps_def)

section \<open>Assembling beside, then moving into place\<close>

definition discard_existing :: "'w os \<Rightarrow> string \<Rightarrow> path \<Rightarrow> ('w, unit) io" where
  "discard_existing os msg p =
     (\<lambda>w. if os_exists os w p
          then io_context (msg @ display p) (io_call (\<lambda>w. os_remove_dir_all os w p)) w
          else (Ok (), w))"

text \<open>
  The rename at the end, and what a failed one means: another process may have won, so the
  destination counts when it holds what was wanted.
\<close>

definition move_into_place ::
  "'w os \<Rightarrow> ('w \<Rightarrow> path \<Rightarrow> bool) \<Rightarrow> string \<Rightarrow> 'a \<Rightarrow> path \<Rightarrow> path \<Rightarrow> ('w, 'a) io" where
  "move_into_place os holds msg value staging destination =
     (\<lambda>w. let (renamed, w1) = os_rename os w staging destination
          in case renamed of
               Inr _ \<Rightarrow> (Ok value, w1)
             | Inl error \<Rightarrow>
                 (let w2 = snd (os_remove_dir_all os w1 staging)
                  in io_bind (io_ensure (holds w2 destination) (msg @ display destination @ '': '' @ error))
                       (\<lambda>_. io_ok value) w2))"

definition replace_directory ::
  "'w os \<Rightarrow> string \<Rightarrow> ('w, unit) io \<Rightarrow> ('w, 'a) io \<Rightarrow> path \<Rightarrow> ('w, 'a) io" where
  "replace_directory os msg stage move destination =
     io_bind (discard_existing os msg destination) (\<lambda>_. io_bind stage (\<lambda>_. move))"

section \<open>The contract of a file system\<close>

text \<open>Two places neither of which holds the other.\<close>

definition apart :: "component list \<Rightarrow> component list \<Rightarrow> bool" where
  "apart p q = (\<not> prefix p q \<and> \<not> prefix q p)"

lemma apart_extend: "apart p q \<Longrightarrow> apart (p @ r) q"
  unfolding apart_def by (metis append_prefixD prefixI prefix_same_cases)

locale storage =
  fixes os :: "'w os" and view :: "'w \<Rightarrow> component list \<Rightarrow> 't option"
    and children :: "'t option \<Rightarrow> ((string, string) result list, string) result"
    and regular :: "'t option \<Rightarrow> string \<Rightarrow> bool"
  assumes exists_view: "os_exists os w p \<longleftrightarrow> view w (components p) \<noteq> None"
    and read_dir_view: "os_read_dir os w p =
      map_sum id (map (map_sum id (path_join p))) (children (view w (components p)))"
    and children_names: "children t = Ok ns \<Longrightarrow> Ok n \<in> set ns \<Longrightarrow> ordinary_name n"
    and is_file_view: "ordinary_name n \<Longrightarrow>
      os_is_file os w (path_join p n) = regular (view w (components p)) n"
    and write_elsewhere: "apart (components p) q \<Longrightarrow> view (snd (os_write os w p b)) q = view w q"
    and remove_file_elsewhere: "apart (components p) q \<Longrightarrow> view (snd (os_remove_file os w p)) q = view w q"
    and remove_elsewhere: "apart (components p) q \<Longrightarrow> view (snd (os_remove_dir_all os w p)) q = view w q"
    and remove_done: "fst (os_remove_dir_all os w p) = Ok () \<Longrightarrow>
      view (snd (os_remove_dir_all os w p)) (components p) = None"
    and create_elsewhere: "\<not> prefix q (components p) \<Longrightarrow> view (snd (os_create_dir_all os w p)) q = view w q"
    and rename_done: "fst (os_rename os w a b) = Ok () \<Longrightarrow>
      view (snd (os_rename os w a b)) (components b) = view w (components a)"
    and rename_failed: "fst (os_rename os w a b) = Err e \<Longrightarrow> view (snd (os_rename os w a b)) q = view w q"
begin

text \<open>What a call on one place does not touch.\<close>

lemma keeps_write: "apart (components p) q \<Longrightarrow> io_keeps (\<lambda>w. view w q) (io_call (\<lambda>w. os_write os w p b))"
  by (simp add: io_keeps_def write_elsewhere)

lemma keeps_remove_file:
  "apart (components p) q \<Longrightarrow> io_keeps (\<lambda>w. view w q) (io_call (\<lambda>w. os_remove_file os w p))"
  by (simp add: io_keeps_def remove_file_elsewhere)

lemma keeps_create:
  "\<not> prefix q (components p) \<Longrightarrow> io_keeps (\<lambda>w. view w q) (io_call (\<lambda>w. os_create_dir_all os w p))"
  by (simp add: io_keeps_def create_elsewhere)

lemma keeps_pure: "io_keeps (\<lambda>w. view w q) (io_call (\<lambda>w. (f w, w)))"
  by (simp add: io_keeps_def)

lemmas keeps = keeps_write keeps_remove_file keeps_create keeps_pure

lemma discard_existing_keeps:
  "apart (components p) q \<Longrightarrow> io_keeps (\<lambda>w. view w q) (discard_existing os msg p)"
  by (simp add: io_keeps_def discard_existing_def remove_elsewhere)

lemma discard_existing_done:
  "fst (discard_existing os msg p w) = Ok () \<Longrightarrow> view (snd (discard_existing os msg p w)) (components p) = None"
  by (auto simp: discard_existing_def exists_view remove_done split: if_splits)

text \<open>A test of a directory that depends on what stands in it.\<close>

definition sees_view :: "('w \<Rightarrow> path \<Rightarrow> bool) \<Rightarrow> bool" where
  "sees_view holds = (\<forall>w w' a b. view w (components a) = view w' (components b) \<longrightarrow> holds w a = holds w' b)"

lemma move_into_place_outcome:
  assumes "sees_view holds" and "apart (components staging) (components destination)"
    and "holds w staging" and "move_into_place os holds msg value staging destination w = (r, w')"
  shows "(is_ok r \<longrightarrow> r = Ok value \<and> holds w' destination) \<and>
    (\<not> is_ok r \<longrightarrow> view w' (components destination) = view w (components destination))"
proof (cases "os_rename os w staging destination")
  case (Pair renamed w1)
  show ?thesis
  proof (cases renamed)
    case (Inr u)
    with Pair have "view w1 (components destination) = view w (components staging)"
      using rename_done [of w staging destination] by simp
    with assms(1,3) have "holds w1 destination" unfolding sees_view_def by blast
    with assms(4) Pair Inr show ?thesis by (auto simp: move_into_place_def)
  next
    case (Inl e)
    with Pair have "view w1 q = view w q" for q
      using rename_failed [of w staging destination] by simp
    then have "view (snd (os_remove_dir_all os w1 staging)) (components destination) = view w (components destination)"
      using remove_elsewhere [OF assms(2)] by simp
    with assms(4) Pair Inl show ?thesis
      by (auto simp: move_into_place_def Let_def io_bind_apply io_ensure_def split: if_splits)
  qed
qed

lemma replace_directory_outcome:
  assumes holds: "sees_view holds" and apart: "apart (components staging) (components d)"
    and keeps: "io_keeps (\<lambda>w. view w (components d)) stage"
    and staged: "\<And>w. fst (stage w) = Ok () \<Longrightarrow> holds (snd (stage w)) staging"
    and run: "replace_directory os msg stage (move_into_place os holds msg' value staging d) d w = (r, w')"
  shows "(is_ok r \<longrightarrow> r = Ok value \<and> holds w' d) \<and>
    (\<not> is_ok r \<longrightarrow> view w' (components d) = None \<or> fst (os_remove_dir_all os w d) \<noteq> Ok ())"
proof -
  let ?w1 = "snd (discard_existing os msg d w)"
  show ?thesis
  proof (cases "fst (discard_existing os msg d w)")
    case (Inl e)
    then have "fst (os_remove_dir_all os w d) \<noteq> Ok ()"
      by (auto simp: discard_existing_def split: if_splits)
    moreover have "r = Err e" using run Inl by (auto simp: replace_directory_def io_bind_err_step)
    ultimately show ?thesis by simp
  next
    case (Inr u)
    then have "view ?w1 (components d) = None" using discard_existing_done by simp
    then have gone: "view (snd (stage ?w1)) (components d) = None"
      using io_keepsD [OF keeps] by simp
    show ?thesis
    proof (cases "fst (stage ?w1)")
      case Err: (Inl e)
      then have "r = Err e \<and> w' = snd (stage ?w1)"
        using run Inr by (simp add: replace_directory_def io_bind_ok_step io_bind_err_step)
      with gone show ?thesis by simp
    next
      case Staged: (Inr v)
      then have "move_into_place os holds msg' value staging d (snd (stage ?w1)) = (r, w')"
        using run Inr by (simp add: replace_directory_def io_bind_ok_step)
      with Staged have "(is_ok r \<longrightarrow> r = Ok value \<and> holds w' d) \<and>
          (\<not> is_ok r \<longrightarrow> view w' (components d) = view (snd (stage ?w1)) (components d))"
        by (intro move_into_place_outcome [OF holds apart] staged) simp_all
      then show ?thesis unfolding gone by blast
    qed
  qed
qed

end

text \<open>
  What installing a directory needs beyond that: a directory that was not there starts out empty, a
  directory that is not there cannot be listed, and a rename touches only its two places.
\<close>

locale storage_moves = storage +
  assumes children_missing: "children None \<noteq> Ok ns"
    and create_empty: "view w (components p) = None \<Longrightarrow> fst (os_create_dir_all os w p) = Ok () \<Longrightarrow>
      children (view (snd (os_create_dir_all os w p)) (components p)) = Ok []"
    and rename_elsewhere: "apart (components a) q \<Longrightarrow> apart (components b) q \<Longrightarrow>
      view (snd (os_rename os w a b)) q = view w q"
begin

lemma move_into_place_moved:
  assumes "apart (components staging) (components d)" and "sees_view holds"
    and absent: "\<forall>w p. view w (components p) = None \<longrightarrow> \<not> holds w p" and "view w (components d) = None"
    and run: "move_into_place os holds msg value staging d w = (r, w')"
  shows "(r = Ok value \<and> view w' (components d) = view w (components staging)) \<or>
    (\<not> is_ok r \<and> view w' (components d) = None)"
proof (cases "os_rename os w staging d")
  case (Pair renamed w1)
  show ?thesis
  proof (cases renamed)
    case (Inr u)
    with Pair have "view w1 (components d) = view w (components staging)"
      using rename_done [of w staging d] by simp
    with run Pair Inr show ?thesis by (simp add: move_into_place_def)
  next
    case (Inl e)
    with Pair have "view w1 q = view w q" for q using rename_failed [of w staging d] by simp
    then have "view (snd (os_remove_dir_all os w1 staging)) (components d) = None"
      using remove_elsewhere [OF assms(1)] assms(4) by simp
    with run Pair Inl absent show ?thesis
      by (auto simp: move_into_place_def Let_def io_bind_apply io_ensure_def)
  qed
qed

text \<open>
  Replacing a directory: it is the staged directory, or it is gone, or it could not be removed and
  the rest was not tried.
\<close>

lemma replace_directory_replaced:
  assumes apart: "apart (components staging) (components d)" and holds: "sees_view holds"
    and absent: "\<forall>w p. view w (components p) = None \<longrightarrow> \<not> holds w p"
    and keeps: "io_keeps (\<lambda>w. view w (components d)) stage"
    and run: "replace_directory os msg stage (move_into_place os holds msg' value staging d) d w = (r, w')"
  shows "(r = Ok value \<and> (\<exists>w1 w2. stage w1 = (Ok (), w2) \<and> view w' (components d) = view w2 (components staging))) \<or>
    (\<not> is_ok r \<and> (view w' (components d) = None \<or>
       (\<exists>e. fst (os_remove_dir_all os w d) = Err e \<and> w' = snd (os_remove_dir_all os w d))))"
proof (cases "fst (discard_existing os msg d w)")
  case (Inl e)
  then have "\<exists>e. fst (os_remove_dir_all os w d) = Err e" "snd (discard_existing os msg d w) = snd (os_remove_dir_all os w d)"
    by (cases "fst (os_remove_dir_all os w d)"; auto simp: discard_existing_def split: if_splits)+
  with run Inl show ?thesis by (auto simp: replace_directory_def io_bind_err_step)
next
  case (Inr u)
  let ?w1 = "snd (discard_existing os msg d w)"
  have "view ?w1 (components d) = None" using Inr discard_existing_done by simp
  then have gone: "view (snd (stage ?w1)) (components d) = None" using io_keepsD [OF keeps] by simp
  show ?thesis
  proof (cases "fst (stage ?w1)")
    case Err: (Inl e)
    then have "r = Err e \<and> w' = snd (stage ?w1)"
      using run Inr by (simp add: replace_directory_def io_bind_ok_step io_bind_err_step)
    with gone show ?thesis by simp
  next
    case Staged: (Inr v)
    then have "move_into_place os holds msg' value staging d (snd (stage ?w1)) = (r, w')"
      using run Inr by (simp add: replace_directory_def io_bind_ok_step)
    from move_into_place_moved [OF apart holds absent gone this] Staged show ?thesis
      by (metis prod.collapse unit.exhaust)
  qed
qed

lemma replace_directory_elsewhere:
  assumes "apart (components staging) q" "apart (components d) q" "io_keeps (\<lambda>w. view w q) stage"
  shows "io_keeps (\<lambda>w. view w q) (replace_directory os msg stage (move_into_place os holds msg' value staging d) d)"
proof -
  have "io_keeps (\<lambda>w. view w q) (move_into_place os holds msg' value staging d)"
    by (auto simp: io_keeps_def move_into_place_def Let_def case_prod_unfold io_bind_apply io_ensure_def
        rename_elsewhere remove_elsewhere assms split: sum.splits)
  then show ?thesis
    unfolding replace_directory_def by (intro io_keeps_bind discard_existing_keeps assms)
qed

end

section \<open>A file system in a map\<close>

datatype fs_node = FsDir | FsFile string

type_synonym fs = "(component list \<times> fs_node) list"

definition fs_subtree :: "fs \<Rightarrow> component list \<Rightarrow> fs" where
  "fs_subtree w p = map (\<lambda>(q, n). (drop (length p) q, n)) (filter (\<lambda>(q, n). prefix p q) w)"

definition fs_view :: "fs \<Rightarrow> component list \<Rightarrow> fs option" where
  "fs_view w p = (let t = fs_subtree w p in if t = [] then None else Some t)"

definition fs_children :: "fs option \<Rightarrow> ((string, string) result list, string) result" where
  "fs_children t =
     (case t of
        None \<Rightarrow> Err ''not found''
      | Some t \<Rightarrow> Ok (map Ok (List.map_filter (\<lambda>(q, n). case q of
            [Normal name] \<Rightarrow> if ordinary_name name then Some name else None | _ \<Rightarrow> None) t)))"

definition fs_regular :: "fs option \<Rightarrow> string \<Rightarrow> bool" where
  "fs_regular t name =
     (case t of
        None \<Rightarrow> False
      | Some t \<Rightarrow> (case map_of t [Normal name] of Some (FsFile _) \<Rightarrow> True | _ \<Rightarrow> False))"

definition fs_without :: "fs \<Rightarrow> component list \<Rightarrow> fs" where
  "fs_without w p = filter (\<lambda>(q, n). \<not> prefix p q) w"

definition fs_os :: "fs os" where
  "fs_os = \<lparr>
     os_exists = (\<lambda>w p. fs_subtree w (components p) \<noteq> []),
     os_is_dir = (\<lambda>w p. fs_subtree w (components p) \<noteq> [] \<and>
        (case map_of w (components p) of Some (FsFile _) \<Rightarrow> False | _ \<Rightarrow> True)),
     os_is_file = (\<lambda>w p. case map_of w (components p) of Some (FsFile _) \<Rightarrow> True | _ \<Rightarrow> False),
     os_canonicalize = (\<lambda>w p. if fs_subtree w (components p) \<noteq> [] then Ok p else Err ''not found''),
     os_open = (\<lambda>w p. if map_of w (components p) = None then Err ''no such file'' else Ok ()),
     os_read = (\<lambda>w p. case map_of w (components p) of Some (FsFile b) \<Rightarrow> Ok b | _ \<Rightarrow> Err ''no such file''),
     os_read_dir = (\<lambda>w p.
        map_sum id (map (map_sum id (path_join p))) (fs_children (fs_view w (components p)))),
     os_write = (\<lambda>w p b. if map_of w (components p) = Some FsDir then (Err ''is a directory'', w)
        else (Ok (), (components p, FsFile b) # fs_without w (components p))),
     os_remove_file = (\<lambda>w p. if map_of w (components p) = None then (Err ''no such file'', w)
        else (Ok (), filter (\<lambda>(q, n). q \<noteq> components p) w)),
     os_remove_dir_all = (\<lambda>w p. if fs_subtree w (components p) = [] then (Err ''no such directory'', w)
        else (Ok (), fs_without w (components p))),
     os_create_dir_all = (\<lambda>w p. case map_of w (components p) of
          Some (FsFile _) \<Rightarrow> (Err ''is a file'', w)
        | Some FsDir \<Rightarrow> (Ok (), w)
        | None \<Rightarrow> (Ok (), (components p, FsDir) # w)),
     os_rename = (\<lambda>w a b.
        if fs_subtree w (components a) = [] \<or> fs_subtree w (components b) \<noteq> [] then (Err ''cannot rename'', w)
        else (Ok (), map (\<lambda>(q, n). if prefix (components a) q
                then (components b @ drop (length (components a)) q, n) else (q, n)) w))\<rparr>"

lemma fs_subtree_cong:
  "filter (\<lambda>(r, n). prefix q r) w = filter (\<lambda>(r, n). prefix q r) w' \<Longrightarrow> fs_view w q = fs_view w' q"
  by (simp add: fs_view_def fs_subtree_def)

lemma fs_without_elsewhere: "apart p q \<Longrightarrow> fs_view (fs_without w p) q = fs_view w q"
proof (rule fs_subtree_cong)
  assume "apart p q"
  then have "prefix q r \<Longrightarrow> \<not> prefix p r" for r
    by (auto simp: apart_def dest: prefix_same_cases)
  then show "filter (\<lambda>(r, n). prefix q r) (fs_without w p) = filter (\<lambda>(r, n). prefix q r) w"
    unfolding fs_without_def filter_filter by (intro filter_cong) auto
qed

lemma map_of_fs_subtree: "map_of (fs_subtree w p) r = map_of w (p @ r)"
proof (induction w)
  case (Cons e w)
  obtain q n where e: "e = (q, n)" by (cases e)
  have "prefix p q \<and> drop (length p) q = r \<longleftrightarrow> q = p @ r" by (auto simp: prefix_def)
  with Cons show ?case by (auto simp: fs_subtree_def e)
qed (simp add: fs_subtree_def)

lemma fs_remove_file_elsewhere:
  "apart p q \<Longrightarrow> fs_view (filter (\<lambda>(r, n). r \<noteq> p) w) q = fs_view w q"
  by (rule fs_subtree_cong) (auto simp: apart_def filter_filter intro!: filter_cong)

lemma fs_rename_view:
  assumes "fs_subtree w b = []"
  shows "fs_view (map (\<lambda>(q, n). if prefix a q then (b @ drop (length a) q, n) else (q, n)) w) b = fs_view w a"
proof -
  have "\<forall>(q, n) \<in> set w. \<not> prefix b q"
    using assms by (auto simp: fs_subtree_def filter_empty_conv)
  then have "fs_subtree (map (\<lambda>(q, n). if prefix a q then (b @ drop (length a) q, n) else (q, n)) w) b =
      fs_subtree w a"
    by (induction w) (auto simp: fs_subtree_def split: if_splits)
  then show ?thesis by (simp add: fs_view_def)
qed

interpretation fs: storage fs_os fs_view fs_children fs_regular
proof
  fix w p q b n t ns a e
  show "os_exists fs_os w p \<longleftrightarrow> fs_view w (components p) \<noteq> None"
    by (simp add: fs_os_def fs_view_def Let_def)
  show "os_read_dir fs_os w p =
      map_sum id (map (map_sum id (path_join p))) (fs_children (fs_view w (components p)))"
    by (simp add: fs_os_def)
  show "fs_children t = Ok ns \<Longrightarrow> Ok n \<in> set ns \<Longrightarrow> ordinary_name n"
    by (auto simp: fs_children_def split: option.splits list.splits component.splits if_splits)
  show "ordinary_name n \<Longrightarrow> os_is_file fs_os w (path_join p n) = fs_regular (fs_view w (components p)) n"
    using map_of_fs_subtree [of w "components p" "[Normal n]"]
    by (auto simp: fs_os_def fs_regular_def fs_view_def Let_def components_join split: option.splits)
  show "apart (components p) q \<Longrightarrow> fs_view (snd (os_write fs_os w p b)) q = fs_view w q"
    using fs_without_elsewhere [of "components p" q w]
      fs_subtree_cong [of q "(components p, FsFile b) # fs_without w (components p)" "fs_without w (components p)"]
    by (auto simp: fs_os_def apart_def)
  show "apart (components p) q \<Longrightarrow> fs_view (snd (os_remove_file fs_os w p)) q = fs_view w q"
    using fs_remove_file_elsewhere by (simp add: fs_os_def)
  show "apart (components p) q \<Longrightarrow> fs_view (snd (os_remove_dir_all fs_os w p)) q = fs_view w q"
    using fs_without_elsewhere by (simp add: fs_os_def)
  show "fst (os_remove_dir_all fs_os w p) = Ok () \<Longrightarrow>
      fs_view (snd (os_remove_dir_all fs_os w p)) (components p) = None"
    by (auto simp: fs_os_def fs_view_def fs_subtree_def fs_without_def filter_empty_conv split: if_splits)
  show "\<not> prefix q (components p) \<Longrightarrow> fs_view (snd (os_create_dir_all fs_os w p)) q = fs_view w q"
    by (auto simp: fs_os_def fs_view_def fs_subtree_def split: option.splits fs_node.splits)
  show "fst (os_rename fs_os w a p) = Ok () \<Longrightarrow>
      fs_view (snd (os_rename fs_os w a p)) (components p) = fs_view w (components a)"
    using fs_rename_view [of w "components p" "components a"] by (auto simp: fs_os_def split: if_splits)
  show "fst (os_rename fs_os w a p) = Err e \<Longrightarrow> fs_view (snd (os_rename fs_os w a p)) q = fs_view w q"
    by (auto simp: fs_os_def split: if_splits)
qed

lemma fs_rename_elsewhere:
  assumes "apart a q" "apart b q"
  shows "fs_view (map (\<lambda>(r, n). if prefix a r then (b @ drop (length a) r, n) else (r, n)) w) q = fs_view w q"
proof -
  have "prefix a r \<Longrightarrow> \<not> prefix q r \<and> \<not> prefix q (b @ drop (length a) r)" for r
    using assms prefix_same_cases [of a r q] apart_extend [OF assms(2), of "drop (length a) r"]
    by (auto simp: apart_def)
  then have "fs_subtree (map (\<lambda>(r, n). if prefix a r then (b @ drop (length a) r, n) else (r, n)) w) q = fs_subtree w q"
    by (induction w) (auto simp: fs_subtree_def split: if_splits)
  then show ?thesis by (simp add: fs_view_def)
qed

lemma fs_create_view:
  "fs_view w (components p) = None \<Longrightarrow> fs_view (snd (os_create_dir_all fs_os w p)) (components p) = Some [([], FsDir)]"
proof -
  assume "fs_view w (components p) = None"
  then have "filter (\<lambda>(q, n). prefix (components p) q) w = []" by (simp add: fs_view_def fs_subtree_def Let_def split: if_splits)
  moreover from this have "map_of w (components p) = None" by (force simp: map_of_eq_None_iff filter_empty_conv)
  ultimately show ?thesis by (simp add: fs_os_def fs_view_def fs_subtree_def)
qed

interpretation fs_moves: storage_moves fs_os fs_view fs_children fs_regular
proof
  fix w p q ns a b
  show "fs_children None \<noteq> Ok ns" by (simp add: fs_children_def)
  show "fs_view w (components p) = None \<Longrightarrow> fst (os_create_dir_all fs_os w p) = Ok () \<Longrightarrow>
      fs_children (fs_view (snd (os_create_dir_all fs_os w p)) (components p)) = Ok []"
    unfolding fs_create_view by (simp add: fs_children_def List.map_filter_simps)
  show "apart (components a) q \<Longrightarrow> apart (components b) q \<Longrightarrow> fs_view (snd (os_rename fs_os w a b)) q = fs_view w q"
    using fs_rename_elsewhere [of "components a" q "components b" w] by (simp add: fs_os_def)
qed

end
