(* ===== verification/Prebuilt.thy ===== *)
theory Prebuilt
  imports LintCache Storage
begin

text \<open>
  Prebuilt lints: \<open>crates/stiles/src/custom_lints/prebuilt.rs\<close> with its modules \<open>archive.rs\<close>,
  \<open>github_release.rs\<close>, \<open>github_repository.rs\<close> and \<open>notice.rs\<close>. The third-party code (HTTP, URL
  parsing, JSON, SHA-256, hexadecimal, tar and gzip) is the record \<open>externals\<close>.
\<close>

section \<open>Third-party code\<close>

record http_request =
  req_url :: string
  req_accept :: string
  req_authorization :: "string option"

text \<open>A body is the bytes that arrive, and whether the connection fails after them.\<close>

record http_response =
  resp_status :: nat
  resp_body :: string
  resp_broken :: bool

record release_asset =
  asset_name_of :: string
  asset_url :: string

record release =
  release_draft :: bool
  release_assets :: "release_asset list"

record tar_entry =
  entry_regular :: bool
  entry_file_path :: "(path, string) result"
  entry_contents :: string

record externals =
  ext_client :: "(unit, string) result"
  ext_http_get :: "http_request \<Rightarrow> (http_response, string) result"
  ext_url_host :: "string \<Rightarrow> string option"
  ext_parse_releases :: "string \<Rightarrow> release list option"
  ext_sha256 :: "string \<Rightarrow> nat list"
  ext_hex_decode :: "string \<Rightarrow> nat list option"
  ext_tar_entries :: "string \<Rightarrow> ((tar_entry, string) result list, string) result"

section \<open>Repositories\<close>

record github_repository =
  repo_owner :: string
  repo_name :: string

definition public_host :: string where
  "public_host = ''github.com''"

fun scheme_serves_releases :: "scheme \<Rightarrow> bool" where
  "scheme_serves_releases Https = True"
| "scheme_serves_releases Http = True"
| "scheme_serves_releases Ssh = True"
| "scheme_serves_releases GitScheme = True"
| "scheme_serves_releases _ = False"

definition from_url :: "git_url \<Rightarrow> string option \<Rightarrow> github_repository option" where
  "from_url url api_host =
     (let u = gix_url_of url in
      if \<not> scheme_serves_releases (url_scheme u) then None
      else case url_host u of
        None \<Rightarrow> None
      | Some h \<Rightarrow>
          (let host = to_ascii_lowercase h in
           if \<not> (host = public_host \<or> api_host = Some host) then None
           else case split_char (CHR ''/'') (trim_char (CHR ''/'') (utf8_lossy (url_path u))) of
                  [owner, name] \<Rightarrow>
                    (let name = (case strip_suffix name ''.git'' of Some n \<Rightarrow> n | None \<Rightarrow> name)
                     in if owner = [] \<or> name = [] then None
                        else Some \<lparr>repo_owner = owner, repo_name = name\<rparr>)
                | _ \<Rightarrow> None))"

definition repository_display :: "github_repository \<Rightarrow> string" where
  "repository_display r = repo_owner r @ ''/'' @ repo_name r"

section \<open>The release API\<close>

record github_api =
  api_base :: string
  api_host :: "string option"
  api_token :: "string option"

definition default_base :: string where
  "default_base = ''https://api.github.com''"

definition base_from :: "string option \<Rightarrow> string" where
  "base_from value =
     trim_end_char (CHR ''/'') (case present value of Some v \<Rightarrow> v | None \<Rightarrow> default_base)"

definition host_of :: "externals \<Rightarrow> string \<Rightarrow> string option" where
  "host_of ext base = map_option to_ascii_lowercase (ext_url_host ext base)"

definition repository_host :: "externals \<Rightarrow> string \<Rightarrow> string option" where
  "repository_host ext base = (if base = default_base then None else host_of ext base)"

text \<open>\<open>std::env::var\<close> also refuses a value that is not UTF-8.\<close>

definition env_text :: "environment \<Rightarrow> string \<Rightarrow> string option" where
  "env_text env name = Option.bind (env_var env name) to_str"

definition api_variable :: string where
  "api_variable = ''STILES_GITHUB_API_URL''"

definition configured_repository_host :: "externals \<Rightarrow> environment \<Rightarrow> string option" where
  "configured_repository_host ext env = repository_host ext (base_from (env_text env api_variable))"

definition api_from_environment ::
  "externals \<Rightarrow> environment \<Rightarrow> (github_api, load_error anyhow) result" where
  "api_from_environment ext env =
     (let base = base_from (env_text env api_variable)
      in result_bind (with_context ''failed to build an HTTP client''
             (map_err (\<lambda>e. Cause (LoadBail e)) (ext_client ext)))
           (\<lambda>_. Ok \<lparr>api_base = base, api_host = host_of ext base,
                   api_token = find_map (\<lambda>v. present (env_text env v)) [''GH_TOKEN'', ''GITHUB_TOKEN'']\<rparr>))"

definition serves :: "externals \<Rightarrow> github_api \<Rightarrow> string \<Rightarrow> bool" where
  "serves ext api url =
     (case (ext_url_host ext url, api_host api) of
        (Some host, Some h) \<Rightarrow> to_ascii_lowercase host = to_ascii_lowercase h
      | _ \<Rightarrow> False)"

datatype media_type = GitHubJson | OctetStream

fun media_type_str :: "media_type \<Rightarrow> string" where
  "media_type_str GitHubJson = ''application/vnd.github+json''"
| "media_type_str OctetStream = ''application/octet-stream''"

definition api_request :: "externals \<Rightarrow> github_api \<Rightarrow> string \<Rightarrow> media_type \<Rightarrow> http_request" where
  "api_request ext api url accept =
     \<lparr>req_url = url, req_accept = media_type_str accept,
      req_authorization =
        (case api_token api of
           Some token \<Rightarrow> if serves ext api url then Some (''Bearer '' @ token) else None
         | None \<Rightarrow> None)\<rparr>"

definition api_get ::
  "externals \<Rightarrow> github_api \<Rightarrow> string \<Rightarrow> media_type \<Rightarrow> (http_response, load_error anyhow) result" where
  "api_get ext api url accept =
     with_context ''the request failed''
       (map_err (\<lambda>e. Cause (LoadBail e)) (ext_http_get ext (api_request ext api url accept)))"

definition status_success :: "http_response \<Rightarrow> bool" where
  "status_success r = (200 \<le> resp_status r \<and> resp_status r < 300)"

definition max_listing :: nat where "max_listing = 8 * 1024 * 1024"
definition max_sidecar :: nat where "max_sidecar = 4 * 1024"
definition max_archive :: nat where "max_archive = 512 * 1024 * 1024"

text \<open>\<open>take(cap + 1)\<close> of a body: what is read of it, and whether reading it failed.\<close>

definition read_at_most :: "nat \<Rightarrow> http_response \<Rightarrow> string \<times> bool" where
  "read_at_most n r = (take n (resp_body r), resp_broken r \<and> length (resp_body r) < n)"

definition read_text :: "http_response \<Rightarrow> nat \<Rightarrow> string \<Rightarrow> (string, load_error anyhow) result" where
  "read_text r cap what =
     (let (body, broken) = read_at_most (cap + 1) r
      in if broken \<or> \<not> utf8_valid body
         then Err (Context (''failed to read '' @ what) (Cause (LoadBail ''the stream cannot be read as text'')))
         else if \<not> length body \<le> cap
         then Err (Cause (LoadBail (what @ '' is longer than the '' @ decimal cap @ '' bytes stiles reads'')))
         else Ok body)"

record prebuilt_asset =
  pre_archive :: release_asset
  pre_sidecar :: release_asset

definition select_asset :: "release list \<Rightarrow> asset_name \<Rightarrow> prebuilt_asset option" where
  "select_asset releases name =
     (let sidecar = asset_sidecar name
      in find_map (\<lambda>r.
           case find (\<lambda>it. asset_name_of it = asset_str name) (release_assets r) of
             None \<Rightarrow> None
           | Some archive \<Rightarrow>
               (case find (\<lambda>it. asset_name_of it = sidecar) (release_assets r) of
                  None \<Rightarrow> None
                | Some side \<Rightarrow> Some \<lparr>pre_archive = archive, pre_sidecar = side\<rparr>))
         (filter (\<lambda>r. \<not> release_draft r) releases))"

datatype asset_search = Found prebuilt_asset | NoMatch | Unlisted

definition find_asset ::
  "externals \<Rightarrow> github_api \<Rightarrow> github_repository \<Rightarrow> asset_name \<Rightarrow> (asset_search, load_error anyhow) result" where
  "find_asset ext api repository name =
     (let repo = repository_display repository;
          url = api_base api @ ''/repos/'' @ repo @ ''/releases?per_page=100''
      in result_bind (with_context (''failed to ask '' @ repo @ '' for its releases'') (api_get ext api url GitHubJson))
           (\<lambda>response.
              if resp_status response = 404 then Ok Unlisted
              else if \<not> status_success response
              then Err (Cause (LoadBail (''the release API answered '' @ decimal (resp_status response) @ '' for '' @ repo)))
              else result_bind (with_context (''failed to read the releases of '' @ repo)
                     (read_text response max_listing (''the releases of '' @ repo)))
                   (\<lambda>body. result_bind (with_context (''failed to read the releases of '' @ repo @ '' as JSON'')
                       (ok_or (Cause (LoadBail ''invalid JSON'')) (ext_parse_releases ext body)))
                     (\<lambda>releases. case select_asset releases name of
                        Some asset \<Rightarrow> Ok (Found asset)
                      | None \<Rightarrow> Ok NoMatch))))"

definition asset_response ::
  "externals \<Rightarrow> github_api \<Rightarrow> release_asset \<Rightarrow> (http_response, load_error anyhow) result" where
  "asset_response ext api asset =
     result_bind (with_context (''failed to download '' @ asset_name_of asset)
         (api_get ext api (asset_url asset) OctetStream))
       (\<lambda>response. if status_success response then Ok response
          else Err (Cause (LoadBail (''the release API answered '' @ decimal (resp_status response)
                 @ '' for '' @ asset_name_of asset))))"

definition download_text ::
  "externals \<Rightarrow> github_api \<Rightarrow> release_asset \<Rightarrow> (string, load_error anyhow) result" where
  "download_text ext api asset =
     result_bind (asset_response ext api asset)
       (\<lambda>response. read_text response max_sidecar (asset_name_of asset))"

section \<open>Archives\<close>

datatype sha256_digest = Sha256Digest (digest_bytes: "nat list")

definition of_file :: "'w os \<Rightarrow> externals \<Rightarrow> path \<Rightarrow> ('w, sha256_digest) io" where
  "of_file os ext p =
     io_bind (io_context (''failed to open '' @ display p) (io_call (\<lambda>w. (os_open os w p, w))))
       (\<lambda>_. io_bind (io_context (''failed to read '' @ display p) (io_call (\<lambda>w. (os_read os w p, w))))
         (\<lambda>contents. io_ok (Sha256Digest (ext_sha256 ext contents))))"

definition from_sidecar :: "externals \<Rightarrow> string \<Rightarrow> (sha256_digest, load_error anyhow) result" where
  "from_sidecar ext contents =
     result_bind (ok_or (Cause (LoadBail ''the sidecar is empty'')) (first_word contents))
       (\<lambda>digest.
          if length digest \<noteq> 64
          then Err (Cause (LoadBail (''the sidecar holds '' @ decimal (length digest)
                 @ '' characters where a SHA-256 digest has 64'')))
          else result_bind (with_context ''the sidecar holds something that is not a SHA-256 digest''
                 (ok_or (Cause (LoadBail ''invalid hexadecimal'')) (ext_hex_decode ext (to_ascii_lowercase digest))))
               (\<lambda>bytes. Ok (Sha256Digest bytes)))"

definition sha256_display :: "sha256_digest \<Rightarrow> string" where
  "sha256_display d = concat (map (hex_pad 2) (digest_bytes d))"

definition root_file_name :: "path \<Rightarrow> string option" where
  "root_file_name p =
     (case components p of
        Normal name # rest \<Rightarrow> (case rest of [] \<Rightarrow> Some name | _ \<Rightarrow> None)
      | _ \<Rightarrow> None)"

fun extract_entries ::
  "'w os \<Rightarrow> path \<Rightarrow> path \<Rightarrow> (tar_entry, string) result list \<Rightarrow> ('w, unit) io" where
  "extract_entries os archive directory [] = io_ok ()"
| "extract_entries os archive directory (e # es) =
     io_bind (io_context (''failed to read '' @ display archive) (io_call (\<lambda>w. (e, w))))
       (\<lambda>entry.
          if \<not> entry_regular entry then extract_entries os archive directory es
          else io_bind (io_context (''failed to read a file name from '' @ display archive)
                 (io_call (\<lambda>w. (entry_file_path entry, w))))
               (\<lambda>p. case root_file_name p of
                      None \<Rightarrow> extract_entries os archive directory es
                    | Some name \<Rightarrow>
                        io_bind (io_context (''failed to write '' @ display (path_join directory name))
                            (io_call (\<lambda>w. os_write os w (path_join directory name) (entry_contents entry))))
                          (\<lambda>_. extract_entries os archive directory es)))"

definition extract_archive :: "'w os \<Rightarrow> externals \<Rightarrow> path \<Rightarrow> path \<Rightarrow> ('w, unit) io" where
  "extract_archive os ext archive directory =
     io_bind (io_context (''failed to open '' @ display archive) (io_call (\<lambda>w. (os_open os w archive, w))))
       (\<lambda>_. io_bind (io_context (''failed to read '' @ display archive)
            (io_call (\<lambda>w. (result_bind (os_read os w archive) (ext_tar_entries ext), w))))
          (\<lambda>entries. extract_entries os archive directory entries))"

definition download ::
  "'w os \<Rightarrow> externals \<Rightarrow> github_api \<Rightarrow> release_asset \<Rightarrow> path \<Rightarrow> ('w, sha256_digest) io" where
  "download os ext api asset p =
     io_bind (io_lift (asset_response ext api asset))
       (\<lambda>response.
          let (body, broken) = read_at_most (max_archive + 1) response
          in io_bind (io_context (''failed to create '' @ display p) (io_call (\<lambda>w. os_write os w p body)))
               (\<lambda>_. io_bind (io_context (''failed to write '' @ display p) (io_ensure (\<not> broken) ''the connection failed''))
                 (\<lambda>_. io_bind (io_ensure (length body \<le> max_archive)
                     (asset_name_of asset @ '' is larger than the '' @ decimal max_archive @ '' bytes stiles will download''))
                   (\<lambda>_. of_file os ext p))))"

section \<open>Libraries in a directory\<close>

definition libraries :: "'w os \<Rightarrow> 'w \<Rightarrow> path \<Rightarrow> (path list, load_error anyhow) result" where
  "libraries os w directory =
     result_bind (with_context (''failed to read '' @ display directory)
         (map_err (\<lambda>e. Cause (LoadBail e)) (os_read_dir os w directory)))
       (\<lambda>entries. result_bind (collect_results (map (\<lambda>e.
            with_context (''failed to read an entry of '' @ display directory)
              (map_err (\<lambda>e. Cause (LoadBail e)) e)) entries))
          (\<lambda>paths. Ok (sort_key components
             (filter (\<lambda>p. extension p = Some dll_extension \<and> os_is_file os w p) paths))))"

definition holds_libraries :: "'w os \<Rightarrow> 'w \<Rightarrow> path \<Rightarrow> bool" where
  "holds_libraries os w directory =
     (case libraries os w directory of Inr ls \<Rightarrow> ls \<noteq> [] | Inl _ \<Rightarrow> False)"

section \<open>Installing an archive\<close>

definition download_name :: string where
  "download_name = ''archive.tar.gz''"

definition unpack ::
  "'w os \<Rightarrow> externals \<Rightarrow> github_api \<Rightarrow> release_asset \<Rightarrow> release_asset \<Rightarrow> path \<Rightarrow> ('w, unit) io" where
  "unpack os ext api archive sidecar staging =
     (let downloaded = path_join staging download_name in
      io_bind (io_context ''failed to download the digest of the archive'' (io_lift (download_text ext api sidecar)))
        (\<lambda>text. io_bind (io_context ''failed to read the digest of the archive'' (io_lift (from_sidecar ext text)))
          (\<lambda>published. io_bind (io_context ''failed to download the archive'' (download os ext api archive downloaded))
            (\<lambda>arrived. io_bind (io_ensure (arrived = published) (''the archive has digest '' @ sha256_display arrived
                 @ '', but the sidecar beside it publishes '' @ sha256_display published))
              (\<lambda>_. io_bind (io_context ''failed to unpack the archive'' (extract_archive os ext downloaded staging))
                (\<lambda>_. io_bind (io_context (''failed to remove '' @ display downloaded)
                      (io_call (\<lambda>w. os_remove_file os w downloaded)))
                  (\<lambda>_ w. io_ensure (holds_libraries os w staging)
                     ''the archive holds no dynamic library at its root'' w)))))))"

datatype installed = Yes | Absent | UnlistedRepository

definition unpack_or_discard ::
  "'w os \<Rightarrow> externals \<Rightarrow> github_api \<Rightarrow> prebuilt_asset \<Rightarrow> asset_name \<Rightarrow> path \<Rightarrow> ('w, unit) io" where
  "unpack_or_discard os ext api asset name staging =
     (\<lambda>w. let (outcome, w1) = unpack os ext api (pre_archive asset) (pre_sidecar asset) staging w;
              w2 = (if is_ok outcome then w1 else snd (os_remove_dir_all os w1 staging))
          in (with_context (''failed to unpack '' @ asset_str name) outcome, w2))"

text \<open>Assembling the archive beside the directory it will become.\<close>

definition stage_archive ::
  "'w os \<Rightarrow> externals \<Rightarrow> environment \<Rightarrow> github_api \<Rightarrow> prebuilt_asset \<Rightarrow> asset_name \<Rightarrow> path \<Rightarrow> ('w, unit) io" where
  "stage_archive os ext env api asset name destination =
     (let staging = staging_directory env destination in
      io_bind (discard_existing os ''failed to discard the abandoned download at '' staging)
        (\<lambda>_. io_bind (io_lift (ok_or (Cause (LoadBail ''the prebuilt directory has no parent'')) (path_parent destination)))
          (\<lambda>parent. io_bind (io_context (''failed to create '' @ display parent)
               (io_call (\<lambda>w. os_create_dir_all os w parent)))
            (\<lambda>_. io_bind (io_context (''failed to create '' @ display staging)
                 (io_call (\<lambda>w. os_create_dir_all os w staging)))
              (\<lambda>_. unpack_or_discard os ext api asset name staging)))))"

definition install_found ::
  "'w os \<Rightarrow> externals \<Rightarrow> environment \<Rightarrow> github_api \<Rightarrow> prebuilt_asset \<Rightarrow> asset_name \<Rightarrow> path \<Rightarrow> ('w, installed) io" where
  "install_found os ext env api asset name destination =
     replace_directory os ''failed to discard the damaged directory at ''
       (stage_archive os ext env api asset name destination)
       (move_into_place os (holds_libraries os) ''failed to install the prebuilt lints at '' Yes
         (staging_directory env destination) destination)
       destination"

definition install ::
  "'w os \<Rightarrow> externals \<Rightarrow> environment \<Rightarrow> github_api \<Rightarrow> github_repository \<Rightarrow> asset_name \<Rightarrow> path \<Rightarrow>
   ('w, installed) io" where
  "install os ext env api repository name destination =
     io_bind (io_context (''failed to look for '' @ asset_str name @ '' in the releases of ''
         @ repository_display repository) (io_lift (find_asset ext api repository name)))
       (\<lambda>search. case search of
          NoMatch \<Rightarrow> io_ok Absent
        | Unlisted \<Rightarrow> io_ok UnlistedRepository
        | Found asset \<Rightarrow> install_found os ext env api asset name destination)"

section \<open>Asking for prebuilt lints\<close>

datatype prebuilt_notice =
    Unpublished git_lint_source asset_name
  | Unusable git_lint_source "load_error anyhow"

fun load_error_display :: "load_error \<Rightarrow> string" where
  "load_error_display (LoadBail msg) = msg"
| "load_error_display (PassPanicked p) = panic_message p"
| "load_error_display (SharedRule rule lang a b) =
     ''two lints declare `'' @ rule_name rule @ ''` for '' @ language_name lang @ '': one in '' @ display a
     @ '', one in '' @ display b @ ''. A rule id names one lint per language, so rename one of them''"
| "load_error_display (Handshake mismatch) = mismatch_display mismatch"

text \<open>\<open>{:#}\<close> of an \<open>anyhow::Error\<close>: the contexts and the cause in one line.\<close>

fun anyhow_alternate :: "('c \<Rightarrow> string) \<Rightarrow> 'c anyhow \<Rightarrow> string" where
  "anyhow_alternate show_cause (Cause c) = show_cause c"
| "anyhow_alternate show_cause (Context msg e) = msg @ '': '' @ anyhow_alternate show_cause e"

definition git_lint_source_display :: "environment \<Rightarrow> git_lint_source \<Rightarrow> string" where
  "git_lint_source_display env s =
     git_url_display (env_print_url env) (source_url s) @ '' at '' @ rev_str (source_rev s)"

fun notice_display :: "environment \<Rightarrow> prebuilt_notice \<Rightarrow> string" where
  "notice_display env (Unpublished lints name) =
     ''note: no prebuilt lints published for '' @ git_lint_source_display env lints @ '' as '' @ asset_str name
     @ ''; stiles builds them from source instead''"
| "notice_display env (Unusable lints error) =
     ''warning: stiles cannot use the prebuilt lints for '' @ git_lint_source_display env lints @ '': ''
     @ anyhow_alternate load_error_display error @ ''; it builds them from source instead''"

definition cached_prebuilt ::
  "'w os \<Rightarrow> environment \<Rightarrow> git_lint_source \<Rightarrow> abi_tag \<Rightarrow> 'w \<Rightarrow> (path option, load_error anyhow) result" where
  "cached_prebuilt os env source tag w =
     result_bind (with_context ''failed to find the cached prebuilt lints'' (prebuilt_directory env source tag))
       (\<lambda>directory. Ok (if holds_libraries os w directory then Some directory else None))"

definition prebuilt_download ::
  "'w os \<Rightarrow> externals \<Rightarrow> environment \<Rightarrow> github_repository \<Rightarrow> asset_name \<Rightarrow> path \<Rightarrow> ('w, installed) io" where
  "prebuilt_download os ext env repository name destination =
     io_bind (io_lift (api_from_environment ext env))
       (\<lambda>api. install os ext env api repository name destination)"

text \<open>\<open>fetch\<close> returns its answer with the notices it adds, which it adds on every path.\<close>

definition fetch ::
  "'w os \<Rightarrow> externals \<Rightarrow> environment \<Rightarrow> git_lint_source \<Rightarrow> abi_tag \<Rightarrow> 'w \<Rightarrow>
   (path option, load_error anyhow) result \<times> prebuilt_notice list \<times> 'w" where
  "fetch os ext env source tag w =
     (case with_context ''failed to find the directory for the prebuilt lints'' (prebuilt_directory env source tag) of
        Inl e \<Rightarrow> (Err e, [], w)
      | Inr directory \<Rightarrow>
          (case from_url (source_url source) (configured_repository_host ext env) of
             None \<Rightarrow> (Ok None, [], w)
           | Some repository \<Rightarrow>
               (let name = AssetName_new (source_rev source) tag;
                    (r, w') = prebuilt_download os ext env repository name directory w
                in case r of
                     Inr Yes \<Rightarrow> (Ok (Some directory), [], w')
                   | Inr Absent \<Rightarrow> (Ok None, [Unpublished source name], w')
                   | Inr UnlistedRepository \<Rightarrow> (Ok None, [], w')
                   | Inl error \<Rightarrow> (Ok None, [Unusable source error], w'))))"

lemma collect_results_map_Ok: "collect_results (map (\<lambda>x. Ok (f x)) xs) = Ok (map f xs)"
  by (simp add: collect_results_Ok)

lemma sort_key_Nil_iff: "sort_key f xs = [] \<longleftrightarrow> xs = []"
  by (metis length_0_conv length_sort)

lemma all_ok_names: "list_all is_ok rs \<Longrightarrow> \<exists>as. rs = map Ok as"
proof (induction rs)
  case (Cons r rs)
  then obtain a as where "r = Ok a" "rs = map Ok as"
    by (cases r) auto
  then have "r # rs = map Ok (a # as)" by simp
  then show ?case ..
qed simp

section \<open>Archives stay where they are unpacked\<close>

lemma root_file_name_ordinary: "root_file_name p = Some n \<Longrightarrow> ordinary_name n"
proof -
  assume "root_file_name p = Some n"
  then have "components p = [Normal n]"
    by (auto simp: root_file_name_def split: list.splits component.splits)
  then have "Normal n \<in> (\<lambda>c. if c = ''..'' then ParentDir else Normal c) ` set (path_components p)"
    by (auto simp: components_alt lead_component_def append_eq_Cons_conv split: list.splits if_splits)
  then have "n \<in> set (path_components p)" "n \<noteq> ''..''"
    by (auto split: if_splits)
  then show ?thesis
    using split_char_no_sep [of n "CHR ''/''" p] by (auto simp: path_components_def ordinary_name_def)
qed

context storage
begin

lemma extract_entries_keeps:
  "apart (components directory) q \<Longrightarrow> io_keeps (\<lambda>w. view w q) (extract_entries os archive directory es)"
proof (induction es)
  case (Cons e es)
  have "io_keeps (\<lambda>w. view w q) (io_call (\<lambda>w. os_write os w (path_join directory n) b))"
    if "root_file_name p = Some n" for p n b
    using Cons.prems root_file_name_ordinary [OF that]
    by (intro keeps_write) (simp add: components_join apart_extend)
  with Cons show ?case
    by (auto intro!: io_keeps_bind simp: keeps_pure split: option.splits)
qed simp

lemma extract_keeps:
  "apart (components directory) q \<Longrightarrow> io_keeps (\<lambda>w. view w q) (extract_archive os ext archive directory)"
  unfolding extract_archive_def by (auto intro!: io_keeps_bind simp: keeps_pure extract_entries_keeps)

lemma of_file_keeps: "io_keeps (\<lambda>w. view w q) (of_file os ext p)"
  unfolding of_file_def by (auto intro!: io_keeps_bind simp: keeps_pure)

lemma download_keeps:
  "apart (components p) q \<Longrightarrow> io_keeps (\<lambda>w. view w q) (download os ext api asset p)"
  unfolding download_def
  by (auto intro!: io_keeps_bind simp: keeps of_file_keeps Let_def case_prod_unfold)

lemma unpack_keeps:
  assumes "apart (components staging) q"
  shows "io_keeps (\<lambda>w. view w q) (unpack os ext api archive sidecar staging)"
proof -
  have "ordinary_name download_name" by (simp add: download_name_def ordinary_name_def)
  then have "apart (components (path_join staging download_name)) q"
    using assms by (simp add: components_join apart_extend)
  moreover have "io_keeps (\<lambda>w. view w q) (\<lambda>w. io_ensure (holds_libraries os w staging) msg w)" for msg
    by (simp add: io_keeps_def io_ensure_def)
  ultimately show ?thesis
    unfolding unpack_def Let_def
    by (auto intro!: io_keeps_bind simp: keeps download_keeps extract_keeps assms)
qed

text \<open>Whether a directory holds libraries depends on what stands in it.\<close>

definition subtree_holds :: "'t option \<Rightarrow> bool" where
  "subtree_holds t =
     (case children t of
        Inl _ \<Rightarrow> False
      | Inr ns \<Rightarrow> list_all is_ok ns \<and>
          list_ex (\<lambda>n. case n of Inl _ \<Rightarrow> False
             | Inr n \<Rightarrow> extension n = Some dll_extension \<and> regular t n) ns)"

lemma holds_libraries_view:
  "holds_libraries os w p \<longleftrightarrow> subtree_holds (view w (components p))"
proof (cases "children (view w (components p))")
  case (Inl e)
  then show ?thesis by (simp add: holds_libraries_def libraries_def subtree_holds_def read_dir_view)
next
  case (Inr ns)
  let ?wrap = "\<lambda>e. with_context (''failed to read an entry of '' @ display p) (map_err (\<lambda>e. Cause (LoadBail e)) e)"
  show ?thesis
  proof (cases "list_all is_ok ns")
    case False
    then obtain e where "Inl e \<in> set ns"
      by (auto simp: list_all_iff is_ok_def split: sum.splits) (metis old.sum.exhaust)
    then have "collect_results (map ?wrap (map (map_sum id (path_join p)) ns)) \<noteq> Ok paths" for paths
      by (force simp: collect_results_Ok dest!: arg_cong [of _ _ set])
    then show ?thesis
      using Inr False by (auto simp: holds_libraries_def libraries_def subtree_holds_def read_dir_view
          result_bind_eq_Ok split: sum.splits)
  next
    case True
    then obtain names where ns: "ns = map Ok names"
      using all_ok_names by blast
    have ord: "n \<in> set names \<Longrightarrow> ordinary_name n" for n using children_names [OF Inr] ns by auto
    have "libraries os w p = Ok (sort_key components
        (filter (\<lambda>q. extension q = Some dll_extension \<and> os_is_file os w q) (map (path_join p) names)))"
      using Inr by (simp add: libraries_def read_dir_view ns comp_def collect_results_map_Ok)
    then show ?thesis
      using Inr ord by (auto simp: holds_libraries_def subtree_holds_def ns list_all_iff list_ex_iff
          filter_empty_conv sort_key_Nil_iff extension_join is_file_view)
  qed
qed

end

text \<open>What an archive holds at its root: its regular files whose name is one ordinary component.\<close>

definition only_name :: "component list \<Rightarrow> string option" where
  "only_name cs = (case cs of [Normal n] \<Rightarrow> Some n | _ \<Rightarrow> None)"

definition root_file :: "(tar_entry, string) result \<Rightarrow> (string \<times> string) option" where
  "root_file e =
     (case e of
        Inl _ \<Rightarrow> None
      | Inr entry \<Rightarrow>
          (if \<not> entry_regular entry then None
           else case entry_file_path entry of
                  Inl _ \<Rightarrow> None
                | Inr p \<Rightarrow> map_option (\<lambda>n. (n, entry_contents entry)) (only_name (components p))))"

definition root_files :: "(tar_entry, string) result list \<Rightarrow> (string \<times> string) list" where
  "root_files es = List.map_filter root_file es"

lemma root_files_simps [simp]:
  "root_files [] = []"
  "root_files (e # es) = (case root_file e of None \<Rightarrow> root_files es | Some f \<Rightarrow> f # root_files es)"
  by (simp_all add: root_files_def List.map_filter_simps split: option.splits)

definition archive_files :: "'w os \<Rightarrow> externals \<Rightarrow> 'w \<Rightarrow> path \<Rightarrow> (string \<times> string) list" where
  "archive_files os ext w archive =
     (case result_bind (os_read os w archive) (ext_tar_entries ext) of Inl _ \<Rightarrow> [] | Inr es \<Rightarrow> root_files es)"

definition write_files :: "'w os \<Rightarrow> path \<Rightarrow> (string \<times> string) list \<Rightarrow> 'w \<Rightarrow> 'w" where
  "write_files os directory files w = fold (\<lambda>(n, b) w. snd (os_write os w (path_join directory n) b)) files w"

lemma write_files_simps [simp]:
  "write_files os directory [] w = w"
  "write_files os directory ((n, b) # files) w = write_files os directory files (snd (os_write os w (path_join directory n) b))"
  by (simp_all add: write_files_def)

lemma root_file_name_one: "root_file_name p = only_name (components p)"
  by (simp add: root_file_name_def only_name_def split: list.splits component.splits)

lemma root_file_Some:
  "root_file e = Some (n, b) \<longleftrightarrow> (\<exists>entry p. e = Ok entry \<and> entry_regular entry \<and> entry_file_path entry = Ok p \<and>
     root_file_name p = Some n \<and> b = entry_contents entry)"
  by (auto simp: root_file_def root_file_name_one split: sum.splits)

lemma root_files_ordinary: "(n, b) \<in> set (root_files es) \<Longrightarrow> ordinary_name n"
  by (induction es) (auto simp: root_file_Some intro: root_file_name_ordinary split: option.splits)

lemma extract_entries_writes:
  "extract_entries os archive directory es w = (r, w') \<Longrightarrow>
     \<exists>k \<le> length (root_files es). w' = write_files os directory (take k (root_files es)) w \<and>
       (r = Ok () \<longrightarrow> k = length (root_files es))"
proof (induction es arbitrary: w)
  case (Cons e es)
  show ?case
  proof (cases "root_file e")
    case None
    with Cons.prems have "(w' = w \<and> \<not> is_ok r) \<or> extract_entries os archive directory es w = (r, w')"
      by (cases e) (auto simp: io_bind_apply root_file_def root_file_name_one split: sum.splits if_splits option.splits)
    then show ?thesis
    proof
      assume "w' = w \<and> \<not> is_ok r"
      then show ?thesis by (intro exI [of _ 0]) auto
    qed (use None Cons.IH in simp)
  next
    case (Some f)
    obtain n b where f: "f = (n, b)" by fastforce
    let ?w1 = "snd (os_write os w (path_join directory n) b)"
    from Cons.prems Some have "(w' = ?w1 \<and> \<not> is_ok r) \<or> extract_entries os archive directory es ?w1 = (r, w')"
      by (cases "fst (os_write os w (path_join directory n) b)")
        (auto simp: f root_file_Some io_bind_apply split: sum.splits)
    then show ?thesis
    proof
      assume "w' = ?w1 \<and> \<not> is_ok r"
      then show ?thesis using Some f by (intro exI [of _ 1]) auto
    next
      assume "extract_entries os archive directory es ?w1 = (r, w')"
      from Cons.IH [OF this] obtain k where "k \<le> length (root_files es)"
        "w' = write_files os directory (take k (root_files es)) ?w1" "r = Ok () \<longrightarrow> k = length (root_files es)" by blast
      then show ?thesis using Some f by (intro exI [of _ "Suc k"]) auto
    qed
  qed
qed simp

text \<open>
  C17: Unpacking writes the regular files at the root of the archive, in their order, each under its
  own name directly in the directory, and does nothing else: a success has written all of them and a
  failure the first few. Every name is one ordinary component, so absolute names, names with
  \<open>..\<close>, names with directories, links and directories are passed over, and no path written
  has a \<open>..\<close> below the directory. On a storage without links, nothing outside the directory changes.
\<close>

theorem extract_stays_inside:
  assumes "extract_archive os ext archive directory w = (r, w')"
  shows "(\<exists>k \<le> length (archive_files os ext w archive).
       w' = write_files os directory (take k (archive_files os ext w archive)) w \<and>
       (r = Ok () \<longrightarrow> k = length (archive_files os ext w archive))) \<and>
     (\<forall>(n, b) \<in> set (archive_files os ext w archive).
        ordinary_name n \<and> components (path_join directory n) = components directory @ [Normal n]) \<and>
     (\<forall>q. storage os view children regular \<and> apart (components directory) q \<longrightarrow> view w' q = view w q)"
proof (intro conjI)
  show "\<exists>k \<le> length (archive_files os ext w archive).
      w' = write_files os directory (take k (archive_files os ext w archive)) w \<and>
      (r = Ok () \<longrightarrow> k = length (archive_files os ext w archive))"
  proof (cases "os_open os w archive")
    case (Inl e)
    with assms have "w' = w" "\<not> is_ok r" by (auto simp: extract_archive_def io_bind_apply)
    then show ?thesis by (intro exI [of _ 0]) auto
  next
    case (Inr u)
    show ?thesis
    proof (cases "result_bind (os_read os w archive) (ext_tar_entries ext)")
      case (Inl e)
      with assms Inr have "w' = w" "\<not> is_ok r" by (auto simp: extract_archive_def io_bind_apply)
      then show ?thesis by (intro exI [of _ 0]) auto
    next
      case entries: (Inr es)
      with assms Inr have "extract_entries os archive directory es w = (r, w')"
        by (simp add: extract_archive_def io_bind_apply)
      from extract_entries_writes [OF this] show ?thesis by (simp add: archive_files_def entries)
    qed
  qed
  show "\<forall>(n, b) \<in> set (archive_files os ext w archive).
      ordinary_name n \<and> components (path_join directory n) = components directory @ [Normal n]"
    by (auto simp: archive_files_def components_join dest: root_files_ordinary split: sum.splits)
  show "\<forall>q. storage os view children regular \<and> apart (components directory) q \<longrightarrow> view w' q = view w q"
    using storage.extract_keeps [of os view children regular directory, THEN io_keepsD, of _ ext archive w] assms by simp
qed

definition sample_externals :: externals where
  "sample_externals = \<lparr>ext_client = Ok (), ext_http_get = (\<lambda>_. Err ''offline''),
     ext_url_host = (\<lambda>_. Some ''api.github.com''), ext_parse_releases = (\<lambda>_. Some []),
     ext_sha256 = (\<lambda>_. replicate 32 0), ext_hex_decode = (\<lambda>_. Some (replicate 32 0)),
     ext_tar_entries = (\<lambda>_. Ok [Ok \<lparr>entry_regular = True, entry_file_path = Ok ''../evil.so'', entry_contents = ''x''\<rparr>,
        Ok \<lparr>entry_regular = True, entry_file_path = Ok ''a.so'', entry_contents = ''x''\<rparr>])\<rparr>"

definition sample_fs :: fs where
  "sample_fs = [(components ''/c/evil.so'', FsFile ''old''), (components ''/c/d'', FsDir),
     (components ''/c/d/archive.tar.gz'', FsFile [])]"

theorem extract_stays_inside_witness:
  "\<exists>w'. extract_archive fs_os sample_externals ''/c/d/archive.tar.gz'' ''/c/d'' sample_fs = (Ok (), w') \<and>
     w' = snd (os_write fs_os sample_fs ''/c/d/a.so'' ''x'') \<and>
     fs_view w' (components ''/c/evil.so'') = fs_view sample_fs (components ''/c/evil.so'')"
proof -
  let ?run = "extract_archive fs_os sample_externals ''/c/d/archive.tar.gz'' ''/c/d'' sample_fs"
  have ok: "fst ?run = Ok ()" by code_simp
  have files: "archive_files fs_os sample_externals sample_fs ''/c/d/archive.tar.gz'' = [(''a.so'', ''x'')]" by code_simp
  have "apart (components ''/c/d'') (components ''/c/evil.so'')" by code_simp
  with extract_stays_inside [where view = fs_view and children = fs_children and regular = fs_regular,
      OF surjective_pairing [of ?run]] fs.storage_axioms files ok
  have "snd ?run = write_files fs_os ''/c/d'' [(''a.so'', ''x'')] sample_fs"
    "fs_view (snd ?run) (components ''/c/evil.so'') = fs_view sample_fs (components ''/c/evil.so'')" by auto
  with ok show ?thesis by (intro exI [of _ "snd ?run"]) (simp add: prod_eq_iff path_join_def)
qed

section \<open>Installing is all or nothing\<close>

lemma staging_components:
  assumes "ordinary_name n"
  shows "components (staging_directory env (path_join x n)) =
    components x @ [Normal (n @ ''.'' @ decimal (env_process_id env) @ ''.partial'')]"
proof -
  let ?n = "n @ ''.'' @ decimal (env_process_id env) @ ''.partial''"
  have "CHR ''/'' \<notin> set (decimal k)" for k
  proof
    assume "CHR ''/'' \<in> set (decimal k)"
    then obtain d where "d < 10" "CHR ''/'' = digit d" using digit_set_decimal by blast
    then have "byte_of (CHR ''/'') = 48 + d" using byte_of_digit [of d] by simp
    then show False by simp
  qed
  then have "ordinary_name ?n" using assms by (auto simp: ordinary_name_def append_eq_Cons_conv)
  moreover have "staging_directory env (path_join x n) = path_join x ?n"
    using assms by (cases n) (auto simp: staging_directory_def path_join_def ordinary_name_def)
  ultimately show ?thesis by (simp add: components_join)
qed

lemma staging_apart:
  "ordinary_name n \<Longrightarrow> apart (components (staging_directory env (path_join x n))) (components (path_join x n))"
  by (simp add: staging_components components_join apart_def)

lemma parent_components:
  assumes "ordinary_name n" "path_parent (path_join x n) = Some parent"
  shows "components parent = components x"
proof -
  have "path_components (path_join x n) \<noteq> []"
    using file_name_join [OF assms(1), of x] by (auto simp: file_name_def)
  with assms(2) have "components parent = butlast (components (path_join x n))"
    using path_parent_components by fastforce
  then show ?thesis by (simp add: components_join [OF assms(1)])
qed

lemma parent_below:
  assumes "ordinary_name n" "path_parent (path_join x n) = Some parent"
  shows "\<not> prefix (components (path_join x n)) (components parent)"
  using prefix_length_le [of "components (path_join x n)" "components parent"]
  by (auto simp: parent_components [OF assms] components_join [OF assms(1)])

lemma path_parent_shorter_join:
  assumes "ordinary_name n" "path_parent (path_join x n) = Some parent"
  shows "length (components parent) < length (components (path_join x n))"
  using parent_components [OF assms] by (simp add: components_join [OF assms(1)])

lemma parent_prefix:
  assumes "ordinary_name n" "path_parent (path_join x n) = Some parent"
  shows "prefix (components parent) (components (path_join x n))"
  using parent_components [OF assms] by (simp add: components_join [OF assms(1)])

lemma unpack_holds:
  "unpack os ext api archive sidecar staging w = (Ok (), w') \<Longrightarrow> holds_libraries os w' staging"
  by (auto simp: unpack_def Let_def io_bind_Ok io_ensure_def split: if_splits)

context storage
begin

lemma unpack_or_discard_keeps:
  assumes "apart (components staging) q"
  shows "io_keeps (\<lambda>w. view w q) (unpack_or_discard os ext api asset name staging)"
  using io_keepsD [OF unpack_keeps [OF assms]]
  by (simp add: io_keeps_def unpack_or_discard_def Let_def case_prod_unfold remove_elsewhere assms)

lemma unpack_or_discard_holds:
  assumes "unpack_or_discard os ext api asset name staging w = (Ok (), w')"
  shows "holds_libraries os w' staging"
proof -
  obtain r w1 where u: "unpack os ext api (pre_archive asset) (pre_sidecar asset) staging w = (r, w1)"
    by (cases "unpack os ext api (pre_archive asset) (pre_sidecar asset) staging w")
  with assms have r: "r = Ok ()" and w': "w' = w1" by (auto simp: unpack_or_discard_def)
  show ?thesis unfolding w' by (rule unpack_holds [OF u [unfolded r]])
qed

lemma stage_archive_keeps:
  assumes n: "ordinary_name n"
  shows "io_keeps (\<lambda>w. view w (components (path_join x n))) (stage_archive os ext env api asset name (path_join x n))"
proof -
  note apart = staging_apart [OF n, of env x]
  have parent: "io_keeps (\<lambda>w. view w (components (path_join x n))) (io_call (\<lambda>w. os_create_dir_all os w parent))"
    if "path_parent (path_join x n) = Some parent" for parent
    by (rule keeps_create [OF parent_below [OF n that]])
  have staging: "io_keeps (\<lambda>w. view w (components (path_join x n)))
      (io_call (\<lambda>w. os_create_dir_all os w (staging_directory env (path_join x n))))"
    using apart by (intro keeps_create) (simp add: apart_def)
  show ?thesis
    unfolding stage_archive_def Let_def
    by (intro io_keeps_bind discard_existing_keeps unpack_or_discard_keeps apart io_keeps_bind_lift)
      (auto simp: staging parent ok_or_def split: option.splits)
qed

lemma stage_archive_holds:
  "fst (stage_archive os ext env api asset name d w) = Ok () \<Longrightarrow>
     holds_libraries os (snd (stage_archive os ext env api asset name d w)) (staging_directory env d)"
proof -
  assume "fst (stage_archive os ext env api asset name d w) = Ok ()"
  then have "stage_archive os ext env api asset name d w = (Ok (), snd (stage_archive os ext env api asset name d w))"
    by (simp add: prod_eq_iff)
  then obtain w1 where
    "unpack_or_discard os ext api asset name (staging_directory env d) w1 =
       (Ok (), snd (stage_archive os ext env api asset name d w))"
    by (subst (asm) (1) stage_archive_def) (auto simp: Let_def io_bind_Ok)
  then show ?thesis by (rule unpack_or_discard_holds)
qed

lemma stage_archive_elsewhere:
  assumes n: "ordinary_name n" and d: "apart (components (path_join x n)) q"
    and st: "apart (components (staging_directory env (path_join x n))) q"
  shows "io_keeps (\<lambda>w. view w q) (stage_archive os ext env api asset name (path_join x n))"
proof -
  have parent: "io_keeps (\<lambda>w. view w q) (io_call (\<lambda>w. os_create_dir_all os w parent))"
    if "path_parent (path_join x n) = Some parent" for parent
  proof (rule keeps_create)
    show "\<not> prefix q (components parent)"
      using d parent_prefix [OF n that] prefix_order.trans by (auto simp: apart_def)
  qed
  have staging: "io_keeps (\<lambda>w. view w q) (io_call (\<lambda>w. os_create_dir_all os w (staging_directory env (path_join x n))))"
    using st by (intro keeps_create) (simp add: apart_def)
  show ?thesis
    unfolding stage_archive_def Let_def
    by (intro io_keeps_bind discard_existing_keeps unpack_or_discard_keeps st io_keeps_bind_lift)
      (auto simp: staging parent ok_or_def split: option.splits)
qed

end

text \<open>
  The archive is complete and verified: it was downloaded into \<open>staging\<close>, its bytes have the digest
  that the sidecar publishes, every entry of it was unpacked, and then it was removed.
\<close>

definition verified_unpack ::
  "'w os \<Rightarrow> externals \<Rightarrow> github_api \<Rightarrow> release_asset \<Rightarrow> release_asset \<Rightarrow> path \<Rightarrow> 'w \<Rightarrow> 'w \<Rightarrow> bool" where
  "verified_unpack os ext api archive sidecar staging w w' \<longleftrightarrow>
     (let p = path_join staging download_name in
      \<exists>text contents w1 w2. download_text ext api sidecar = Ok text \<and>
        from_sidecar ext text = Ok (Sha256Digest (ext_sha256 ext contents)) \<and>
        download os ext api archive p w = (Ok (Sha256Digest (ext_sha256 ext contents)), w1) \<and>
        os_read os w1 p = Ok contents \<and>
        extract_archive os ext p staging w1 = (Ok (), w2) \<and>
        os_remove_file os w2 p = (Ok (), w'))"

lemma unpack_verified:
  assumes run: "unpack os ext api archive sidecar staging w = (Ok (), w')"
  shows "verified_unpack os ext api archive sidecar staging w w'"
proof -
  let ?p = "path_join staging download_name"
  from run obtain side published where
    side: "download_text ext api sidecar = Ok side" and pub: "from_sidecar ext side = Ok published"
    and down: "fst (download os ext api archive ?p w) = Ok published"
    and out: "fst (extract_archive os ext ?p staging (snd (download os ext api archive ?p w))) = Ok ()"
      "fst (os_remove_file os (snd (extract_archive os ext ?p staging (snd (download os ext api archive ?p w)))) ?p) = Ok ()"
      "snd (os_remove_file os (snd (extract_archive os ext ?p staging (snd (download os ext api archive ?p w)))) ?p) = w'"
    by (auto simp: unpack_def Let_def io_bind_Ok io_ensure_def split: if_splits)
  from down have "download os ext api archive ?p w = (Ok published, snd (download os ext api archive ?p w))"
    by (simp add: prod_eq_iff)
  then obtain contents where "os_read os (snd (download os ext api archive ?p w)) ?p = Ok contents"
    "published = Sha256Digest (ext_sha256 ext contents)"
    by (subst (asm) (1) download_def) (auto simp: of_file_def io_bind_Ok Let_def case_prod_unfold)
  with side pub down out show ?thesis
    unfolding verified_unpack_def Let_def by (metis prod.collapse)
qed

context storage_moves
begin

lemma stage_archive_unpacked:
  assumes n: "ordinary_name n" and d: "d = path_join x n"
    and run: "stage_archive os ext env api asset name d w = (Ok (), w')"
  shows "\<exists>w1. children (view w1 (components (staging_directory env d))) = Ok [] \<and>
     unpack os ext api (pre_archive asset) (pre_sidecar asset) (staging_directory env d) w1 = (Ok (), w')"
proof -
  let ?st = "staging_directory env d"
  from run obtain parent w1 w2 w3 where w1: "w1 = snd (discard_existing os ''failed to discard the abandoned download at '' ?st w)"
      "fst (discard_existing os ''failed to discard the abandoned download at '' ?st w) = Ok ()"
    and parent: "path_parent d = Some parent" "w2 = snd (os_create_dir_all os w1 parent)"
    and w3: "fst (os_create_dir_all os w2 ?st) = Ok ()" "w3 = snd (os_create_dir_all os w2 ?st)"
    and out: "unpack_or_discard os ext api asset name ?st w3 = (Ok (), w')"
    by (auto simp: stage_archive_def Let_def io_bind_Ok ok_or_def split: option.splits)
  have "\<not> prefix (components ?st) (components parent)"
  proof
    assume "prefix (components ?st) (components parent)"
    then have "length (components ?st) \<le> length (components parent)" by (rule prefix_length_le)
    moreover have "length (components parent) < length (components d)"
      using path_parent_shorter_join [OF n parent(1) [unfolded d]] by (simp add: d)
    ultimately show False by (simp add: d staging_components [OF n] components_join [OF n])
  qed
  then have "view w2 (components ?st) = None"
    using discard_existing_done [OF w1(2)] w1(1) create_elsewhere [of "components ?st" parent w1] parent(2) by simp
  from create_empty [OF this w3(1)] out w3(2) show ?thesis
    by (auto simp: unpack_or_discard_def Let_def split: prod.splits)
qed

lemma install_found_outcome:
  assumes n: "ordinary_name n" and d: "d = path_join x n" and st: "st = staging_directory env d"
    and run: "install_found os ext env api asset name d w = (r, w')"
  shows "(r = Ok Yes \<and> (\<exists>w1 w2. children (view w1 (components st)) = Ok [] \<and>
            verified_unpack os ext api (pre_archive asset) (pre_sidecar asset) st w1 w2 \<and>
            view w' (components d) = view w2 (components st) \<and> holds_libraries os w' d)) \<or>
      (\<not> is_ok r \<and> (view w' (components d) = None \<or>
         (\<exists>e. fst (os_remove_dir_all os w d) = Err e \<and> w' = snd (os_remove_dir_all os w d))))"
proof -
  have sees: "sees_view (holds_libraries os)" by (simp add: sees_view_def holds_libraries_view)
  have absent: "\<forall>w p. view w (components p) = None \<longrightarrow> \<not> holds_libraries os w p"
    using children_missing by (cases "children None") (auto simp: holds_libraries_view subtree_holds_def)
  have apart: "apart (components st) (components d)" using staging_apart [OF n] by (simp add: st d)
  have keeps: "io_keeps (\<lambda>w. view w (components d)) (stage_archive os ext env api asset name d)"
    using stage_archive_keeps [OF n] by (simp add: d)
  from replace_directory_replaced [OF apart sees absent keeps run [unfolded install_found_def, folded st]]
  show ?thesis
  proof
    assume "r = Ok Yes \<and> (\<exists>w1 w2. stage_archive os ext env api asset name d w1 = (Ok (), w2) \<and>
      view w' (components d) = view w2 (components st))"
    then obtain w1 w2 where r: "r = Ok Yes" and stage: "stage_archive os ext env api asset name d w1 = (Ok (), w2)"
      and same: "view w' (components d) = view w2 (components st)" by blast
    from stage_archive_unpacked [OF n d stage, folded st] obtain w3 where
      w3: "children (view w3 (components st)) = Ok []"
        "unpack os ext api (pre_archive asset) (pre_sidecar asset) st w3 = (Ok (), w2)" by blast
    have "holds_libraries os w' d"
      using unpack_holds [OF w3(2)] by (simp add: holds_libraries_view same)
    with r w3 same unpack_verified [OF w3(2)] show ?thesis by blast
  qed (rule disjI2)
qed

lemma install_found_elsewhere:
  assumes "ordinary_name n" "apart (components (path_join x n)) q"
    "apart (components (staging_directory env (path_join x n))) q"
  shows "io_keeps (\<lambda>w. view w q) (install_found os ext env api asset name (path_join x n))"
  unfolding install_found_def
  by (intro replace_directory_elsewhere stage_archive_elsewhere assms)

end

text \<open>
  C15: Installing prebuilt lints is all or nothing, and stays in its place. When the releases cannot
  be read or do not have the archive, nothing on disk changes. When it reports success, the
  directory is what unpacking the archive into an empty directory beside it left, completely and
  with the digest that the sidecar publishes, and it holds a library. A failure leaves no
  half-written directory: what was there has been discarded and nothing stands in its place, or
  the system refused to discard it and nothing else was tried. In every case nothing changes apart
  from the directory and the staging directory beside it.
\<close>

theorem install_all_or_nothing:
  assumes "storage_moves os view children regular" and "ordinary_name n"
    and "install os ext env api repository name (path_join x n) w = (r, w')"
  shows "let d = path_join x n; st = staging_directory env d in
    (case find_asset ext api repository name of
       Inl e \<Rightarrow> \<not> is_ok r \<and> w' = w
     | Inr NoMatch \<Rightarrow> r = Ok Absent \<and> w' = w
     | Inr Unlisted \<Rightarrow> r = Ok UnlistedRepository \<and> w' = w
     | Inr (Found asset) \<Rightarrow>
         (r = Ok Yes \<and> (\<exists>w1 w2. children (view w1 (components st)) = Ok [] \<and>
            verified_unpack os ext api (pre_archive asset) (pre_sidecar asset) st w1 w2 \<and>
            view w' (components d) = view w2 (components st) \<and> holds_libraries os w' d)) \<or>
         (\<not> is_ok r \<and> (view w' (components d) = None \<or>
            (\<exists>e. fst (os_remove_dir_all os w d) = Err e \<and> w' = snd (os_remove_dir_all os w d))))) \<and>
    (\<forall>q. apart (components d) q \<and> apart (components st) q \<longrightarrow> view w' q = view w q)"
proof (cases "find_asset ext api repository name")
  case (Inl e)
  with assms(3) show ?thesis by (auto simp: install_def io_bind_err_step Let_def)
next
  case (Inr search)
  then have step: "(case search of NoMatch \<Rightarrow> io_ok Absent | Unlisted \<Rightarrow> io_ok UnlistedRepository
      | Found asset \<Rightarrow> install_found os ext env api asset name (path_join x n)) w = (r, w')"
    using assms(3) by (simp add: install_def io_bind_ok_step)
  show ?thesis
  proof (cases search)
    case (Found asset)
    with step have run: "install_found os ext env api asset name (path_join x n) w = (r, w')" by simp
    from storage_moves.install_found_outcome [OF assms(1,2) refl refl run]
      storage_moves.install_found_elsewhere [OF assms(1,2), THEN io_keepsD, of x _ env ext api asset name w] run
    show ?thesis by (simp add: Let_def Inr Found)
  qed (use step Inr in \<open>auto simp: Let_def\<close>)
qed

text \<open>A release that lists the archive, on a host that goes away before its files arrive.\<close>

definition listing_externals :: externals where
  "listing_externals = sample_externals\<lparr>
     ext_http_get := (\<lambda>r. if req_url r = ''s'' then Err ''offline''
        else Ok \<lparr>resp_status = 200, resp_body = [], resp_broken = False\<rparr>),
     ext_parse_releases := (\<lambda>_. Some [\<lparr>release_draft = False, release_assets =
        [\<lparr>asset_name_of = ''a.tar.gz'', asset_url = ''u''\<rparr>, \<lparr>asset_name_of = ''a.tar.gz.sha256'', asset_url = ''s''\<rparr>]\<rparr>])\<rparr>"

definition sample_api :: github_api where
  "sample_api = \<lparr>api_base = ''https://api.github.com'', api_host = Some ''api.github.com'', api_token = Some ''t''\<rparr>"

definition sample_repository :: github_repository where
  "sample_repository = \<lparr>repo_owner = ''o'', repo_name = ''r''\<rparr>"

definition listed_asset :: prebuilt_asset where
  "listed_asset = \<lparr>pre_archive = \<lparr>asset_name_of = ''a.tar.gz'', asset_url = ''u''\<rparr>,
     pre_sidecar = \<lparr>asset_name_of = ''a.tar.gz.sha256'', asset_url = ''s''\<rparr>\<rparr>"

lemma read_text_short:
  "\<not> resp_broken r \<Longrightarrow> utf8_valid (resp_body r) \<Longrightarrow> length (resp_body r) \<le> cap \<Longrightarrow>
     read_text r cap what = Ok (resp_body r)"
  by (simp add: read_text_def read_at_most_def)

lemma find_listed_asset:
  "find_asset listing_externals sample_api sample_repository (AssetName ''a.tar.gz'') = Ok (Found listed_asset)"
  by (simp add: find_asset_def api_get_def listing_externals_def sample_api_def sample_repository_def
      api_request_def read_text_short status_success_def select_asset_def asset_sidecar_def
      repository_display_def listed_asset_def Let_def)

lemma listing_unpack_fails:
  "fst (unpack_or_discard os listing_externals sample_api listed_asset name staging w) \<noteq> Ok u"
proof -
  have "fst (unpack os listing_externals sample_api (pre_archive listed_asset) (pre_sidecar listed_asset) staging w) \<noteq> Ok ()"
    by (simp add: unpack_def Let_def io_bind_apply io_context_def io_lift_def download_text_def asset_response_def
        api_get_def listing_externals_def listed_asset_def api_request_def)
  then show ?thesis
    by (simp add: unpack_or_discard_def Let_def case_prod_unfold)
qed

theorem install_all_or_nothing_witness:
  "\<not> is_ok (fst (install fs_os listing_externals sample_environment sample_api sample_repository
      (AssetName ''a.tar.gz'') (path_join ''/c'' ''d'') sample_fs)) \<and>
   fs_view (snd (install fs_os listing_externals sample_environment sample_api sample_repository
      (AssetName ''a.tar.gz'') (path_join ''/c'' ''d'') sample_fs)) (components (path_join ''/c'' ''d''))
     \<in> {None, fs_view sample_fs (components (path_join ''/c'' ''d''))}"
proof -
  let ?run = "install fs_os listing_externals sample_environment sample_api sample_repository
      (AssetName ''a.tar.gz'') (path_join ''/c'' ''d'') sample_fs"
  have "fst ?run \<noteq> Ok r" for r
    by (auto simp: install_def install_found_def replace_directory_def stage_archive_def Let_def io_bind_apply find_listed_asset
        listing_unpack_fails split: sum.splits)
  then have fails: "\<not> is_ok (fst ?run)" by (cases "fst ?run") auto
  have removed: "fst (os_remove_dir_all fs_os sample_fs (path_join ''/c'' ''d'')) = Ok ()" and "ordinary_name ''d''"
    by code_simp+
  then show ?thesis
    using fails install_all_or_nothing [OF fs_moves.storage_moves_axioms, of "''d''", OF _ surjective_pairing [of ?run]]
    by (auto simp: Let_def find_listed_asset)
qed

section \<open>Digests and tokens\<close>

lemma digit_graphic: "n < 16 \<Longrightarrow> 33 \<le> byte_of (digit n) \<and> byte_of (digit n) < (128::nat)"
  by (auto simp: byte_of_digit)

lemma hex_pad_digits: "c \<in> set (hex_pad w n) \<Longrightarrow> \<exists>k < 16. c = digit k"
  by (induction w arbitrary: n) (auto intro: exI [of _ "n mod 16" for n])

lemma ascii_lower_digit: "n < 16 \<Longrightarrow> ascii_lower (digit n) = digit n"
  using byte_of_digit [of n] by (auto simp: ascii_lower_def less_eq_char_def split: if_splits)

text \<open>A sidecar in the spelling of \<open>sha256sum\<close>, or a digest on its own, reads back as the digest.\<close>

lemma from_sidecar_display:
  assumes hex: "ext_hex_decode ext (sha256_display d) = Some (digest_bytes d)"
    and len: "length (digest_bytes d) = 32" and rest: "rest = [] \<or> 0 < ws_len rest"
  shows "from_sidecar ext (sha256_display d @ rest) = Ok d"
proof -
  have digits: "\<exists>k < 16. c = digit k" if "c \<in> set (sha256_display d)" for c
    using that hex_pad_digits by (auto simp: sha256_display_def)
  have "length (concat (map (hex_pad 2) bs)) = 2 * length bs" for bs
    by (induction bs) auto
  then have l: "length (sha256_display d) = 64" by (simp add: sha256_display_def len)
  have "\<forall>c \<in> set (sha256_display d). 33 \<le> byte_of c \<and> byte_of c < (128::nat)"
    using digits digit_graphic by metis
  then have "first_word (sha256_display d @ rest) = Some (sha256_display d)"
    using rest l by (intro first_word_ascii) auto
  moreover have "to_ascii_lowercase (sha256_display d) = sha256_display d"
    unfolding to_ascii_lowercase_def using digits ascii_lower_digit by (intro map_idI) metis
  ultimately show ?thesis
    using hex l by (simp add: from_sidecar_def)
qed

text \<open>
  C16: No byte of an archive is unpacked before its digest is checked. When unpacking succeeds, the
  file that was unpacked hashes to the digest that the sidecar publishes, and the directory holds a
  library; when the digests differ, unpacking fails and the only thing it did is the download.
\<close>

theorem unpack_verifies:
  "(unpack os ext api archive sidecar staging w = (Ok (), w') \<longrightarrow>
      (\<exists>text contents w1. download_text ext api sidecar = Ok text \<and>
         os_read os w1 (path_join staging download_name) = Ok contents \<and>
         from_sidecar ext text = Ok (Sha256Digest (ext_sha256 ext contents)) \<and>
         fst (extract_archive os ext (path_join staging download_name) staging w1) = Ok () \<and>
         holds_libraries os w' staging)) \<and>
   (download_text ext api sidecar = Ok text \<and> from_sidecar ext text = Ok published \<and>
    download os ext api archive (path_join staging download_name) w = (Ok arrived, w1) \<and> arrived \<noteq> published \<longrightarrow>
      \<not> is_ok (fst (unpack os ext api archive sidecar staging w)) \<and>
      snd (unpack os ext api archive sidecar staging w) = w1)"
proof (intro conjI impI)
  assume run: "unpack os ext api archive sidecar staging w = (Ok (), w')"
  from unpack_verified [OF run] unpack_holds [OF run] show "\<exists>text contents w1. download_text ext api sidecar = Ok text \<and>
      os_read os w1 (path_join staging download_name) = Ok contents \<and>
      from_sidecar ext text = Ok (Sha256Digest (ext_sha256 ext contents)) \<and>
      fst (extract_archive os ext (path_join staging download_name) staging w1) = Ok () \<and> holds_libraries os w' staging"
    unfolding verified_unpack_def Let_def by (metis fst_conv)
qed (auto simp: unpack_def Let_def io_bind_apply io_ensure_def io_context_def io_lift_def)

text \<open>A host that answers every request with a sidecar of zeros, and a hash that gives ones.\<close>

definition zeros_text :: string where
  "zeros_text = replicate 64 (CHR ''0'')"

definition zeros_externals :: externals where
  "zeros_externals = sample_externals\<lparr>
     ext_http_get := (\<lambda>_. Ok \<lparr>resp_status = 200, resp_body = zeros_text, resp_broken = False\<rparr>),
     ext_sha256 := (\<lambda>_. [1])\<rparr>"

lemma zeros_text_props: "utf8_valid zeros_text" "length zeros_text = 64" "first_word zeros_text = Some zeros_text"
proof -
  have z: "\<forall>c \<in> set zeros_text. 33 \<le> byte_of c \<and> byte_of c < (128::nat)" by (simp add: zeros_text_def)
  then show "utf8_valid zeros_text" by (intro utf8_valid_ascii) blast
  show "length zeros_text = 64" by (simp add: zeros_text_def)
  then have "zeros_text \<noteq> []" by auto
  then show "first_word zeros_text = Some zeros_text"
    using first_word_ascii [OF _ z, of "[]"] by simp
qed

lemma zeros_response: "asset_response zeros_externals api asset =
    Ok \<lparr>resp_status = 200, resp_body = zeros_text, resp_broken = False\<rparr>"
  by (simp add: asset_response_def api_get_def status_success_def zeros_externals_def)

theorem unpack_verifies_witness:
  "\<not> is_ok (fst (unpack fs_os zeros_externals sample_api (pre_archive listed_asset) (pre_sidecar listed_asset) ''/c/d'' []))"
proof -
  let ?p = "path_join ''/c/d'' download_name"
  have side: "download_text zeros_externals sample_api (pre_sidecar listed_asset) = Ok zeros_text"
    by (simp add: download_text_def zeros_response read_text_short zeros_text_props max_sidecar_def)
  have pub: "from_sidecar zeros_externals zeros_text = Ok (Sha256Digest (replicate 32 0))"
    by (simp add: from_sidecar_def zeros_text_props) (simp add: zeros_externals_def sample_externals_def)
  have hash: "ext_sha256 zeros_externals = (\<lambda>_. [1])" by (simp add: zeros_externals_def)
  have down: "download fs_os zeros_externals sample_api (pre_archive listed_asset) ?p [] =
      (Ok (Sha256Digest [1]), [(components ?p, FsFile zeros_text)])"
    by (simp add: download_def zeros_response read_at_most_def max_archive_def zeros_text_props
        io_bind_apply of_file_def fs_os_def fs_without_def io_context_def io_call_def hash)
  have "[1::nat] \<noteq> replicate 32 0" by (metis One_nat_def length_Cons length_replicate list.size(3) num.distinct(1) numeral_eq_one_iff)
  then have "Sha256Digest [1] \<noteq> Sha256Digest (replicate 32 0)" by blast
  with side pub down show ?thesis
    using unpack_verifies [THEN conjunct2, THEN mp, OF conjI [OF side conjI [OF pub conjI [OF down]]]]
    by blast
qed

text \<open>
  C18: The token never leaves the API's own host. A request built by an API read from the
  environment carries an authorization only when its URL is on the host of the configured API,
  compared without regard to case, and then it carries a non-empty token; a request to any other
  host carries none.
\<close>

theorem token_stays_on_host:
  assumes "api_from_environment ext env = Ok api"
    and "req_authorization (api_request ext api url accept) = Some v"
  shows "\<exists>api_h url_h token. ext_url_host ext (api_base api) = Some api_h \<and> ext_url_host ext url = Some url_h \<and>
    to_ascii_lowercase url_h = to_ascii_lowercase api_h \<and> token \<noteq> [] \<and> v = ''Bearer '' @ token"
proof -
  have lower: "to_ascii_lowercase (to_ascii_lowercase s) = to_ascii_lowercase s" for s
    by (auto simp: to_ascii_lowercase_def ascii_lower_def less_eq_char_def)
  have present: "find_map (\<lambda>x. present (env_text env x)) vs = Some t \<Longrightarrow> t \<noteq> []" for vs t
    by (induction vs) (auto simp: present_def split: option.splits if_splits)
  from assms(1) have api: "api_host api = map_option to_ascii_lowercase (ext_url_host ext (api_base api))"
    "api_token api = find_map (\<lambda>x. present (env_text env x)) [''GH_TOKEN'', ''GITHUB_TOKEN'']"
    by (auto simp: api_from_environment_def host_of_def Let_def result_bind_eq_Ok)
  from assms(2) obtain token where tok: "api_token api = Some token" and sv: "serves ext api url"
    and v: "v = ''Bearer '' @ token"
    by (auto simp: api_request_def split: option.splits if_splits)
  from sv api(1) obtain h u where "ext_url_host ext (api_base api) = Some h" "ext_url_host ext url = Some u"
    "to_ascii_lowercase u = to_ascii_lowercase h"
    by (auto simp: serves_def lower split: option.splits)
  moreover have "token \<noteq> []" using present [of "[''GH_TOKEN'', ''GITHUB_TOKEN'']"] tok api(2) by metis
  ultimately show ?thesis using v by blast
qed

definition token_environment :: environment where
  "token_environment = sample_environment\<lparr>env_var := (\<lambda>v. if v = ''GH_TOKEN'' then Some ''t'' else None)\<rparr>"

theorem token_stays_on_host_witness:
  "\<exists>token. token \<noteq> [] \<and> req_authorization (api_request sample_externals sample_api ''https://api.github.com/x'' OctetStream) =
     Some (''Bearer '' @ token)"
proof -
  have api: "api_from_environment sample_externals token_environment = Ok sample_api"
    by code_simp
  have "req_authorization (api_request sample_externals sample_api ''https://api.github.com/x'' OctetStream) =
      Some (''Bearer '' @ ''t'')" by code_simp
  with token_stays_on_host [OF api this] show ?thesis by auto
qed

end
