(* ===== verification/GitSource.thy ===== *)
theory GitSource
  imports Prebuilt
begin

text \<open>
  Checkouts of pinned repositories: \<open>crates/stiles/src/custom_lints/git_source.rs\<close>. Gitoxide is the
  record \<open>gix\<close>, one field per call that the code makes; object ids and trees are the text it gives
  for them. The locale \<open>git_store\<close> adds to a file system what git documents of a detached \<open>HEAD\<close>.
\<close>

section \<open>Gitoxide\<close>

record 'w gix =
  gix_head_id :: "'w \<Rightarrow> path \<Rightarrow> string option"
  gix_from_hex :: "string \<Rightarrow> string option"
  gix_oid_display :: "string \<Rightarrow> string"
  gix_git_dir :: "path \<Rightarrow> path"
  gix_init :: "'w \<Rightarrow> path \<Rightarrow> (unit, string) result \<times> 'w"
  gix_remote_at :: "gix_url \<Rightarrow> (unit, string) result"
  gix_refspec :: "string \<Rightarrow> (unit, string) result"
  gix_connect :: "gix_url \<Rightarrow> (unit, string) result"
  gix_negotiate :: "gix_url \<Rightarrow> (unit, string) result"
  gix_receive :: "'w \<Rightarrow> path \<Rightarrow> gix_url \<Rightarrow> string \<Rightarrow> nat \<Rightarrow> (unit, string) result \<times> 'w"
  gix_find_object :: "'w \<Rightarrow> path \<Rightarrow> string \<Rightarrow> (string, string) result"
  gix_peel_to_commit :: "string \<Rightarrow> (string, string) result"
  gix_tree_id :: "string \<Rightarrow> (string, string) result"
  gix_index_from_tree :: "'w \<Rightarrow> path \<Rightarrow> string \<Rightarrow> (string, string) result"
  gix_workdir :: "'w \<Rightarrow> path \<Rightarrow> path option"
  gix_checkout :: "'w \<Rightarrow> path \<Rightarrow> string \<Rightarrow> path \<Rightarrow> (string, string) result \<times> 'w"
  gix_index_write :: "'w \<Rightarrow> path \<Rightarrow> string \<Rightarrow> (unit, string) result \<times> 'w"

section \<open>A checkout at its commit\<close>

definition git_holds :: "'w gix \<Rightarrow> 'w \<Rightarrow> path \<Rightarrow> git_rev \<Rightarrow> bool" where
  "git_holds gix w directory r =
     (case gix_head_id gix w directory of
        None \<Rightarrow> False
      | Some head \<Rightarrow>
          (case gix_from_hex gix (rev_str r) of
             None \<Rightarrow> False
           | Some pinned \<Rightarrow> head = pinned))"

definition cached_checkout ::
  "'w gix \<Rightarrow> environment \<Rightarrow> git_lint_source \<Rightarrow> 'w \<Rightarrow> (path option, load_error anyhow) result" where
  "cached_checkout gix env source w =
     result_bind (with_context ''failed to find the cached checkout'' (checkout_directory env source))
       (\<lambda>destination. Ok (if git_holds gix w destination (source_rev source) then Some destination else None))"

definition url_text :: "environment \<Rightarrow> git_lint_source \<Rightarrow> string" where
  "url_text env source = git_url_display (env_print_url env) (source_url source)"

definition git_fetch :: "'w gix \<Rightarrow> environment \<Rightarrow> path \<Rightarrow> git_lint_source \<Rightarrow> ('w, unit) io" where
  "git_fetch gix env repository source =
     (let r = rev_str (source_rev source); url = gix_url_of (source_url source); shown = url_text env source;
          refspec = ''+'' @ r @ '':refs/commit/'' @ r
      in io_bind (io_context (''failed to build a remote for '' @ shown) (io_call (\<lambda>w. (gix_remote_at gix url, w))))
           (\<lambda>_. io_bind (io_context ''failed to build the fetch refspec'' (io_call (\<lambda>w. (gix_refspec gix refspec, w))))
             (\<lambda>_. io_bind (io_context (''failed to connect to '' @ shown) (io_call (\<lambda>w. (gix_connect gix url, w))))
               (\<lambda>_. io_bind (io_context (''failed to negotiate a fetch with '' @ shown) (io_call (\<lambda>w. (gix_negotiate gix url, w))))
                 (\<lambda>_. io_context (''failed to fetch '' @ r @ '' from '' @ shown)
                    (io_call (\<lambda>w. gix_receive gix w repository url refspec 1)))))))"

definition head_path :: "'w gix \<Rightarrow> path \<Rightarrow> path" where
  "head_path gix repository = path_join (gix_git_dir gix repository) ''HEAD''"

definition detach_head :: "'w os \<Rightarrow> 'w gix \<Rightarrow> path \<Rightarrow> string \<Rightarrow> ('w, unit) io" where
  "detach_head os gix repository commit =
     io_context (''failed to write '' @ display (head_path gix repository))
       (io_call (\<lambda>w. os_write os w (head_path gix repository) (gix_oid_display gix commit @ newline)))"

text \<open>From the fetched commit to its tree, and from the tree to the files.\<close>

definition commit_tree :: "'w gix \<Rightarrow> environment \<Rightarrow> git_lint_source \<Rightarrow> path \<Rightarrow> string \<Rightarrow> ('w, string) io" where
  "commit_tree gix env source repository commit =
     io_bind (io_context (url_text env source @ '' does not serve the commit '' @ rev_str (source_rev source))
         (io_call (\<lambda>w. (gix_find_object gix w repository commit, w))))
       (\<lambda>found. io_bind (io_context (rev_str (source_rev source) @ '' is not a commit'')
            (io_call (\<lambda>w. (gix_peel_to_commit gix found, w))))
          (\<lambda>peeled. io_context ''failed to read the commit's tree'' (io_call (\<lambda>w. (gix_tree_id gix peeled, w)))))"

definition write_tree :: "'w gix \<Rightarrow> path \<Rightarrow> string \<Rightarrow> ('w, unit) io" where
  "write_tree gix repository tree =
     io_bind (io_context ''failed to build an index from the commit's tree''
         (io_call (\<lambda>w. (gix_index_from_tree gix w repository tree, w))))
       (\<lambda>index. io_bind (\<lambda>w. (ok_or (Cause (LoadBail ''the fetched repository has no working tree'')) (gix_workdir gix w repository), w))
         (\<lambda>workdir. io_bind (io_context ''failed to write the working tree''
              (io_call (\<lambda>w. gix_checkout gix w repository index workdir)))
            (\<lambda>index'. io_context ''failed to write the index'' (io_call (\<lambda>w. gix_index_write gix w repository index')))))"

definition materialize :: "'w os \<Rightarrow> 'w gix \<Rightarrow> environment \<Rightarrow> git_lint_source \<Rightarrow> path \<Rightarrow> ('w, unit) io" where
  "materialize os gix env source staging =
     (let r = rev_str (source_rev source) in
      io_bind (io_context (''failed to create a repository at '' @ display staging) (io_call (\<lambda>w. gix_init gix w staging)))
        (\<lambda>_. io_bind (io_context (''failed to fetch '' @ r @ '' from '' @ url_text env source) (git_fetch gix env staging source))
          (\<lambda>_. io_bind (io_context (''failed to read '' @ r @ '' as a commit hash'')
                 (io_lift (ok_or (Cause (LoadBail ''invalid object id'')) (gix_from_hex gix r))))
            (\<lambda>commit. io_bind (commit_tree gix env source staging commit)
              (\<lambda>tree. io_bind (write_tree gix staging tree)
                (\<lambda>_. io_context (''failed to point HEAD at '' @ gix_oid_display gix commit)
                   (detach_head os gix staging commit)))))))"

definition stage_checkout :: "'w os \<Rightarrow> 'w gix \<Rightarrow> environment \<Rightarrow> git_lint_source \<Rightarrow> path \<Rightarrow> ('w, unit) io" where
  "stage_checkout os gix env source destination =
     (let staging = staging_directory env destination in
      io_bind (discard_existing os ''failed to discard the abandoned checkout at '' staging)
        (\<lambda>_. io_bind (io_lift (ok_or (Cause (LoadBail ''the checkout directory has no parent'')) (path_parent destination)))
          (\<lambda>parent. io_bind (io_context (''failed to create '' @ display parent)
               (io_call (\<lambda>w. os_create_dir_all os w parent)))
            (\<lambda>_. io_context (''failed to check out '' @ rev_str (source_rev source) @ '' from '' @ url_text env source)
               (materialize os gix env source staging)))))"

definition checkout :: "'w os \<Rightarrow> 'w gix \<Rightarrow> environment \<Rightarrow> git_lint_source \<Rightarrow> ('w, path) io" where
  "checkout os gix env source =
     io_bind (io_context ''failed to find the directory for the checkout'' (io_lift (checkout_directory env source)))
       (\<lambda>destination w.
          if git_holds gix w destination (source_rev source) then (Ok destination, w)
          else replace_directory os ''failed to discard the damaged checkout at ''
                 (stage_checkout os gix env source destination)
                 (move_into_place os (\<lambda>w d. git_holds gix w d (source_rev source))
                    ''failed to install the checkout at '' destination (staging_directory env destination) destination)
                 destination w)"

section \<open>The contract of a repository\<close>

locale git_store = storage os view children regular
  for os :: "'w os" and view :: "'w \<Rightarrow> component list \<Rightarrow> 't option"
    and children :: "'t option \<Rightarrow> ((string, string) result list, string) result"
    and regular :: "'t option \<Rightarrow> string \<Rightarrow> bool" +
  fixes gix :: "'w gix"
  assumes head_view: "view w (components p) = view w' (components p') \<Longrightarrow> gix_head_id gix w p = gix_head_id gix w' p'"
    and head_detached: "os_write os w (head_path gix p) (gix_oid_display gix oid @ newline) = (Ok (), w') \<Longrightarrow>
      gix_head_id gix w' p = Some oid"
    and git_dir_inside: "prefix (components p) (components (head_path gix p))"
    and init_elsewhere: "apart (components p) q \<Longrightarrow> view (snd (gix_init gix w p)) q = view w q"
    and receive_elsewhere: "apart (components p) q \<Longrightarrow> view (snd (gix_receive gix w p url spec depth)) q = view w q"
    and checkout_elsewhere: "apart (components p) q \<Longrightarrow> view (snd (gix_checkout gix w p index workdir)) q = view w q"
    and index_write_elsewhere: "apart (components p) q \<Longrightarrow> view (snd (gix_index_write gix w p index)) q = view w q"
begin

lemma git_keeps:
  assumes "apart (components p) q"
  shows "io_keeps (\<lambda>w. view w q) (io_call (\<lambda>w. gix_init gix w p))"
    "io_keeps (\<lambda>w. view w q) (io_call (\<lambda>w. gix_receive gix w p url spec depth))"
    "io_keeps (\<lambda>w. view w q) (io_call (\<lambda>w. gix_checkout gix w p index workdir))"
    "io_keeps (\<lambda>w. view w q) (io_call (\<lambda>w. gix_index_write gix w p index'))"
  using assms by (simp_all add: io_keeps_def init_elsewhere receive_elsewhere checkout_elsewhere
      index_write_elsewhere)

lemma head_path_apart: "apart (components p) q \<Longrightarrow> apart (components (head_path gix p)) q"
  using git_dir_inside [of p] apart_extend by (metis prefixE)

lemma materialize_keeps:
  assumes "apart (components staging) q"
  shows "io_keeps (\<lambda>w. view w q) (materialize os gix env source staging)"
proof -
  have "io_keeps (\<lambda>w. view w q) (git_fetch gix env staging source)"
    unfolding git_fetch_def Let_def using git_keeps [OF assms]
    by (auto intro!: io_keeps_bind simp: keeps_pure)
  moreover have "io_keeps (\<lambda>w. view w q) (commit_tree gix env source staging commit)" for commit
    unfolding commit_tree_def by (auto intro!: io_keeps_bind simp: keeps_pure)
  moreover have "io_keeps (\<lambda>w. view w q) (write_tree gix staging tree)" for tree
    unfolding write_tree_def using git_keeps [OF assms]
    by (auto intro!: io_keeps_bind simp: keeps_pure) (simp add: io_keeps_def)
  moreover have "io_keeps (\<lambda>w. view w q) (detach_head os gix staging commit)" for commit
    unfolding detach_head_def using head_path_apart [OF assms] by (simp add: keeps_write)
  ultimately show ?thesis
    unfolding materialize_def Let_def using git_keeps [OF assms] by (auto intro!: io_keeps_bind)
qed

lemma detach_head_holds:
  assumes "fst (detach_head os gix p commit w) = Ok ()" "gix_from_hex gix (rev_str r) = Some commit"
  shows "git_holds gix (snd (detach_head os gix p commit w)) p r"
proof -
  let ?written = "os_write os w (head_path gix p) (gix_oid_display gix commit @ newline)"
  have "?written = (Ok (), snd ?written)" using assms(1) by (simp add: detach_head_def prod_eq_iff)
  then have "gix_head_id gix (snd ?written) p = Some commit" by (rule head_detached)
  with assms(2) show ?thesis by (simp add: git_holds_def detach_head_def)
qed

lemma materialize_holds:
  assumes "fst (materialize os gix env source staging w) = Ok ()"
  shows "git_holds gix (snd (materialize os gix env source staging w)) staging (source_rev source)"
proof -
  have "materialize os gix env source staging w = (Ok (), snd (materialize os gix env source staging w))"
    using assms by (simp add: prod_eq_iff)
  then obtain commit w1 msg where "gix_from_hex gix (rev_str (source_rev source)) = Some commit"
    and run: "io_context msg (detach_head os gix staging commit) w1 =
      (Ok (), snd (materialize os gix env source staging w))"
    by (subst (asm) (1) materialize_def) (auto simp: Let_def io_bind_Ok ok_or_def split: option.splits)
  moreover from run have "fst (detach_head os gix staging commit w1) = Ok ()"
    "snd (detach_head os gix staging commit w1) = snd (materialize os gix env source staging w)"
    by (auto simp: io_context_def)
  ultimately show ?thesis using detach_head_holds by metis
qed

lemma stage_checkout_keeps:
  assumes n: "ordinary_name n"
  shows "io_keeps (\<lambda>w. view w (components (path_join x n))) (stage_checkout os gix env source (path_join x n))"
proof -
  note apart = staging_apart [OF n, of env x]
  have parent: "io_keeps (\<lambda>w. view w (components (path_join x n))) (io_call (\<lambda>w. os_create_dir_all os w parent))"
    if "path_parent (path_join x n) = Some parent" for parent
    by (rule keeps_create [OF parent_below [OF n that]])
  show ?thesis
    unfolding stage_checkout_def Let_def
    by (intro io_keeps_bind discard_existing_keeps apart io_keeps_bind_lift)
      (auto simp: parent materialize_keeps [OF apart] ok_or_def split: option.splits)
qed

lemma stage_checkout_holds:
  assumes "fst (stage_checkout os gix env source d w) = Ok ()"
  shows "git_holds gix (snd (stage_checkout os gix env source d w)) (staging_directory env d) (source_rev source)"
proof -
  have "stage_checkout os gix env source d w = (Ok (), snd (stage_checkout os gix env source d w))"
    using assms by (simp add: prod_eq_iff)
  then obtain w1 msg where run: "io_context msg (materialize os gix env source (staging_directory env d)) w1 =
      (Ok (), snd (stage_checkout os gix env source d w))"
    by (subst (asm) (1) stage_checkout_def) (auto simp: Let_def io_bind_Ok)
  then have "fst (materialize os gix env source (staging_directory env d) w1) = Ok ()"
    "snd (materialize os gix env source (staging_directory env d) w1) = snd (stage_checkout os gix env source d w)"
    by (auto simp: io_context_def)
  then show ?thesis using materialize_holds by metis
qed

lemma holds_sees_view: "sees_view (\<lambda>w d. git_holds gix w d r)"
  unfolding sees_view_def git_holds_def using head_view by metis

lemma checkout_outcome:
  assumes wf: "rev_wf (source_rev source)" and dir: "checkout_directory env source = Ok d"
    and run: "checkout os gix env source w = (r, w')"
  shows "(git_holds gix w d (source_rev source) \<longrightarrow> r = Ok d \<and> w' = w) \<and>
    (is_ok r \<longrightarrow> r = Ok d \<and> git_holds gix w' d (source_rev source)) \<and>
    (\<not> is_ok r \<longrightarrow> view w' (components d) = None \<or> fst (os_remove_dir_all os w d) \<noteq> Ok ())"
proof (cases "git_holds gix w d (source_rev source)")
  case True
  with run dir have "r = Ok d" "w' = w" by (auto simp: checkout_def io_bind_ok_step)
  with True show ?thesis by simp
next
  case False
  obtain x where d: "d = path_join x (rev_str (source_rev source))"
    using dir by (auto simp: checkout_directory_def checkout_directory_in_def result_bind_eq_Ok)
  note n = rev_ordinary [OF wf]
  have "replace_directory os ''failed to discard the damaged checkout at '' (stage_checkout os gix env source d)
      (move_into_place os (\<lambda>w d. git_holds gix w d (source_rev source)) ''failed to install the checkout at '' d
        (staging_directory env d) d) d w = (r, w')"
    using run dir False by (simp add: checkout_def io_bind_ok_step)
  from replace_directory_outcome [OF holds_sees_view staging_apart [OF n, of env x, folded d]
      stage_checkout_keeps [OF n, of x, folded d] stage_checkout_holds this] False
  show ?thesis by simp
qed

end

section \<open>Repositories on the file system in a map\<close>

text \<open>
  A repository keeps its \<open>HEAD\<close> in \<open>.git\<close>; a fetch brings the one commit it asked for, and a commit
  is its own tree.
\<close>

definition fs_head :: "fs \<Rightarrow> path \<Rightarrow> string option" where
  "fs_head w p =
     (case map_of w (components p @ [Normal ''.git'', Normal ''HEAD'']) of
        Some (FsFile b) \<Rightarrow> (if b \<noteq> [] \<and> last b = CHR 0x0A then Some (butlast b) else None)
      | _ \<Rightarrow> None)"

definition fs_gix :: "fs gix" where
  "fs_gix = \<lparr>
     gix_head_id = fs_head,
     gix_from_hex = (\<lambda>s. if length s = 40 \<and> list_all lower_hex s then Some s else None),
     gix_oid_display = id,
     gix_git_dir = (\<lambda>p. path_join p ''.git''),
     gix_init = (\<lambda>w p. (Ok (), (components p, FsDir) # w)),
     gix_remote_at = (\<lambda>_. Ok ()), gix_refspec = (\<lambda>_. Ok ()), gix_connect = (\<lambda>_. Ok ()),
     gix_negotiate = (\<lambda>_. Ok ()),
     gix_receive = (\<lambda>w p url spec depth. (Ok (), (components p @ [Normal ''.git'', Normal ''objects''], FsDir) # w)),
     gix_find_object = (\<lambda>w p oid. Ok oid), gix_peel_to_commit = Ok, gix_tree_id = Ok,
     gix_index_from_tree = (\<lambda>w p tree. Ok tree), gix_workdir = (\<lambda>w p. Some p),
     gix_checkout = (\<lambda>w p index workdir. (Ok index, (components p @ [Normal ''Cargo.toml''], FsFile index) # w)),
     gix_index_write = (\<lambda>w p index. (Ok (), (components p @ [Normal ''.git'', Normal ''index''], FsFile index) # w))\<rparr>"

lemma fs_view_add: "\<not> prefix q (p @ r) \<Longrightarrow> fs_view ((p @ r, n) # w) q = fs_view w q"
  by (rule fs_subtree_cong) simp

lemma fs_git_names: "ordinary_name ''.git''" "ordinary_name ''HEAD''"
  by (simp_all add: ordinary_name_def)

lemma fs_head_path: "components (head_path fs_gix p) = components p @ [Normal ''.git'', Normal ''HEAD'']"
  by (simp add: head_path_def fs_gix_def components_join fs_git_names)

interpretation fs_git: git_store fs_os fs_view fs_children fs_regular fs_gix
proof
  fix w w' :: fs and p p' :: path and q :: "component list" and oid index :: string and url spec depth workdir
  show "fs_view w (components p) = fs_view w' (components p') \<Longrightarrow> gix_head_id fs_gix w p = gix_head_id fs_gix w' p'"
    using map_of_fs_subtree [of w "components p" "[Normal ''.git'', Normal ''HEAD'']"]
      map_of_fs_subtree [of w' "components p'" "[Normal ''.git'', Normal ''HEAD'']"]
    by (simp add: fs_gix_def fs_head_def fs_view_def Let_def split: if_splits)
  show "os_write fs_os w (head_path fs_gix p) (gix_oid_display fs_gix oid @ newline) = (Ok (), w') \<Longrightarrow>
      gix_head_id fs_gix w' p = Some oid"
    by (auto simp: fs_os_def fs_head_path newline_def split: if_splits) (auto simp: fs_gix_def fs_head_def)
  show "prefix (components p) (components (head_path fs_gix p))"
    by (simp add: fs_head_path)
  show "apart (components p) q \<Longrightarrow> fs_view (snd (gix_init fs_gix w p)) q = fs_view w q"
    using fs_view_add [of q "components p" "[]"] by (simp add: fs_gix_def apart_def)
  show "apart (components p) q \<Longrightarrow> fs_view (snd (gix_receive fs_gix w p url spec depth)) q = fs_view w q"
    using fs_view_add [of q "components p"] apart_extend [of "components p" q] by (simp add: fs_gix_def apart_def)
  show "apart (components p) q \<Longrightarrow> fs_view (snd (gix_checkout fs_gix w p index workdir)) q = fs_view w q"
    using fs_view_add [of q "components p"] apart_extend [of "components p" q] by (simp add: fs_gix_def apart_def)
  show "apart (components p) q \<Longrightarrow> fs_view (snd (gix_index_write fs_gix w p index)) q = fs_view w q"
    using fs_view_add [of q "components p"] apart_extend [of "components p" q] by (simp add: fs_gix_def apart_def)
qed

section \<open>A checkout is the pinned commit\<close>

text \<open>
  C19: A checkout is the pinned commit or nothing. A source already checked out at its commit is
  answered at once and nothing on disk changes; whenever a directory is returned, it is the one of
  the cache layout and git names the pinned commit as its head; and a failure leaves no directory
  that a later run could take for a checkout, unless the system refused to delete the old one.
\<close>

theorem checkout_pinned:
  assumes "git_store os view children regular gix"
    and "rev_wf (source_rev source)" and "checkout_directory env source = Ok d"
    and "checkout os gix env source w = (r, w')"
  shows "(git_holds gix w d (source_rev source) \<longrightarrow> r = Ok d \<and> w' = w) \<and>
    (is_ok r \<longrightarrow> r = Ok d \<and> git_holds gix w' d (source_rev source)) \<and>
    (\<not> is_ok r \<longrightarrow> view w' (components d) = None \<or> fst (os_remove_dir_all os w d) \<noteq> Ok ())"
  by (rule git_store.checkout_outcome [OF assms])

theorem checkout_pinned_witness:
  "\<exists>w'. checkout fs_os fs_gix sample_environment (sample_source ''x'')
      [(components (checkout_directory_in sample_environment ''/c'' (sample_source ''x''))
          @ [Normal ''.git'', Normal ''HEAD''], FsFile (replicate 40 (CHR ''a'') @ newline))] =
    (Ok (checkout_directory_in sample_environment ''/c'' (sample_source ''x'')), w')"
proof -
  let ?d = "checkout_directory_in sample_environment ''/c'' (sample_source ''x'')"
  let ?w = "[(components ?d @ [Normal ''.git'', Normal ''HEAD''], FsFile (replicate 40 (CHR ''a'') @ newline))]"
  let ?run = "checkout fs_os fs_gix sample_environment (sample_source ''x'') ?w"
  have wf: "rev_wf (source_rev (sample_source ''x''))"
    by (simp add: rev_wf_def sample_source_def hash_length_def list_all_iff lower_hex_def less_eq_char_def)
  have dir: "checkout_directory sample_environment (sample_source ''x'') = Ok ?d"
    by (simp add: checkout_directory_def cache_root_def resolve_def from_environment_def present_def
        cache_variable_def sample_environment_def)
  have "git_holds fs_gix ?w ?d (source_rev (sample_source ''x''))"
    using wf by (simp add: git_holds_def fs_gix_def fs_head_def newline_def rev_wf_def hash_length_def)
      (simp add: sample_source_def)
  then show ?thesis
    using checkout_pinned [OF fs_git.git_store_axioms wf dir, of ?w "fst ?run" "snd ?run"]
    by (metis prod.collapse)
qed

end
