(* ===== verification/LintBuild.thy ===== *)
theory LintBuild
  imports LintLoading "HOL-Library.Multiset"
begin

text \<open>
  Compiling lint packages: the artifact search of \<open>custom_lints/artifact.rs\<close>, the patches of
  \<open>custom_lints/stiles_patch.rs\<close> and the build of \<open>custom_lints.rs\<close>. Cargo and the JSON reader are
  arguments: a message or a metadata document is the record of the fields that the code reads.
\<close>

section \<open>The artifact search\<close>

record build_message =
  msg_reason :: string
  msg_manifest_path :: "path option"
  msg_target :: "string list option"
  msg_filenames :: "path list"

definition canonical :: "(path \<Rightarrow> path option) \<Rightarrow> path \<Rightarrow> path" where
  "canonical canonicalize p = (case canonicalize p of Some q \<Rightarrow> q | None \<Rightarrow> p)"

text \<open>
  What one message contributes: nothing, a library under the manifest it was built from, or the
  end of the search.
\<close>

definition artifact_of ::
  "(path \<Rightarrow> path option) \<Rightarrow> path \<Rightarrow> build_message \<Rightarrow> ((component list \<times> path) option, load_error anyhow) result" where
  "artifact_of canonicalize directory message =
     (if msg_reason message \<noteq> ''compiler-artifact'' then Ok None
      else case msg_manifest_path message of
        None \<Rightarrow> Ok None
      | Some manifest \<Rightarrow>
          (let manifest = canonical canonicalize manifest in
           if \<not> path_starts_with manifest directory then Ok None
           else if \<not> (case msg_target message of
                         None \<Rightarrow> False
                       | Some crate_types \<Rightarrow> list_ex (\<lambda>kind. kind = ''cdylib'') crate_types) then Ok None
           else case find (\<lambda>file. extension file = Some dll_extension) (msg_filenames message) of
                  None \<Rightarrow> Err (Cause (LoadBail (''cargo reported no dynamic library file for '' @ display manifest)))
                | Some library \<Rightarrow> Ok (Some (components manifest, library))))"

fun collect_artifacts ::
  "(path \<Rightarrow> path option) \<Rightarrow> (string \<Rightarrow> build_message option) \<Rightarrow> path \<Rightarrow> string list \<Rightarrow>
   (component list \<times> path) list \<Rightarrow> ((component list \<times> path) list, load_error anyhow) result" where
  "collect_artifacts canonicalize parse directory [] artifacts = Ok artifacts"
| "collect_artifacts canonicalize parse directory (line # lines) artifacts =
     result_bind (with_context (''failed to read a cargo build message: '' @ line)
         (ok_or (Cause (LoadBail ''invalid JSON'')) (parse line)))
       (\<lambda>message. result_bind (artifact_of canonicalize directory message)
         (\<lambda>found. collect_artifacts canonicalize parse directory lines
            (case found of None \<Rightarrow> artifacts
                         | Some (manifest, library) \<Rightarrow> btree_insert manifest library artifacts)))"

definition cdylib_artifacts ::
  "(path \<Rightarrow> path option) \<Rightarrow> (string \<Rightarrow> build_message option) \<Rightarrow> string \<Rightarrow> path \<Rightarrow>
   (path list, load_error anyhow) result" where
  "cdylib_artifacts canonicalize parse stdout directory =
     (let directory = canonical canonicalize directory in
      result_bind
        (collect_artifacts canonicalize parse directory (filter (\<lambda>l. \<not> is_blank l) (str_lines stdout)) [])
        (\<lambda>artifacts.
           if artifacts = []
           then Err (Cause (LoadBail (''cargo built no dynamic library from '' @ display directory
                  @ ''; a custom lint package needs a crate-type of cdylib'')))
           else Ok (map snd artifacts)))"

section \<open>Patches\<close>

datatype patch_table = CratesIo | GitTable string

fun patch_table_key :: "patch_table \<Rightarrow> nat \<times> string" where
  "patch_table_key CratesIo = (0, [])"
| "patch_table_key (GitTable url) = (1, url)"

lemma patch_table_key_inject [simp]: "patch_table_key a = patch_table_key b \<longleftrightarrow> a = b"
  by (cases a; cases b) auto

text \<open>The derived order: the variants in turn, then the URL.\<close>

instantiation patch_table :: linorder
begin
definition less_eq_patch_table :: "patch_table \<Rightarrow> patch_table \<Rightarrow> bool" where
  "a \<le> b \<longleftrightarrow> patch_table_key a \<le> patch_table_key b"
definition less_patch_table :: "patch_table \<Rightarrow> patch_table \<Rightarrow> bool" where
  "a < b \<longleftrightarrow> patch_table_key a < patch_table_key b"
instance
proof
  fix x y z :: patch_table
  show "x < y \<longleftrightarrow> x \<le> y \<and> \<not> y \<le> x"
    unfolding less_eq_patch_table_def less_patch_table_def by (rule less_le_not_le)
  show "x \<le> x" unfolding less_eq_patch_table_def by (rule order_refl)
  show "x \<le> y \<Longrightarrow> y \<le> z \<Longrightarrow> x \<le> z" unfolding less_eq_patch_table_def by (rule order_trans)
  show "x \<le> y \<Longrightarrow> y \<le> x \<Longrightarrow> x = y"
    unfolding less_eq_patch_table_def using order_antisym patch_table_key_inject by blast
  show "x \<le> y \<or> y \<le> x" unfolding less_eq_patch_table_def by (rule linear)
qed
end

type_synonym stiles_patch = "patch_table \<times> string"

definition stiles_crates :: "string list" where
  "stiles_crates =
     [''stiles-types'', ''stiles-plugin'', ''stiles-rust'', ''stiles-typescript'', ''stiles-testing'']"

definition crates_io :: string where
  "crates_io = ''registry+https://github.com/rust-lang/crates.io-index''"

definition patch_config :: "stiles_patch \<Rightarrow> path \<Rightarrow> string" where
  "patch_config patch source =
     (let crate_name = snd patch; p = path_join (path_join source ''crates'') crate_name
      in case fst patch of
           CratesIo \<Rightarrow> ''patch.crates-io.'' @ crate_name @ ''.path='' @ [CHR 0x27] @ display p @ [CHR 0x27]
         | GitTable url \<Rightarrow> ''patch.'' @ [CHR 0x27] @ url @ [CHR 0x27] @ ''.'' @ crate_name @ ''.path=''
                            @ [CHR 0x27] @ display p @ [CHR 0x27])"

text \<open>\<open>url.split(['?', '#']).next()\<close> is the text before the first of the two.\<close>

definition patch_table_of :: "string \<Rightarrow> patch_table option" where
  "patch_table_of source =
     (if source = crates_io then Some CratesIo
      else case strip_prefix source ''git+'' of
             None \<Rightarrow> None
           | Some url \<Rightarrow> Some (GitTable (takeWhile (\<lambda>c. c \<noteq> CHR ''?'' \<and> c \<noteq> CHR ''#'') url)))"

record dependency =
  dep_name :: string
  dep_source :: "string option"

text \<open>A package is the list of its dependencies, a metadata document the list of its packages.\<close>

definition dependency_patch :: "dependency \<Rightarrow> stiles_patch option" where
  "dependency_patch d =
     (case find (\<lambda>known. known = dep_name d) stiles_crates of
        None \<Rightarrow> None
      | Some crate_name \<Rightarrow>
          (case Option.bind (dep_source d) patch_table_of of
             None \<Rightarrow> None
           | Some table \<Rightarrow> Some (table, crate_name)))"

definition plan_patches ::
  "(string \<Rightarrow> dependency list list option) \<Rightarrow> string \<Rightarrow> (stiles_patch list, load_error anyhow) result" where
  "plan_patches parse_metadata metadata =
     result_bind (with_context ''failed to parse the metadata''
         (ok_or (Cause (LoadBail ''invalid JSON'')) (parse_metadata metadata)))
       (\<lambda>packages. Ok (btree_set (List.map_filter dependency_patch (concat packages))))"

section \<open>Running cargo\<close>

text \<open>What a finished process leaves: whether it succeeded, and its two streams.\<close>

record process_output =
  out_success :: bool
  out_stdout :: string
  out_stderr :: string

type_synonym cargo = "string list \<Rightarrow> path \<Rightarrow> (process_output, load_error anyhow) result"

definition from_utf8 :: "string \<Rightarrow> string \<Rightarrow> (string, load_error anyhow) result" where
  "from_utf8 message bytes =
     (if utf8_valid bytes then Ok bytes else Err (Context message (Cause (LoadBail ''invalid utf-8 sequence''))))"

definition load_patches ::
  "cargo \<Rightarrow> (string \<Rightarrow> dependency list list option) \<Rightarrow> path \<Rightarrow> (stiles_patch list, load_error anyhow) result" where
  "load_patches cargo parse_metadata directory =
     result_bind (with_context ''failed to run cargo metadata''
         (cargo [''metadata'', ''--format-version'', ''1'', ''--no-deps''] directory))
       (\<lambda>output.
          if \<not> out_success output
          then Err (Cause (LoadBail (''cargo metadata failed: '' @ str_trim (utf8_lossy (out_stderr output)))))
          else result_bind (from_utf8 ''cargo metadata wrote invalid UTF-8'' (out_stdout output))
            (\<lambda>stdout. with_context ''failed to read the output of cargo metadata''
               (plan_patches parse_metadata stdout)))"

datatype locking = Locked | Unlocked

definition locked_flag :: "locking \<Rightarrow> path option \<Rightarrow> string list" where
  "locked_flag locking stiles_source =
     (case (locking, stiles_source) of
        (Locked, None) \<Rightarrow> [''--locked'']
      | (Locked, Some _) \<Rightarrow> []
      | (Unlocked, _) \<Rightarrow> [])"

definition build_arguments :: "locking \<Rightarrow> path option \<Rightarrow> stiles_patch list \<Rightarrow> string list" where
  "build_arguments locking stiles_source patches =
     [''build'', ''--release'', ''--message-format=json-render-diagnostics'']
     @ locked_flag locking stiles_source
     @ (case stiles_source of
          None \<Rightarrow> []
        | Some source \<Rightarrow> concat (map (\<lambda>patch. [''--config'', patch_config patch source]) patches))"

record toolchain =
  tool_cargo :: cargo
  tool_canonicalize :: "path \<Rightarrow> path option"
  tool_parse_message :: "string \<Rightarrow> build_message option"
  tool_parse_metadata :: "string \<Rightarrow> dependency list list option"

definition build ::
  "toolchain \<Rightarrow> path \<Rightarrow> locking \<Rightarrow> path option \<Rightarrow> (path list, load_error anyhow) result" where
  "build tools directory locking stiles_source =
     result_bind
       (case stiles_source of
          None \<Rightarrow> Ok []
        | Some _ \<Rightarrow> with_context ''failed to find the stiles crates that the lints depend on''
                      (load_patches (tool_cargo tools) (tool_parse_metadata tools) directory))
       (\<lambda>patches.
         result_bind (with_context ''failed to run cargo build''
             (tool_cargo tools (build_arguments locking stiles_source patches) directory))
           (\<lambda>output.
              if \<not> out_success output then Err (Cause (LoadBail ''cargo build failed''))
              else result_bind (from_utf8 ''cargo build wrote invalid UTF-8'' (out_stdout output))
                (\<lambda>stdout. cdylib_artifacts (tool_canonicalize tools) (tool_parse_message tools) stdout directory)))"

section \<open>What the search finds\<close>

definition found_artifacts ::
  "(path \<Rightarrow> path option) \<Rightarrow> (string \<Rightarrow> build_message option) \<Rightarrow> path \<Rightarrow> string list \<Rightarrow>
   (component list \<times> path) list" where
  "found_artifacts canonicalize parse directory lines =
     List.map_filter (\<lambda>l. case parse l of
         None \<Rightarrow> None
       | Some message \<Rightarrow> (case artifact_of canonicalize directory message of Inr a \<Rightarrow> a | Inl _ \<Rightarrow> None)) lines"

definition readable_message ::
  "(path \<Rightarrow> path option) \<Rightarrow> (string \<Rightarrow> build_message option) \<Rightarrow> path \<Rightarrow> string \<Rightarrow> bool" where
  "readable_message canonicalize parse directory l =
     (case parse l of None \<Rightarrow> False | Some message \<Rightarrow> is_ok (artifact_of canonicalize directory message))"

definition insert_artifact ::
  "(component list \<times> path) list \<Rightarrow> component list \<times> path \<Rightarrow> (component list \<times> path) list" where
  "insert_artifact m a = btree_insert (fst a) (snd a) m"

lemma collect_artifacts_Ok:
  "collect_artifacts c p d lines acc = Ok m \<longleftrightarrow>
     list_all (readable_message c p d) lines \<and> m = foldl insert_artifact acc (found_artifacts c p d lines)"
proof (induction lines arbitrary: acc)
  case Nil
  then show ?case by (auto simp: found_artifacts_def List.map_filter_def)
next
  case (Cons l lines)
  show ?case
  proof (cases "p l")
    case None
    then show ?thesis by (simp add: readable_message_def)
  next
    case (Some message)
    then show ?thesis
      by (cases "artifact_of c d message")
        (auto simp: Cons readable_message_def found_artifacts_def List.map_filter_def insert_artifact_def
          split: option.splits)
  qed
qed

lemma insert_artifacts_wf: "btree_map_wf acc \<Longrightarrow> btree_map_wf (foldl insert_artifact acc xs)"
  by (induction xs arbitrary: acc) (auto simp: insert_artifact_def btree_insert_wf)

lemma insert_artifacts_map_of:
  "btree_map_wf acc \<Longrightarrow> map_of (foldl insert_artifact acc xs) = map_of acc ++ map_of (rev xs)"
  by (induction xs arbitrary: acc)
    (auto simp: insert_artifact_def btree_insert_wf map_of_btree_insert)

lemma insert_artifacts_Nil:
  "btree_map_wf (foldl insert_artifact [] xs)"
  "map_of (foldl insert_artifact [] xs) = map_of (rev xs)"
  using insert_artifacts_wf [of "[]" xs] insert_artifacts_map_of [of "[]" xs]
  by (simp_all add: btree_map_wf_def)

lemma artifact_of_inside:
  assumes "artifact_of c d message = Ok (Some (k, lib))"
  shows "prefix (components d) k \<and> extension lib = Some dll_extension"
proof -
  from assms obtain manifest where "msg_manifest_path message = Some manifest"
    by (cases "msg_manifest_path message") (auto simp: artifact_of_def split: if_splits)
  with assms have "find (\<lambda>file. extension file = Some dll_extension) (msg_filenames message) = Some lib"
    and "prefix (components d) k"
    by (auto simp: artifact_of_def Let_def path_starts_with_def split: if_splits option.splits)
  then show ?thesis by (auto simp: find_Some_iff)
qed

lemma found_artifacts_inside:
  assumes "(k, lib) \<in> set (found_artifacts c p d lines)"
  shows "prefix (components d) k \<and> extension lib = Some dll_extension"
proof -
  from assms obtain l where "(case p l of None \<Rightarrow> None
      | Some message \<Rightarrow> (case artifact_of c d message of Inr a \<Rightarrow> a | Inl _ \<Rightarrow> None)) = Some (k, lib)"
    by (auto simp: found_artifacts_def)
  then obtain message where "artifact_of c d message = Ok (Some (k, lib))"
    by (cases "p l") (auto split: sum.splits)
  then show ?thesis by (rule artifact_of_inside)
qed

lemma mset_map_filter: "mset xs = mset ys \<Longrightarrow> mset (List.map_filter f xs) = mset (List.map_filter f ys)"
  by (metis List.map_filter_def mset_filter mset_map)

lemma insert_artifacts_order:
  assumes "mset xs = mset ys" "distinct (map fst xs)"
  shows "foldl insert_artifact [] xs = foldl insert_artifact [] ys"
proof (rule btree_map_unique)
  have "distinct (map fst ys)"
    using assms by (metis mset_eq_imp_distinct_iff mset_map)
  then have "map_of (rev xs) = map_of (rev ys)"
    using assms by (intro map_of_inject_set [THEN iffD2])
      (auto simp: rev_map [symmetric] dest: mset_eq_setD)
  then show "map_of (foldl insert_artifact [] xs) = map_of (foldl insert_artifact [] ys)"
    by (simp add: insert_artifacts_Nil)
qed (rule insert_artifacts_Nil)+

definition message_lines :: "string \<Rightarrow> string list" where
  "message_lines stdout = filter (\<lambda>l. \<not> is_blank l) (str_lines stdout)"

text \<open>
  The libraries of a build come one per package of the configured directory, in the order of
  their manifests: every library is a dynamic library that cargo reported for a \<open>cdylib\<close> package
  whose manifest sits inside the directory, no package contributes twice, and there is at least
  one. When no package is reported twice, the order in which cargo finished them does not matter:
  every stream with the same messages gives the same list.
\<close>

theorem cdylib_artifacts_spec:
  assumes "cdylib_artifacts c p stdout directory = Ok libs"
  defines "found \<equiv> found_artifacts c p (canonical c directory) (message_lines stdout)"
  shows "(\<exists>m. libs = map snd m \<and> m \<noteq> [] \<and> btree_map_wf m \<and> set m \<subseteq> set found \<and>
            fst ` set m = fst ` set found \<and>
            list_all (\<lambda>(manifest, lib). prefix (components (canonical c directory)) manifest \<and>
               extension lib = Some dll_extension) m) \<and>
         (mset (message_lines stdout') = mset (message_lines stdout) \<and> distinct (map fst found) \<longrightarrow>
            cdylib_artifacts c p stdout' directory = Ok libs)"
proof -
  let ?d = "canonical c directory" and ?m = "foldl insert_artifact [] found"
  from assms(1) have ok: "list_all (readable_message c p ?d) (message_lines stdout)"
    and libs: "libs = map snd ?m" and ne: "?m \<noteq> []"
    by (auto simp: cdylib_artifacts_def Let_def result_bind_eq_Ok collect_artifacts_Ok message_lines_def
        found_def split: if_splits)
  have sub: "set ?m \<subseteq> set found"
  proof
    fix a assume "a \<in> set ?m"
    then have "map_of ?m (fst a) = Some (snd a)"
      using insert_artifacts_Nil(1) [of found] by (simp add: btree_map_wf_def)
    then show "a \<in> set found" by (auto simp: insert_artifacts_Nil dest: map_of_SomeD)
  qed
  have "fst ` set ?m = fst ` set found"
    using arg_cong [OF insert_artifacts_Nil(2) [of found], of dom] by (simp add: dom_map_of_conv_image_fst)
  moreover have "list_all (\<lambda>(manifest, lib). prefix (components ?d) manifest \<and>
      extension lib = Some dll_extension) ?m"
    using sub found_artifacts_inside unfolding list_all_iff found_def by blast
  moreover have "cdylib_artifacts c p stdout' directory = Ok libs"
    if same: "mset (message_lines stdout') = mset (message_lines stdout)" and "distinct (map fst found)"
  proof -
    let ?found' = "found_artifacts c p ?d (message_lines stdout')"
    have "mset found = mset ?found'"
      unfolding found_def found_artifacts_def by (rule mset_map_filter) (simp add: same)
    then have "foldl insert_artifact [] ?found' = ?m"
      using insert_artifacts_order that(2) by metis
    moreover have "list_all (readable_message c p ?d) (message_lines stdout')"
      using ok mset_eq_setD [OF same] by (simp add: list_all_iff)
    ultimately have "collect_artifacts c p ?d (message_lines stdout') [] = Ok ?m"
      by (simp add: collect_artifacts_Ok)
    with ne libs show ?thesis
      by (simp add: cdylib_artifacts_def Let_def message_lines_def)
  qed
  ultimately show ?thesis
    using libs ne sub insert_artifacts_Nil(1) [of found] by blast
qed

text \<open>A build of two packages, whose messages arrive in either order.\<close>

definition sample_message :: "string \<Rightarrow> build_message option" where
  "sample_message l = Some \<lparr>msg_reason = ''compiler-artifact'', msg_manifest_path = Some (''/w/'' @ l @ ''/Cargo.toml''),
     msg_target = Some [''cdylib''], msg_filenames = [''/t/'' @ l @ ''.so'']\<rparr>"

theorem cdylib_artifacts_spec_witness:
  "cdylib_artifacts (\<lambda>_. None) sample_message (''b'' @ newline @ ''a'') ''/w'' = Ok [''/t/a.so'', ''/t/b.so'']"
proof -
  have start: "cdylib_artifacts (\<lambda>_. None) sample_message (''a'' @ newline @ ''b'') ''/w'' = Ok [''/t/a.so'', ''/t/b.so'']"
    by code_simp
  have "mset (message_lines (''b'' @ newline @ ''a'')) = mset (message_lines (''a'' @ newline @ ''b''))"
    by code_simp
  moreover have "distinct (map fst (found_artifacts (\<lambda>_. None) sample_message (canonical (\<lambda>_. None) ''/w'')
      (message_lines (''a'' @ newline @ ''b''))))"
    by code_simp
  ultimately show ?thesis
    using cdylib_artifacts_spec [OF start, of "''b'' @ newline @ ''a''"] by simp
qed

text \<open>
  A lockfile is enforced exactly for a pinned source that is built unpatched, and a patched
  build points every stiles crate that a package takes from crates.io or a git repository at the
  local source, once per crate and source: the patches are sorted and distinct, and nothing else is
  patched.
\<close>

theorem build_arguments_spec:
  "(''--locked'' \<in> set (build_arguments locking stiles_source patches) \<longleftrightarrow>
      locking = Locked \<and> stiles_source = None) \<and>
   (plan_patches parse metadata = Ok patches \<longrightarrow>
      sorted patches \<and> distinct patches \<and>
      (\<exists>packages. parse metadata = Some packages \<and>
         set patches = {(table, crate). crate \<in> set stiles_crates \<and>
           (\<exists>package \<in> set packages. \<exists>d \<in> set package. dep_name d = crate \<and>
              (\<exists>source. dep_source d = Some source \<and> patch_table_of source = Some table))}))"
proof -
  have "''--locked'' \<noteq> patch_config patch source" for patch source
    by (auto simp: patch_config_def Let_def split: patch_table.splits)
  then have locked: "''--locked'' \<in> set (build_arguments locking stiles_source patches) \<longleftrightarrow>
      locking = Locked \<and> stiles_source = None"
    by (auto simp: build_arguments_def locked_flag_def split: locking.splits option.splits)
  have dep: "dependency_patch d = Some (table, crate) \<longleftrightarrow> crate \<in> set stiles_crates \<and> dep_name d = crate \<and>
      (\<exists>source. dep_source d = Some source \<and> patch_table_of source = Some table)" for d table crate
    by (auto simp: dependency_patch_def find_Some_iff find_None_iff in_set_conv_nth Option.bind_eq_Some_conv
        split: option.splits)
  have sets: "set (btree_set (List.map_filter dependency_patch (concat packages))) =
      {(table, crate). crate \<in> set stiles_crates \<and>
         (\<exists>package \<in> set packages. \<exists>d \<in> set package. dep_name d = crate \<and>
            (\<exists>source. dep_source d = Some source \<and> patch_table_of source = Some table))}" for packages
    by (simp add: set_eq_iff dep)
  show ?thesis
  proof (intro conjI impI locked)
    assume "plan_patches parse metadata = Ok patches"
    then obtain packages where packages: "parse metadata = Some packages"
      and patches: "patches = btree_set (List.map_filter dependency_patch (concat packages))"
      by (cases "parse metadata") (auto simp: plan_patches_def)
    show "sorted patches" "distinct patches" by (simp_all add: patches)
    show "\<exists>packages. parse metadata = Some packages \<and>
         set patches = {(table, crate). crate \<in> set stiles_crates \<and>
           (\<exists>package \<in> set packages. \<exists>d \<in> set package. dep_name d = crate \<and>
              (\<exists>source. dep_source d = Some source \<and> patch_table_of source = Some table))}"
      unfolding patches by (rule exI [of _ packages]) (simp only: packages sets simp_thms)
  qed
qed

theorem build_arguments_spec_witness:
  "plan_patches (\<lambda>_. Some [[\<lparr>dep_name = ''stiles-types'', dep_source = Some ''git+https://h/r?rev=1''\<rparr>]]) [] =
     Ok [(GitTable ''https://h/r'', ''stiles-types'')] \<and>
   sorted [(GitTable ''https://h/r'', ''stiles-types'')]"
proof -
  have ok: "plan_patches (\<lambda>_. Some [[\<lparr>dep_name = ''stiles-types'', dep_source = Some ''git+https://h/r?rev=1''\<rparr>]]) [] =
      Ok [(GitTable ''https://h/r'', ''stiles-types'')]"
    by code_simp
  then show ?thesis
    using build_arguments_spec [of Locked None "[(GitTable ''https://h/r'', ''stiles-types'')]"
        "\<lambda>_. Some [[\<lparr>dep_name = ''stiles-types'', dep_source = Some ''git+https://h/r?rev=1''\<rparr>]]" "[]"] by blast
qed

end
