(* ===== verification/LintSources.thy ===== *)
theory LintSources
  imports GitSource LintBuild
begin

text \<open>
  From the configured sources to loaded lints: \<open>configured_sources\<close>, \<open>resolve_git\<close>, \<open>load_sources\<close>,
  \<open>load_prebuilt\<close> and \<open>CustomLints::load\<close> of \<open>crates/stiles/src/custom_lints.rs\<close>. The notices that
  the code pushes into a vector of its caller are returned, in the order they are pushed.
\<close>

section \<open>Resolving\<close>

datatype contents = Sources locking | Libraries

record resolved =
  res_directory :: path
  res_contents :: contents

text \<open>Everything outside the program that loading talks to.\<close>

record 'w machine =
  mach_os :: "'w os"
  mach_gix :: "'w gix"
  mach_ext :: externals
  mach_env :: environment
  mach_tools :: "'w \<Rightarrow> toolchain"

type_synonym ('w, 'a) noted = "'w \<Rightarrow> ('a, load_error anyhow) result \<times> prebuilt_notice list \<times> 'w"

definition resolve_git ::
  "'w machine \<Rightarrow> git_lint_source \<Rightarrow> abi_tag \<Rightarrow> ('w, path \<times> contents) noted" where
  "resolve_git m source tag w =
     (case with_context ''failed to look for cached prebuilt lints''
         (cached_prebuilt (mach_os m) (mach_env m) source tag w) of
        Inl e \<Rightarrow> (Err e, [], w)
      | Inr (Some directory) \<Rightarrow> (Ok (directory, Libraries), [], w)
      | Inr None \<Rightarrow>
     (case with_context ''failed to look for a cached checkout''
         (cached_checkout (mach_gix m) (mach_env m) source w) of
        Inl e \<Rightarrow> (Err e, [], w)
      | Inr (Some directory) \<Rightarrow> (Ok (directory, Sources Locked), [], w)
      | Inr None \<Rightarrow>
     (case fetch (mach_os m) (mach_ext m) (mach_env m) source tag w of
        (Inl e, notices, w1) \<Rightarrow> (Err (Context ''failed to fetch prebuilt lints'' e), notices, w1)
      | (Inr (Some directory), notices, w1) \<Rightarrow> (Ok (directory, Libraries), notices, w1)
      | (Inr None, notices, w1) \<Rightarrow>
          (let (r, w2) = checkout (mach_os m) (mach_gix m) (mach_env m) source w1
           in (result_bind (with_context ''failed to check out the lint source'' r)
                 (\<lambda>directory. Ok (directory, Sources Locked)), notices, w2)))))"

definition lint_source_display :: "environment \<Rightarrow> lint_source \<Rightarrow> string" where
  "lint_source_display env entry =
     (case entry of
        PathSource (LintPath p) \<Rightarrow> display p
      | GitSource git \<Rightarrow> git_lint_source_display env git)"

text \<open>What follows once a source names a directory: the checks on it, in order.\<close>

definition check_directory ::
  "'w os \<Rightarrow> environment \<Rightarrow> 'w \<Rightarrow> lint_source \<Rightarrow> path \<Rightarrow> contents \<Rightarrow> component list set \<Rightarrow>
   (resolved, load_error anyhow) result" where
  "check_directory os env w entry directory contents seen =
     (let shown = lint_source_display env entry in
      if \<not> os_exists os w directory
      then Err (Cause (LoadBail (''the lint source '' @ shown @ '' resolves to '' @ display directory @ '', which does not exist'')))
      else if \<not> os_is_dir os w directory
      then Err (Cause (LoadBail (''the lint source '' @ shown @ '' resolves to '' @ display directory @ '', which is not a directory'')))
      else result_bind (with_context (''failed to resolve the lint source '' @ shown)
             (map_err (\<lambda>e. Cause (LoadBail e)) (os_canonicalize os w directory)))
        (\<lambda>directory.
           if (case contents of Sources _ \<Rightarrow> \<not> os_is_file os w (path_join directory ''Cargo.toml'') | Libraries \<Rightarrow> False)
           then Err (Cause (LoadBail (''the lint source '' @ shown @ '' holds no Cargo.toml'')))
           else if components directory \<in> seen
           then Err (Cause (LoadBail (''the lint source '' @ shown @ '' resolves to '' @ display directory
                  @ '', which an earlier entry already configured'')))
           else Ok \<lparr>res_directory = directory, res_contents = contents\<rparr>))"

definition entry_directory ::
  "'w machine \<Rightarrow> path \<Rightarrow> abi_tag \<Rightarrow> lint_source \<Rightarrow> ('w, path \<times> contents) noted" where
  "entry_directory m root tag entry w =
     (case entry of
        PathSource p \<Rightarrow> (Ok (lint_path_resolve p root, Sources Unlocked), [], w)
      | GitSource git \<Rightarrow>
          (let (r, notices, w1) = resolve_git m git tag w
           in (with_context (''failed to resolve the lint source '' @ lint_source_display (mach_env m) entry) r,
               notices, w1)))"

fun configured_sources_loop ::
  "'w machine \<Rightarrow> path \<Rightarrow> abi_tag \<Rightarrow> lint_source list \<Rightarrow> component list set \<Rightarrow> ('w, resolved list) noted" where
  "configured_sources_loop m root tag [] seen w = (Ok [], [], w)"
| "configured_sources_loop m root tag (entry # entries) seen w =
     (case entry_directory m root tag entry w of
        (Inl e, notices, w1) \<Rightarrow> (Err e, notices, w1)
      | (Inr (directory, contents), notices, w1) \<Rightarrow>
          (case check_directory (mach_os m) (mach_env m) w1 entry directory contents seen of
             Inl e \<Rightarrow> (Err e, notices, w1)
           | Inr source \<Rightarrow>
               (let (r, more, w2) = configured_sources_loop m root tag entries
                      (insert (components (res_directory source)) seen) w1
                in (result_bind r (\<lambda>sources. Ok (source # sources)), notices @ more, w2))))"

definition configured_sources ::
  "'w machine \<Rightarrow> stiles_config \<Rightarrow> abi_tag \<Rightarrow> ('w, resolved list) noted" where
  "configured_sources m config tag w =
     configured_sources_loop m (config_root config) tag (config_lints config) {} w"

section \<open>Loading\<close>

text \<open>
  The dynamic loader: what opening a library and looking up its declaration gives. Building and
  opening read the machine as it is once every source is resolved.
\<close>

type_synonym ('s, 'e) opener = "path \<Rightarrow> (('s, 'e) plugin_declaration, load_error anyhow) result"

definition load_sources ::
  "toolchain \<Rightarrow> ('s, 'e) opener \<Rightarrow> path \<Rightarrow> locking \<Rightarrow> path option \<Rightarrow> abi_identity \<Rightarrow>
   (('s, 'e) loaded_lint list, load_error anyhow) result" where
  "load_sources tools open_library directory locking stiles_source host =
     result_bind (with_context (''failed to build the lints at '' @ display directory)
         (build tools directory locking stiles_source))
       (\<lambda>libraries. load_libraries open_library libraries host)"

definition load_prebuilt ::
  "'w os \<Rightarrow> 'w \<Rightarrow> ('s, 'e) opener \<Rightarrow> path \<Rightarrow> abi_identity \<Rightarrow>
   (('s, 'e) loaded_lint list, load_error anyhow) result" where
  "load_prebuilt os w open_library directory host =
     result_bind (with_context (''failed to list the libraries at '' @ display directory) (libraries os w directory))
       (\<lambda>ls. if ls = []
          then Err (Cause (LoadBail ''the directory holds no dynamic library; delete it and run stiles again to replace it''))
          else load_libraries open_library ls host)"

definition load_resolved ::
  "'w machine \<Rightarrow> 'w \<Rightarrow> ('s, 'e) opener \<Rightarrow> path option \<Rightarrow> abi_identity \<Rightarrow> resolved \<Rightarrow>
   (('s, 'e) loaded_lint list, load_error anyhow) result" where
  "load_resolved m w open_library stiles_source host source =
     (case res_contents source of
        Sources locking \<Rightarrow>
          with_context (''failed to load the custom lints at '' @ display (res_directory source))
            (load_sources (mach_tools m w) open_library (res_directory source) locking stiles_source host)
      | Libraries \<Rightarrow>
          with_context (''failed to load the prebuilt lints at '' @ display (res_directory source))
            (load_prebuilt (mach_os m) w open_library (res_directory source) host))"

definition CustomLints_load ::
  "'w machine \<Rightarrow> ('s, 'e) opener \<Rightarrow> abi_identity \<Rightarrow> string \<Rightarrow> stiles_config \<Rightarrow> ('w, ('s, 'e) custom_lints) noted" where
  "CustomLints_load m open_library host target config w =
     (case configured_sources m config (AbiTag_new host target) w of
        (Inl e, notices, w1) \<Rightarrow> (Err (Context ''failed to resolve the configured lint sources'' e), notices, w1)
      | (Inr sources, notices, w1) \<Rightarrow>
          (result_bind (collect_results (map (load_resolved m w1 open_library (config_stiles_source config) host) sources))
             (\<lambda>loaded. result_bind (with_context ''failed to check the rules that the lints declare''
                  (refuse_shared_rules (concat loaded)))
                (\<lambda>_. Ok (concat loaded))), notices, w1))"

section \<open>A machine that holds the lints asks nobody\<close>

text \<open>
  A source that the machine already holds is resolved without the network. Unpacked prebuilt
  libraries win, then a checkout at the pinned commit; in both cases the answer comes with no
  notice, nothing on disk changes, and neither the release API nor the git remote has any influence
  on it. A path source is never fetched and never locked.
\<close>

theorem resolve_git_offline:
  assumes "prebuilt_directory (mach_env m) source tag = Ok pd" and "checkout_directory (mach_env m) source = Ok cd"
  shows "(holds_libraries (mach_os m) w pd \<longrightarrow>
            resolve_git m source tag w = (Ok (pd, Libraries), [], w)) \<and>
         (\<not> holds_libraries (mach_os m) w pd \<and> git_holds (mach_gix m) w cd (source_rev source) \<longrightarrow>
            resolve_git m source tag w = (Ok (cd, Sources Locked), [], w)) \<and>
         (holds_libraries (mach_os m) w pd \<or> git_holds (mach_gix m) w cd (source_rev source) \<longrightarrow>
            (\<forall>ext. resolve_git (m\<lparr>mach_ext := ext\<rparr>) source tag w = resolve_git m source tag w)) \<and>
         entry_directory m root tag (PathSource p) w = (Ok (lint_path_resolve p root, Sources Unlocked), [], w)"
  using assms
  by (auto simp: resolve_git_def cached_prebuilt_def cached_checkout_def entry_directory_def)

definition sample_machine :: "fs machine" where
  "sample_machine = \<lparr>mach_os = fs_os, mach_gix = fs_gix, mach_ext = sample_externals,
     mach_env = sample_environment, mach_tools = (\<lambda>_. \<lparr>tool_cargo = (\<lambda>_ _. Err (Cause (LoadBail ''no cargo''))),
       tool_canonicalize = (\<lambda>_. None), tool_parse_message = (\<lambda>_. None), tool_parse_metadata = (\<lambda>_. None)\<rparr>)\<rparr>"

theorem resolve_git_offline_witness:
  "resolve_git sample_machine (sample_source ''x'') (AbiTag ''t'')
      [(components (checkout_directory_in sample_environment ''/c'' (sample_source ''x''))
          @ [Normal ''.git'', Normal ''HEAD''], FsFile (replicate 40 (CHR ''a'') @ newline))] =
    (Ok (checkout_directory_in sample_environment ''/c'' (sample_source ''x''), Sources Locked), [],
      [(components (checkout_directory_in sample_environment ''/c'' (sample_source ''x''))
          @ [Normal ''.git'', Normal ''HEAD''], FsFile (replicate 40 (CHR ''a'') @ newline))])"
proof -
  let ?s = "sample_source ''x''" and ?tag = "AbiTag ''t''"
  let ?cd = "checkout_directory_in sample_environment ''/c'' ?s"
  let ?pd = "prebuilt_directory_in sample_environment ''/c'' ?s ?tag"
  let ?w = "[(components ?cd @ [Normal ''.git'', Normal ''HEAD''], FsFile (replicate 40 (CHR ''a'') @ newline))]"
  have wf: "rev_wf (source_rev ?s)"
    by (simp add: rev_wf_def sample_source_def hash_length_def list_all_iff lower_hex_def less_eq_char_def)
  have root: "cache_root sample_environment = Ok ''/c''"
    by (simp add: cache_root_def resolve_def from_environment_def present_def cache_variable_def sample_environment_def)
  have dirs: "prebuilt_directory (mach_env sample_machine) ?s ?tag = Ok ?pd"
    "checkout_directory (mach_env sample_machine) ?s = Ok ?cd"
    by (simp_all add: prebuilt_directory_def checkout_directory_def sample_machine_def root)
  have "fs_view ?w (components ?pd) = None"
    using wf by (simp add: fs_view_def fs_subtree_def checkout_components prebuilt_components ordinary_name_def Let_def)
  then have "\<not> holds_libraries fs_os ?w ?pd"
    by (simp add: holds_libraries_def libraries_def fs_os_def fs_children_def)
  moreover have "git_holds fs_gix ?w ?cd (source_rev ?s)"
    using wf by (simp add: git_holds_def fs_gix_def fs_head_def newline_def rev_wf_def hash_length_def)
      (simp add: sample_source_def)
  ultimately show ?thesis
    using resolve_git_offline [OF dirs, of ?w] by (simp add: sample_machine_def)
qed

section \<open>The sources of a run\<close>

lemma check_directory_Ok:
  "check_directory os env w entry d c seen = Ok s \<longleftrightarrow>
     os_exists os w d \<and> os_is_dir os w d \<and> os_canonicalize os w d = Ok (res_directory s) \<and> res_contents s = c \<and>
     (\<forall>locking. c = Sources locking \<longrightarrow> os_is_file os w (path_join (res_directory s) ''Cargo.toml'')) \<and>
     components (res_directory s) \<notin> seen"
  by (cases c; cases s) (auto simp: check_directory_def Let_def result_bind_eq_Ok split: if_splits)

lemma entry_directory_contents:
  "entry_directory m root tag entry w = (Ok (d, c), ns, w') \<Longrightarrow>
     (\<exists>p. entry = PathSource p) = (c = Sources Unlocked)"
  by (auto simp: entry_directory_def resolve_git_def Let_def result_bind_eq_Ok split: lint_source.splits sum.splits
      option.splits prod.splits)

text \<open>
  An entry resolves to a source: its directory is there, the source names the canonical spelling
  of it, a package has a manifest, and its lockfile is left open only when the entry is a path.
\<close>

definition entry_resolves ::
  "'w machine \<Rightarrow> path \<Rightarrow> abi_tag \<Rightarrow> lint_source \<Rightarrow> 'w \<Rightarrow> resolved \<Rightarrow> prebuilt_notice list \<Rightarrow> 'w \<Rightarrow> bool" where
  "entry_resolves m root tag entry w s ns w' \<longleftrightarrow>
     (\<exists>d. entry_directory m root tag entry w = (Ok (d, res_contents s), ns, w') \<and>
        os_is_dir (mach_os m) w' d \<and> os_canonicalize (mach_os m) w' d = Ok (res_directory s)) \<and>
     (\<forall>locking. res_contents s = Sources locking \<longrightarrow>
        os_is_file (mach_os m) w' (path_join (res_directory s) ''Cargo.toml'')) \<and>
     (res_contents s = Sources Unlocked \<longleftrightarrow> (\<exists>p. entry = PathSource p))"

text \<open>The entries one after the other, each in the state the one before it left.\<close>

fun entries_resolve ::
  "'w machine \<Rightarrow> path \<Rightarrow> abi_tag \<Rightarrow> lint_source list \<Rightarrow> 'w \<Rightarrow> resolved list \<Rightarrow> prebuilt_notice list \<Rightarrow> 'w \<Rightarrow> bool" where
  "entries_resolve m root tag [] w [] notices w' \<longleftrightarrow> notices = [] \<and> w' = w"
| "entries_resolve m root tag (entry # entries) w (s # sources) notices w' \<longleftrightarrow>
     (\<exists>ns more w1. notices = ns @ more \<and> entry_resolves m root tag entry w s ns w1 \<and>
        entries_resolve m root tag entries w1 sources more w')"
| "entries_resolve m root tag _ w _ notices w' \<longleftrightarrow> False"

lemma configured_sources_loop_Ok:
  "configured_sources_loop m root tag entries seen w = (Ok sources, ns, w') \<Longrightarrow>
     distinct (map (\<lambda>s. components (res_directory s)) sources) \<and>
     (\<forall>s \<in> set sources. components (res_directory s) \<notin> seen) \<and>
     entries_resolve m root tag entries w sources ns w'"
proof (induction m root tag entries seen w arbitrary: sources ns w' rule: configured_sources_loop.induct)
  case (2 m root tag entry entries seen w)
  from "2.prems" obtain d c ns1 w1 s where e: "entry_directory m root tag entry w = (Ok (d, c), ns1, w1)"
    and s: "check_directory (mach_os m) (mach_env m) w1 entry d c seen = Ok s"
    by (auto split: prod.splits sum.splits)
  with "2.prems" obtain rest ns2 where rest: "sources = s # rest" "ns = ns1 @ ns2"
    and loop: "configured_sources_loop m root tag entries (insert (components (res_directory s)) seen) w1 = (Ok rest, ns2, w')"
    by (auto simp: Let_def result_bind_eq_Ok split: prod.splits)
  have "entry_resolves m root tag entry w s ns1 w1"
    using e s entry_directory_contents [OF e] by (auto simp: entry_resolves_def check_directory_Ok)
  with "2.IH" [OF e [symmetric] refl refl refl s loop] s
  show ?case by (auto simp: rest check_directory_Ok)
qed simp

text \<open>The libraries of a source: what building its package gives, or what its directory holds.\<close>

definition source_libraries :: "'w machine \<Rightarrow> 'w \<Rightarrow> path option \<Rightarrow> resolved \<Rightarrow> path list \<Rightarrow> bool" where
  "source_libraries m w stiles_source s ps \<longleftrightarrow>
     (case res_contents s of
        Sources locking \<Rightarrow> build (mach_tools m w) (res_directory s) locking stiles_source = Ok ps
      | Libraries \<Rightarrow> libraries (mach_os m) w (res_directory s) = Ok ps \<and> ps \<noteq> [])"

text \<open>The lints of a library: one per export, in order, once its plugin passed the handshake.\<close>

definition library_lints ::
  "('s, 'e) opener \<Rightarrow> abi_identity \<Rightarrow> path \<Rightarrow> ('s, 'e) loaded_lint list \<Rightarrow> bool" where
  "library_lints open_library host library lints \<longleftrightarrow>
     (\<exists>decl exported. open_library library = Ok decl \<and>
        validate_handshake host (decl_identity decl) = Ok () \<and> decl_load decl = Ok exported \<and>
        exported \<noteq> [] \<and> list_all (\<lambda>x. exported_rules x \<noteq> []) exported \<and>
        lints = map (\<lambda>x. \<lparr>loaded_factory = exported_factory x, loaded_language = exported_language x,
                   loaded_rules = exported_rules x, loaded_library = library\<rparr>) exported)"

lemma map_Ok_all2: "map f xs = map Ok ys \<longleftrightarrow> list_all2 (\<lambda>x y. f x = Ok y) xs ys"
  by (auto simp: list_all2_conv_all_nth list_eq_iff_nth_eq)

lemma load_libraries_lints:
  "load_libraries open_library ps host = Ok ls \<longleftrightarrow>
     (\<exists>lss. list_all2 (library_lints open_library host) ps lss \<and> ls = concat lss)"
proof -
  have "load_library open_library p host = Ok l \<longleftrightarrow> library_lints open_library host p l" for p l
    by (auto simp: load_library_Ok library_lints_def)
  then show ?thesis
    by (simp add: load_libraries_def result_bind_eq_Ok collect_results_Ok map_Ok_all2) metis
qed

lemma load_resolved_lints:
  "load_resolved m w open_library stiles_source host s = Ok ls \<longleftrightarrow>
     (\<exists>ps lss. source_libraries m w stiles_source s ps \<and> list_all2 (library_lints open_library host) ps lss \<and> ls = concat lss)"
  by (cases "res_contents s")
    (auto simp: load_resolved_def load_sources_def load_prebuilt_def source_libraries_def result_bind_eq_Ok
      load_libraries_lints split: if_splits)

lemma all_resolved_lints:
  assumes "list_all2 (\<lambda>s ls. load_resolved m w open_library stiles_source host s = Ok ls) sources loaded"
  shows "\<exists>pss lss. list_all2 (source_libraries m w stiles_source) sources pss \<and>
     list_all2 (library_lints open_library host) (concat pss) lss \<and> concat loaded = concat lss"
  using assms
proof (induction sources loaded rule: list_all2_induct)
  case (Cons s sources ls loaded)
  then obtain ps lss pss more where "source_libraries m w stiles_source s ps"
    "list_all2 (library_lints open_library host) ps lss" "ls = concat lss"
    "list_all2 (source_libraries m w stiles_source) sources pss"
    "list_all2 (library_lints open_library host) (concat pss) more" "concat loaded = concat more"
    by (auto simp: load_resolved_lints)
  then show ?case
    by (intro exI [of _ "ps # pss"] exI [of _ "lss @ more"]) (simp add: list_all2_appendI)
qed simp

text \<open>
  C14: What a run loads is exactly what is configured, in order, and it is unambiguous. When loading
  succeeds, every configured entry resolved to one directory, in the order of the configuration; no
  two entries gave the same directory however they were spelled, and a lockfile is left open only
  for the entries that are paths. Every package gave the libraries that its build reports and every
  directory of prebuilt lints the libraries in it, at least one. The lints of the run are the exports
  of all of these libraries and no others, one after the other, every library passed the handshake
  before anything of it ran, every lint declares at least one rule, and no two lints of one language
  share a rule.
\<close>

theorem CustomLints_load_sound:
  assumes "CustomLints_load m open_library host target config w = (Ok lints, notices, w')"
  shows "\<exists>sources pss lss.
     entries_resolve m (config_root config) (AbiTag_new host target) (config_lints config) w sources notices w' \<and>
     distinct (map (\<lambda>s. components (res_directory s)) sources) \<and>
     list_all2 (source_libraries m w' (config_stiles_source config)) sources pss \<and>
     list_all2 (library_lints open_library host) (concat pss) lss \<and>
     lints = concat lss \<and>
     refuse_shared_rules lints = Ok ()"
proof -
  from assms obtain sources loaded where
    src: "configured_sources_loop m (config_root config) (AbiTag_new host target) (config_lints config) {} w = (Ok sources, notices, w')"
    and loaded: "list_all2 (\<lambda>s ls. load_resolved m w' open_library (config_stiles_source config) host s = Ok ls) sources loaded"
    and lints: "lints = concat loaded" "refuse_shared_rules lints = Ok ()"
    by (auto simp: CustomLints_load_def configured_sources_def result_bind_eq_Ok collect_results_Ok map_Ok_all2
        split: prod.splits sum.splits)
  from all_resolved_lints [OF loaded] configured_sources_loop_Ok [OF src] lints show ?thesis by metis
qed

text \<open>A project with one path entry, whose package builds one plugin.\<close>

definition path_config :: stiles_config where
  "path_config = \<lparr>config_root = ''/w'', config_ignore = [], config_lints = [PathSource (LintPath ''l'')],
     config_rules = All, config_options = RuleOptions [], config_stiles_source = None\<rparr>"

definition path_fs :: fs where
  "path_fs = [(components ''/w/l/Cargo.toml'', FsFile [])]"

definition path_machine :: "fs machine" where
  "path_machine = sample_machine\<lparr>mach_tools := (\<lambda>_. \<lparr>
     tool_cargo = (\<lambda>_ _. Ok \<lparr>out_success = True, out_stdout = ''l'', out_stderr = []\<rparr>),
     tool_canonicalize = (\<lambda>_. None), tool_parse_message = sample_message, tool_parse_metadata = (\<lambda>_. None)\<rparr>)\<rparr>"

definition path_opener :: "(rule_options, unit) opener" where
  "path_opener = (\<lambda>_. Ok (sample_declaration 2 [''r'']))"

lemma path_sources:
  "configured_sources path_machine path_config tag path_fs =
     (Ok [\<lparr>res_directory = ''/w/l'', res_contents = Sources Unlocked\<rparr>], [], path_fs)"
proof -
  have "check_directory (mach_os path_machine) (mach_env path_machine) path_fs (PathSource (LintPath ''l''))
      ''/w/l'' (Sources Unlocked) {} = Ok \<lparr>res_directory = ''/w/l'', res_contents = Sources Unlocked\<rparr>"
    by code_simp
  then show ?thesis
    by (simp add: configured_sources_def path_config_def entry_directory_def lint_path_resolve_def path_join_def)
qed

lemma path_build: "build (mach_tools path_machine path_fs) ''/w/l'' Unlocked None = Ok [''/t/l.so'']"
  by code_simp

lemma path_library: "load_library path_opener ''/t/l.so'' (sample_identity 1 3) =
    Ok [\<lparr>loaded_factory = Ok recording_pass, loaded_language = Rust, loaded_rules = [RuleId ''r''], loaded_library = ''/t/l.so''\<rparr>]"
  by (simp add: load_library_Ok path_opener_def sample_declaration_def sample_identity_def validate_handshake_def
      abi_accepts_iff)

lemma config_stiles_source_path: "config_stiles_source path_config = None"
  by (simp add: path_config_def)

lemma path_load:
  "CustomLints_load path_machine path_opener (sample_identity 1 3) ''t'' path_config path_fs =
     (Ok [\<lparr>loaded_factory = Ok recording_pass, loaded_language = Rust, loaded_rules = [RuleId ''r''],
          loaded_library = ''/t/l.so''\<rparr>], [], path_fs)"
  by (simp add: CustomLints_load_def path_sources load_resolved_def load_sources_def path_build
      load_libraries_def path_library config_stiles_source_path)

theorem CustomLints_load_sound_witness:
  "\<exists>lints sources pss lss. CustomLints_load path_machine path_opener (sample_identity 1 3) ''t'' path_config path_fs = (Ok lints, [], path_fs) \<and>
     length sources = 1 \<and> list_all2 (source_libraries path_machine path_fs None) sources pss \<and>
     list_all2 (library_lints path_opener (sample_identity 1 3)) (concat pss) lss \<and>
     concat lss = lints \<and> map loaded_library lints = [''/t/l.so'']"
proof -
  from CustomLints_load_sound [OF path_load] obtain sources pss lss where
    entries: "entries_resolve path_machine ''/w'' (AbiTag_new (sample_identity 1 3) ''t'') [PathSource (LintPath ''l'')] path_fs sources [] path_fs"
    and libs: "list_all2 (source_libraries path_machine path_fs None) sources pss"
      "list_all2 (library_lints path_opener (sample_identity 1 3)) (concat pss) lss"
      "concat lss = [\<lparr>loaded_factory = Ok recording_pass, loaded_language = Rust, loaded_rules = [RuleId ''r''],
          loaded_library = ''/t/l.so''\<rparr>]"
    by (auto simp: path_config_def)
  from entries have "length sources = 1" by (cases sources; cases "tl sources") auto
  with libs path_load show ?thesis by fastforce
qed

end
