(* ===== verification/Reporting.thy ===== *)
theory Reporting
  imports Syntax
begin

text \<open>
  Rendering diagnostics: \<open>crates/stiles-reporting/src/renderer.rs\<close>. Codespan's \<open>emit\<close> is an
  argument; what the code hands to it, the files and the diagnostics with their labels, is modelled.
  A \<open>HashMap\<close> of sources is the list of its bindings in whatever order it iterates; paths are
  looked up by their components, as \<open>Path\<close> hashes and compares.
\<close>

section \<open>Codespan's data\<close>

datatype cs_severity = CsError | CsWarning | CsNote | CsHelp

datatype label_style = PrimaryLabel | SecondaryLabel

record cs_label =
  label_style :: label_style
  label_file :: nat
  label_start :: nat
  label_end :: nat
  label_message :: string

record cs_diagnostic =
  cs_sev :: cs_severity
  cs_code :: string
  cs_message :: string
  cs_labels :: "cs_label list"
  cs_notes :: "string list"

type_synonym sources = "(path \<times> string) list"

text \<open>\<open>HashMap::get\<close>, \<open>contains_key\<close> and \<open>insert\<close> with a path as key.\<close>

definition path_get :: "(path \<times> 'v) list \<Rightarrow> path \<Rightarrow> 'v option" where
  "path_get m p = map_option snd (find (\<lambda>(q, v). components q = components p) m)"

fun path_insert :: "path \<Rightarrow> 'v \<Rightarrow> (path \<times> 'v) list \<Rightarrow> (path \<times> 'v) list" where
  "path_insert p v [] = [(p, v)]"
| "path_insert p v ((q, u) # m) =
     (if components q = components p then (q, v) # m else (q, u) # path_insert p v m)"

definition path_keys :: "(path \<times> 'v) list \<Rightarrow> component list list" where
  "path_keys m = map (\<lambda>(q, v). components q) m"

section \<open>The renderer\<close>

text \<open>The loop over the sources: \<open>SimpleFiles::add\<close> numbers the files as they are added.\<close>

definition file_ids :: "sources \<Rightarrow> (path \<times> nat) list" where
  "file_ids sources = zip (map fst sources) [0..<length sources]"

fun cs_severity_of :: "severity \<Rightarrow> cs_severity" where
  "cs_severity_of Error = CsError"
| "cs_severity_of Warn = CsWarning"
| "cs_severity_of Info = CsNote"
| "cs_severity_of Help = CsHelp"

definition span_label :: "label_style \<Rightarrow> (path \<times> nat) list \<Rightarrow> span \<Rightarrow> string \<Rightarrow> cs_label list" where
  "span_label style ids sp msg =
     (case path_get ids (as_path (span_file sp)) of
        None \<Rightarrow> []
      | Some i \<Rightarrow> [\<lparr>label_style = style, label_file = i, label_start = span_start sp, label_end = span_end sp,
                  label_message = msg\<rparr>])"

definition to_codespan :: "diagnostic \<Rightarrow> (path \<times> nat) list \<Rightarrow> cs_diagnostic" where
  "to_codespan d ids =
     \<lparr>cs_sev = cs_severity_of (diag_severity d),
      cs_code = rule_name (diag_rule_id d),
      cs_message = diag_message d,
      cs_labels = span_label PrimaryLabel ids (diag_span d) (diag_message d)
        @ concat (map (\<lambda>l. span_label SecondaryLabel ids (location_span l) (location_message l)) (diag_origins d))
        @ concat (map (\<lambda>l. span_label SecondaryLabel ids (location_span l) (location_message l)) (diag_related d)),
      cs_notes = map (\<lambda>s. suggestion_message s @ '': replace with `'' @ suggestion_replacement s @ ''`'') (diag_suggestions d)\<rparr>"

datatype render_diagnostics_error = Unemitted string | NotUtf8

type_synonym emitter = "(string \<times> string) list \<Rightarrow> cs_diagnostic \<Rightarrow> (string, string) result"

definition simple_files :: "sources \<Rightarrow> (string \<times> string) list" where
  "simple_files sources = map (\<lambda>(p, s). (display p, s)) sources"

fun emit_all :: "emitter \<Rightarrow> sources \<Rightarrow> diagnostic list \<Rightarrow> string \<Rightarrow> (string, render_diagnostics_error) result" where
  "emit_all emit sources [] output = Ok output"
| "emit_all emit sources (d # ds) output =
     result_bind (map_err Unemitted (emit (simple_files sources) (to_codespan d (file_ids sources))))
       (\<lambda>text. emit_all emit sources ds (output @ text))"

definition render_to_string ::
  "emitter \<Rightarrow> diagnostic list \<Rightarrow> sources \<Rightarrow> (string, render_diagnostics_error) result" where
  "render_to_string emit diagnostics sources =
     (if diagnostics = [] then Ok []
      else result_bind (emit_all emit sources diagnostics [])
        (\<lambda>output. if utf8_valid output then Ok output else Err NotUtf8))"

datatype print_diagnostics_error =
    UnreadableDiagnosticSource path string
  | PrintUnemitted string
  | Unflushed string

fun collect_sources ::
  "(path \<Rightarrow> (string, string) result) \<Rightarrow> diagnostic list \<Rightarrow> sources \<Rightarrow> (sources, print_diagnostics_error) result" where
  "collect_sources read_to_string [] sources = Ok sources"
| "collect_sources read_to_string (d # ds) sources =
     (let file = as_path (span_file (diag_span d)) in
      if path_get sources file \<noteq> None then collect_sources read_to_string ds sources
      else result_bind (map_err (UnreadableDiagnosticSource file) (read_to_string file))
             (\<lambda>source. collect_sources read_to_string ds (path_insert file source sources)))"

text \<open>
  Printing to the standard error. \<open>emit\<close> gives what reaches the stream, of a diagnostic that fails too;
  \<open>flush\<close> may refuse what has been written so far.
\<close>

type_synonym stream_emitter = "(string \<times> string) list \<Rightarrow> cs_diagnostic \<Rightarrow> string \<times> (unit, string) result"

fun print_all ::
  "stream_emitter \<Rightarrow> (string \<Rightarrow> (unit, string) result) \<Rightarrow> sources \<Rightarrow> diagnostic list \<Rightarrow> string \<Rightarrow>
   (unit, print_diagnostics_error) result \<times> string" where
  "print_all emit flush sources [] written = (Ok (), written)"
| "print_all emit flush sources (d # ds) written =
     (let (text, emitted) = emit (simple_files sources) (to_codespan d (file_ids sources));
          written = written @ text
      in case result_bind (map_err PrintUnemitted emitted) (\<lambda>_. map_err Unflushed (flush written)) of
           Inl e \<Rightarrow> (Err e, written)
         | Inr _ \<Rightarrow> print_all emit flush sources ds written)"

definition render ::
  "(path \<Rightarrow> (string, string) result) \<Rightarrow> stream_emitter \<Rightarrow> (string \<Rightarrow> (unit, string) result) \<Rightarrow> diagnostic list \<Rightarrow>
   (unit, print_diagnostics_error) result \<times> string" where
  "render read_to_string emit flush diagnostics =
     (if diagnostics = [] then (Ok (), [])
      else case collect_sources read_to_string diagnostics [] of
             Inl e \<Rightarrow> (Err e, [])
           | Inr sources \<Rightarrow> print_all emit flush sources diagnostics [])"

section \<open>Labels name the right file\<close>

lemma path_get_Some:
  "path_get m f = Some v \<longleftrightarrow>
     (\<exists>i < length m. components (fst (m ! i)) = components f \<and> snd (m ! i) = v \<and>
        (\<forall>j < i. components (fst (m ! j)) \<noteq> components f))"
  unfolding path_get_def map_option_eq_Some find_Some_iff case_prod_unfold by fastforce

lemma path_get_None: "path_get m f = None \<longleftrightarrow> components f \<notin> set (path_keys m)"
  unfolding path_get_def path_keys_def map_option_is_None find_None_iff case_prod_unfold by force

lemma path_get_file_ids:
  "path_get (file_ids sources) f = Some i \<Longrightarrow>
     i < length sources \<and> components (fst (sources ! i)) = components f \<and> path_get sources f = Some (snd (sources ! i))"
  unfolding path_get_Some by (auto simp: file_ids_def)

lemma path_get_file_ids_None:
  "path_get (file_ids sources) f = None \<longleftrightarrow> components f \<notin> set (path_keys sources)"
proof -
  have "path_keys (file_ids sources) = path_keys sources"
    by (rule nth_equalityI) (auto simp: path_keys_def file_ids_def case_prod_unfold)
  then show ?thesis by (simp add: path_get_None)
qed

definition label_view :: "sources \<Rightarrow> cs_label \<Rightarrow> label_style \<times> component list \<times> nat \<times> nat \<times> string" where
  "label_view sources l =
     (label_style l, components (fst (sources ! label_file l)), label_start l, label_end l, label_message l)"

definition span_view :: "label_style \<Rightarrow> span \<Rightarrow> string \<Rightarrow> label_style \<times> component list \<times> nat \<times> nat \<times> string" where
  "span_view style sp msg = (style, components (as_path (span_file sp)), span_start sp, span_end sp, msg)"

text \<open>What the labels of a diagnostic should be, when the files of the keys are known.\<close>

definition wanted_labels ::
  "diagnostic \<Rightarrow> component list set \<Rightarrow> (label_style \<times> component list \<times> nat \<times> nat \<times> string) list" where
  "wanted_labels d known =
     filter (\<lambda>(style, f, rest). f \<in> known)
       (span_view PrimaryLabel (diag_span d) (diag_message d)
        # map (\<lambda>l. span_view SecondaryLabel (location_span l) (location_message l)) (diag_origins d @ diag_related d))"

lemma span_label_view:
  "map (label_view sources) (span_label style (file_ids sources) sp msg) =
     filter (\<lambda>(style, f, rest). f \<in> set (path_keys sources)) [span_view style sp msg]"
  "list_all (\<lambda>l. label_file l < length sources) (span_label style (file_ids sources) sp msg)"
proof -
  let ?f = "as_path (span_file sp)"
  show "map (label_view sources) (span_label style (file_ids sources) sp msg) =
     filter (\<lambda>(style, f, rest). f \<in> set (path_keys sources)) [span_view style sp msg]"
    using path_get_file_ids_None [of sources ?f]
    by (cases "path_get (file_ids sources) ?f")
      (auto simp: span_label_def span_view_def label_view_def dest: path_get_file_ids)
  show "list_all (\<lambda>l. label_file l < length sources) (span_label style (file_ids sources) sp msg)"
    by (cases "path_get (file_ids sources) ?f") (auto simp: span_label_def dest: path_get_file_ids)
qed

text \<open>
  Every label points into the file its span names. The labels handed to codespan are the primary
  span, then the origins, then the related locations, in order and without those whose file is not
  loaded; each carries the number of its own file, which is in range; and what they say does not
  depend on the order in which the map of sources iterates.
\<close>

theorem to_codespan_labels:
  "map (label_view sources) (cs_labels (to_codespan d (file_ids sources))) = wanted_labels d (set (path_keys sources)) \<and>
   list_all (\<lambda>l. label_file l < length sources) (cs_labels (to_codespan d (file_ids sources)))"
proof -
  have many: "map (label_view sources) (concat (map (\<lambda>l. span_label SecondaryLabel (file_ids sources) (location_span l) (location_message l)) ls)) =
      filter (\<lambda>(style, f, rest). f \<in> set (path_keys sources))
        (map (\<lambda>l. span_view SecondaryLabel (location_span l) (location_message l)) ls)" for ls
    by (induction ls) (simp_all add: span_label_view(1))
  have "list_all (\<lambda>l. label_file l < length sources)
      (concat (map (\<lambda>l. span_label SecondaryLabel (file_ids sources) (location_span l) (location_message l)) ls))" for ls
    using span_label_view(2) by (induction ls) (auto simp: list_all_iff)
  note in_range = this span_label_view(2) [of sources]
  show ?thesis
  proof
    show "map (label_view sources) (cs_labels (to_codespan d (file_ids sources))) = wanted_labels d (set (path_keys sources))"
      by (simp add: to_codespan_def wanted_labels_def span_label_view(1) many)
    show "list_all (\<lambda>l. label_file l < length sources) (cs_labels (to_codespan d (file_ids sources)))"
      unfolding to_codespan_def cs_diagnostic.simps list_all_append by (intro conjI in_range)
  qed
qed

lemma collect_sources_Ok:
  "collect_sources read_to_string ds sources = Ok out \<Longrightarrow>
     set (path_keys sources) \<subseteq> set (path_keys out) \<and>
     (\<forall>d \<in> set ds. components (as_path (span_file (diag_span d))) \<in> set (path_keys out))"
proof (induction ds arbitrary: sources)
  case (Cons d ds)
  let ?f = "as_path (span_file (diag_span d))"
  have keys: "set (path_keys (path_insert p v m)) = insert (components p) (set (path_keys m))" for p v and m :: sources
    by (induction p v m rule: path_insert.induct) (auto simp: path_keys_def)
  have known: "path_get sources ?f \<noteq> None \<Longrightarrow> components ?f \<in> set (path_keys sources)"
    by (simp add: path_get_None)
  show ?case
  proof (cases "path_get sources ?f")
    case None
    with Cons.prems obtain source where
      "collect_sources read_to_string ds (path_insert ?f source sources) = Ok out"
      by (auto simp: result_bind_eq_Ok Let_def)
    from Cons.IH [OF this] show ?thesis by (auto simp: keys)
  next
    case (Some s)
    with Cons known show ?thesis by (auto simp: Let_def)
  qed
qed simp

section \<open>Printing agrees with rendering to a string\<close>

lemma print_all_emits:
  assumes "\<forall>files d text. emit files d = Ok text \<longleftrightarrow> stream files d = (text, Ok ())"
    and "print_all stream flush sources ds written = (Ok (), out)"
  shows "emit_all emit sources ds written = Ok out"
  using assms(2)
proof (induction ds arbitrary: written)
  case (Cons d ds)
  obtain shown r where emitted: "stream (simple_files sources) (to_codespan d (file_ids sources)) = (shown, r)" by fastforce
  with Cons.prems have "r = Ok ()" by (cases r) auto
  with emitted assms(1) have "emit (simple_files sources) (to_codespan d (file_ids sources)) = Ok shown" by simp
  with Cons emitted show ?case by (auto simp: Let_def \<open>r = Ok ()\<close> split: sum.splits)
qed simp

text \<open>
  What is printed when every diagnostic is printed is what rendering to a string gives for the sources the
  diagnostics point into.
\<close>

theorem render_prints_string:
  assumes "\<forall>files d text. emit files d = Ok text \<longleftrightarrow> stream files d = (text, Ok ())"
    and "render read_to_string stream flush ds = (Ok (), out)" "utf8_valid out"
  shows "ds = [] \<and> out = [] \<or> (\<exists>sources. collect_sources read_to_string ds [] = Ok sources \<and> render_to_string emit ds sources = Ok out)"
  using assms(2,3) print_all_emits [OF assms(1)]
  by (auto simp: render_def render_to_string_def split: if_splits sum.splits)

end
