(* ===== verification/Findings.thy ===== *)
theory Findings
  imports Reporting Config
begin

text \<open>
  What a check reports and how it decides its exit: \<open>finding.rs\<close>, \<open>failure_threshold.rs\<close> and
  \<open>check_outcome.rs\<close> of \<open>crates/stiles/src/commands/check\<close>.
\<close>

section \<open>Positions\<close>

text \<open>\<open>while !source.is_char_boundary(end) { end -= 1; }\<close>\<close>

function floor_boundary :: "string \<Rightarrow> nat \<Rightarrow> nat" where
  "floor_boundary s e = (if is_char_boundary s e then e else floor_boundary s (e - 1))"
  by pat_completeness auto
termination
proof (relation "measure snd")
  fix s e assume "\<not> is_char_boundary s e"
  then have "e \<noteq> 0" by (auto simp: is_char_boundary_def)
  then show "((s, e - 1), (s, e)) \<in> measure snd" by simp
qed simp

declare floor_boundary.simps [simp del]

text \<open>\<open>matches('\n').count()\<close>, \<open>rfind('\n')\<close> and \<open>chars().count()\<close> of UTF-8 text.\<close>

definition newline_count :: "string \<Rightarrow> nat" where
  "newline_count s = length (filter (\<lambda>c. c = CHR 0x0A) s)"

definition rfind_newline :: "string \<Rightarrow> nat option" where
  "rfind_newline s =
     (case find (\<lambda>i. s ! i = CHR 0x0A) (rev [0..<length s]) of Some i \<Rightarrow> Some i | None \<Rightarrow> None)"

definition char_count :: "string \<Rightarrow> nat" where
  "char_count s = length (filter (\<lambda>c. \<not> is_continuation c) s)"

text \<open>The line and column, or \<open>None\<close> where a slice would panic.\<close>

definition position :: "string \<Rightarrow> nat \<Rightarrow> (nat \<times> nat) option" where
  "position source offset =
     Option.bind (str_slice source 0 (floor_boundary source (min offset (length source)))) (\<lambda>before.
       let line = newline_count before + 1;
           line_start = (case rfind_newline before of None \<Rightarrow> 0 | Some i \<Rightarrow> i + 1)
       in Option.bind (str_slice before line_start (length before)) (\<lambda>tail.
            Some (line, char_count tail + 1)))"

section \<open>Findings\<close>

record finding =
  find_rule :: string
  find_severity :: string
  find_message :: string
  find_file :: path
  find_start :: nat
  find_end :: nat
  find_line :: nat
  find_column :: nat
  find_rendered :: string

fun severity_name :: "severity \<Rightarrow> string" where
  "severity_name Help = ''help''"
| "severity_name Info = ''note''"
| "severity_name Warn = ''warning''"
| "severity_name Error = ''error''"

datatype finding_error = RenderFailed render_diagnostics_error | PositionPanic

definition Finding_new :: "emitter \<Rightarrow> diagnostic \<Rightarrow> sources \<Rightarrow> (finding, finding_error anyhow) result" where
  "Finding_new emit d sources =
     result_bind (with_context ''failed to render the diagnostic''
         (map_err (\<lambda>e. Cause (RenderFailed e)) (render_to_string emit [d] sources))) (\<lambda>rendered.
       let sp = diag_span d; file = as_path (span_file sp)
       in result_bind (case path_get sources file of
              Some source \<Rightarrow> ok_or (Cause PositionPanic) (position source (span_start sp))
            | None \<Rightarrow> Ok (1, 1))
          (\<lambda>(line, column). Ok \<lparr>find_rule = rule_name (diag_rule_id d), find_severity = severity_name (diag_severity d),
             find_message = diag_message d, find_file = file, find_start = span_start sp, find_end = span_end sp,
             find_line = line, find_column = column, find_rendered = rendered\<rparr>))"

definition finding_display :: "finding \<Rightarrow> string" where
  "finding_display f =
     (case strip_suffix (find_rendered f) newline of Some r \<Rightarrow> r | None \<Rightarrow> find_rendered f)"

section \<open>Thresholds and outcomes\<close>

datatype failure_threshold = Errors | Warnings

fun minimum_failing_severity :: "failure_threshold \<Rightarrow> severity" where
  "minimum_failing_severity Errors = Error"
| "minimum_failing_severity Warnings = Warn"

definition is_met_by :: "failure_threshold \<Rightarrow> severity \<Rightarrow> bool" where
  "is_met_by t sev = (sev \<ge> minimum_failing_severity t)"

definition promote :: "failure_threshold \<Rightarrow> diagnostic \<Rightarrow> diagnostic" where
  "promote t d = (if is_met_by t (diag_severity d) then with_severity d Error else d)"

datatype check_outcome = Success | Failure

definition from_diagnostics :: "diagnostic list \<Rightarrow> failure_threshold \<Rightarrow> check_outcome" where
  "from_diagnostics ds t =
     (if list_ex (\<lambda>d. is_met_by t (diag_severity d)) ds then Failure else Success)"

definition combine :: "check_outcome \<Rightarrow> check_outcome \<Rightarrow> check_outcome" where
  "combine a b = (if a = Failure \<or> b = Failure then Failure else Success)"

section \<open>Promotion agrees with the exit\<close>

lemma is_met_by_iff:
  "is_met_by Errors s \<longleftrightarrow> s = Error" "is_met_by Warnings s \<longleftrightarrow> s = Warn \<or> s = Error"
  by (cases s; simp add: is_met_by_def less_eq_severity_def)+

lemma is_met_by_promote: "is_met_by t (diag_severity (promote t d)) = is_met_by t (diag_severity d)"
  by (cases t) (auto simp: promote_def is_met_by_iff with_severity_def)

text \<open>
  What is printed agrees with the exit. Promoting the diagnostics changes no outcome; after it a
  run fails exactly when some diagnostic is printed as an error, under either threshold; and
  promotion changes nothing of a diagnostic but its severity, and nothing at all below the
  threshold.
\<close>

theorem promote_agrees:
  "from_diagnostics (map (promote t) ds) t = from_diagnostics ds t \<and>
   (from_diagnostics ds t = Failure \<longleftrightarrow> list_ex (\<lambda>d. diag_severity d = Error) (map (promote t) ds)) \<and>
   (\<exists>s. promote t d = d\<lparr>diag_severity := s\<rparr>) \<and>
   (is_met_by t (diag_severity d) \<or> promote t d = d)"
proof (intro conjI)
  show "from_diagnostics (map (promote t) ds) t = from_diagnostics ds t"
    by (simp add: from_diagnostics_def list_ex_iff is_met_by_promote)
  have "is_met_by t (diag_severity d) \<longleftrightarrow> diag_severity (promote t d) = Error" for d
    by (cases t) (auto simp: promote_def is_met_by_iff with_severity_def)
  then show "from_diagnostics ds t = Failure \<longleftrightarrow> list_ex (\<lambda>d. diag_severity d = Error) (map (promote t) ds)"
    by (simp add: from_diagnostics_def list_ex_iff)
  show "\<exists>s. promote t d = d\<lparr>diag_severity := s\<rparr>"
    by (auto simp: promote_def with_severity_def intro: exI [of _ "diag_severity d"])
qed (simp add: promote_def)

section \<open>Positions are right\<close>

lemma floor_boundary_le: "floor_boundary s e \<le> e"
  by (induction s e rule: floor_boundary.induct) (subst floor_boundary.simps, auto)

lemma floor_boundary_boundary: "is_char_boundary s (floor_boundary s e)"
  by (induction s e rule: floor_boundary.induct) (subst floor_boundary.simps, auto)

lemma floor_boundary_greatest: "is_char_boundary s k \<Longrightarrow> k \<le> e \<Longrightarrow> k \<le> floor_boundary s e"
proof (induction s e rule: floor_boundary.induct)
  case (1 s e)
  show ?case
  proof (cases "is_char_boundary s e")
    case True
    then show ?thesis using 1 by (subst floor_boundary.simps) simp
  next
    case False
    then have "k \<noteq> e" using 1 by auto
    then show ?thesis using 1 False by (subst floor_boundary.simps) simp
  qed
qed

text \<open>No continuation byte follows an ASCII byte in UTF-8 text.\<close>

lemma utf8_next_ascii: "byte_of c < (128::nat) \<Longrightarrow> utf8_next (c # cs) = (True, 1)"
  by (simp add: utf8_next.simps Let_def)

lemma utf8_valid_start: "utf8_valid (c # cs) \<Longrightarrow> \<not> is_continuation c"
  by (auto simp: utf8_valid.simps utf8_next.simps is_continuation_def Let_def split: if_splits list.splits)

lemma second_ok_continuation: "second_ok a (byte_of d) \<Longrightarrow> is_continuation d"
  unfolding second_ok_def is_continuation_def by (simp split: if_splits)

lemma if_pair: "(if b then x else y) = r \<longleftrightarrow> (b \<and> x = r) \<or> (\<not> b \<and> y = r)"
  by simp

lemma utf8_next_cases:
  assumes "utf8_next (c # cs) = (True, n)"
  obtains "n = 1"
    | d ds where "cs = d # ds" "n = 2" "is_continuation d"
    | d e ds where "cs = d # e # ds" "n = 3" "is_continuation d" "is_continuation e"
    | d e f ds where "cs = d # e # f # ds" "n = 4" "is_continuation d" "is_continuation e" "is_continuation f"
  using assms unfolding utf8_next.simps Let_def if_pair
  by (elim disjE conjE; (cases cs; (cases "tl cs"; cases "tl (tl cs)")?);
      (simp add: second_ok_continuation split: if_splits)?)

lemma utf8_next_tail:
  assumes "fst (utf8_next (c # cs))"
  shows "list_all is_continuation (take (snd (utf8_next (c # cs)) - 1) cs) \<and> snd (utf8_next (c # cs)) \<le> length (c # cs)"
proof -
  obtain n where n: "utf8_next (c # cs) = (True, n)" using assms by (cases "utf8_next (c # cs)") simp
  show ?thesis unfolding n snd_conv using n
    by (cases rule: utf8_next_cases) (simp_all add: numeral_2_eq_2 numeral_3_eq_3)
qed

lemma utf8_next_bytes:
  assumes "fst (utf8_next s)" and "i < snd (utf8_next s)" and "0 < i"
  shows "i < length s \<and> is_continuation (s ! i)"
proof (cases s)
  case (Cons c cs)
  with assms utf8_next_tail [of c cs] have "list_all is_continuation (take (snd (utf8_next s) - 1) cs)"
    and len: "snd (utf8_next s) \<le> Suc (length cs)" by simp_all
  moreover have "i - 1 < length (take (snd (utf8_next s) - 1) cs)" using assms len by simp
  ultimately have "is_continuation (take (snd (utf8_next s) - 1) cs ! (i - 1))" by (simp only: list_all_length)
  with assms len Cons show ?thesis by (simp add: nth_Cons')
qed (use assms in \<open>simp add: utf8_next.simps\<close>)

lemma utf8_after_newline:
  "utf8_valid s \<Longrightarrow> i < length s \<Longrightarrow> s ! i = CHR 0x0A \<Longrightarrow> i + 1 < length s \<Longrightarrow> \<not> is_continuation (s ! (i + 1))"
proof (induction s arbitrary: i rule: utf8_valid.induct)
  case (2 c cs)
  define n where "n = snd (utf8_next (c # cs))"
  have ok: "fst (utf8_next (c # cs))" and rest: "utf8_valid (drop n (c # cs))"
    using "2.prems"(1) by (auto simp: utf8_valid.simps n_def)
  have n: "0 < n" unfolding n_def by (rule utf8_next_pos) simp
  show ?case
  proof (cases "i < n")
    case True
    have "i = 0"
    proof (rule ccontr)
      assume "i \<noteq> 0"
      then have "is_continuation ((c # cs) ! i)" using utf8_next_bytes [OF ok] True by (simp add: n_def)
      with "2.prems"(3) show False by (simp add: is_continuation_def)
    qed
    with "2.prems"(3) have "n = 1" by (simp add: n_def utf8_next_ascii)
    with rest "2.prems"(4) \<open>i = 0\<close> show ?thesis
      by (cases cs) (auto dest: utf8_valid_start)
  next
    case False
    then have "(c # cs) ! j = drop n (c # cs) ! (j - n)" if "n \<le> j" "j < length (c # cs)" for j
      using that by simp
    with "2.IH" [of "i - n"] "2.prems" rest False n show ?thesis
      by (simp add: n_def [symmetric] Suc_diff_le)
  qed
qed simp

lemma rfind_newline_split:
  "rfind_newline s = (if CHR 0x0A \<in> set s then Some (length s - 1 - length (takeWhile (\<lambda>c. c \<noteq> CHR 0x0A) (rev s))) else None)"
proof (induction s rule: rev_induct)
  case (snoc c s)
  show ?case
  proof (cases "c = CHR 0x0A")
    case True
    then show ?thesis by (simp add: rfind_newline_def nth_append)
  next
    case False
    have "find (\<lambda>i. (s @ [c]) ! i = CHR 0x0A) (rev [0..<length s]) = find (\<lambda>i. s ! i = CHR 0x0A) (rev [0..<length s])"
      by (rule find_cong) (auto simp: nth_append)
    then have "rfind_newline (s @ [c]) = rfind_newline s"
      using False by (simp add: rfind_newline_def nth_append)
    with snoc False show ?thesis by simp
  qed
qed (simp add: rfind_newline_def)

lemma split_char_snoc:
  "split_char d (s @ [c]) =
     (if c = d then split_char d s @ [[]] else butlast (split_char d s) @ [last (split_char d s) @ [c]])"
proof (induction s)
  case (Cons x s)
  obtain p ps where "split_char d s = p # ps" by (cases "split_char d s") auto
  with Cons show ?case by (cases ps) auto
qed simp

lemma last_split_char: "last (split_char d s) = rev (takeWhile (\<lambda>c. c \<noteq> d) (rev s))"
  by (induction s rule: rev_induct) (simp_all add: split_char_snoc)

lemma length_split_newline: "length (split_char (CHR 0x0A) s) = newline_count s + 1"
  by (induction s rule: rev_induct) (simp_all add: split_char_snoc newline_count_def)

lemma line_start_tail:
  assumes "line_start = (case rfind_newline s of None \<Rightarrow> 0 | Some i \<Rightarrow> i + 1)"
  shows "line_start \<le> length s" and "drop line_start s = last (split_char (CHR 0x0A) s)"
    and "line_start = 0 \<or> s ! (line_start - 1) = CHR 0x0A"
proof -
  define w where "w = takeWhile (\<lambda>c. c \<noteq> CHR 0x0A) (rev s)"
  have w: "w = take (length w) (rev s)" unfolding w_def by (rule takeWhile_eq_take)
  have start: "line_start = length s - length w"
  proof (cases "CHR 0x0A \<in> set s")
    case True
    have "w \<noteq> rev s" using True by (auto simp: w_def takeWhile_eq_all_conv)
    then have "length w < length (rev s)"
      unfolding w_def using length_takeWhile_le [of _ "rev s"] takeWhile_eq_take [of _ "rev s"]
      by (metis le_neq_implies_less take_all_iff order_refl)
    with True assms show ?thesis by (simp add: rfind_newline_split w_def)
  next
    case False
    then have "w = rev s" by (simp add: w_def takeWhile_eq_all_conv) auto
    with False assms show ?thesis by (simp add: rfind_newline_split)
  qed
  show "line_start \<le> length s" by (simp add: start)
  have "drop line_start s = rev (take (length w) (rev s))" by (simp add: start take_rev)
  then show "drop line_start s = last (split_char (CHR 0x0A) s)"
    using w by (simp add: last_split_char w_def)
  show "line_start = 0 \<or> s ! (line_start - 1) = CHR 0x0A"
  proof (cases "length w < length (rev s)")
    case True
    then have "rev s ! length w = CHR 0x0A" using nth_length_takeWhile [of "\<lambda>c. c \<noteq> CHR 0x0A" "rev s"] by (simp add: w_def)
    with True show ?thesis by (simp add: start rev_nth)
  qed (simp add: start)
qed

lemma position_at:
  fixes source :: string and offset :: nat
  defines "e \<equiv> floor_boundary source (min offset (length source))"
  defines "lines \<equiv> split_char (CHR 0x0A) (take e source)"
  assumes valid: "utf8_valid source"
  shows "position source offset = Some (length lines, char_count (last lines) + 1) \<and>
         is_char_boundary source e \<and> e \<le> min offset (length source) \<and>
         (\<forall>k. is_char_boundary source k \<and> k \<le> min offset (length source) \<longrightarrow> k \<le> e)"
proof (intro conjI)
  show boundary: "is_char_boundary source e" unfolding e_def by (rule floor_boundary_boundary)
  show le: "e \<le> min offset (length source)" unfolding e_def by (rule floor_boundary_le)
  show "\<forall>k. is_char_boundary source k \<and> k \<le> min offset (length source) \<longrightarrow> k \<le> e"
    unfolding e_def by (blast intro: floor_boundary_greatest)
  let ?b = "take e source"
  define start where "start = (case rfind_newline ?b of None \<Rightarrow> 0 | Some i \<Rightarrow> i + 1)"
  note start = line_start_tail [OF start_def]
  have "str_slice source 0 e = Some ?b" using boundary by (simp add: str_slice_def is_char_boundary_def)
  moreover have "is_char_boundary ?b start"
  proof (cases "start = 0 \<or> start = length ?b")
    case False
    with start(1) have lt: "start < length ?b" and pos: "0 < start" by linarith+
    moreover have "\<not> is_continuation (source ! (start - 1 + 1))"
    proof (rule utf8_after_newline [OF valid])
      have "take e source ! (start - 1) = source ! (start - 1)" using lt by (intro nth_take) auto
      with start(3) pos show "source ! (start - 1) = CHR 0x0A" by simp
    qed (use lt pos in auto)
    ultimately show ?thesis by (simp add: is_char_boundary_def)
  qed (auto simp: is_char_boundary_def)
  then have "str_slice ?b start (length ?b) = Some (last lines)"
    using start(1) by (simp add: str_slice_def lines_def start(2) [symmetric]) (simp add: is_char_boundary_def)
  ultimately show "position source offset = Some (length lines, char_count (last lines) + 1)"
    by (simp add: position_def e_def [symmetric] start_def [symmetric] length_split_newline lines_def)
qed

text \<open>
  C38: The position of a finding. For every UTF-8 source and every offset, also one inside a
  character or past the end, no slice panics; the line is the number of the line that holds the
  greatest character boundary at or below the offset, and the column counts the characters of that
  line before it.
\<close>

theorem position_spec:
  fixes source :: string and offset :: nat
  defines "e \<equiv> floor_boundary source (min offset (length source))"
  defines "lines \<equiv> split_char (CHR 0x0A) (take e source)"
  assumes valid: "utf8_valid source"
  shows "position source offset = Some (length lines, char_count (last lines) + 1) \<and>
         is_char_boundary source e \<and> e \<le> min offset (length source) \<and>
         (\<forall>k. is_char_boundary source k \<and> k \<le> min offset (length source) \<longrightarrow> k \<le> e)"
  unfolding e_def lines_def using valid by (rule position_at)

theorem position_spec_witness:
  "let s = [CHR ''a'', CHR 0x0A, CHR 0xC3, CHR 0xA9] in utf8_valid s \<and> position s 3 = Some (2, 1)"
proof -
  let ?s = "[CHR ''a'', CHR 0x0A, CHR 0xC3, CHR 0xA9]"
  have "utf8_valid ?s" by (simp add: utf8_valid.simps utf8_next.simps is_continuation_def)
  moreover have "floor_boundary ?s 3 = 2"
    by (subst floor_boundary.simps, subst floor_boundary.simps)
      (simp add: is_char_boundary_def is_continuation_def)
  then have "floor_boundary ?s (min 3 (length ?s)) = 2" by (simp add: numeral_3_eq_3)
  ultimately show ?thesis using position_spec [of ?s 3]
    by (simp add: char_count_def Let_def)
qed

end
