(* ===== verification/Pipeline.thy ===== *)
theory Pipeline
  imports Walker
begin

text \<open>
  The parse-decorate-execute pipeline of \<open>crates/stiles-core/src/pipeline.rs\<close>, with the provider
  interface of \<open>crates/stiles-types/src\<close> (\<open>coverage.rs\<close>, \<open>decoration_provider.rs\<close>). Tree-sitter's
  parser, the file system and the providers are arguments: \<open>parse\<close>, \<open>read_to_string\<close>, and the two
  functions of a \<open>provider\<close>.
\<close>

section \<open>Providers\<close>

datatype 'e coverage = Covered "'e decoration_map" | NotCovered coverage_gap

type_synonym io_error = string

datatype decorate_tree_error = UnresolvablePath path io_error | PoisonedDatabase

record 'e provider =
  prov_name :: provider_name
  prov_decorate :: "'e decorated_tree \<Rightarrow> ('e coverage, decorate_tree_error) result"

section \<open>The pipeline\<close>

datatype 'l build_pipeline_error = IncompatibleGrammar 'l

datatype run_pipeline_error =
    UnreadableSource path io_error
  | NoSyntaxTree
  | ProviderFailed provider_name decorate_tree_error
  | Uncovered uncovered_file
  | LintsFailed walk_lints_error

record 'g pipeline =
  pipe_language :: language
  pipe_parser :: 'g

definition Pipeline_new ::
  "('g \<Rightarrow> (unit, 'l) result) \<Rightarrow> language \<Rightarrow> 'g \<Rightarrow> ('g pipeline, 'l build_pipeline_error) result" where
  "Pipeline_new set_language lang grammar =
     result_bind (map_err IncompatibleGrammar (set_language grammar))
       (\<lambda>_. Ok \<lparr>pipe_language = lang, pipe_parser = grammar\<rparr>)"

text \<open>The loop that offers the tree to every provider.\<close>

fun offer_providers ::
  "'e decorated_tree \<Rightarrow> 'e provider list \<Rightarrow> 'e decoration_map list \<Rightarrow>
   (provider_name \<times> coverage_gap) list \<Rightarrow>
   ('e decoration_map list \<times> (provider_name \<times> coverage_gap) list, run_pipeline_error) result" where
  "offer_providers tree [] covered gaps = Ok (covered, gaps)"
| "offer_providers tree (p # ps) covered gaps =
     result_bind (map_err (ProviderFailed (prov_name p)) (prov_decorate p tree))
       (\<lambda>coverage. case coverage of
          Covered m \<Rightarrow> offer_providers tree ps (covered @ [m]) gaps
        | NotCovered gap \<Rightarrow> offer_providers tree ps covered (gaps @ [(prov_name p, gap)]))"

definition run_on_source ::
  "('g \<Rightarrow> string \<Rightarrow> ts_node option) \<Rightarrow> 'g pipeline \<Rightarrow> string \<Rightarrow> path \<Rightarrow> 'e provider list \<Rightarrow>
   ('s, 'e) lint list \<Rightarrow>
   (diagnostic list, run_pipeline_error) result \<times> ('s, 'e) lint list" where
  "run_on_source parse pipe source path providers lints =
     (case ok_or NoSyntaxTree (parse (pipe_parser pipe) source) of
        Inl e \<Rightarrow> (Err e, lints)
      | Inr tree \<Rightarrow>
          (let decorated = DecoratedTree_new tree (pipe_language pipe) source path
           in (case offer_providers decorated providers [] [] of
                 Inl e \<Rightarrow> (Err e, lints)
               | Inr (covered, gaps) \<Rightarrow>
                   (if covered = []
                    then (Err (Uncovered \<lparr>uncovered_path = path, uncovered_gaps = gaps\<rparr>), lints)
                    else let decorated = foldl (\<lambda>t m. dt_merge_decorations m t) decorated covered;
                             (r, lints') = walk_lints decorated lints
                         in (map_err LintsFailed r, lints')))))"

definition run_pipeline ::
  "(path \<Rightarrow> (string, io_error) result) \<Rightarrow> ('g \<Rightarrow> string \<Rightarrow> ts_node option) \<Rightarrow> 'g pipeline \<Rightarrow> path \<Rightarrow>
   'e provider list \<Rightarrow> ('s, 'e) lint list \<Rightarrow>
   (diagnostic list, run_pipeline_error) result \<times> ('s, 'e) lint list" where
  "run_pipeline read_to_string parse pipe path providers lints =
     (case map_err (UnreadableSource path) (read_to_string path) of
        Inl e \<Rightarrow> (Err e, lints)
      | Inr source \<Rightarrow> run_on_source parse pipe source path providers lints)"

section \<open>Languages by extension\<close>

datatype detect_language_error = MissingExtension path | UnsupportedExtension string

definition detect_language :: "path \<Rightarrow> (language, detect_language_error) result" where
  "detect_language path =
     (case Option.bind (extension path) to_str of
        None \<Rightarrow> Err (MissingExtension path)
      | Some ext \<Rightarrow> ok_or (UnsupportedExtension ext) (from_extension ext))"

section \<open>What the providers' verdicts decide\<close>

text \<open>The verdicts of a list of providers, read off in order.\<close>

definition covered_maps :: "'e decorated_tree \<Rightarrow> 'e provider list \<Rightarrow> 'e decoration_map list" where
  "covered_maps tree ps =
     List.map_filter (\<lambda>p. case prov_decorate p tree of Inr (Covered m) \<Rightarrow> Some m | _ \<Rightarrow> None) ps"

definition declined_gaps ::
  "'e decorated_tree \<Rightarrow> 'e provider list \<Rightarrow> (provider_name \<times> coverage_gap) list" where
  "declined_gaps tree ps =
     List.map_filter (\<lambda>p. case prov_decorate p tree of
       Inr (NotCovered g) \<Rightarrow> Some (prov_name p, g) | _ \<Rightarrow> None) ps"

definition first_failure ::
  "'e decorated_tree \<Rightarrow> 'e provider list \<Rightarrow> run_pipeline_error option" where
  "first_failure tree ps =
     (case find (\<lambda>p. \<not> is_ok (prov_decorate p tree)) ps of
        None \<Rightarrow> None
      | Some p \<Rightarrow> (case prov_decorate p tree of Inl e \<Rightarrow> Some (ProviderFailed (prov_name p) e)
                                             | Inr _ \<Rightarrow> None))"

lemma map_filter_Cons:
  "List.map_filter f (x # xs) = (case f x of None \<Rightarrow> [] | Some y \<Rightarrow> [y]) @ List.map_filter f xs"
  by (simp add: List.map_filter_def split: option.splits)

lemma offer_providers_eq:
  "offer_providers tree ps covered gaps =
     (case first_failure tree ps of
        Some e \<Rightarrow> Err e
      | None \<Rightarrow> Ok (covered @ covered_maps tree ps, gaps @ declined_gaps tree ps))"
proof (induction ps arbitrary: covered gaps)
  case Nil
  then show ?case
    by (simp add: first_failure_def covered_maps_def declined_gaps_def List.map_filter_def)
next
  case (Cons p ps)
  show ?case
  proof (cases "prov_decorate p tree")
    case (Inl e)
    then show ?thesis by (simp add: first_failure_def)
  next
    case (Inr v)
    then have "first_failure tree (p # ps) = first_failure tree ps"
      by (simp add: first_failure_def)
    with Inr show ?thesis
      by (cases v; cases "first_failure tree ps")
        (simp_all add: Cons.IH covered_maps_def declined_gaps_def map_filter_Cons)
  qed
qed

lemma foldl_merge_decorations:
  "foldl (\<lambda>t m. dt_merge_decorations m t) tree maps = tree\<lparr>dt_decorations := foldl map_merge (dt_decorations tree) maps\<rparr>"
  by (induction maps arbitrary: tree) (simp_all add: dt_merge_decorations_def)

text \<open>
  C9: What a run does with a file is decided by the parse and the providers' verdicts alone. With no
  tree it is \<open>NoSyntaxTree\<close>; else the first provider that malfunctions fails the file; else a file
  every provider declined (none counts as all) is uncovered, with each provider's reason in order;
  else the lints walk the tree with all claimed decorations merged in provider order.
\<close>

theorem run_on_source_verdicts:
  "run_on_source parse pipe source path providers lints =
     (case parse (pipe_parser pipe) source of
        None \<Rightarrow> (Err NoSyntaxTree, lints)
      | Some t \<Rightarrow>
          (let tree = DecoratedTree_new t (pipe_language pipe) source path;
               maps = covered_maps tree providers
           in (case first_failure tree providers of
                 Some e \<Rightarrow> (Err e, lints)
               | None \<Rightarrow>
                   (if maps = []
                    then (Err (Uncovered \<lparr>uncovered_path = path,
                            uncovered_gaps = declined_gaps tree providers\<rparr>), lints)
                    else (let (r, lints') =
                                walk_lints (tree\<lparr>dt_decorations := foldl map_merge map_new maps\<rparr>) lints
                          in (map_err LintsFailed r, lints'))))))"
  by (simp add: run_on_source_def offer_providers_eq foldl_merge_decorations Let_def DecoratedTree_new_def
      split: option.splits)

text \<open>
  No lint sees a file that was not parsed and claimed. Whenever the run on a file fails for any
  reason other than a fault of a pass, every pass is in the state it started in.
\<close>

theorem run_pipeline_lints_untouched:
  assumes "run_pipeline read_to_string parse pipe path providers lints = (Err e, lints')"
    and "\<And>w. e \<noteq> LintsFailed w"
  shows "lints' = lints"
  using assms
  by (auto simp: run_pipeline_def run_on_source_def Let_def map_err_eq_Err
      split: sum.splits option.splits prod.splits if_splits)

theorem run_pipeline_lints_untouched_witness:
  "snd (run_pipeline (\<lambda>_. Ok ''abcd;efgh'') (\<lambda>(_ :: unit) _. Some (dt_tree sample_tree))
      \<lparr>pipe_language = Rust, pipe_parser = ()\<rparr> ''src/lib.rs''
      [\<lparr>prov_name = ProviderName ''p'', prov_decorate = (\<lambda>_. Ok (NotCovered StaleSource))\<rparr>]
      sample_lints) = sample_lints"
  (is "snd ?run = _")
proof -
  have "?run = (Err (Uncovered \<lparr>uncovered_path = ''src/lib.rs'',
      uncovered_gaps = [(ProviderName ''p'', StaleSource)]\<rparr>), snd ?run)"
    by (simp add: run_pipeline_def run_on_source_def)
  from run_pipeline_lints_untouched [OF this] show ?thesis by simp
qed

text \<open>
  The first provider's word stands. On every node of the tree the lints walk, a rule that asks
  for a decoration reads the entry of the earliest claiming provider that recorded one under that
  key, and asking for all of them gives every provider's values in provider order.
\<close>

theorem pipeline_decorations_in_provider_order:
  fixes providers :: "'e provider list" and t :: ts_node and lang :: language and source :: string and p :: path
  defines "tree \<equiv> DecoratedTree_new t lang source p"
  defines "maps \<equiv> covered_maps tree providers"
  defines "root \<equiv> dt_root_node (foldl (\<lambda>t m. dt_merge_decorations m t) tree maps)"
  assumes built: "\<forall>m \<in> set maps. map_reachable m"
  shows "dn_decoration T (dn_sibling root c) =
           (case find (\<lambda>e. entry_key e = deco_key T) (concat (map (\<lambda>m. map_on m (ts_id c)) maps)) of
              None \<Rightarrow> None | Some e \<Rightarrow> entry_read T e) \<and>
         dn_decorations_of_type T (dn_sibling root c) =
           concat (map (\<lambda>m. fst (map_get_all T (ts_id c) m)) maps)"
proof -
  from built have inv: "\<forall>m \<in> set maps. map_invar m"
    by (blast intro: map_reachable_invar)
  define merged where "merged = foldl map_merge map_new maps"
  have on: "map_on merged n = concat (map (\<lambda>m. map_on m n) maps)" for n
    unfolding merged_def using dm.on_merges [OF dm.invar_empty inv] by (simp add: dm.on_empty)
  have "dn_decoration T (dn_sibling root c) = fst (map_get T (ts_id c) merged)"
    by (simp add: root_def tree_def foldl_merge_decorations DecoratedTree_new_def dn_decoration_def dt_root_node_def dn_id_def
        map_get_def merged_def case_prod_unfold Let_def)
  moreover have "dn_decorations_of_type T (dn_sibling root c) = fst (map_get_all T (ts_id c) merged)"
    by (simp add: root_def tree_def foldl_merge_decorations DecoratedTree_new_def dn_decorations_of_type_def dt_root_node_def
        dn_id_def map_get_all_def merged_def case_prod_unfold Let_def)
  ultimately show ?thesis
    by (simp add: map_get_fst map_get_all_fst on filter_concat map_filter_concat o_def)
qed

definition claiming :: "'e decoration_map \<Rightarrow> 'e provider" where
  "claiming m = \<lparr>prov_name = ProviderName ''p'', prov_decorate = (\<lambda>_. Ok (Covered m))\<rparr>"

theorem pipeline_decorations_in_provider_order_witness:
  "dn_decoration sample_text (dn_sibling (dt_root_node (foldl (\<lambda>t m. dt_merge_decorations m t)
      (DecoratedTree_new (TsNode 7 ''f'' 0 1 True None []) Rust ''x'' ''p'')
      (covered_maps (DecoratedTree_new (TsNode 7 ''f'' 0 1 True None []) Rust ''x'' ''p'')
        [claiming map_new, claiming sample_map, claiming (map_insert sample_text 7 ''z'' map_new)])))
      (TsNode 7 ''f'' 0 1 True None [])) = Some ''a''"
proof -
  let ?ps = "[claiming map_new, claiming sample_map, claiming (map_insert sample_text 7 ''z'' map_new)]"
  let ?tree = "DecoratedTree_new (TsNode 7 ''f'' 0 1 True None []) Rust ''x'' ''p''"
  have maps: "covered_maps ?tree ?ps = [map_new, sample_map, map_insert sample_text 7 ''z'' map_new]"
    by (simp add: covered_maps_def claiming_def List.map_filter_def)
  have built: "\<forall>m \<in> set (covered_maps ?tree ?ps). map_reachable m"
    unfolding maps by (simp add: map_reachable_rules sample_map_reachable)
  show ?thesis
    using pipeline_decorations_in_provider_order [OF built, where T = sample_text and c = "TsNode 7 ''f'' 0 1 True None []"]
    unfolding maps by (simp add: sample_simps dm.on_empty)
qed

text \<open>
  A file's language is the one its extension names. Detection succeeds exactly on a UTF-8
  extension among \<open>rs\<close>, \<open>ts\<close>, \<open>mts\<close>, \<open>cts\<close>, \<open>tsx\<close>; it blames a missing extension when there is
  none or it is not UTF-8, and otherwise names the extension no language uses.
\<close>

theorem detect_language_spec:
  "detect_language p =
     (case extension p of
        None \<Rightarrow> Err (MissingExtension p)
      | Some ext \<Rightarrow>
          if ext = ''rs'' then Ok Rust
          else if ext \<in> {''ts'', ''mts'', ''cts'', ''tsx''} then Ok TypeScript
          else if utf8_valid ext then Err (UnsupportedExtension ext)
          else Err (MissingExtension p))"
proof -
  have "utf8_valid ''rs''" "utf8_valid ''ts''" "utf8_valid ''mts''" "utf8_valid ''cts''" "utf8_valid ''tsx''"
    by (rule utf8_valid_ascii; simp)+
  then show ?thesis
    by (auto simp: detect_language_def to_str_def from_extension_def split: option.splits)
qed

end
