(* ===== verification/Discovery.thy ===== *)
theory Discovery
  imports LintLoading
begin

text \<open>
  File discovery: \<open>crates/stiles/src/discovery.rs\<close> and its modules. The walker and the pattern
  matcher of the \<open>ignore\<close> crate are the record \<open>ignore_crate\<close>: a walk is the list of what the
  walker yields, entry by entry, for a root and a filter.
\<close>

section \<open>The walker\<close>

datatype ignore_error =
    Partial "ignore_error list"
  | WithLineNumber nat ignore_error
  | WithPath path ignore_error
  | WithDepth nat ignore_error
  | Loop path path
  | IgnoreIo string
  | Glob string
  | UnrecognizedFileType string
  | InvalidDefinition

datatype file_kind = RegularFile | Directory | OtherKind

record dir_entry =
  de_path :: path
  de_file_type :: "file_kind option"
  de_error :: "string option"

datatype ignore_match = MatchNone | MatchIgnore | MatchWhitelist

record 'm ignore_crate =
  ig_add_line :: "string \<Rightarrow> (unit, string) result"
  ig_build :: "path \<Rightarrow> string list \<Rightarrow> ('m, string) result"
  ig_matched :: "'m \<Rightarrow> path \<Rightarrow> bool \<Rightarrow> ignore_match"
  ig_walk :: "path \<Rightarrow> (dir_entry \<Rightarrow> bool) \<Rightarrow> (dir_entry, ignore_error) result list"
  ig_canonicalize :: "path \<Rightarrow> (path, string) result"
  ig_is_file :: "path \<Rightarrow> bool"

section \<open>Failures of a walk\<close>

datatype walk_failure = DirectoryEntry | IgnoreFile

fun classify :: "ignore_error \<Rightarrow> walk_failure" where
  "classify (Glob _) = IgnoreFile"
| "classify (WithLineNumber _ _) = IgnoreFile"
| "classify (WithPath _ e) = classify e"
| "classify (WithDepth _ e) = classify e"
| "classify (Partial es) =
     (if list_ex (\<lambda>f. f = IgnoreFile) (map classify es) then IgnoreFile else DirectoryEntry)"
| "classify (Loop _ _) = DirectoryEntry"
| "classify (IgnoreIo _) = DirectoryEntry"
| "classify (UnrecognizedFileType _) = DirectoryEntry"
| "classify InvalidDefinition = DirectoryEntry"

fun failure_context :: "walk_failure \<Rightarrow> string" where
  "failure_context DirectoryEntry = ''failed to read a directory entry''"
| "failure_context IgnoreFile = ''failed to read an ignore file''"

datatype discovery_error = DiscoveryBail string | WalkError ignore_error

datatype walk_error_policy = Fail | ReportAndContinue

record discovery =
  disc_files :: "path list"
  disc_errors :: "discovery_error anyhow list"

definition attached_error :: "dir_entry \<Rightarrow> discovery_error anyhow option" where
  "attached_error e =
     map_option (\<lambda>msg. Context ''failed to read an ignore file'' (Cause (DiscoveryBail msg))) (de_error e)"

section \<open>Discovery\<close>

text \<open>The matcher is anchored at the configured root; the first bad pattern ends it.\<close>

fun add_patterns :: "'m ignore_crate \<Rightarrow> string list \<Rightarrow> (unit, discovery_error anyhow) result" where
  "add_patterns ig [] = Ok ()"
| "add_patterns ig (p # ps) =
     result_bind (with_context (''failed to read the ignore pattern `'' @ p @ ''`'')
         (map_err (\<lambda>e. Cause (DiscoveryBail e)) (ig_add_line ig p)))
       (\<lambda>_. add_patterns ig ps)"

definition build_excludes :: "'m ignore_crate \<Rightarrow> stiles_config \<Rightarrow> ('m, discovery_error anyhow) result" where
  "build_excludes ig config =
     result_bind (add_patterns ig (config_ignore config))
       (\<lambda>_. with_context ''failed to compile the configured ignore patterns''
          (map_err (\<lambda>e. Cause (DiscoveryBail e)) (ig_build ig (config_root config) (config_ignore config))))"

definition keep_entry :: "'m ignore_crate \<Rightarrow> 'm \<Rightarrow> dir_entry \<Rightarrow> bool" where
  "keep_entry ig excludes e =
     (case ig_matched ig excludes (de_path e) (de_file_type e = Some Directory) of
        MatchNone \<Rightarrow> True
      | MatchIgnore \<Rightarrow> False
      | MatchWhitelist \<Rightarrow> True)"

text \<open>
  \<open>Path::strip_prefix\<close> on the entries of a walk, which are the root joined with names: the text of
  the components that remain.
\<close>

fun component_text :: "component \<Rightarrow> string" where
  "component_text RootDir = []"
| "component_text CurDir = ''.''"
| "component_text ParentDir = ''..''"
| "component_text (Normal s) = s"

definition path_strip_prefix :: "path \<Rightarrow> path \<Rightarrow> path option" where
  "path_strip_prefix p base =
     (if path_starts_with p base
      then Some (join ''/'' (map component_text (drop (length (components base)) (components p))))
      else None)"

definition rebase :: "path \<Rightarrow> path \<Rightarrow> path \<Rightarrow> path" where
  "rebase original root entry =
     path_join original (case path_strip_prefix entry root of Some p \<Rightarrow> p | None \<Rightarrow> entry)"

text \<open>Whether an entry is a file in a language that has a grammar.\<close>

definition wanted :: "dir_entry \<Rightarrow> bool" where
  "wanted e =
     (de_file_type e = Some RegularFile \<and>
      (case extension (de_path e) of
         None \<Rightarrow> False
       | Some ext \<Rightarrow> from_extension (utf8_lossy ext) \<noteq> None))"

fun walk_entries ::
  "walk_error_policy \<Rightarrow> path \<Rightarrow> path \<Rightarrow> (dir_entry, ignore_error) result list \<Rightarrow> path list \<Rightarrow>
   discovery_error anyhow list \<Rightarrow> (path list \<times> discovery_error anyhow list, discovery_error anyhow) result" where
  "walk_entries on_error original root [] files errors = Ok (files, errors)"
| "walk_entries on_error original root (Inl e # es) files errors =
     (let error = Context (failure_context (classify e)) (Cause (WalkError e))
      in case on_error of
           Fail \<Rightarrow> Err error
         | ReportAndContinue \<Rightarrow> walk_entries on_error original root es files (errors @ [error]))"
| "walk_entries on_error original root (Inr entry # es) files errors =
     (case (attached_error entry, on_error) of
        (Some error, Fail) \<Rightarrow> Err error
      | (attached, _) \<Rightarrow>
          walk_entries on_error original root es
            (if wanted entry then files @ [rebase original root (de_path entry)] else files)
            (errors @ (case attached of Some error \<Rightarrow> [error] | None \<Rightarrow> [])))"

definition discover_file :: "path \<Rightarrow> (discovery, discovery_error anyhow) result" where
  "discover_file p =
     (case extension p of
        None \<Rightarrow> Err (Cause (DiscoveryBail (''stiles cannot check '' @ display p
                 @ '': it has no file extension, so there is nothing to tell stiles which language to parse it as'')))
      | Some ext \<Rightarrow>
          (case from_extension (utf8_lossy ext) of
             None \<Rightarrow> Err (Cause (DiscoveryBail (''stiles cannot check '' @ display p @ '': there is no grammar for `.''
                      @ utf8_lossy ext @ ''` files'')))
           | Some _ \<Rightarrow> Ok \<lparr>disc_files = [p], disc_errors = []\<rparr>))"

definition discover ::
  "'m ignore_crate \<Rightarrow> path \<Rightarrow> stiles_config \<Rightarrow> walk_error_policy \<Rightarrow> (discovery, discovery_error anyhow) result" where
  "discover ig p config on_error =
     result_bind (with_context (''failed to resolve '' @ display p)
         (map_err (\<lambda>e. Cause (DiscoveryBail e)) (ig_canonicalize ig p)))
       (\<lambda>root. result_bind (with_context ''failed to read the ignore patterns'' (build_excludes ig config))
         (\<lambda>excludes.
            if ig_is_file ig root then discover_file p
            else result_bind (walk_entries on_error p root (ig_walk ig root (keep_entry ig excludes)) [] [])
              (\<lambda>(files, errors). Ok \<lparr>disc_files = sort_key components files, disc_errors = errors\<rparr>)))"

section \<open>What a walk finds\<close>

definition entry_errors :: "(dir_entry, ignore_error) result \<Rightarrow> discovery_error anyhow list" where
  "entry_errors e =
     (case e of
        Inl x \<Rightarrow> [Context (failure_context (classify x)) (Cause (WalkError x))]
      | Inr entry \<Rightarrow> (case attached_error entry of Some x \<Rightarrow> [x] | None \<Rightarrow> []))"

definition entry_files :: "path \<Rightarrow> path \<Rightarrow> (dir_entry, ignore_error) result \<Rightarrow> path list" where
  "entry_files original root e =
     (case e of Inl _ \<Rightarrow> [] | Inr entry \<Rightarrow> if wanted entry then [rebase original root (de_path entry)] else [])"

lemma walk_entries_eq:
  "walk_entries on_error original root es files errors =
     (if on_error = Fail \<and> concat (map entry_errors es) \<noteq> []
      then Err (hd (concat (map entry_errors es)))
      else Ok (files @ concat (map (entry_files original root) es), errors @ concat (map entry_errors es)))"
proof (induction on_error original root es files errors rule: walk_entries.induct)
  case (2 on_error original root e es files errors)
  then show ?case by (cases on_error) (simp_all add: entry_errors_def entry_files_def Let_def)
next
  case (3 on_error original root entry es files errors)
  then show ?case
    by (cases on_error; cases "attached_error entry") (simp_all add: entry_errors_def entry_files_def)
qed simp

text \<open>
  A directory walk misses nothing silently. Under either policy the files are exactly the
  regular files of the walk whose extension has a grammar, shown under the path the user named and
  in path order; \<open>ReportAndContinue\<close> always succeeds and keeps every failure of the walk, in order,
  beside them; \<open>Fail\<close> succeeds exactly when there was no failure at all, and otherwise returns the
  first one.
\<close>

theorem discover_directory:
  assumes "ig_canonicalize ig p = Ok root" and "\<not> ig_is_file ig root" and "build_excludes ig config = Ok excludes"
  defines "entries \<equiv> ig_walk ig root (keep_entry ig excludes)"
  defines "files \<equiv> sort_key components (concat (map (entry_files p root) entries))"
  defines "errors \<equiv> concat (map entry_errors entries)"
  shows "discover ig p config ReportAndContinue = Ok \<lparr>disc_files = files, disc_errors = errors\<rparr> \<and>
         discover ig p config Fail =
           (if errors = [] then Ok \<lparr>disc_files = files, disc_errors = []\<rparr> else Err (hd errors)) \<and>
         sorted (map components files) \<and>
         set files = {rebase p root (de_path e) | e. Ok e \<in> set entries \<and> wanted e}"
proof (intro conjI)
  show "discover ig p config ReportAndContinue = Ok \<lparr>disc_files = files, disc_errors = errors\<rparr>"
    by (simp add: discover_def assms(1-3) walk_entries_eq files_def errors_def entries_def)
  show "discover ig p config Fail =
      (if errors = [] then Ok \<lparr>disc_files = files, disc_errors = []\<rparr> else Err (hd errors))"
    by (simp add: discover_def assms(1-3) walk_entries_eq files_def errors_def entries_def)
  show "sorted (map components files)" by (simp add: files_def)
  show "set files = {rebase p root (de_path e) | e. Ok e \<in> set entries \<and> wanted e}"
    by (force simp: files_def entry_files_def split: sum.splits if_splits)
qed

definition sample_ignore :: "unit ignore_crate" where
  "sample_ignore = \<lparr>ig_add_line = (\<lambda>_. Ok ()), ig_build = (\<lambda>_ _. Ok ()), ig_matched = (\<lambda>_ _ _. MatchNone),
     ig_walk = (\<lambda>_ _. [Ok \<lparr>de_path = ''/p/b.rs'', de_file_type = Some RegularFile, de_error = None\<rparr>,
        Err (WithPath ''/p/x'' (IgnoreIo ''denied'')),
        Ok \<lparr>de_path = ''/p/a.ts'', de_file_type = Some RegularFile, de_error = None\<rparr>]),
     ig_canonicalize = (\<lambda>_. Ok ''/p''), ig_is_file = (\<lambda>_. False)\<rparr>"

definition sample_config :: stiles_config where
  "sample_config = \<lparr>config_root = ''/p'', config_ignore = [], config_lints = [], config_rules = All,
     config_options = RuleOptions [], config_stiles_source = None\<rparr>"

theorem discover_directory_witness:
  "\<not> is_ok (discover sample_ignore ''.'' sample_config Fail) \<and>
   is_ok (discover sample_ignore ''.'' sample_config ReportAndContinue)"
proof -
  have "ig_canonicalize sample_ignore ''.'' = Ok ''/p''" "\<not> ig_is_file sample_ignore ''/p''"
    "build_excludes sample_ignore sample_config = Ok ()"
    by (simp_all add: sample_ignore_def build_excludes_def sample_config_def)
  note spec = discover_directory [OF this]
  have "concat (map entry_errors (ig_walk sample_ignore ''/p'' (keep_entry sample_ignore ()))) \<noteq> []"
    by (simp add: sample_ignore_def entry_errors_def)
  with spec show ?thesis by simp
qed

end
