(* ===== verification/Projects.thy ===== *)
theory Projects
  imports Pipeline Discovery Reporting
begin

text \<open>
  Which grammar and which project a file belongs to: \<open>grammar.rs\<close> and \<open>providers.rs\<close> of
  \<open>crates/stiles/src/commands/check\<close>, with the search for a \<open>tsconfig.json\<close> of
  \<open>crates/stiles-typescript/src/provider.rs\<close>. Loading a project (rust-analyzer, tsrs) is an
  argument; the file system is the argument \<open>is_file\<close> and the current directory is \<open>cwd\<close>.
\<close>

section \<open>Grammars\<close>

datatype grammar = RustGrammar | TypeScriptGrammar | Tsx

definition Grammar_of :: "path \<Rightarrow> grammar option" where
  "Grammar_of p =
     Option.bind (Option.bind (extension p) to_str) (\<lambda>ext.
       if ext = ''rs'' then Some RustGrammar
       else if ext \<in> {''ts'', ''mts'', ''cts''} then Some TypeScriptGrammar
       else if ext = ''tsx'' then Some Tsx
       else None)"

fun grammar_language :: "grammar \<Rightarrow> language" where
  "grammar_language RustGrammar = Rust"
| "grammar_language TypeScriptGrammar = TypeScript"
| "grammar_language Tsx = TypeScript"

text \<open>\<open>grammars\<close> gives the tree-sitter grammar of each.\<close>

definition grammar_pipeline ::
  "('g \<Rightarrow> (unit, 'l) result) \<Rightarrow> (grammar \<Rightarrow> 'g) \<Rightarrow> grammar \<Rightarrow> ('g pipeline, 'l build_pipeline_error) result" where
  "grammar_pipeline set_language grammars g = Pipeline_new set_language (grammar_language g) (grammars g)"

section \<open>The project of a TypeScript file\<close>

text \<open>\<open>std::path::absolute\<close> on Unix: it reads no file, so links and \<open>..\<close> stay.\<close>

fun component_os :: "component \<Rightarrow> string" where
  "component_os RootDir = ''/''"
| "component_os CurDir = ''.''"
| "component_os ParentDir = ''..''"
| "component_os (Normal s) = s"

definition path_absolute :: "path option \<Rightarrow> path \<Rightarrow> path option" where
  "path_absolute cwd p =
     (if p = [] then None
      else let stripped = (case components p of CurDir # cs \<Rightarrow> cs | cs \<Rightarrow> cs);
               start = (if hd p = CHR ''/''
                        then (if starts_with p ''//'' \<and> \<not> starts_with p ''///''
                              then Some (''//'', tl stripped) else Some ([], stripped))
                        else map_option (\<lambda>d. (d, stripped)) cwd)
           in map_option (\<lambda>(base, cs).
                let q = foldl path_join base (map component_os cs)
                in if last p = CHR ''/'' then path_join q [] else q) start)"

lemma path_parent_shorter:
  assumes "path_parent p = Some q"
  shows "length (components q) < length (components p)"
proof (cases "path_components p = []")
  case True
  with assms have "q = []" and "components p \<noteq> []" by (auto simp: path_parent_def split: if_splits)
  then show ?thesis by (simp add: components_def path_components_def)
next
  case False
  then obtain q' where "path_parent p = Some q'" "components q' = butlast (components p)"
    using path_parent_components by blast
  moreover have "components p \<noteq> []" using False by (simp add: components_def)
  ultimately show ?thesis using assms by simp
qed

text \<open>\<open>Path::ancestors\<close>: the path, its parent, and so on.\<close>

function ancestors :: "path \<Rightarrow> path list" where
  "ancestors p = p # (case path_parent p of None \<Rightarrow> [] | Some q \<Rightarrow> ancestors q)"
  by pat_completeness auto

termination
  by (relation "measure (\<lambda>p. length (components p))") (simp_all add: path_parent_shorter)

declare ancestors.simps [simp del]

definition config_file :: string where "config_file = ''tsconfig.json''"

definition discover_root :: "(path \<Rightarrow> bool) \<Rightarrow> path \<Rightarrow> path option" where
  "discover_root is_file p = find (\<lambda>directory. is_file (path_join directory config_file)) (ancestors p)"

definition project_root :: "path option \<Rightarrow> (path \<Rightarrow> bool) \<Rightarrow> path \<Rightarrow> path option" where
  "project_root cwd is_file p = Option.bind (path_absolute cwd p) (discover_root is_file)"

section \<open>Providers\<close>

record 'e providers =
  prov_rust :: "'e provider option"
  prov_typescript :: "(path \<times> 'e provider) list"

text \<open>The name a TypeScript provider reports, and the stand-in for a file no project holds.\<close>

definition typescript_name :: provider_name where
  "typescript_name = ProviderName ''typescript''"

definition no_typescript_project :: "'e provider" where
  "no_typescript_project = \<lparr>prov_name = typescript_name, prov_decorate = (\<lambda>_. Ok (NotCovered NoProject))\<rparr>"

text \<open>What loading takes from outside: the project search and the two loaders.\<close>

record ('e, 'r) analyzers =
  an_cwd :: "path option"
  an_is_file :: "path \<Rightarrow> bool"
  an_load_rust :: "path \<Rightarrow> ('e provider, 'r anyhow) result"
  an_load_typescript :: "path \<Rightarrow> ('e provider, 'r anyhow) result"

text \<open>
  Loading a project is the expensive part of a check, so the loads are kept beside every result, in
  the order the run asks for them.
\<close>

datatype project_load = LoadRust path | LoadTypeScript path

definition load_typescript_project ::
  "('e, 'r) analyzers \<Rightarrow> path \<Rightarrow> (path \<times> 'e provider) list \<Rightarrow>
   ((path \<times> 'e provider) list, 'r anyhow) result \<times> project_load list" where
  "load_typescript_project an file projects =
     (case project_root (an_cwd an) (an_is_file an) file of
        None \<Rightarrow> (Ok projects, [])
      | Some root \<Rightarrow>
          (if path_get projects root \<noteq> None then (Ok projects, [])
           else (result_bind (with_context (''load the TypeScript project at '' @ display root)
                    (an_load_typescript an root))
                  (\<lambda>provider. Ok (path_insert root provider projects)), [LoadTypeScript root])))"

fun load_projects ::
  "('e, 'r) analyzers \<Rightarrow> path list \<Rightarrow> bool \<Rightarrow> (path \<times> 'e provider) list \<Rightarrow>
   (bool \<times> (path \<times> 'e provider) list, 'r anyhow) result \<times> project_load list" where
  "load_projects an [] has_rust typescript = (Ok (has_rust, typescript), [])"
| "load_projects an (file # files) has_rust typescript =
     (case Grammar_of file of
        None \<Rightarrow> load_projects an files has_rust typescript
      | Some g \<Rightarrow>
          (case grammar_language g of
             Rust \<Rightarrow> load_projects an files True typescript
           | TypeScript \<Rightarrow>
               (case load_typescript_project an file typescript of
                  (r, loads) \<Rightarrow>
                    (case with_context ''failed to load the TypeScript project for analysis'' r of
                       Inl e \<Rightarrow> (Inl e, loads)
                     | Inr typescript' \<Rightarrow>
                         (case load_projects an files has_rust typescript' of (r', later) \<Rightarrow> (r', loads @ later))))))"

text \<open>\<open>Providers::load\<close> with its loads, and its result alone.\<close>

definition Providers_loads ::
  "('e, 'r) analyzers \<Rightarrow> path \<Rightarrow> path list \<Rightarrow> ('e providers, 'r anyhow) result \<times> project_load list" where
  "Providers_loads an p files =
     (case load_projects an files False [] of
        (Inl e, loads) \<Rightarrow> (Inl e, loads)
      | (Inr (has_rust, typescript), loads) \<Rightarrow>
          (if has_rust
           then (result_bind (with_context ''failed to load the target project for analysis'' (an_load_rust an p))
                   (\<lambda>rust. Ok \<lparr>prov_rust = Some rust, prov_typescript = typescript\<rparr>), loads @ [LoadRust p])
           else (Ok \<lparr>prov_rust = None, prov_typescript = typescript\<rparr>, loads)))"

definition Providers_load ::
  "('e, 'r) analyzers \<Rightarrow> path \<Rightarrow> path list \<Rightarrow> ('e providers, 'r anyhow) result" where
  "Providers_load an p files = fst (Providers_loads an p files)"

definition for_file :: "('e, 'r) analyzers \<Rightarrow> 'e providers \<Rightarrow> path \<Rightarrow> language \<Rightarrow> 'e provider list" where
  "for_file an ps file language =
     (let provider = (case language of
            Rust \<Rightarrow> prov_rust ps
          | TypeScript \<Rightarrow>
              (case project_root (an_cwd an) (an_is_file an) file of
                 Some root \<Rightarrow> path_get (prov_typescript ps) root
               | None \<Rightarrow> Some no_typescript_project))
      in case provider of Some p \<Rightarrow> [p] | None \<Rightarrow> [])"

section \<open>Discovery, detection and grammars agree\<close>

lemma utf8_lossy_ascii:
  "\<forall>c \<in> set (utf8_lossy s). byte_of c < (128::nat) \<Longrightarrow> utf8_valid s"
proof (induction s rule: utf8_lossy.induct)
  case (2 c cs)
  obtain ok n where n: "utf8_next (c # cs) = (ok, n)" by (cases "utf8_next (c # cs)")
  with "2.prems" have ok by (auto simp: utf8_lossy.simps replacement_character_def split: if_splits)
  with 2 n show ?case by (simp add: utf8_lossy.simps utf8_valid.simps)
qed simp

lemma from_extension_ascii: "from_extension s = Some l \<Longrightarrow> \<forall>c \<in> set s. byte_of c < (128::nat)"
  by (auto simp: from_extension_def split: if_splits)

lemma Grammar_of_from_extension:
  "map_option grammar_language (Grammar_of p) = Option.bind (Option.bind (extension p) to_str) from_extension"
  by (cases "Option.bind (extension p) to_str") (simp_all add: Grammar_of_def from_extension_def)

lemma from_extension_lossy:
  "from_extension (utf8_lossy ext) = Option.bind (to_str ext) from_extension"
proof (cases "utf8_valid ext")
  case True
  then show ?thesis by (simp add: utf8_lossy_valid to_str_def)
next
  case False
  then have "from_extension (utf8_lossy ext) = None"
    using from_extension_ascii utf8_lossy_ascii by (cases "from_extension (utf8_lossy ext)") blast+
  with False show ?thesis by (simp add: to_str_def)
qed

text \<open>
  Three places decide by the extension, and they agree on every path, UTF-8 or not. The language
  of the grammar that \<open>check\<close> parses with is the one the pipeline detects; a single file is accepted
  exactly when it has a grammar; and discovery keeps exactly the regular files that have one, so
  the failure for a file without a grammar is never reported for a file it found.
\<close>

theorem grammar_agrees:
  "map_option grammar_language (Grammar_of p) = (case detect_language p of Inl _ \<Rightarrow> None | Inr l \<Rightarrow> Some l) \<and>
   (is_ok (discover_file p) \<longleftrightarrow> Grammar_of p \<noteq> None) \<and>
   (wanted e \<longleftrightarrow> de_file_type e = Some RegularFile \<and> Grammar_of (de_path e) \<noteq> None)"
proof (intro conjI)
  have none: "Grammar_of q \<noteq> None \<longleftrightarrow>
      (case extension q of None \<Rightarrow> False | Some ext \<Rightarrow> from_extension (utf8_lossy ext) \<noteq> None)" for q
  proof -
    have "Grammar_of q \<noteq> None \<longleftrightarrow> map_option grammar_language (Grammar_of q) \<noteq> None" by simp
    then show ?thesis
      unfolding Grammar_of_from_extension by (cases "extension q") (simp_all add: from_extension_lossy)
  qed
  show "map_option grammar_language (Grammar_of p) = (case detect_language p of Inl _ \<Rightarrow> None | Inr l \<Rightarrow> Some l)"
    unfolding Grammar_of_from_extension detect_language_def
    by (cases "Option.bind (extension p) to_str") (simp_all add: ok_or_def split: option.splits)
  show "is_ok (discover_file p) \<longleftrightarrow> Grammar_of p \<noteq> None"
    unfolding none by (simp add: discover_file_def split: option.splits)
  show "wanted e \<longleftrightarrow> de_file_type e = Some RegularFile \<and> Grammar_of (de_path e) \<noteq> None"
    unfolding none wanted_def ..
qed

section \<open>The nearest project\<close>

lemma path_parent_butlast:
  assumes "path_parent p = Some q"
  shows "components q = butlast (components p) \<and> components p \<noteq> [] \<and> components p \<noteq> [RootDir]"
proof -
  have ne: "components p \<noteq> [] \<and> components p \<noteq> [RootDir]"
    using assms by (auto simp: path_parent_def split: if_splits)
  show ?thesis
  proof (cases "path_components p = []")
    case True
    with assms ne have "q = []" by (auto simp: path_parent_def split: if_splits)
    then have "components q = []" by (simp add: components_def path_components_def)
    moreover have "length (components p) \<le> 1" using True by (simp add: components_def split: list.splits)
    then have "butlast (components p) = []" by (cases "components p") simp_all
    ultimately show ?thesis using ne by simp
  next
    case False
    with assms path_parent_components [OF False] ne show ?thesis by auto
  qed
qed

lemma path_parent_None: "path_parent p = None \<longleftrightarrow> components p = [] \<or> components p = [RootDir]"
  by (simp add: path_parent_def Let_def)

text \<open>The ancestors of a path are its prefixes, longest first, down to the root or the empty path.\<close>

lemma components_ancestors:
  "map components (ancestors p) =
     map (\<lambda>k. take k (components p))
       (rev [(if components p \<noteq> [] \<and> hd (components p) = RootDir then 1 else 0)..<Suc (length (components p))])"
proof (induction p rule: ancestors.induct)
  case (1 p)
  show ?case
  proof (cases "path_parent p")
    case None
    then have "ancestors p = [p]" by (subst ancestors.simps) simp
    with None show ?thesis by (auto simp: path_parent_None)
  next
    case (Some q)
    note q = path_parent_butlast [OF Some]
    then obtain cs c where cs: "components p = cs @ [c]" "components q = cs"
      by (metis append_butlast_last_id)
    have hd: "(components p \<noteq> [] \<and> hd (components p) = RootDir) = (components q \<noteq> [] \<and> hd (components q) = RootDir)"
      using q by (cases cs) (auto simp: cs)
    have "map components (ancestors p) = components p # map components (ancestors q)"
      by (subst ancestors.simps) (simp add: Some)
    then show ?thesis unfolding "1.IH" [OF Some] hd unfolding cs by (auto simp: hd_append)
  qed
qed

lemma components_trailing: "components (path_join q []) = components q"
proof (cases "q = [] \<or> last q = CHR ''/''")
  case False
  then have "path_join q [] = q @ ''/''" "q \<noteq> []" by (auto simp: path_join_def)
  then show ?thesis
    by (cases q) (auto simp: components_def split_char_sep path_components_sep path_components_def
        split: list.splits if_splits)
qed (auto simp: path_join_def)

lemma components_join_parts:
  "\<forall>n \<in> set ns. part_name n \<Longrightarrow> components (foldl path_join base ns) = components base @ map part_component ns"
  by (induction ns arbitrary: base) (simp_all add: components_join_part)

lemma component_os_part: "part_name n \<Longrightarrow> component_os (part_component n) = n"
  by (simp add: part_component_def)

lemma component_os_parts: "map component_os (map part_component (path_components p)) = path_components p"
  unfolding map_map by (rule map_idI) (simp add: component_os_part path_components_part)

lemma components_rooted: "hd (c # cs) = CHR ''/'' \<Longrightarrow> components (c # cs) = RootDir # map part_component (path_components (c # cs))"
  by (simp add: components_parts lead_component_def)

lemma components_relative:
  assumes "p \<noteq> []" "hd p \<noteq> CHR ''/''"
  shows "(case components p of CurDir # cs \<Rightarrow> cs | cs \<Rightarrow> cs) = map part_component (path_components p)"
proof -
  have "split_char (CHR ''/'') p \<noteq> [] # cs" for cs using assms by (cases p) (auto split: list.splits)
  then have "lead_component (split_char (CHR ''/'') p) \<in> {[], [CurDir]}"
    by (auto simp: lead_component_def split: list.splits)
  then show ?thesis
    by (cases "path_components p") (auto simp: components_parts part_component_def)
qed

text \<open>The components a path has once it is made absolute in the directory \<open>d\<close>.\<close>

definition absolute_components :: "path \<Rightarrow> path \<Rightarrow> component list" where
  "absolute_components d p =
     (if hd p = CHR ''/'' then components p else components d @ map part_component (path_components p))"

lemma path_absolute_components:
  assumes "p \<noteq> []"
  shows "\<exists>a. path_absolute (Some d) p = Some a \<and> components a = absolute_components d p"
proof (cases "hd p = CHR ''/''")
  case True
  then have cs: "components p = RootDir # map part_component (path_components p)"
    using assms components_rooted by (cases p) simp_all
  have root: "components ''/'' = [RootDir]" "components ''//'' = [RootDir]"
    by (simp_all add: components_def path_components_def)
  have "components (foldl path_join b (path_components p)) = components p" if "b \<in> {''/'', ''//''}" for b
    using that cs root components_join_parts [of "path_components p" b] path_components_part by auto
  moreover have "path_join [] ''/'' = ''/''" by (simp add: path_join_def)
  ultimately show ?thesis using True assms cs component_os_parts [of p]
    by (simp add: path_absolute_def absolute_components_def Let_def components_trailing)
next
  case False
  have "components (foldl path_join d (path_components p)) = absolute_components d p"
    using False components_join_parts [of "path_components p" d] path_components_part
    by (simp add: absolute_components_def)
  then show ?thesis using False assms component_os_parts [of p]
    by (simp add: path_absolute_def components_relative Let_def components_trailing)
qed

text \<open>The shortest prefix the search reaches: the root, or the empty path.\<close>

definition shortest :: "component list \<Rightarrow> nat" where
  "shortest cs = (if cs \<noteq> [] \<and> hd cs = RootDir then 1 else 0)"

definition holds_config :: "(component list \<Rightarrow> bool) \<Rightarrow> component list \<Rightarrow> bool" where
  "holds_config f cs = f (cs @ [Normal config_file])"

lemma discover_root_prefix:
  fixes p :: path and f :: "component list \<Rightarrow> bool"
  defines "cs \<equiv> components p"
  shows "case discover_root (\<lambda>q. f (components q)) p of
     None \<Rightarrow> \<forall>k. shortest cs \<le> k \<and> k \<le> length cs \<longrightarrow> \<not> holds_config f (take k cs)
   | Some root \<Rightarrow> \<exists>k. shortest cs \<le> k \<and> k \<le> length cs \<and> components root = take k cs \<and> holds_config f (take k cs) \<and>
       (\<forall>j. k < j \<and> j \<le> length cs \<longrightarrow> \<not> holds_config f (take j cs))"
proof -
  let ?n = "length cs" and ?m = "shortest cs"
  have name: "ordinary_name config_file" by (simp add: ordinary_name_def config_file_def)
  have comps: "map components (ancestors p) = map (\<lambda>k. take k cs) (rev [?m..<Suc ?n])"
    unfolding cs_def shortest_def by (rule components_ancestors)
  have len: "length (ancestors p) = Suc ?n - ?m" using arg_cong [OF comps, of length] by (simp del: upt_Suc)
  have nth: "components (ancestors p ! i) = take (?n - i) cs" if "i < Suc ?n - ?m" for i
  proof -
    have "components (ancestors p ! i) = map components (ancestors p) ! i" using that len by simp
    then show ?thesis unfolding comps using that by (simp add: rev_nth del: upt_Suc)
  qed
  have m: "?m \<le> ?n" by (cases cs) (simp_all add: shortest_def)
  define P where "P = (\<lambda>directory. f (components (path_join directory config_file)))"
  have P: "P (ancestors p ! i) = holds_config f (take (?n - i) cs)" if "i < Suc ?n - ?m" for i
    using nth [OF that] by (simp add: P_def holds_config_def components_join [OF name])
  show ?thesis
  proof (cases "find P (ancestors p)")
    case None
    have "\<not> holds_config f (take k cs)" if "?m \<le> k" "k \<le> ?n" for k
    proof -
      have "\<not> P (ancestors p ! (?n - k))" using None that len by (simp add: find_None_iff)
      then show ?thesis using P [of "?n - k"] that by simp
    qed
    then show ?thesis using None by (simp add: discover_root_def P_def)
  next
    case (Some root)
    then obtain i where i: "i < Suc ?n - ?m" "P (ancestors p ! i)" "root = ancestors p ! i"
      and before: "\<And>j. j < i \<Longrightarrow> \<not> P (ancestors p ! j)"
      unfolding find_Some_iff len by auto
    have "\<not> holds_config f (take j cs)" if "?n - i < j" "j \<le> ?n" for j
      using before [of "?n - j"] P [of "?n - j"] that i(1) by (simp add: less_diff_conv)
    with i nth [OF i(1)] P [OF i(1)] m Some show ?thesis
      by (auto simp: discover_root_def P_def intro!: exI [of _ "?n - i"])
  qed
qed

lemma discover_root_self:
  assumes "holds_config f (components b)"
  shows "map_option components (discover_root (\<lambda>q. f (components q)) b) = Some (components b)"
proof -
  let ?cs = "components b"
  have full: "holds_config f (take (length ?cs) ?cs)" and m: "shortest ?cs \<le> length ?cs"
    using assms by (simp, cases ?cs, simp_all add: shortest_def)
  note again = discover_root_prefix [where f = f and p = b]
  show ?thesis
  proof (cases "discover_root (\<lambda>q. f (components q)) b")
    case None
    with again full m show ?thesis by auto
  next
    case (Some r)
    with again obtain i where "components r = take i ?cs" "i \<le> length ?cs"
      "\<forall>j. i < j \<and> j \<le> length ?cs \<longrightarrow> \<not> holds_config f (take j ?cs)" by auto
    moreover from this have "i = length ?cs" using full by (metis le_neq_implies_less order_refl)
    ultimately show ?thesis using Some by simp
  qed
qed

lemma components_root_slash:
  assumes "components r \<noteq> [] \<and> hd (components r) = RootDir"
  shows "r \<noteq> [] \<and> hd r = CHR ''/''"
proof (rule ccontr)
  assume "\<not> ?thesis"
  then have "lead_component (split_char (CHR ''/'') r) \<in> {[], [CurDir]}"
    by (cases r) (auto simp: lead_component_def split: list.splits if_splits)
  with assms show False
    by (cases "path_components r") (auto simp: components_parts part_component_def split: if_splits)
qed

text \<open>
  C40: A TypeScript file belongs to the nearest project. On a file system whose answers depend only
  on the components of a path, the search ends, with the longest prefix of the file's absolute path
  that holds a \<open>tsconfig.json\<close>; it ends without one only when no directory from the file up to the
  root holds one; and the project loaded for the directory it found is that same directory.
\<close>

theorem project_root_nearest:
  fixes d p :: path and f :: "component list \<Rightarrow> bool"
  defines "cs \<equiv> absolute_components d p" and "is_file \<equiv> (\<lambda>q. f (components q))"
  assumes "p \<noteq> []" and rooted: "d \<noteq> [] \<and> hd d = CHR ''/''"
  shows "case project_root (Some d) is_file p of
     None \<Rightarrow> \<forall>k. 1 \<le> k \<and> k \<le> length cs \<longrightarrow> \<not> holds_config f (take k cs)
   | Some root \<Rightarrow>
       (\<exists>k. 1 \<le> k \<and> k \<le> length cs \<and> components root = take k cs \<and> holds_config f (take k cs) \<and>
          (\<forall>j. k < j \<and> j \<le> length cs \<longrightarrow> \<not> holds_config f (take j cs))) \<and>
       map_option components (project_root (Some d) is_file root) = Some (components root)"
proof -
  have start: "components q = RootDir # map part_component (path_components q)" if "q \<noteq> []" "hd q = CHR ''/''" for q
    using that components_rooted by (cases q) simp_all
  obtain a where a: "path_absolute (Some d) p = Some a" "components a = cs"
    using path_absolute_components [OF \<open>p \<noteq> []\<close>] unfolding cs_def by blast
  have cs: "cs \<noteq> [] \<and> hd cs = RootDir"
    using rooted \<open>p \<noteq> []\<close> start by (auto simp: cs_def absolute_components_def)
  then have short: "shortest cs = 1" by (simp add: shortest_def)
  have eq: "project_root (Some d) is_file p = discover_root is_file a" by (simp add: project_root_def a)
  note spec = discover_root_prefix [where f = f and p = a, folded is_file_def, unfolded a(2) short]
  show ?thesis
  proof (cases "discover_root is_file a")
    case None
    with spec show ?thesis by (simp add: eq)
  next
    case (Some root)
    with spec obtain k where k: "1 \<le> k" "k \<le> length cs" "components root = take k cs" "holds_config f (take k cs)"
      "\<forall>j. k < j \<and> j \<le> length cs \<longrightarrow> \<not> holds_config f (take j cs)" by auto
    then have lead: "components root \<noteq> [] \<and> hd (components root) = RootDir" using cs by (cases cs; cases k) auto
    then have slash: "root \<noteq> [] \<and> hd root = CHR ''/''" by (rule components_root_slash)
    obtain b where b: "path_absolute (Some d) root = Some b" "components b = components root"
      using path_absolute_components [of root d] slash by (auto simp: absolute_components_def)
    then have "map_option components (discover_root is_file b) = Some (components root)"
      using discover_root_self [of f b] k by (simp add: is_file_def)
    then have "map_option components (project_root (Some d) is_file root) = Some (components root)"
      by (simp add: project_root_def b)
    with k Some show ?thesis by (auto simp: eq)
  qed
qed

definition project_files :: "component list \<Rightarrow> bool" where
  "project_files cs = (cs = [RootDir, Normal ''w'', Normal config_file])"

theorem project_root_nearest_witness:
  "map_option components (project_root (Some ''/w'') (\<lambda>q. project_files (components q)) ''a.ts'') = Some [RootDir, Normal ''w'']"
proof -
  let ?f = "\<lambda>q. project_files (components q)"
  have cs: "absolute_components ''/w'' ''a.ts'' = [RootDir, Normal ''w'', Normal ''a.ts'']"
    by (simp add: absolute_components_def components_def path_components_def part_component_def)
  have holds: "holds_config project_files (take k [RootDir, Normal ''w'', Normal ''a.ts'']) \<longleftrightarrow> k = 2" if "k \<le> 3" for k
  proof -
    have "k \<in> {0, 1, 2, 3}" using that by auto
    then show ?thesis by (auto simp: holds_config_def project_files_def config_file_def)
  qed
  have "case project_root (Some ''/w'') ?f ''a.ts'' of
     None \<Rightarrow> \<forall>k. 1 \<le> k \<and> k \<le> 3 \<longrightarrow> \<not> holds_config project_files (take k [RootDir, Normal ''w'', Normal ''a.ts''])
   | Some root \<Rightarrow> \<exists>k. k \<le> 3 \<and> components root = take k [RootDir, Normal ''w'', Normal ''a.ts'']
       \<and> holds_config project_files (take k [RootDir, Normal ''w'', Normal ''a.ts''])"
    using project_root_nearest [of "''a.ts''" "''/w''" project_files, unfolded cs]
    by (simp add: numeral_3_eq_3 split: option.splits) blast
  then show ?thesis
  proof (cases "project_root (Some ''/w'') ?f ''a.ts''")
    case None
    with \<open>case project_root _ _ _ of None \<Rightarrow> _ | Some root \<Rightarrow> _\<close> holds [of 2] show ?thesis by (auto dest: spec [of _ 2])
  next
    case (Some root)
    with \<open>case project_root _ _ _ of None \<Rightarrow> _ | Some root \<Rightarrow> _\<close> holds show ?thesis by auto
  qed
qed

section \<open>Every file gets its own provider\<close>

lemma path_insert_new:
  "path_get m p = None \<Longrightarrow> path_insert p v m = m @ [(p, v)]"
  by (induction p v m rule: path_insert.induct) (auto simp: path_get_def split: if_splits)

lemma path_get_append:
  "path_get (m @ m') p = (case path_get m p of None \<Rightarrow> path_get m' p | Some v \<Rightarrow> Some v)"
  by (induction m) (auto simp: path_get_def)

text \<open>
  What the table of projects holds: under every root the provider its load gave, each root once and
  all of them roots of \<open>files\<close>.
\<close>

definition projects_wf :: "('e, 'r) analyzers \<Rightarrow> path set \<Rightarrow> (path \<times> 'e provider) list \<Rightarrow> bool" where
  "projects_wf an files projects \<longleftrightarrow>
     distinct (path_keys projects) \<and>
     (\<forall>(root, provider) \<in> set projects. an_load_typescript an root = Ok provider \<and>
        (\<exists>f \<in> files. project_root (an_cwd an) (an_is_file an) f = Some root))"

lemma load_typescript_project_Ok:
  assumes "load_typescript_project an file projects = (Ok projects', loads)" "projects_wf an files projects"
  shows "projects_wf an (insert file files) projects' \<and> (\<exists>more. projects' = projects @ more) \<and>
    (\<forall>root. project_root (an_cwd an) (an_is_file an) file = Some root \<longrightarrow> path_get projects' root \<noteq> None)"
proof (cases "project_root (an_cwd an) (an_is_file an) file")
  case None
  with assms show ?thesis by (auto simp: load_typescript_project_def projects_wf_def)
next
  case (Some root)
  show ?thesis
  proof (cases "path_get projects root")
    case None
    with assms(1) Some obtain provider where load: "an_load_typescript an root = Ok provider"
      and out: "projects' = projects @ [(root, provider)]"
      by (auto simp: load_typescript_project_def path_insert_new result_bind_eq_Ok with_context_Ok)
    have "components root \<notin> set (path_keys projects)" using None by (simp add: path_get_None)
    moreover have "path_keys projects' = path_keys projects @ [components root]" by (simp add: path_keys_def out)
    ultimately have "distinct (path_keys projects')" using assms(2) by (simp add: projects_wf_def)
    moreover have "path_get projects' root \<noteq> None"
      using None by (simp add: out path_get_append) (simp add: path_get_def)
    ultimately show ?thesis using assms(2) load Some out by (auto simp: projects_wf_def)
  next
    case (Some v)
    with assms \<open>project_root _ _ file = Some root\<close> show ?thesis
      by (auto simp: load_typescript_project_def projects_wf_def)
  qed
qed

text \<open>The TypeScript files of a check, and the roots of their projects, each named once by its first file.\<close>

abbreviation is_typescript :: "path \<Rightarrow> bool" where
  "is_typescript f \<equiv> map_option grammar_language (Grammar_of f) = Some TypeScript"

definition typescript_roots :: "('e, 'r) analyzers \<Rightarrow> path list \<Rightarrow> path list" where
  "typescript_roots an files =
     List.map_filter (project_root (an_cwd an) (an_is_file an)) (filter is_typescript files)"

fun first_roots :: "path list \<Rightarrow> path list" where
  "first_roots [] = []"
| "first_roots (r # rs) = r # filter (\<lambda>q. components q \<noteq> components r) (first_roots rs)"

definition new_roots :: "(path \<times> 'e provider) list \<Rightarrow> path list \<Rightarrow> path list" where
  "new_roots projects roots = filter (\<lambda>q. components q \<notin> set (path_keys projects)) (first_roots roots)"

lemma new_roots_known: "path_get projects r \<noteq> None \<Longrightarrow> new_roots projects (r # rs) = new_roots projects rs"
  by (auto simp: new_roots_def path_get_None intro!: filter_cong)

lemma new_roots_new:
  "path_get projects r = None \<Longrightarrow> new_roots projects (r # rs) = r # new_roots (projects @ [(r, v)]) rs"
  by (auto simp: new_roots_def path_get_None path_keys_def intro!: filter_cong)

lemma new_roots_none: "new_roots [] roots = first_roots roots"
  by (simp add: new_roots_def path_keys_def)

lemma typescript_roots_Cons:
  "typescript_roots an (f # fs) =
     (if is_typescript f
      then (case project_root (an_cwd an) (an_is_file an) f of None \<Rightarrow> [] | Some r \<Rightarrow> [r]) else []) @ typescript_roots an fs"
  by (simp add: typescript_roots_def List.map_filter_simps split: option.splits)

text \<open>
  The loop loads the roots that are new, in order: all of them when it succeeds, and up to and
  with the one that failed otherwise.
\<close>

lemma load_projects_loads:
  assumes "load_projects an files has_rust projects = (r, loads)"
  shows "(\<exists>k. loads = map LoadTypeScript (take k (new_roots projects (typescript_roots an files)))) \<and>
    (\<forall>has_rust' projects'. r = Ok (has_rust', projects') \<longrightarrow>
       loads = map LoadTypeScript (new_roots projects (typescript_roots an files)) \<and>
       map fst projects' = map fst projects @ new_roots projects (typescript_roots an files))"
  using assms
proof (induction files arbitrary: has_rust projects loads)
  case Nil
  then show ?case by (auto simp: new_roots_def typescript_roots_def List.map_filter_simps)
next
  case (Cons f fs)
  show ?case
  proof (cases "is_typescript f \<and> (\<exists>root. project_root (an_cwd an) (an_is_file an) f = Some root \<and> path_get projects root = None)")
    case False
    then have "new_roots projects (typescript_roots an (f # fs)) = new_roots projects (typescript_roots an fs)"
      by (auto simp: typescript_roots_Cons new_roots_known split: option.splits)
    moreover from False Cons.prems obtain b where "load_projects an fs b projects = (r, loads)"
      by (cases "Grammar_of f")
        (auto simp: load_typescript_project_def split: language.splits option.splits if_splits prod.splits)
    ultimately show ?thesis using Cons.IH [of b projects loads] by simp
  next
    case True
    then obtain root where root: "project_root (an_cwd an) (an_is_file an) f = Some root" "path_get projects root = None"
      and ts: "is_typescript f" by blast
    have roots: "new_roots projects (typescript_roots an (f # fs)) =
        root # new_roots (projects @ [(root, v)]) (typescript_roots an fs)" for v
      using ts root by (simp add: typescript_roots_Cons new_roots_new [where v = v])
    show ?thesis
    proof (cases "an_load_typescript an root")
      case (Inl e)
      with ts root Cons.prems have "\<exists>e'. r = Inl e'" "loads = [LoadTypeScript root]"
        by (auto simp: load_typescript_project_def with_context_def map_err_def split: sum.splits)
      moreover have "[LoadTypeScript root] = map LoadTypeScript (take 1 (new_roots projects (typescript_roots an (f # fs))))"
        unfolding roots [where v = undefined] by simp
      ultimately show ?thesis by (intro conjI exI [of _ 1]) auto
    next
      case (Inr v)
      with ts root Cons.prems obtain more where rest: "load_projects an fs has_rust (projects @ [(root, v)]) = (r, more)"
        and loads: "loads = LoadTypeScript root # more"
        by (auto simp: load_typescript_project_def path_insert_new with_context_def map_err_def split: prod.splits sum.splits)
      note ih = Cons.IH [OF rest]
      then obtain k where "more = map LoadTypeScript (take k (new_roots (projects @ [(root, v)]) (typescript_roots an fs)))"
        by blast
      then have "loads = map LoadTypeScript (take (Suc k) (new_roots projects (typescript_roots an (f # fs))))"
        by (simp add: loads roots [where v = v])
      with ih show ?thesis unfolding roots [of v] loads by (auto 4 3 simp: append_eq_Cons_conv intro: exI [of _ "Suc k"])
    qed
  qed
qed

lemma load_projects_Ok:
  assumes "load_projects an files has_rust projects = (Ok (has_rust', projects'), loads)" "projects_wf an seen projects"
  shows "projects_wf an (seen \<union> {f \<in> set files. is_typescript f}) projects' \<and>
    (\<exists>more. projects' = projects @ more) \<and>
    has_rust' = (has_rust \<or> (\<exists>f \<in> set files. map_option grammar_language (Grammar_of f) = Some Rust)) \<and>
    (\<forall>f \<in> set files. \<forall>root. is_typescript f \<and> project_root (an_cwd an) (an_is_file an) f = Some root \<longrightarrow>
       path_get projects' root \<noteq> None)"
  using assms
proof (induction files arbitrary: has_rust projects seen loads)
  case (Cons x xs)
  show ?case
  proof (cases "is_typescript x")
    case False
    then have "\<exists>r. load_projects an xs r projects = (Ok (has_rust', projects'), loads) \<and>
        r = (has_rust \<or> map_option grammar_language (Grammar_of x) = Some Rust)"
      using Cons.prems(1) by (cases "Grammar_of x") (auto split: language.splits)
    then obtain r where r: "load_projects an xs r projects = (Ok (has_rust', projects'), loads)"
      "r = (has_rust \<or> map_option grammar_language (Grammar_of x) = Some Rust)" by blast
    have "{f \<in> set (x # xs). is_typescript f} = {f \<in> set xs. is_typescript f}" using False by auto
    then show ?thesis using Cons.IH [OF r(1) Cons.prems(2)] r(2) False by auto
  next
    case True
    then obtain mid first more where mid: "load_typescript_project an x projects = (Ok mid, first)"
      and rest: "load_projects an xs has_rust mid = (Ok (has_rust', projects'), more)"
      using Cons.prems(1) by (auto simp: with_context_Ok split: prod.splits sum.splits)
    note step = load_typescript_project_Ok [OF mid Cons.prems(2)]
    then have "projects_wf an (insert x seen) mid" by simp
    note ih = Cons.IH [OF rest this]
    then obtain more where "projects' = mid @ more" by blast
    then have keep: "path_get projects' root \<noteq> None" if "path_get mid root \<noteq> None" for root
      using that by (auto simp: path_get_append)
    have "insert x seen \<union> {f \<in> set xs. is_typescript f} = seen \<union> {f \<in> set (x # xs). is_typescript f}"
      using True by auto
    with ih step keep True show ?thesis by auto
  qed
qed simp

lemma Grammar_of_Rust: "map_option grammar_language (Grammar_of f) = Some Rust \<longleftrightarrow> Grammar_of f = Some RustGrammar"
  by (auto elim: grammar_language.elims)

lemma Providers_load_files:
  assumes "Providers_load an p files = Ok ps"
  shows "(\<forall>f \<in> set files. \<forall>g. Grammar_of f = Some g \<longrightarrow>
       (\<exists>provider. for_file an ps f (grammar_language g) = [provider] \<and>
         (case grammar_language g of
            Rust \<Rightarrow> an_load_rust an p = Ok provider
          | TypeScript \<Rightarrow>
              (case project_root (an_cwd an) (an_is_file an) f of
                 None \<Rightarrow> provider = no_typescript_project
               | Some root \<Rightarrow> \<exists>root'. components root' = components root \<and> an_load_typescript an root' = Ok provider)))) \<and>
     (prov_rust ps \<noteq> None \<longleftrightarrow> (\<exists>f \<in> set files. Grammar_of f = Some RustGrammar))"
proof -
  from assms obtain has_rust projects loads where load: "load_projects an files False [] = (Ok (has_rust, projects), loads)"
    and rust: "if has_rust then \<exists>r. an_load_rust an p = Ok r \<and> prov_rust ps = Some r else prov_rust ps = None"
    and ts: "prov_typescript ps = projects"
    by (auto simp: Providers_load_def Providers_loads_def result_bind_eq_Ok with_context_Ok split: prod.splits sum.splits if_splits)
  have "projects_wf an {} []" by (simp add: projects_wf_def path_keys_def)
  note loaded = load_projects_Ok [OF load this]
  have wf: "projects_wf an (set files) projects" using loaded by (auto simp: projects_wf_def)
  have has_rust: "has_rust \<longleftrightarrow> (\<exists>f \<in> set files. Grammar_of f = Some RustGrammar)" using loaded Grammar_of_Rust by simp
  have own: "\<exists>provider. for_file an ps f (grammar_language g) = [provider] \<and>
         (case grammar_language g of
            Rust \<Rightarrow> an_load_rust an p = Ok provider
          | TypeScript \<Rightarrow>
              (case project_root (an_cwd an) (an_is_file an) f of
                 None \<Rightarrow> provider = no_typescript_project
               | Some root \<Rightarrow> \<exists>root'. components root' = components root \<and> an_load_typescript an root' = Ok provider))"
    if f: "f \<in> set files" "Grammar_of f = Some g" for f g
  proof (cases "grammar_language g")
    case Rust
    with f Grammar_of_Rust [of f] has_rust have has_rust by auto
    with rust Rust show ?thesis by (auto simp: for_file_def)
  next
    case TypeScript
    show ?thesis
    proof (cases "project_root (an_cwd an) (an_is_file an) f")
      case (Some root)
      with loaded f TypeScript obtain v where v: "path_get projects root = Some v" by fastforce
      then obtain i where "i < length projects" "components (fst (projects ! i)) = components root" "snd (projects ! i) = v"
        by (auto simp: path_get_Some)
      moreover from this wf have "an_load_typescript an (fst (projects ! i)) = Ok v"
        unfolding projects_wf_def by (auto dest!: bspec [OF _ nth_mem] split: prod.splits)
      ultimately show ?thesis using Some v TypeScript ts by (auto simp: for_file_def)
    qed (use TypeScript in \<open>simp add: for_file_def\<close>)
  qed
  show ?thesis using own rust has_rust by (intro conjI) (auto split: if_splits)
qed


definition sample_analyzers :: "(unit, unit) analyzers" where
  "sample_analyzers =
     \<lparr>an_cwd = None, an_is_file = (\<lambda>_. False),
      an_load_rust = (\<lambda>_. Ok \<lparr>prov_name = ProviderName ''rust'', prov_decorate = (\<lambda>_. Ok (NotCovered StaleSource))\<rparr>),
      an_load_typescript = (\<lambda>_. Err (Cause ()))\<rparr>"

text \<open>A project at \<open>/s\<close> and files in it and outside of it.\<close>

definition two_projects :: "(unit, unit) analyzers" where
  "two_projects = sample_analyzers\<lparr>an_is_file := (\<lambda>q. q = ''/s/tsconfig.json''),
     an_load_typescript := (\<lambda>_. Ok \<lparr>prov_name = typescript_name, prov_decorate = (\<lambda>_. Ok (NotCovered StaleSource))\<rparr>)\<rparr>"

lemma sample_roots:
  "project_root None (\<lambda>q. q = ''/s/tsconfig.json'') ''/s/a.ts'' = Some ''/s''"
  "project_root None (\<lambda>q. q = ''/s/tsconfig.json'') ''/s/b.ts'' = Some ''/s''"
  "project_root None (\<lambda>q. q = ''/s/tsconfig.json'') ''/c.ts'' = None"
  by (simp_all add: project_root_def discover_root_def path_absolute_def components_def path_components_def
      part_component_def ancestors.simps path_parent_def path_join_def config_file_def starts_with_def Let_def trim_parts_def)

lemma sample_grammars: "Grammar_of ''/s/a.ts'' = Some TypeScriptGrammar" "Grammar_of ''/s/b.ts'' = Some TypeScriptGrammar"
  "Grammar_of ''/a.rs'' = Some RustGrammar" "Grammar_of ''/c.ts'' = Some TypeScriptGrammar"
  by (simp_all add: Grammar_of_def extension_def file_name_def path_components_def rsplit_dot_def to_str_def
      utf8_valid.simps utf8_next.simps)


end
