(* ===== verification/CheckCommand.thy ===== *)
theory CheckCommand
  imports LintSources Findings Projects
begin

text \<open>
  The commands of \<open>crates/stiles/src/commands\<close>: \<open>check.rs\<close> with \<open>error_recovery.rs\<close>,
  \<open>file_failure.rs\<close> and \<open>closing_text.rs\<close>, and \<open>rules.rs\<close>. A command returns its result, the text
  it leaves for the standard error, and the events it handed to the presenter, in order; the
  presenter may stop listening, which is the argument \<open>listening\<close> on the events so far.
\<close>

section \<open>Output\<close>

datatype 'a event = Detail string | Message string | Artifact 'a

text \<open>The causes a command can fail with; the words of each are an argument.\<close>

datatype ('l, 'r) check_error =
    CheckBail string
  | ConfigCause config_error
  | LoadCause load_error
  | OptionsCause validate_rule_options_error
  | DiscoveryCause discovery_error
  | ProjectCause 'r
  | GrammarCause "'l build_pipeline_error"
  | ReadCause string
  | PipelineCause run_pipeline_error
  | FindingCause finding_error
  | NotListening

definition present_event ::
  "('a event list \<Rightarrow> bool) \<Rightarrow> string \<Rightarrow> 'a event list \<Rightarrow> 'a event \<Rightarrow>
   ('a event list, ('l, 'r) check_error anyhow) result" where
  "present_event listening context log e =
     with_context context (if listening log then Ok (log @ [e]) else Err (Cause NotListening))"

fun present_all ::
  "('a event list \<Rightarrow> bool) \<Rightarrow> string \<Rightarrow> 'a event list \<Rightarrow> 'a event list \<Rightarrow>
   (unit, ('l, 'r) check_error anyhow) result \<times> 'a event list" where
  "present_all listening context log [] = (Ok (), log)"
| "present_all listening context log (e # es) =
     (case present_event listening context log e of
        Inl error \<Rightarrow> (Err error, log)
      | Inr log' \<Rightarrow> present_all listening context log' es)"

section \<open>Closing text\<close>

definition closing_push :: "string \<Rightarrow> string \<Rightarrow> string" where
  "closing_push closing line = closing @ line @ newline"

definition closing_extend :: "string \<Rightarrow> string list \<Rightarrow> string" where
  "closing_extend closing lines = foldl closing_push closing lines"

type_synonym exit_code = nat

abbreviation (input) SUCCESS :: exit_code where "SUCCESS \<equiv> 0"
abbreviation (input) FAILURE :: exit_code where "FAILURE \<equiv> 1"

record exit_value =
  exit_code :: exit_code
  exit_text :: "string option"

definition into_exit :: "string \<Rightarrow> exit_code \<Rightarrow> exit_value" where
  "into_exit closing code =
     \<lparr>exit_code = code, exit_text = (if closing = [] then None else Some closing)\<rparr>"

definition into_failure :: "('e \<Rightarrow> exit_value) \<Rightarrow> string \<Rightarrow> 'e \<Rightarrow> exit_value" where
  "into_failure from_error closing error =
     (let failed = from_error error
      in \<lparr>exit_code = exit_code failed,
          exit_text = Some (closing @ (case exit_text failed of Some t \<Rightarrow> t | None \<Rightarrow> []))\<rparr>)"

section \<open>Files that fail\<close>

datatype walk_decision = WalkContinue | WalkStop

datatype error_recovery = Abort | Continue

record ('l, 'r) file_failure =
  fail_file :: path
  fail_error :: "('l, 'r) check_error anyhow"

definition record_failure ::
  "error_recovery \<Rightarrow> ('l, 'r) file_failure list \<Rightarrow> path \<Rightarrow> ('l, 'r) check_error anyhow \<Rightarrow>
   walk_decision \<times> ('l, 'r) file_failure list" where
  "record_failure recovery failures p error =
     ((case recovery of Abort \<Rightarrow> WalkStop | Continue \<Rightarrow> WalkContinue),
      failures @ [\<lparr>fail_file = p, fail_error = error\<rparr>])"

definition failure_display :: "(('l, 'r) check_error \<Rightarrow> string) \<Rightarrow> ('l, 'r) file_failure \<Rightarrow> string" where
  "failure_display show_error f =
     ''error: '' @ display (fail_file f) @ '': '' @ anyhow_alternate show_error (fail_error f)"

fun record_remedies :: "string list \<Rightarrow> (provider_name \<times> coverage_gap) list \<Rightarrow> string list" where
  "record_remedies remedies [] = remedies"
| "record_remedies remedies ((_, gap) # gaps) =
     record_remedies (if gap_help gap \<in> set remedies then remedies else remedies @ [gap_help gap]) gaps"

section \<open>The check\<close>

text \<open>Everything outside the program that a command talks to.\<close>

record ('w, 'm, 'g, 's, 'e, 'l, 'r) host =
  host_machine :: "'w machine"
  host_opener :: "('s, 'e) opener"
  host_identity :: abi_identity
  host_target :: string
  host_exists :: "'w \<Rightarrow> path \<Rightarrow> bool"
  host_project :: "'w \<Rightarrow> path \<Rightarrow> (path \<times> string \<times> config_table option, config_error anyhow) result"
  host_gix_parse :: "string \<Rightarrow> gix_url option"
  host_ignore :: "'w \<Rightarrow> 'm ignore_crate"
  host_analyzers :: "'w \<Rightarrow> ('e, 'r) analyzers"
  host_read :: "'w \<Rightarrow> path \<Rightarrow> (string, string) result"
  host_grammars :: "grammar \<Rightarrow> 'g"
  host_set_language :: "'g \<Rightarrow> (unit, 'l) result"
  host_parse :: "'g \<Rightarrow> string \<Rightarrow> ts_node option"
  host_emit :: emitter
  host_show :: "('l, 'r) check_error \<Rightarrow> string"
  host_exit :: "('l, 'r) check_error anyhow \<Rightarrow> exit_value"

record ('g, 'l, 'r) walk_state =
  ws_pipelines :: "grammar \<rightharpoonup> 'g pipeline"
  ws_diagnostics :: "diagnostic list"
  ws_sources :: sources
  ws_remedies :: "string list"
  ws_failures :: "('l, 'r) file_failure list"
  ws_log :: "finding event list"

definition progress :: "path \<Rightarrow> 'a event" where
  "progress p = Detail (''checking '' @ display p)"

text \<open>The failure of one file, recorded in the state.\<close>

definition fail_file_with ::
  "error_recovery \<Rightarrow> path \<Rightarrow> ('l, 'r) check_error anyhow \<Rightarrow> ('g, 'l, 'r) walk_state \<Rightarrow>
   (walk_decision, ('l, 'r) check_error anyhow) result \<times> ('g, 'l, 'r) walk_state" where
  "fail_file_with recovery p error st =
     (let (decision, failures) = record_failure recovery (ws_failures st) p error
      in (Ok decision, st\<lparr>ws_failures := failures\<rparr>))"

text \<open>\<open>if let RunPipelineError::Uncovered\<close>: the remedies of a file no provider covered.\<close>

definition record_uncovered :: "run_pipeline_error \<Rightarrow> ('g, 'l, 'r) walk_state \<Rightarrow> ('g, 'l, 'r) walk_state" where
  "record_uncovered error st =
     (case error of
        Uncovered uncovered \<Rightarrow> st\<lparr>ws_remedies := record_remedies (ws_remedies st) (uncovered_gaps uncovered)\<rparr>
      | _ \<Rightarrow> st)"

definition pipeline_for ::
  "('w, 'm, 'g, 's, 'e, 'l, 'r) host \<Rightarrow> grammar \<Rightarrow> (grammar \<rightharpoonup> 'g pipeline) \<Rightarrow>
   ('g pipeline \<times> (grammar \<rightharpoonup> 'g pipeline), ('l, 'r) check_error anyhow) result" where
  "pipeline_for host g pipelines =
     (case pipelines g of
        Some p \<Rightarrow> Ok (p, pipelines)
      | None \<Rightarrow>
          result_bind (with_context ''failed to initialize pipeline''
              (map_err (\<lambda>e. Cause (GrammarCause e)) (grammar_pipeline (host_set_language host) (host_grammars host) g)))
            (\<lambda>p. Ok (p, pipelines(g \<mapsto> p))))"

definition check_file ::
  "('w, 'm, 'g, 's, 'e, 'l, 'r) host \<Rightarrow> (finding event list \<Rightarrow> bool) \<Rightarrow> 'w \<Rightarrow> ('s, 'e) custom_lints \<Rightarrow> stiles_config \<Rightarrow>
   'e providers \<Rightarrow> error_recovery \<Rightarrow> path \<Rightarrow> ('g, 'l, 'r) walk_state \<Rightarrow>
   (walk_decision, ('l, 'r) check_error anyhow) result \<times> ('g, 'l, 'r) walk_state" where
  "check_file host listening w lints config providers recovery p st =
     (case present_event listening ''failed to report progress'' (ws_log st) (progress p) of
        Inl e \<Rightarrow> (Err e, st)
      | Inr log \<Rightarrow>
     (let st = st\<lparr>ws_log := log\<rparr> in
      case host_read host w p of
        Inl e \<Rightarrow> fail_file_with recovery p (Cause (ReadCause e)) st
      | Inr source \<Rightarrow>
     (case with_context ''failed to configure the custom lints''
         (map_err (map_anyhow LoadCause) (instantiate lints (config_options config))) of
        Inl e \<Rightarrow> (Err e, st)
      | Inr passes \<Rightarrow>
     (case Grammar_of p of
        None \<Rightarrow> fail_file_with recovery p (Cause (CheckBail (''stiles has no grammar for '' @ display p))) st
      | Some g \<Rightarrow>
     (case pipeline_for host g (ws_pipelines st) of
        Inl e \<Rightarrow> (Err e, st)
      | Inr (pipe, pipelines) \<Rightarrow>
     (let st = st\<lparr>ws_pipelines := pipelines\<rparr>;
          own = for_file (host_analyzers host w) providers p (grammar_language g) in
      case fst (run_on_source (host_parse host) pipe source p own passes) of
        Inr diagnostics \<Rightarrow>
          (let admitted = filter (\<lambda>d. admits (config_rules config) (diag_rule_id d)) diagnostics
           in (Ok WalkContinue,
               if admitted = [] then st
               else st\<lparr>ws_sources := path_insert p source (ws_sources st),
                       ws_diagnostics := ws_diagnostics st @ admitted\<rparr>))
      | Inl error \<Rightarrow>
          fail_file_with recovery p (Cause (PipelineCause error)) (record_uncovered error st)))))))"

fun check_files ::
  "('w, 'm, 'g, 's, 'e, 'l, 'r) host \<Rightarrow> (finding event list \<Rightarrow> bool) \<Rightarrow> 'w \<Rightarrow> ('s, 'e) custom_lints \<Rightarrow> stiles_config \<Rightarrow>
   'e providers \<Rightarrow> error_recovery \<Rightarrow> path list \<Rightarrow> ('g, 'l, 'r) walk_state \<Rightarrow>
   (unit, ('l, 'r) check_error anyhow) result \<times> ('g, 'l, 'r) walk_state" where
  "check_files host listening w lints config providers recovery [] st = (Ok (), st)"
| "check_files host listening w lints config providers recovery (p # ps) st =
     (case check_file host listening w lints config providers recovery p st of
        (Inl e, st') \<Rightarrow> (Err e, st')
      | (Inr WalkContinue, st') \<Rightarrow> check_files host listening w lints config providers recovery ps st'
      | (Inr WalkStop, st') \<Rightarrow> (Ok (), st'))"

text \<open>The findings, one artifact each, once the walk is over.\<close>

fun report_findings ::
  "('w, 'm, 'g, 's, 'e, 'l, 'r) host \<Rightarrow> (finding event list \<Rightarrow> bool) \<Rightarrow> sources \<Rightarrow> diagnostic list \<Rightarrow> finding event list \<Rightarrow>
   (unit, ('l, 'r) check_error anyhow) result \<times> finding event list" where
  "report_findings host listening sources [] log = (Ok (), log)"
| "report_findings host listening sources (d # ds) log =
     (case map_err (map_anyhow FindingCause) (Finding_new (host_emit host) d sources) of
        Inl e \<Rightarrow> (Err e, log)
      | Inr f \<Rightarrow>
          (case present_event listening ''failed to report a diagnostic'' log (Artifact f) of
             Inl e \<Rightarrow> (Err e, log)
           | Inr log' \<Rightarrow> report_findings host listening sources ds log'))"

definition report_remedies ::
  "('a event list \<Rightarrow> bool) \<Rightarrow> string list \<Rightarrow> 'a event list \<Rightarrow>
   (unit, ('l, 'r) check_error anyhow) result \<times> 'a event list" where
  "report_remedies listening remedies log =
     present_all listening ''failed to report a remedy'' log (map (\<lambda>r. Message (''help: '' @ r)) remedies)"

record check_args =
  arg_path :: path
  arg_keep_going :: bool
  arg_deny_warnings :: bool

text \<open>What the flags mean.\<close>

definition check_recovery :: "check_args \<Rightarrow> error_recovery" where
  "check_recovery args = (if arg_keep_going args then Continue else Abort)"

definition check_threshold :: "check_args \<Rightarrow> failure_threshold" where
  "check_threshold args = (if arg_deny_warnings args then Warnings else Errors)"

text \<open>
  What both commands start with: the path, the configuration and the lints. The notices are in the
  closing text whether the lints load or not.
\<close>

definition load_project ::
  "('w, 'm, 'g, 's, 'e, 'l, 'r) host \<Rightarrow> path \<Rightarrow> 'w \<Rightarrow>
   (stiles_config \<times> ('s, 'e) custom_lints, ('l, 'r) check_error anyhow) result \<times> string \<times> 'w" where
  "load_project host p w =
     (if \<not> host_exists host w p then (Err (Cause (CheckBail (display p @ '' does not exist''))), [], w)
      else case with_context ''failed to load the stiles configuration''
          (map_err (map_anyhow ConfigCause) (config_load (host_gix_parse host) (host_project host w p))) of
        Inl e \<Rightarrow> (Err e, [], w)
      | Inr config \<Rightarrow>
          (let (loaded, notices, w1) = CustomLints_load (host_machine host) (host_opener host) (host_identity host)
                 (host_target host) config w;
               closing = closing_extend [] (map (notice_display (mach_env (host_machine host))) notices)
           in (result_bind (with_context ''failed to load the project's custom lints'' (map_err (map_anyhow LoadCause) loaded))
                 (\<lambda>lints. Ok (config, lints)), closing, w1)))"

definition validate_rules ::
  "stiles_config \<Rightarrow> ('s, 'e) custom_lints \<Rightarrow> (unit, ('l, 'r) check_error anyhow) result" where
  "validate_rules config lints =
     result_bind (with_context ''failed to read the project's [rules]''
         (map_err (map_anyhow ConfigCause) (validate_filter (config_rules config) (declared lints))))
       (\<lambda>_. with_context ''failed to read the project's [rules.options]''
          (map_err (\<lambda>e. Cause (OptionsCause e)) (validate_options (config_options config) (declared lints))))"

definition no_files_message :: "path \<Rightarrow> string" where
  "no_files_message p =
     ''stiles analyzed no files under '' @ display p @ '': either nothing there is written in a language ''
     @ ''stiles has a grammar for, or the ignore files and configured patterns excluded all of it''"

definition initial_walk :: "('g, 'l, 'r) walk_state" where
  "initial_walk = \<lparr>ws_pipelines = Map.empty, ws_diagnostics = [], ws_sources = [], ws_remedies = [],
     ws_failures = [], ws_log = []\<rparr>"

text \<open>From the discovered files to the exit code: the walk, the failures, the remedies, the findings.\<close>

definition check_discovered ::
  "('w, 'm, 'g, 's, 'e, 'l, 'r) host \<Rightarrow> (finding event list \<Rightarrow> bool) \<Rightarrow> check_args \<Rightarrow> 'w \<Rightarrow> stiles_config \<Rightarrow>
   ('s, 'e) custom_lints \<Rightarrow> discovery \<Rightarrow> string \<Rightarrow>
   (exit_code, ('l, 'r) check_error anyhow) result \<times> string \<times> finding event list" where
  "check_discovered host listening args w config lints disc closing =
     (let threshold = check_threshold args;
          recovery = check_recovery args;
          closing = closing_extend closing (map (\<lambda>e. ''error: '' @ anyhow_alternate (host_show host) (map_anyhow DiscoveryCause e)) (disc_errors disc));
          outcome = (if disc_errors disc = [] then Success else Failure) in
      if disc_files disc = [] then (Err (Cause (CheckBail (no_files_message (arg_path args)))), closing, [])
      else case map_err (map_anyhow ProjectCause) (Providers_load (host_analyzers host w) (arg_path args) (disc_files disc)) of
        Inl e \<Rightarrow> (Err e, closing, [])
      | Inr providers \<Rightarrow>
     (case check_files host listening w lints config providers recovery (disc_files disc) initial_walk of
        (Inl e, st) \<Rightarrow> (Err e, closing, ws_log st)
      | (Inr _, st) \<Rightarrow>
     (let closing = closing_extend closing (map (failure_display (host_show host)) (ws_failures st));
          outcome = (if ws_failures st = [] then outcome else Failure) in
      case report_remedies listening (ws_remedies st) (ws_log st) of
        (Inl e, log) \<Rightarrow> (Err (Context ''failed to report the remedies for uncovered files'' e), closing, log)
      | (Inr _, log) \<Rightarrow>
     (let all = map (promote threshold) (ws_diagnostics st) in
      case report_findings host listening (ws_sources st) all log of
        (Inl e, log) \<Rightarrow> (Err e, closing, log)
      | (Inr _, log) \<Rightarrow>
          (Ok (case combine outcome (from_diagnostics all threshold) of Failure \<Rightarrow> FAILURE | Success \<Rightarrow> SUCCESS),
           closing, log)))))"

definition run_check ::
  "('w, 'm, 'g, 's, 'e, 'l, 'r) host \<Rightarrow> (finding event list \<Rightarrow> bool) \<Rightarrow> check_args \<Rightarrow> 'w \<Rightarrow>
   (exit_code, ('l, 'r) check_error anyhow) result \<times> string \<times> finding event list \<times> 'w" where
  "run_check host listening args w =
     (case load_project host (arg_path args) w of
        (Inl e, closing, w1) \<Rightarrow> (Err e, closing, [], w1)
      | (Inr (config, lints), closing, w1) \<Rightarrow>
     (case validate_rules config lints of
        Inl e \<Rightarrow> (Err e, closing, [], w1)
      | Inr _ \<Rightarrow>
     (case with_context ''failed to discover source files'' (map_err (map_anyhow DiscoveryCause)
         (discover (host_ignore host w1) (arg_path args) config (if arg_keep_going args then ReportAndContinue else Fail))) of
        Inl e \<Rightarrow> (Err e, closing, [], w1)
      | Inr disc \<Rightarrow>
          (let (r, closing, log) = check_discovered host listening args w1 config lints disc closing
           in (r, closing, log, w1)))))"

definition check ::
  "('w, 'm, 'g, 's, 'e, 'l, 'r) host \<Rightarrow> (finding event list \<Rightarrow> bool) \<Rightarrow> check_args \<Rightarrow> 'w \<Rightarrow>
   exit_value \<times> finding event list \<times> 'w" where
  "check host listening args w =
     (case run_check host listening args w of
        (Inr code, closing, log, w1) \<Rightarrow> (into_exit closing code, log, w1)
      | (Inl e, closing, log, w1) \<Rightarrow> (into_failure (host_exit host) closing e, log, w1))"

section \<open>Listing the rules\<close>

record listed_rule =
  listed_rule :: string
  listed_languages :: "string list"
  listed_enabled :: bool

fun listed_language_name :: "language \<Rightarrow> string" where
  "listed_language_name Rust = ''rust''"
| "listed_language_name TypeScript = ''typescript''"

definition ListedRule_new :: "declared_rule \<Rightarrow> stiles_config \<Rightarrow> listed_rule" where
  "ListedRule_new d config =
     \<lparr>listed_rule = rule_name (dr_rule d), listed_languages = map listed_language_name (dr_languages d),
      listed_enabled = admits (config_rules config) (dr_rule d)\<rparr>"

definition listed_display :: "listed_rule \<Rightarrow> string" where
  "listed_display l =
     listed_rule l @ '' ('' @ join '', '' (listed_languages l) @ '')''
     @ (if listed_enabled l then [] else '', off'')"

definition list_rules ::
  "('w, 'm, 'g, 's, 'e, 'l, 'r) host \<Rightarrow> (listed_rule event list \<Rightarrow> bool) \<Rightarrow> path \<Rightarrow> 'w \<Rightarrow>
   (unit, ('l, 'r) check_error anyhow) result \<times> string \<times> listed_rule event list \<times> 'w" where
  "list_rules host listening p w =
     (case load_project host p w of
        (Inl e, closing, w1) \<Rightarrow> (Err e, closing, [], w1)
      | (Inr (config, lints), closing, w1) \<Rightarrow>
          (let (r, log) = present_all listening ''failed to report a rule'' []
                 (map (\<lambda>d. Artifact (ListedRule_new d config)) (declared_rules_of lints))
           in (r, closing, log, w1)))"

definition rules ::
  "('w, 'm, 'g, 's, 'e, 'l, 'r) host \<Rightarrow> (listed_rule event list \<Rightarrow> bool) \<Rightarrow> path \<Rightarrow> 'w \<Rightarrow>
   exit_value \<times> listed_rule event list \<times> 'w" where
  "rules host listening p w =
     (case list_rules host listening p w of
        (Inr _, closing, log, w1) \<Rightarrow> (into_exit closing SUCCESS, log, w1)
      | (Inl e, closing, log, w1) \<Rightarrow> (into_failure (host_exit host) closing e, log, w1))"

text \<open>\<open>stiles abi\<close> prints the tag of the prebuilt lints this host loads.\<close>

definition abi ::
  "('w, 'm, 'g, 's, 'e, 'l, 'r) host \<Rightarrow> (string event list \<Rightarrow> bool) \<Rightarrow>
   (string event list, ('l, 'r) check_error anyhow) result" where
  "abi host listening =
     (case AbiTag_new (host_identity host) (host_target host) of
        AbiTag tag \<Rightarrow> present_event listening ''failed to report the ABI tag'' [] (Artifact tag))"

section \<open>The walk, file by file\<close>

text \<open>
  What a file amounts to on its own, whatever the walk has done so far: it ends the run, it fails,
  with the gaps its providers named, or it is checked, with its text and what the rules let through.
\<close>

datatype ('l, 'r) verdict =
    Fatal "('l, 'r) check_error anyhow"
  | Fails "('l, 'r) check_error anyhow" "(provider_name \<times> coverage_gap) list"
  | Checked string "diagnostic list"

definition gaps_of :: "run_pipeline_error \<Rightarrow> (provider_name \<times> coverage_gap) list" where
  "gaps_of e = (case e of Uncovered u \<Rightarrow> uncovered_gaps u | _ \<Rightarrow> [])"

definition analyze ::
  "('w, 'm, 'g, 's, 'e, 'l, 'r) host \<Rightarrow> 'w \<Rightarrow> ('s, 'e) custom_lints \<Rightarrow> stiles_config \<Rightarrow> 'e providers \<Rightarrow> path \<Rightarrow>
   ('l, 'r) verdict" where
  "analyze host w lints config providers p =
     (case host_read host w p of
        Inl e \<Rightarrow> Fails (Cause (ReadCause e)) []
      | Inr source \<Rightarrow>
     (case instantiate lints (config_options config) of
        Inl e \<Rightarrow> Fatal (Context ''failed to configure the custom lints'' (map_anyhow LoadCause e))
      | Inr passes \<Rightarrow>
     (case Grammar_of p of
        None \<Rightarrow> Fails (Cause (CheckBail (''stiles has no grammar for '' @ display p))) []
      | Some g \<Rightarrow>
     (case grammar_pipeline (host_set_language host) (host_grammars host) g of
        Inl e \<Rightarrow> Fatal (Context ''failed to initialize pipeline'' (Cause (GrammarCause e)))
      | Inr pipe \<Rightarrow>
     (case fst (run_on_source (host_parse host) pipe source p
         (for_file (host_analyzers host w) providers p (grammar_language g)) passes) of
        Inl e \<Rightarrow> Fails (Cause (PipelineCause e)) (gaps_of e)
      | Inr ds \<Rightarrow> Checked source (filter (\<lambda>d. admits (config_rules config) (diag_rule_id d)) ds))))))"

fun absorb ::
  "path \<Rightarrow> ('l, 'r) verdict \<Rightarrow> ('g, 'l, 'r) walk_state \<Rightarrow> ('g, 'l, 'r) walk_state" where
  "absorb p (Fatal e) st = st"
| "absorb p (Fails e gaps) st =
     st\<lparr>ws_log := ws_log st @ [progress p],
        ws_remedies := record_remedies (ws_remedies st) gaps,
        ws_failures := ws_failures st @ [\<lparr>fail_file = p, fail_error = e\<rparr>]\<rparr>"
| "absorb p (Checked source ds) st =
     st\<lparr>ws_log := ws_log st @ [progress p],
        ws_sources := (if ds = [] then ws_sources st else path_insert p source (ws_sources st)),
        ws_diagnostics := ws_diagnostics st @ ds\<rparr>"

fun failed :: "('l, 'r) verdict \<Rightarrow> bool" where
  "failed (Fails e gaps) = True" | "failed v = False"

fun fatal :: "('l, 'r) verdict \<Rightarrow> bool" where
  "fatal (Fatal e) = True" | "fatal v = False"

definition without_pipelines :: "('g, 'l, 'r) walk_state \<Rightarrow> ('g, 'l, 'r) walk_state" where
  "without_pipelines st = st\<lparr>ws_pipelines := Map.empty\<rparr>"

text \<open>Every pipeline kept for later files is the one its grammar gives.\<close>

definition pipelines_ok :: "('w, 'm, 'g, 's, 'e, 'l, 'r) host \<Rightarrow> ('g, 'l, 'r) walk_state \<Rightarrow> bool" where
  "pipelines_ok host st \<longleftrightarrow>
     (\<forall>g q. ws_pipelines st g = Some q \<longrightarrow> grammar_pipeline (host_set_language host) (host_grammars host) g = Ok q)"

lemma pipelines_ok_initial: "pipelines_ok host initial_walk"
  by (simp add: pipelines_ok_def initial_walk_def)

lemma pipeline_for_eq:
  assumes "pipelines_ok host st"
  shows "case grammar_pipeline (host_set_language host) (host_grammars host) g of
     Inl e \<Rightarrow> pipeline_for host g (ws_pipelines st) = Err (Context ''failed to initialize pipeline'' (Cause (GrammarCause e)))
   | Inr q \<Rightarrow> \<exists>ps. pipeline_for host g (ws_pipelines st) = Ok (q, ps) \<and> pipelines_ok host (st\<lparr>ws_pipelines := ps\<rparr>)"
proof (cases "ws_pipelines st g")
  case None
  then show ?thesis using assms
    by (cases "grammar_pipeline (host_set_language host) (host_grammars host) g")
      (simp_all add: pipeline_for_def pipelines_ok_def)
next
  case (Some q)
  then show ?thesis using assms by (simp add: pipeline_for_def pipelines_ok_def)
qed

definition stops :: "error_recovery \<Rightarrow> ('l, 'r) verdict \<Rightarrow> walk_decision" where
  "stops recovery v = (if failed v \<and> recovery = Abort then WalkStop else WalkContinue)"

lemma absorb_failure:
  "fail_file_with recovery p e (st\<lparr>ws_log := ws_log st @ [progress p],
      ws_remedies := record_remedies (ws_remedies st) gaps\<rparr>)
   = (Ok (stops recovery (Fails e gaps)), absorb p (Fails e gaps) st)"
  by (cases recovery) (simp_all add: fail_file_with_def record_failure_def stops_def)

lemma record_uncovered_eq:
  "record_uncovered e st = st\<lparr>ws_remedies := record_remedies (ws_remedies st) (gaps_of e)\<rparr>"
  by (cases e) (simp_all add: record_uncovered_def gaps_of_def)

text \<open>One file: what the loop does with it is its verdict, absorbed.\<close>

lemma check_file_refines:
  assumes ok: "pipelines_ok host st" and listens: "listening (ws_log st)"
    and v_def: "v = analyze host w lints config providers p"
  shows "case check_file host listening w lints config providers recovery p st of (r, st') \<Rightarrow>
     (case v of
        Fatal e \<Rightarrow> r = Err e
      | _ \<Rightarrow> r = Ok (stops recovery v) \<and> without_pipelines st' = absorb p v (without_pipelines st) \<and> pipelines_ok host st')"
proof -
  let ?log = "ws_log st @ [progress p]"
  have go: "present_event listening ''failed to report progress'' (ws_log st) (progress p) = Ok ?log"
    using listens by (simp add: present_event_def)
  have fails: "fail_file_with recovery p e (st\<lparr>ws_log := ?log\<rparr>) = (Ok (stops recovery (Fails e [])), absorb p (Fails e []) st)" for e
    using absorb_failure [of recovery p e st "[]"] by simp
  show ?thesis
  proof (cases "host_read host w p")
    case (Inl e)
    then show ?thesis by (simp add: check_file_def go v_def analyze_def fails without_pipelines_def ok [unfolded pipelines_ok_def] pipelines_ok_def)
  next
    case source: (Inr source)
    show ?thesis
    proof (cases "instantiate lints (config_options config)")
      case (Inl e)
      then show ?thesis by (simp add: check_file_def go v_def analyze_def source)
    next
      case passes: (Inr passes)
      show ?thesis
      proof (cases "Grammar_of p")
        case None
        then show ?thesis
          by (simp add: check_file_def go v_def analyze_def source passes fails without_pipelines_def ok [unfolded pipelines_ok_def] pipelines_ok_def)
      next
        case g: (Some g)
        show ?thesis
        proof (cases "grammar_pipeline (host_set_language host) (host_grammars host) g")
          case (Inl e)
          with pipeline_for_eq [OF ok, of g] show ?thesis
            by (simp add: check_file_def go v_def analyze_def source passes g)
        next
          case pipe: (Inr pipe)
          with pipeline_for_eq [OF ok, of g] obtain ps where ps: "pipeline_for host g (ws_pipelines st) = Ok (pipe, ps)"
            "pipelines_ok host (st\<lparr>ws_pipelines := ps\<rparr>)" by auto
          show ?thesis
          proof (cases "fst (run_on_source (host_parse host) pipe source p
              (for_file (host_analyzers host w) providers p (grammar_language g)) passes)")
            case (Inr ds)
            then show ?thesis using ps(2)
              by (simp add: check_file_def go v_def analyze_def source passes g pipe ps(1) Let_def stops_def
                  without_pipelines_def pipelines_ok_def)
          next
            case (Inl e)
            then show ?thesis using ps(2)
              by (cases recovery)
                (simp_all add: check_file_def go v_def analyze_def source passes g pipe ps(1) Let_def record_uncovered_eq
                  fail_file_with_def record_failure_def stops_def without_pipelines_def pipelines_ok_def)
          qed
        qed
      qed
    qed
  qed
qed

text \<open>The files a walk visits: all of them, or those up to the first that fails.\<close>

fun visited :: "error_recovery \<Rightarrow> (path \<Rightarrow> ('l, 'r) verdict) \<Rightarrow> path list \<Rightarrow> path list" where
  "visited Continue verdict ps = ps"
| "visited Abort verdict ps =
     (let before = takeWhile (\<lambda>p. \<not> failed (verdict p)) ps
      in before @ take 1 (drop (length before) ps))"

lemma visited_Cons:
  "visited recovery verdict (p # ps) =
     p # (case stops recovery (verdict p) of WalkContinue \<Rightarrow> visited recovery verdict ps | WalkStop \<Rightarrow> [])"
  by (cases recovery) (simp_all add: stops_def Let_def)

lemma visited_subset: "set (visited recovery verdict ps) \<subseteq> set ps"
  by (induction ps) (auto simp: visited_Cons split: walk_decision.splits, cases recovery, auto)

lemma check_file_listens:
  assumes "check_file host listening w lints config providers recovery p st = (Ok decision, st')"
  shows "listening (ws_log st)"
  using assms by (rule contrapos_pp) (simp add: check_file_def present_event_def)

lemma check_files_refines:
  assumes "check_files host listening w lints config providers recovery ps st = (Ok (), st')" "pipelines_ok host st"
  shows "let verdict = analyze host w lints config providers; vs = visited recovery verdict ps
     in (\<forall>p \<in> set vs. \<not> fatal (verdict p)) \<and>
        without_pipelines st' = fold (\<lambda>p. absorb p (verdict p)) vs (without_pipelines st)"
  using assms
proof (induction ps arbitrary: st)
  case Nil
  then show ?case by (cases recovery) simp_all
next
  case (Cons p ps)
  let ?v = "analyze host w lints config providers p"
  obtain r st1 where step: "check_file host listening w lints config providers recovery p st = (r, st1)" by fastforce
  with Cons.prems(1) obtain decision where r: "r = Ok decision" by (cases r) auto
  have listens: "listening (ws_log st)" using check_file_listens [OF step [unfolded r]] .
  note refines = check_file_refines [where listening = listening and v = ?v and recovery = recovery,
      OF Cons.prems(2) listens refl, unfolded step r]
  then have v: "\<not> fatal ?v" by (cases ?v) auto
  with refines have "decision = stops recovery ?v" "without_pipelines st1 = absorb p ?v (without_pipelines st)"
    "pipelines_ok host st1" by (auto split: verdict.splits)
  with Cons.prems(1) step r Cons.IH [of st1] v show ?case
    by (cases decision) (simp_all add: visited_Cons Let_def)
qed

lemma check_files_total:
  assumes "\<forall>p \<in> set ps. \<not> fatal (analyze host w lints config providers p)" "pipelines_ok host st"
  shows "\<exists>st'. check_files host (\<lambda>_. True) w lints config providers recovery ps st = (Ok (), st')"
  using assms
proof (induction ps arbitrary: st)
  case (Cons p ps)
  let ?v = "analyze host w lints config providers p"
  obtain r st1 where step: "check_file host (\<lambda>_. True) w lints config providers recovery p st = (r, st1)" by fastforce
  with check_file_refines [where listening = "\<lambda>_. True" and v = ?v and recovery = recovery,
      OF Cons.prems(2) TrueI refl] Cons.prems(1)
  have "r = Ok (stops recovery ?v)" "pipelines_ok host st1" by (auto split: verdict.splits)
  with step Cons show ?case by (cases "stops recovery ?v") simp_all
qed simp

fun found_in :: "('l, 'r) verdict \<Rightarrow> diagnostic list" where
  "found_in (Checked source ds) = ds" | "found_in v = []"

fun gaps_in :: "('l, 'r) verdict \<Rightarrow> (provider_name \<times> coverage_gap) list" where
  "gaps_in (Fails e gaps) = gaps" | "gaps_in v = []"

fun failure_in :: "path \<Rightarrow> ('l, 'r) verdict \<Rightarrow> ('l, 'r) file_failure list" where
  "failure_in p (Fails e gaps) = [\<lparr>fail_file = p, fail_error = e\<rparr>]" | "failure_in p v = []"

lemma record_remedies_append:
  "record_remedies rs (a @ b) = record_remedies (record_remedies rs a) b"
  by (induction rs a rule: record_remedies.induct) simp_all

lemma set_record_remedies: "set (record_remedies rs gaps) = set rs \<union> gap_help ` snd ` set gaps"
  by (induction rs gaps rule: record_remedies.induct) auto

lemma distinct_record_remedies: "distinct rs \<Longrightarrow> distinct (record_remedies rs gaps)"
  by (induction rs gaps rule: record_remedies.induct) auto

text \<open>
  The text a diagnostic of \<open>f\<close> is placed in: that of the last visited file of this path with a
  diagnostic to report, as it was analyzed.
\<close>

fun source_in :: "('l, 'r) verdict \<Rightarrow> string option" where
  "source_in (Checked source ds) = (if ds = [] then None else Some source)" | "source_in v = None"

definition reported_source :: "(path \<Rightarrow> ('l, 'r) verdict) \<Rightarrow> path list \<Rightarrow> path \<Rightarrow> string option" where
  "reported_source verdict vs f =
     find_map (\<lambda>p. if components p = components f then source_in (verdict p) else None) (rev vs)"

lemma path_get_insert: "path_get (path_insert p v m) f = (if components p = components f then Some v else path_get m f)"
  by (induction p v m rule: path_insert.induct) (auto simp: path_get_def)

lemma path_keys_simps [simp]: "path_keys [] = []" "path_keys ((q, x) # m) = components q # path_keys m"
  by (simp_all add: path_keys_def)

lemma set_path_keys_insert: "set (path_keys (path_insert p v m)) = insert (components p) (set (path_keys m))"
  by (induction p v m rule: path_insert.induct) auto

lemma distinct_path_insert: "distinct (path_keys m) \<Longrightarrow> distinct (path_keys (path_insert p v m))"
  by (induction p v m rule: path_insert.induct) (auto simp: set_path_keys_insert)

lemma find_map_append:
  "find_map f (xs @ ys) = (case find_map f xs of Some y \<Rightarrow> Some y | None \<Rightarrow> find_map f ys)"
  by (induction xs) (auto split: option.splits)

lemma fold_absorb_reported:
  fixes st :: "('g, 'l, 'r) walk_state"
  assumes "ws_sources st = []"
  shows "distinct (path_keys (ws_sources (fold (\<lambda>p. absorb p (verdict p)) vs st))) \<and>
    (\<forall>f. path_get (ws_sources (fold (\<lambda>p. absorb p (verdict p)) vs st)) f = reported_source verdict vs f)"
proof (induction vs rule: rev_induct)
  case Nil
  then show ?case using assms by (simp add: reported_source_def path_get_def path_keys_def)
next
  case (snoc p vs)
  show ?case
  proof (cases "source_in (verdict p)")
    case None
    then have "ws_sources (absorb p (verdict p) s) = ws_sources s" for s :: "('g, 'l, 'r) walk_state"
      by (cases "verdict p") (simp_all split: if_splits)
    with snoc None show ?thesis by (simp add: reported_source_def)
  next
    case (Some source)
    then have "ws_sources (absorb p (verdict p) s) = path_insert p source (ws_sources s)" for s :: "('g, 'l, 'r) walk_state"
      by (cases "verdict p") (simp_all split: if_splits)
    with snoc Some show ?thesis by (simp add: reported_source_def path_get_insert distinct_path_insert)
  qed
qed

text \<open>The remedies, each where it is first needed.\<close>

lemma record_remedies_first:
  "record_remedies [] gaps = rev (remdups (rev (map (\<lambda>g. gap_help (snd g)) gaps)))"
proof (induction gaps rule: rev_induct)
  case (snoc g gaps)
  obtain name gap where g: "g = (name, gap)" by fastforce
  then have "record_remedies rs [g] = (if gap_help gap \<in> set rs then rs else rs @ [gap_help gap])" for rs by simp
  then show ?case unfolding record_remedies_append snoc g by simp
qed simp

lemma fold_absorb:
  assumes "\<forall>p \<in> set vs. \<not> fatal (verdict p)"
  shows "let st' = fold (\<lambda>p. absorb p (verdict p)) vs st
     in ws_log st' = ws_log st @ map progress vs \<and>
        ws_diagnostics st' = ws_diagnostics st @ concat (map (\<lambda>p. found_in (verdict p)) vs) \<and>
        ws_failures st' = ws_failures st @ concat (map (\<lambda>p. failure_in p (verdict p)) vs) \<and>
        ws_remedies st' = record_remedies (ws_remedies st) (concat (map (\<lambda>p. gaps_in (verdict p)) vs))"
  using assms
proof (induction vs arbitrary: st)
  case (Cons p vs)
  then show ?case
    using Cons.IH [of "absorb p (verdict p) st"]
    by (cases "verdict p") (simp_all add: Let_def record_remedies_append)
qed simp

lemma present_all_Ok: "present_all listening context log es = (Ok (), log') \<Longrightarrow> log' = log @ es"
proof (induction es arbitrary: log)
  case (Cons e es)
  from Cons.prems show ?case by (auto dest!: Cons.IH simp: present_event_def split: if_splits)
qed simp

lemma report_findings_Ok:
  assumes "report_findings host listening sources ds log = (Ok (), log')"
  shows "\<exists>fs. log' = log @ map Artifact fs \<and> list_all2 (\<lambda>d f. Finding_new (host_emit host) d sources = Ok f) ds fs"
  using assms
proof (induction ds arbitrary: log)
  case (Cons d ds)
  then obtain f where f: "Finding_new (host_emit host) d sources = Ok f"
    and rest: "report_findings host listening sources ds (log @ [Artifact f]) = (Ok (), log')"
    by (auto simp: present_event_def split: sum.splits if_splits)
  from Cons.IH [OF rest] obtain fs where "log' = (log @ [Artifact f]) @ map Artifact fs"
    "list_all2 (\<lambda>d f. Finding_new (host_emit host) d sources = Ok f) ds fs" by blast
  with f show ?case by (intro exI [of _ "f # fs"]) simp
qed simp

lemma failure_in_Nil:
  fixes verdict :: "path \<Rightarrow> ('l, 'r) verdict"
  shows "concat (map (\<lambda>p. failure_in p (verdict p)) vs) = [] \<longleftrightarrow> (\<forall>p \<in> set vs. \<not> failed (verdict p))"
proof -
  have "failure_in p v = [] \<longleftrightarrow> \<not> failed v" for p and v :: "('l, 'r) verdict" by (cases v) simp_all
  then show ?thesis by simp
qed

section \<open>What a check reports\<close>

lemma closing_extend_eq: "closing_extend closing lines = closing @ concat (map (\<lambda>l. l @ newline) lines)"
  by (induction lines arbitrary: closing) (simp_all add: closing_extend_def closing_push_def)

text \<open>A run that ends with an exit code, read off its parts.\<close>

lemma check_discovered_Ok:
  fixes host :: "('w, 'm, 'g, 's, 'e, 'l, 'r) host"
  assumes "check_discovered host listening args w config lints disc closing = (Ok code, closing', log)"
  obtains providers vs and st :: "('g, 'l, 'r) walk_state" and fs where
    "Providers_load (host_analyzers host w) (arg_path args) (disc_files disc) = Ok providers"
    "vs = visited (check_recovery args) (analyze host w lints config providers) (disc_files disc)"
    "disc_files disc \<noteq> []"
    "\<forall>p \<in> set vs. \<not> fatal (analyze host w lints config providers p)"
    "ws_diagnostics st = concat (map (\<lambda>p. found_in (analyze host w lints config providers p)) vs)"
    "ws_failures st = concat (map (\<lambda>p. failure_in p (analyze host w lints config providers p)) vs)"
    "ws_remedies st = record_remedies [] (concat (map (\<lambda>p. gaps_in (analyze host w lints config providers p)) vs))"
    "distinct (path_keys (ws_sources st)) \<and>
       (\<forall>f. path_get (ws_sources st) f = reported_source (analyze host w lints config providers) vs f)"
    "list_all2 (\<lambda>d f. Finding_new (host_emit host) (promote (check_threshold args) d) (ws_sources st) = Ok f)
       (ws_diagnostics st) fs"
    "log = map progress vs @ map (\<lambda>r. Message (''help: '' @ r)) (ws_remedies st) @ map Artifact fs"
    "closing' = closing_extend (closing_extend closing
         (map (\<lambda>e. ''error: '' @ anyhow_alternate (host_show host) (map_anyhow DiscoveryCause e)) (disc_errors disc)))
         (map (failure_display (host_show host)) (ws_failures st))"
    "code = (if disc_errors disc \<noteq> [] \<or> ws_failures st \<noteq> [] \<or>
         from_diagnostics (map (promote (check_threshold args)) (ws_diagnostics st)) (check_threshold args) = Failure
       then FAILURE else SUCCESS)"
proof -
  let ?files = "disc_files disc" and ?r = "check_recovery args" and ?t = "check_threshold args"
  have files: "?files \<noteq> []" using assms by (auto simp: check_discovered_def Let_def)
  obtain providers where load: "Providers_load (host_analyzers host w) (arg_path args) ?files = Ok providers"
    using assms files by (cases "Providers_load (host_analyzers host w) (arg_path args) ?files")
      (auto simp: check_discovered_def Let_def)
  obtain r st where walk: "check_files host listening w lints config providers ?r ?files initial_walk = (r, st)" by fastforce
  have "r = Ok ()" using assms files load walk by (cases r) (simp_all add: check_discovered_def Let_def)
  note walk = walk [unfolded this]
  obtain r1 :: "(unit, ('l, 'r) check_error anyhow) result" and log1
    where remedies: "report_remedies listening (ws_remedies st) (ws_log st) = (r1, log1)" by fastforce
  have "r1 = Ok ()" using assms files load walk remedies by (cases r1) (simp_all add: check_discovered_def Let_def)
  note remedies = remedies [unfolded this]
  obtain r2 log2 where findings:
    "report_findings host listening (ws_sources st) (map (promote ?t) (ws_diagnostics st)) log1 = (r2, log2)" by fastforce
  have "r2 = Ok ()" using assms files load walk remedies findings by (cases r2) (simp_all add: check_discovered_def Let_def)
  note findings = findings [unfolded this]
  let ?verdict = "analyze host w lints config providers"
  define vs where "vs = visited ?r ?verdict ?files"
  from check_files_refines [OF walk pipelines_ok_initial, folded vs_def]
  have ok: "\<forall>p \<in> set vs. \<not> fatal (?verdict p)"
    and st: "without_pipelines st = fold (\<lambda>p. absorb p (?verdict p)) vs initial_walk"
    by (simp_all add: Let_def vs_def [symmetric] without_pipelines_def initial_walk_def)
  have parts: "ws_log st = map progress vs" "ws_diagnostics st = concat (map (\<lambda>p. found_in (?verdict p)) vs)"
    "ws_failures st = concat (map (\<lambda>p. failure_in p (?verdict p)) vs)"
    "ws_remedies st = record_remedies [] (concat (map (\<lambda>p. gaps_in (?verdict p)) vs))"
    using fold_absorb [OF ok, of "initial_walk :: ('g, 'l, 'r) walk_state"] unfolding st [symmetric]
    by (simp_all add: Let_def without_pipelines_def initial_walk_def)
  have sources: "distinct (path_keys (ws_sources st)) \<and> (\<forall>f. path_get (ws_sources st) f = reported_source ?verdict vs f)"
    using fold_absorb_reported [of "initial_walk :: ('g, 'l, 'r) walk_state" ?verdict vs] unfolding st [symmetric]
    by (simp add: without_pipelines_def initial_walk_def)
  from report_findings_Ok [OF findings] obtain fs where fs: "log2 = log1 @ map Artifact fs"
    "list_all2 (\<lambda>d f. Finding_new (host_emit host) (promote ?t d) (ws_sources st) = Ok f) (ws_diagnostics st) fs"
    by (auto simp: list_all2_map1)
  have log1: "log1 = ws_log st @ map (\<lambda>r. Message (''help: '' @ r)) (ws_remedies st)"
    using present_all_Ok [OF remedies [unfolded report_remedies_def]] .
  show thesis
  proof (rule that [OF load vs_def files ok parts(2-4) sources fs(2)])
    show "log = map progress vs @ map (\<lambda>r. Message (''help: '' @ r)) (ws_remedies st) @ map Artifact fs"
      using assms files load walk remedies findings parts(1) fs(1) log1 by (simp add: check_discovered_def Let_def)
  qed (use assms files load walk remedies findings in \<open>auto simp: check_discovered_def Let_def combine_def split: check_outcome.splits if_splits\<close>)
qed

lemma from_diagnostics_promoted:
  "from_diagnostics (map (promote t) ds) t = Failure \<longleftrightarrow> (\<exists>d \<in> set ds. is_met_by t (diag_severity d))"
  by (simp add: from_diagnostics_def list_ex_iff is_met_by_promote)

text \<open>
  C1: The exit code of a check. A run that reports a result fails exactly when discovery met an
  error, a file it visited could not be read or analyzed, or a diagnostic that the rules let
  through meets the threshold. Each file counts by what it is on its own, so neither the order of
  the files nor the pipelines kept from earlier ones change the exit.
\<close>

theorem check_exit:
  assumes "check_discovered host listening args w config lints disc closing = (Ok code, closing', log)"
  shows "\<exists>providers. Providers_load (host_analyzers host w) (arg_path args) (disc_files disc) = Ok providers \<and>
     (let verdict = analyze host w lints config providers;
          vs = visited (check_recovery args) verdict (disc_files disc)
      in code \<in> {SUCCESS, FAILURE} \<and>
         (code = FAILURE \<longleftrightarrow>
            disc_errors disc \<noteq> [] \<or> (\<exists>p \<in> set vs. failed (verdict p)) \<or>
            (\<exists>p \<in> set vs. \<exists>d \<in> set (found_in (verdict p)). is_met_by (check_threshold args) (diag_severity d))))"
  using assms
proof (rule check_discovered_Ok)
  fix providers vs st fs
  assume load: "Providers_load (host_analyzers host w) (arg_path args) (disc_files disc) = Ok providers"
    and vs: "vs = visited (check_recovery args) (analyze host w lints config providers) (disc_files disc)"
    and ds: "ws_diagnostics st = concat (map (\<lambda>p. found_in (analyze host w lints config providers p)) vs)"
    and failures: "ws_failures st = concat (map (\<lambda>p. failure_in p (analyze host w lints config providers p)) vs)"
    and code: "code = (if disc_errors disc \<noteq> [] \<or> ws_failures st \<noteq> [] \<or>
         from_diagnostics (map (promote (check_threshold args)) (ws_diagnostics st)) (check_threshold args) = Failure
       then FAILURE else SUCCESS)"
  have "code = FAILURE \<longleftrightarrow> disc_errors disc \<noteq> [] \<or> (\<exists>p \<in> set vs. failed (analyze host w lints config providers p)) \<or>
      (\<exists>p \<in> set vs. \<exists>d \<in> set (found_in (analyze host w lints config providers p)). is_met_by (check_threshold args) (diag_severity d))"
    unfolding code from_diagnostics_promoted failures failure_in_Nil ds by simp
  moreover have "code \<in> {SUCCESS, FAILURE}" by (simp add: code)
  ultimately show ?thesis using load unfolding Let_def by (intro exI [of _ providers]) (simp only: vs simp_thms)
qed

text \<open>
  C2: What a check presents, and what it leaves for the standard error. The presenter gets one
  progress line per visited file, then each remedy once, where the first file that needs it puts
  it, then one finding per diagnostic that the rules let through, in the order of the files and,
  within a file, of its walk, with its severity promoted. A finding is rendered and placed with the
  text that the file it names was analyzed with. The standard error gets the discovery errors and
  then one line per failed file, after whatever was there.
\<close>

theorem check_report:
  assumes "check_discovered host listening args w config lints disc closing = (Ok code, closing', log)"
  shows "\<exists>providers sources fs. Providers_load (host_analyzers host w) (arg_path args) (disc_files disc) = Ok providers \<and>
     (let verdict = analyze host w lints config providers;
          vs = visited (check_recovery args) verdict (disc_files disc);
          found = concat (map (\<lambda>p. found_in (verdict p)) vs);
          remedies = rev (remdups (rev (map (\<lambda>g. gap_help (snd g)) (concat (map (\<lambda>p. gaps_in (verdict p)) vs)))))
      in log = map progress vs @ map (\<lambda>r. Message (''help: '' @ r)) remedies @ map Artifact fs \<and>
         distinct (path_keys sources) \<and> (\<forall>f. path_get sources f = reported_source verdict vs f) \<and>
         list_all2 (\<lambda>d f. Finding_new (host_emit host) (promote (check_threshold args) d) sources = Ok f) found fs \<and>
         closing' = closing
           @ concat (map (\<lambda>e. ''error: '' @ anyhow_alternate (host_show host) (map_anyhow DiscoveryCause e) @ newline) (disc_errors disc))
           @ concat (map (\<lambda>f. failure_display (host_show host) f @ newline) (concat (map (\<lambda>p. failure_in p (verdict p)) vs))))"
  using assms
proof (rule check_discovered_Ok)
  fix providers vs st fs
  let ?verdict = "analyze host w lints config providers"
  assume load: "Providers_load (host_analyzers host w) (arg_path args) (disc_files disc) = Ok providers"
    and vs: "vs = visited (check_recovery args) ?verdict (disc_files disc)"
    and ds: "ws_diagnostics st = concat (map (\<lambda>p. found_in (?verdict p)) vs)"
    and failures: "ws_failures st = concat (map (\<lambda>p. failure_in p (?verdict p)) vs)"
    and remedies: "ws_remedies st = record_remedies [] (concat (map (\<lambda>p. gaps_in (?verdict p)) vs))"
    and sources: "distinct (path_keys (ws_sources st)) \<and> (\<forall>f. path_get (ws_sources st) f = reported_source ?verdict vs f)"
    and fs: "list_all2 (\<lambda>d f. Finding_new (host_emit host) (promote (check_threshold args) d) (ws_sources st) = Ok f)
       (ws_diagnostics st) fs"
    and log: "log = map progress vs @ map (\<lambda>r. Message (''help: '' @ r)) (ws_remedies st) @ map Artifact fs"
    and closing: "closing' = closing_extend (closing_extend closing
         (map (\<lambda>e. ''error: '' @ anyhow_alternate (host_show host) (map_anyhow DiscoveryCause e)) (disc_errors disc)))
         (map (failure_display (host_show host)) (ws_failures st))"
  have "closing' = closing
      @ concat (map (\<lambda>e. ''error: '' @ anyhow_alternate (host_show host) (map_anyhow DiscoveryCause e) @ newline) (disc_errors disc))
      @ concat (map (\<lambda>f. failure_display (host_show host) f @ newline) (concat (map (\<lambda>p. failure_in p (?verdict p)) vs)))"
    unfolding closing closing_extend_eq failures by (simp add: comp_def)
  then show ?thesis using load sources log [unfolded remedies record_remedies_first] fs [unfolded ds]
    by (intro exI [of _ providers] exI [of _ "ws_sources st"] exI [of _ fs]) (simp add: Let_def vs [symmetric])
qed

section \<open>Every finding is of a listed rule\<close>

lemma instantiate_declared:
  assumes "instantiate lints options = Ok passes" "l \<in> set passes"
  shows "\<exists>lint \<in> set lints. lint_declared l = Rules (loaded_rules lint)"
proof -
  from assms obtain i where "i < length lints" "instantiate_lint options (lints ! i) = Ok l"
    by (auto simp: instantiate_Ok in_set_conv_nth)
  then show ?thesis
    by (auto simp: instantiate_lint_def result_bind_eq_Ok Lint_new_def case_prod_unfold Let_def intro!: bexI [of _ "lints ! i"])
qed

lemma run_on_source_Ok:
  "fst (run_on_source parse pipe source p providers passes) = Ok ds \<Longrightarrow>
     \<exists>tree passes'. walk_lints tree passes = (Ok ds, passes')"
  by (auto simp: run_on_source_def Let_def case_prod_unfold split: sum.splits if_splits prod.splits)
    (metis map_err_eq_Ok prod.collapse)+

lemma found_declared:
  assumes "d \<in> set (found_in (analyze host w lints config providers p))"
  shows "admits (config_rules config) (diag_rule_id d) \<and> (\<exists>lint \<in> set lints. diag_rule_id d \<in> set (loaded_rules lint))"
proof -
  from assms obtain passes pipe source own ds where passes: "instantiate lints (config_options config) = Ok passes"
    and ds: "fst (run_on_source (host_parse host) pipe source p own passes) = Ok ds"
    and d: "d \<in> set ds" "admits (config_rules config) (diag_rule_id d)"
    by (auto simp: analyze_def split: sum.splits option.splits)
  from run_on_source_Ok [OF ds] obtain tree passes' where "walk_lints tree passes = (Ok ds, passes')" by blast
  from walk_lints_allows [OF this d(1)] obtain l where l: "l \<in> set passes" "lint_allows l d" by blast
  from instantiate_declared [OF passes l(1)] l(2) d(2) show ?thesis
    by (auto simp: lint_allows_def lint_rules_def)
qed

lemma Finding_new_rule: "Finding_new emit d sources = Ok f \<Longrightarrow> find_rule f = rule_name (diag_rule_id d)"
  by (auto simp: Finding_new_def result_bind_eq_Ok Let_def split: prod.splits)

lemma promote_rule: "diag_rule_id (promote t d) = diag_rule_id d"
  by (simp add: promote_def with_severity_def)

text \<open>
  C3: The two commands agree. Every finding a check presents is of a rule that the listing of the
  same project shows, and shows as enabled: a rule the listing marks off is never reported, and no
  rule is reported that no plugin declared.
\<close>

theorem findings_are_listed:
  fixes host :: "('w, 'm, 'g, 's, 'e, 'l, 'r) host"
  assumes run: "run_check host listening args w = (Ok code, closing, log, w1)"
    and rules: "list_rules host listening' (arg_path args) w = (Ok (), closing', listed, w2)"
    and f: "Artifact f \<in> set log"
  shows "\<exists>l. Artifact l \<in> set listed \<and> listed_rule l = find_rule f \<and> listed_enabled l"
proof -
  obtain r c w0 where load: "load_project host (arg_path args) w = (r, c, w0)" by (metis prod_cases3)
  with run obtain config lints where r: "r = Ok (config, lints)" by (cases r) (auto simp: run_check_def)
  obtain r2 log2 where out: "present_all listening' ''failed to report a rule'' []
      (map (\<lambda>d. Artifact (ListedRule_new d config)) (declared_rules_of lints))
      = (r2 :: (unit, ('l, 'r) check_error anyhow) result, log2)" by fastforce
  with rules load r have "r2 = Ok ()" "log2 = listed" by (simp_all add: list_rules_def)
  with out have listed: "listed = map (\<lambda>d. Artifact (ListedRule_new d config)) (declared_rules_of lints)"
    using present_all_Ok by fastforce
  from run load r obtain disc where
    checked: "check_discovered host listening args w0 config lints disc c = (Ok code, closing, log)"
    by (auto simp: run_check_def split: sum.splits prod.splits)
  show ?thesis
    using checked
  proof (rule check_discovered_Ok)
    fix providers vs st fs
    assume ds: "ws_diagnostics st = concat (map (\<lambda>p. found_in (analyze host w0 lints config providers p)) vs)"
      and fs: "list_all2 (\<lambda>d f. Finding_new (host_emit host) (promote (check_threshold args) d) (ws_sources st) = Ok f)
        (ws_diagnostics st) fs"
      and log: "log = map progress vs @ map (\<lambda>r. Message (''help: '' @ r)) (ws_remedies st) @ map Artifact fs"
    from f log have "f \<in> set fs" by (auto simp: progress_def)
    then obtain i where i: "i < length fs" "f = fs ! i" by (auto simp: in_set_conv_nth)
    define d where "d = ws_diagnostics st ! i"
    from fs i have d: "d \<in> set (ws_diagnostics st)"
      "Finding_new (host_emit host) (promote (check_threshold args) d) (ws_sources st) = Ok f"
      by (auto simp: list_all2_conv_all_nth d_def)
    then have name: "find_rule f = rule_name (diag_rule_id d)" by (auto dest: Finding_new_rule simp: promote_rule)
    from d(1) ds obtain p where "d \<in> set (found_in (analyze host w0 lints config providers p))" by auto
    from found_declared [OF this] have on: "admits (config_rules config) (diag_rule_id d)"
      and "diag_rule_id d \<in> dr_rule ` set (declared_rules_of lints)" by (auto simp: declared_rules_of_rules)
    then obtain k where k: "k \<in> set (declared_rules_of lints)" "dr_rule k = diag_rule_id d" by auto
    have "Artifact (ListedRule_new k config) \<in> set listed" using k(1) by (simp add: listed)
    moreover have "listed_rule (ListedRule_new k config) = find_rule f" "listed_enabled (ListedRule_new k config)"
      using k(2) on name by (simp_all add: ListedRule_new_def)
    ultimately show ?thesis by blast
  qed
qed

section \<open>Keeping going\<close>

lemma found_in_source:
  assumes "\<forall>p s. host_read host w p = Ok s \<longrightarrow> utf8_valid s"
    and "analyze host w lints config providers p = Checked source ds"
  shows "utf8_valid source"
  using assms by (auto simp: analyze_def split: sum.splits option.splits)

lemma set_path_insert: "set (path_insert p v m) \<subseteq> set m \<union> {(q, v) | q. True}"
  by (induction p v m rule: path_insert.induct) auto

lemma fold_absorb_sources:
  assumes "\<forall>p \<in> set vs. \<forall>source ds. verdict p = Checked source ds \<longrightarrow> utf8_valid source"
    and "\<forall>(q, s) \<in> set (ws_sources st). utf8_valid s"
  shows "\<forall>(q, s) \<in> set (ws_sources (fold (\<lambda>p. absorb p (verdict p)) vs st)). utf8_valid s"
  using assms
proof (induction vs arbitrary: st)
  case (Cons p vs)
  have "\<forall>(q, s) \<in> set (ws_sources (absorb p (verdict p) st)). utf8_valid s"
  proof (cases "verdict p")
    case (Checked source ds)
    with Cons.prems have "utf8_valid source" by auto
    with Checked Cons.prems(2) set_path_insert [of p source "ws_sources st"] show ?thesis by auto
  qed (use Cons.prems in auto)
  with Cons show ?case by simp
qed simp

text \<open>A finding can always be made of UTF-8 sources when it renders.\<close>

lemma Finding_new_rendered:
  assumes rendered: "render_to_string emit [d] sources = Ok t" and "\<forall>(q, s) \<in> set sources. utf8_valid s"
  shows "\<exists>f. Finding_new emit d sources = Ok f"
proof -
  let ?file = "as_path (span_file (diag_span d))"
  show ?thesis
  proof (cases "path_get sources ?file")
    case None
    with rendered show ?thesis by (simp add: Finding_new_def Let_def)
  next
    case (Some source)
    then obtain i where "i < length sources" "snd (sources ! i) = source" by (auto simp: path_get_Some)
    with assms(2) have "utf8_valid source" by (metis (no_types, lifting) case_prodE nth_mem snd_conv)
    from position_at [OF this] have "\<exists>x y. position source (span_start (diag_span d)) = Some (x, y)" by blast
    with rendered Some show ?thesis by (auto simp: Finding_new_def Let_def ok_or_def)
  qed
qed

lemma present_all_total: "present_all (\<lambda>_. True) context log es = (Ok (), log @ es)"
  by (induction es arbitrary: log) (simp_all add: present_event_def)

text \<open>
  Presenting the findings stops only at the first diagnostic that cannot be rendered, after the
  findings before it are out.
\<close>

lemma report_findings_run:
  assumes "report_findings host (\<lambda>_. True) sources ds log = (r, log')"
  shows "\<exists>fs. log' = log @ map Artifact fs \<and>
     list_all2 (\<lambda>d f. Finding_new (host_emit host) d sources = Ok f) (take (length fs) ds) fs \<and>
     (case r of
        Inr _ \<Rightarrow> length fs = length ds
      | Inl e \<Rightarrow> length fs < length ds \<and>
          (\<exists>e'. Finding_new (host_emit host) (ds ! length fs) sources = Err e' \<and> e = map_anyhow FindingCause e'))"
  using assms
proof (induction ds arbitrary: log)
  case (Cons d ds)
  show ?case
  proof (cases "Finding_new (host_emit host) d sources")
    case (Inl e)
    with Cons.prems show ?thesis by (intro exI [of _ "[]"]) auto
  next
    case (Inr f)
    with Cons.prems have "report_findings host (\<lambda>_. True) sources ds (log @ [Artifact f]) = (r, log')"
      by (simp add: present_event_def)
    from Cons.IH [OF this] obtain fs where "log' = (log @ [Artifact f]) @ map Artifact fs"
      "list_all2 (\<lambda>d f. Finding_new (host_emit host) d sources = Ok f) (take (length fs) ds) fs"
      "case r of Inr _ \<Rightarrow> length fs = length ds
       | Inl e \<Rightarrow> length fs < length ds \<and>
           (\<exists>e'. Finding_new (host_emit host) (ds ! length fs) sources = Err e' \<and> e = map_anyhow FindingCause e')"
      by blast
    with Inr show ?thesis by (intro exI [of _ "f # fs"]) (auto split: sum.splits)
  qed
qed auto

text \<open>Over UTF-8 sources, only the renderer can keep a finding from being made.\<close>

lemma Finding_new_Err:
  assumes "Finding_new emit d sources = Err e" "\<forall>(q, s) \<in> set sources. utf8_valid s"
  shows "\<exists>re. render_to_string emit [d] sources = Err re \<and>
     e = Context ''failed to render the diagnostic'' (Cause (RenderFailed re))"
proof (cases "render_to_string emit [d] sources")
  case (Inl re)
  with assms(1) show ?thesis by (simp add: Finding_new_def)
next
  case (Inr t)
  with Finding_new_rendered [OF this assms(2)] assms(1) show ?thesis by simp
qed

lemma keep_going_run:
  fixes host :: "('w, 'm, 'g, 's, 'e, 'l, 'r) host"
  assumes flag: "arg_keep_going args" and files: "disc_files disc \<noteq> []"
    and load: "Providers_load (host_analyzers host w) (arg_path args) (disc_files disc) = Ok providers"
    and passes: "instantiate lints (config_options config) = Ok passes"
    and grammars: "\<forall>g. host_set_language host g = Ok ()"
    and reads: "\<forall>p s. host_read host w p = Ok s \<longrightarrow> utf8_valid s"
  shows "let verdict = analyze host w lints config providers;
          found = map (promote (check_threshold args)) (concat (map (\<lambda>p. found_in (verdict p)) (disc_files disc)));
          remedies = rev (remdups (rev (map (\<lambda>g. gap_help (snd g)) (concat (map (\<lambda>p. gaps_in (verdict p)) (disc_files disc))))))
      in \<exists>r sources fs.
         check_discovered host (\<lambda>_. True) args w config lints disc closing =
           (r, closing
             @ concat (map (\<lambda>e. ''error: '' @ anyhow_alternate (host_show host) (map_anyhow DiscoveryCause e) @ newline) (disc_errors disc))
             @ concat (map (\<lambda>f. failure_display (host_show host) f @ newline) (concat (map (\<lambda>p. failure_in p (verdict p)) (disc_files disc)))),
            map progress (disc_files disc) @ map (\<lambda>r. Message (''help: '' @ r)) remedies @ map Artifact fs) \<and>
         (\<forall>f. path_get sources f = reported_source verdict (disc_files disc) f) \<and>
         list_all2 (\<lambda>d f. Finding_new (host_emit host) d sources = Ok f) (take (length fs) found) fs \<and>
         (case r of
            Inr code \<Rightarrow> length fs = length found
          | Inl e \<Rightarrow> length fs < length found \<and>
              (\<exists>re. render_to_string (host_emit host) [found ! length fs] sources = Err re \<and>
                 e = Context ''failed to render the diagnostic'' (Cause (FindingCause (RenderFailed re)))))"
proof -
  let ?verdict = "analyze host w lints config providers" and ?files = "disc_files disc" and ?t = "check_threshold args"
  have recovery: "check_recovery args = Continue" using flag by (simp add: check_recovery_def)
  have "grammar_pipeline (host_set_language host) (host_grammars host) g = Ok \<lparr>pipe_language = grammar_language g,
      pipe_parser = host_grammars host g\<rparr>" for g
    using grammars by (simp add: grammar_pipeline_def Pipeline_new_def)
  then have "\<not> fatal (?verdict p)" for p
    using passes by (simp add: analyze_def split: sum.splits option.splits)
  then have fine: "\<forall>p \<in> set ?files. \<not> fatal (?verdict p)" by simp
  from check_files_total [OF this pipelines_ok_initial, of Continue] obtain st
    where walk: "check_files host (\<lambda>_. True) w lints config providers Continue ?files initial_walk = (Ok (), st)" by blast
  from check_files_refines [OF this pipelines_ok_initial]
  have st: "without_pipelines st = fold (\<lambda>p. absorb p (?verdict p)) ?files (initial_walk :: ('g, 'l, 'r) walk_state)"
    by (simp add: Let_def without_pipelines_def initial_walk_def)
  have valid: "\<forall>(q, s) \<in> set (ws_sources (without_pipelines st)). utf8_valid s"
    unfolding st by (rule fold_absorb_sources) (auto dest: found_in_source [OF reads] simp: initial_walk_def)
  have sources: "\<forall>f. path_get (ws_sources st) f = reported_source ?verdict ?files f"
    using fold_absorb_reported [of "initial_walk :: ('g, 'l, 'r) walk_state" ?verdict ?files] unfolding st [symmetric]
    by (simp add: without_pipelines_def initial_walk_def)
  have parts: "ws_log st = map progress ?files" "ws_diagnostics st = concat (map (\<lambda>p. found_in (?verdict p)) ?files)"
    "ws_failures st = concat (map (\<lambda>p. failure_in p (?verdict p)) ?files)"
    "ws_remedies st = record_remedies [] (concat (map (\<lambda>p. gaps_in (?verdict p)) ?files))"
    using fold_absorb [OF fine, of "initial_walk :: ('g, 'l, 'r) walk_state"] unfolding st [symmetric]
    by (simp_all add: Let_def without_pipelines_def initial_walk_def)
  obtain r :: "(unit, ('l, 'r) check_error anyhow) result" and log2 where findings:
    "report_findings host (\<lambda>_. True) (ws_sources st) (map (promote ?t) (ws_diagnostics st))
       (ws_log st @ map (\<lambda>r. Message (''help: '' @ r)) (ws_remedies st)) = (r, log2)" by fastforce
  note out = report_findings_run [OF findings]
  show ?thesis
  proof (cases r)
    case (Inr u)
    then have "check_discovered host (\<lambda>_. True) args w config lints disc closing =
        (Ok (case combine (if ws_failures st = [] then if disc_errors disc = [] then Success else Failure else Failure)
             (from_diagnostics (map (promote ?t) (ws_diagnostics st)) ?t) of Failure \<Rightarrow> FAILURE | Success \<Rightarrow> SUCCESS),
         closing_extend (closing_extend closing
           (map (\<lambda>e. ''error: '' @ anyhow_alternate (host_show host) (map_anyhow DiscoveryCause e)) (disc_errors disc)))
           (map (failure_display (host_show host)) (ws_failures st)), log2)"
      using files load walk findings by (simp add: check_discovered_def Let_def recovery report_remedies_def present_all_total)
    with out Inr show ?thesis using sources
      unfolding Let_def parts record_remedies_first closing_extend_eq by (auto simp: comp_def)
  next
    case (Inl e)
    then have run: "check_discovered host (\<lambda>_. True) args w config lints disc closing =
        (Err e, closing_extend (closing_extend closing
           (map (\<lambda>e. ''error: '' @ anyhow_alternate (host_show host) (map_anyhow DiscoveryCause e)) (disc_errors disc)))
           (map (failure_display (host_show host)) (ws_failures st)), log2)"
      using files load walk findings by (simp add: check_discovered_def Let_def recovery report_remedies_def present_all_total)
    from out Inl obtain fs e' where fs: "log2 = (ws_log st @ map (\<lambda>r. Message (''help: '' @ r)) (ws_remedies st)) @ map Artifact fs"
        "list_all2 (\<lambda>d f. Finding_new (host_emit host) d (ws_sources st) = Ok f)
           (take (length fs) (map (promote ?t) (ws_diagnostics st))) fs"
        "length fs < length (map (promote ?t) (ws_diagnostics st))"
      and e': "Finding_new (host_emit host) (map (promote ?t) (ws_diagnostics st) ! length fs) (ws_sources st) = Err e'"
        "e = map_anyhow FindingCause e'" by auto
    from Finding_new_Err [OF e'(1)] valid e'(2) obtain re where
      "render_to_string (host_emit host) [map (promote ?t) (ws_diagnostics st) ! length fs] (ws_sources st) = Err re"
      "e = Context ''failed to render the diagnostic'' (Cause (FindingCause (RenderFailed re)))"
      by (auto simp: without_pipelines_def)
    with fs run sources show ?thesis
      unfolding Let_def parts record_remedies_first closing_extend_eq
      by (intro exI [of _ "Err e"] exI [of _ "ws_sources st"] exI [of _ fs]) (auto simp: comp_def)
  qed
qed

text \<open>
  C4: With \<open>--keep-going\<close> one bad file never hides the others. When the projects load, the lints
  configure, tree-sitter accepts its grammars, reading a file gives UTF-8 or an error and the
  presenter listens, every discovered file is visited, in order, whatever any single file does; the
  standard error gets the line of every discovery error and of every file that failed; and every
  remedy and the findings are presented, in order. The run reaches its exit code with all of the
  findings out, unless a diagnostic cannot be rendered: then, and only then, it ends with that
  error, and with the findings before it out.
\<close>

theorem check_keep_going:
  fixes host :: "('w, 'm, 'g, 's, 'e, 'l, 'r) host"
  assumes flag: "arg_keep_going args" and files: "disc_files disc \<noteq> []"
    and load: "Providers_load (host_analyzers host w) (arg_path args) (disc_files disc) = Ok providers"
    and passes: "instantiate lints (config_options config) = Ok passes"
    and grammars: "\<forall>g. host_set_language host g = Ok ()"
    and reads: "\<forall>p s. host_read host w p = Ok s \<longrightarrow> utf8_valid s"
  shows "let verdict = analyze host w lints config providers;
          found = map (promote (check_threshold args)) (concat (map (\<lambda>p. found_in (verdict p)) (disc_files disc)));
          remedies = rev (remdups (rev (map (\<lambda>g. gap_help (snd g)) (concat (map (\<lambda>p. gaps_in (verdict p)) (disc_files disc))))))
      in \<exists>r sources fs.
         check_discovered host (\<lambda>_. True) args w config lints disc closing =
           (r, closing
             @ concat (map (\<lambda>e. ''error: '' @ anyhow_alternate (host_show host) (map_anyhow DiscoveryCause e) @ newline) (disc_errors disc))
             @ concat (map (\<lambda>f. failure_display (host_show host) f @ newline) (concat (map (\<lambda>p. failure_in p (verdict p)) (disc_files disc)))),
            map progress (disc_files disc) @ map (\<lambda>r. Message (''help: '' @ r)) remedies @ map Artifact fs) \<and>
         (\<forall>f. path_get sources f = reported_source verdict (disc_files disc) f) \<and>
         list_all2 (\<lambda>d f. Finding_new (host_emit host) d sources = Ok f) (take (length fs) found) fs \<and>
         (case r of
            Inr code \<Rightarrow> length fs = length found
          | Inl e \<Rightarrow> length fs < length found \<and>
              (\<exists>re. render_to_string (host_emit host) [found ! length fs] sources = Err re \<and>
                 e = Context ''failed to render the diagnostic'' (Cause (FindingCause (RenderFailed re)))))"
  using assms by (rule keep_going_run)

section \<open>A project to check\<close>

text \<open>One plugin that warns about every \<open>fn\<close>, one file it can read and one it cannot.\<close>

definition warn_pass :: "(rule_options, unit) lint_pass" where
  "warn_pass = recording_pass\<lparr>pass_check_node := (\<lambda>s n. (Ok [sample_diag n], s))\<rparr>"

definition warn_lint :: "(rule_options, unit) loaded_lint" where
  "warn_lint = \<lparr>loaded_factory = Ok warn_pass, loaded_language = Rust, loaded_rules = [RuleId ''r''],
     loaded_library = ''/t/l.so''\<rparr>"

definition warn_host :: "(fs, unit, unit, rule_options, unit, unit, unit) host" where
  "warn_host =
     \<lparr>host_machine = path_machine, host_opener = (\<lambda>_. Ok \<lparr>decl_identity = sample_identity 1 2,
        decl_load = Ok [\<lparr>exported_factory = Ok warn_pass, exported_language = Rust, exported_rules = [RuleId ''r'']\<rparr>]\<rparr>),
      host_identity = sample_identity 1 3, host_target = ''t'', host_exists = (\<lambda>_ _. True),
      host_project = (\<lambda>_ _. Ok (''/w'', ''c'', Some \<lparr>table_ignore = [],
        table_lints = [\<lparr>entry_path = Some ''l'', entry_git = None, entry_rev = None\<rparr>],
        table_rules = \<lparr>table_enable = [], table_disable = [], table_options = []\<rparr>, table_stiles_source = None\<rparr>)),
      host_gix_parse = (\<lambda>_. None), host_ignore = (\<lambda>_. sample_ignore\<lparr>ig_is_file := (\<lambda>_. True)\<rparr>),
      host_analyzers = (\<lambda>_. sample_analyzers\<lparr>an_load_rust := (\<lambda>_. Ok \<lparr>prov_name = ProviderName ''rust'',
        prov_decorate = (\<lambda>_. Ok (Covered map_new))\<rparr>)\<rparr>),
      host_read = (\<lambda>_ p. if p = ''a.rs'' then Ok ''fn'' else Err ''gone''),
      host_grammars = (\<lambda>_. ()), host_set_language = (\<lambda>_. Ok ()),
      host_parse = (\<lambda>_ _. Some (TsNode 1 ''fn'' 0 2 True None [])),
      host_emit = (\<lambda>_ _. Ok []), host_show = (\<lambda>_. []), host_exit = (\<lambda>_. \<lparr>exit_code = 1, exit_text = None\<rparr>)\<rparr>"

definition warn_args :: check_args where
  "warn_args = \<lparr>arg_path = ''a.rs'', arg_keep_going = True, arg_deny_warnings = True\<rparr>"

definition warn_files :: discovery where
  "warn_files = \<lparr>disc_files = [''b.rs'', ''a.rs''], disc_errors = []\<rparr>"

lemma warn_grammars: "Grammar_of ''a.rs'' = Some RustGrammar" "Grammar_of ''b.rs'' = Some RustGrammar"
  by (simp_all add: Grammar_of_def extension_def file_name_def path_components_def rsplit_dot_def to_str_def
      utf8_valid.simps utf8_next.simps)

definition warn_providers :: "unit providers" where
  "warn_providers = \<lparr>prov_rust = Some \<lparr>prov_name = ProviderName ''rust'', prov_decorate = (\<lambda>_. Ok (Covered map_new))\<rparr>,
     prov_typescript = []\<rparr>"

lemma warn_load:
  "Providers_load (host_analyzers warn_host w) p [''b.rs'', ''a.rs''] = Ok warn_providers"
  "Providers_load (host_analyzers warn_host w) p [''a.rs''] = Ok warn_providers"
  by (simp_all add: Providers_load_def Providers_loads_def warn_grammars warn_host_def sample_analyzers_def warn_providers_def)

lemma warn_instantiate:
  "instantiate [warn_lint] (config_options path_config) = Ok [Lint_new warn_pass [RuleId ''r'']]"
  by (simp add: instantiate_def instantiate_lint_def warn_lint_def warn_pass_def recording_pass_def options_for_rules_def
      path_config_def Let_def)

lemma warn_outside:
  "\<forall>g. host_set_language warn_host g = Ok ()" "\<forall>p s. host_read warn_host w p = Ok s \<longrightarrow> utf8_valid s"
  by (simp_all add: warn_host_def utf8_valid.simps utf8_next.simps)

lemma warn_renders: "render_to_string (host_emit warn_host) [d] sources = Ok []"
  by (simp add: render_to_string_def warn_host_def utf8_valid.simps)

definition warn_tree :: "unit decorated_tree" where
  "warn_tree = dt_merge_decorations map_new (DecoratedTree_new (TsNode 1 ''fn'' 0 2 True None []) Rust ''fn'' ''a.rs'')"

lemma warn_walk: "\<exists>d. fst (walk_lints warn_tree [Lint_new warn_pass [RuleId ''r'']]) = Ok [d] \<and> diag_severity d = Warn"
proof -
  have small: "ts_small (dn_node (dt_root_node warn_tree))"
    by (simp add: warn_tree_def DecoratedTree_new_def dt_merge_decorations_def dt_root_node_def)
  show ?thesis
    unfolding walk_lints_def Let_def visit_run named_nodes_preorder [OF small]
    by (simp add: lint_language_def Lint_new_def warn_pass_def recording_pass_def warn_tree_def dt_root_node_def
        dt_merge_decorations_def DecoratedTree_new_def ts_preorder.simps ts_named_children_def lint_check_node_def
        sample_diag_def Diagnostic_new_def)
qed

lemma warn_analyze:
  "analyze warn_host w [warn_lint] path_config warn_providers ''b.rs'' = Fails (Cause (ReadCause ''gone'')) []"
  "\<exists>d. analyze warn_host w [warn_lint] path_config warn_providers ''a.rs'' = Checked ''fn'' [d] \<and> diag_severity d = Warn"
proof -
  show "analyze warn_host w [warn_lint] path_config warn_providers ''b.rs'' = Fails (Cause (ReadCause ''gone'')) []"
    by (simp add: analyze_def warn_host_def)
  obtain d ls where "walk_lints warn_tree [Lint_new warn_pass [RuleId ''r'']] = (Ok [d], ls)" "diag_severity d = Warn"
    using warn_walk by (metis prod.collapse)
  then show "\<exists>d. analyze warn_host w [warn_lint] path_config warn_providers ''a.rs'' = Checked ''fn'' [d] \<and> diag_severity d = Warn"
    unfolding analyze_def warn_grammars warn_instantiate
    by (simp add: warn_host_def grammar_pipeline_def Pipeline_new_def for_file_def warn_providers_def run_on_source_def
        warn_tree_def path_config_def)
qed

lemma warn_run:
  assumes "disc_files disc = [''b.rs'', ''a.rs''] \<or> disc_files disc = [''a.rs'']"
  shows "\<exists>code closing' log. check_discovered warn_host (\<lambda>_. True) warn_args w path_config [warn_lint] disc closing =
     (Ok code, closing', log)"
proof -
  have load: "Providers_load (host_analyzers warn_host w) (arg_path warn_args) (disc_files disc) = Ok warn_providers"
    using assms warn_load by auto
  have "arg_keep_going warn_args" "disc_files disc \<noteq> []" using assms by (auto simp: warn_args_def)
  from keep_going_run [OF this load warn_instantiate warn_outside, where closing = closing]
  have "is_ok (fst (check_discovered warn_host (\<lambda>_. True) warn_args w path_config [warn_lint] disc closing))"
    unfolding Let_def warn_renders by (elim exE conjE) (simp split: sum.splits)
  then show ?thesis
    by (cases "check_discovered warn_host (\<lambda>_. True) warn_args w path_config [warn_lint] disc closing"; cases "fst
      (check_discovered warn_host (\<lambda>_. True) warn_args w path_config [warn_lint] disc closing)") auto
qed

text \<open>Witnesses on this project.\<close>

theorem check_keep_going_witness:
  "\<exists>code line f. check_discovered warn_host (\<lambda>_. True) warn_args [] path_config [warn_lint] warn_files [] =
     (Ok code, line @ newline, map progress [''b.rs'', ''a.rs''] @ [Artifact f])"
proof -
  have load: "Providers_load (host_analyzers warn_host []) (arg_path warn_args) (disc_files warn_files) = Ok warn_providers"
    using warn_load by (simp add: warn_files_def)
  have "arg_keep_going warn_args" "disc_files warn_files \<noteq> []" by (simp_all add: warn_args_def warn_files_def)
  note run = check_keep_going [OF this load warn_instantiate warn_outside, of "[]"]
  obtain code closing' log where
    ok: "check_discovered warn_host (\<lambda>_. True) warn_args [] path_config [warn_lint] warn_files [] = (Ok code, closing', log)"
    using warn_run [of warn_files "[]" "[]"] by (auto simp: warn_files_def)
  from warn_analyze(2) obtain d where
    d: "analyze warn_host [] [warn_lint] path_config warn_providers ''a.rs'' = Checked ''fn'' [d]" by blast
  have files: "disc_files warn_files = [''b.rs'', ''a.rs'']" "disc_errors warn_files = []" by (simp_all add: warn_files_def)
  have "\<exists>line f. closing' = line @ newline \<and> log = map progress [''b.rs'', ''a.rs''] @ [Artifact f]"
    using run unfolding Let_def ok files
    by (elim exE conjE) (auto simp: warn_analyze(1) d length_Suc_conv)
  with ok show ?thesis by auto
qed

theorem check_exit_witness:
  "\<exists>closing' log. check_discovered warn_host (\<lambda>_. True) warn_args [] path_config [warn_lint] warn_files [] = (Ok FAILURE, closing', log)"
proof -
  obtain code closing' log where
    run: "check_discovered warn_host (\<lambda>_. True) warn_args [] path_config [warn_lint] warn_files [] = (Ok code, closing', log)"
    using warn_run [of warn_files "[]" "[]"] by (auto simp: warn_files_def)
  from check_exit [OF this] have "code = FAILURE"
    using warn_load warn_analyze(1) by (auto simp: warn_args_def warn_files_def check_recovery_def Let_def)
  with run show ?thesis by auto
qed

theorem check_report_witness:
  "\<exists>code closing' f. check_discovered warn_host (\<lambda>_. True) warn_args [] path_config [warn_lint] warn_files [] =
     (Ok code, closing', map progress [''b.rs'', ''a.rs''] @ [Artifact f])"
proof -
  obtain code closing' log where
    run: "check_discovered warn_host (\<lambda>_. True) warn_args [] path_config [warn_lint] warn_files [] = (Ok code, closing', log)"
    using warn_run [of warn_files "[]" "[]"] by (auto simp: warn_files_def)
  from warn_analyze(2) obtain d where
    d: "analyze warn_host [] [warn_lint] path_config warn_providers ''a.rs'' = Checked ''fn'' [d]" by blast
  from check_report [OF run] warn_analyze(1) d warn_load obtain f where
    "log = [progress ''b.rs'', progress ''a.rs'', Artifact f]"
    by (auto simp: warn_args_def warn_files_def check_recovery_def Let_def list_all2_Cons1)
  with run show ?thesis by auto
qed

lemma warn_project: "load_project warn_host p path_fs = (Ok (path_config, [warn_lint]), [], path_fs)"
proof -
  have config: "config_load (host_gix_parse warn_host) (host_project warn_host path_fs p) = Ok path_config"
    by (simp add: config_load_def warn_host_def RuleFilter_new_def to_source_def read_options_def path_config_def enumerate_eq_zip)
  have "load_library (host_opener warn_host) ''/t/l.so'' (sample_identity 1 3) = Ok [warn_lint]"
    by (simp add: load_library_Ok warn_host_def sample_identity_def validate_handshake_def abi_accepts_iff warn_lint_def)
  then have "CustomLints_load path_machine (host_opener warn_host) (sample_identity 1 3) ''t'' path_config path_fs
      = (Ok [warn_lint], [], path_fs)"
    by (simp add: CustomLints_load_def path_sources load_resolved_def load_sources_def path_build load_libraries_def
        config_stiles_source_path)
  moreover have "host_exists warn_host path_fs p" "host_machine warn_host = path_machine"
    "host_identity warn_host = sample_identity 1 3" "host_target warn_host = ''t''"
    by (simp_all add: warn_host_def)
  ultimately show ?thesis using config by (simp add: load_project_def closing_extend_def)
qed

lemma warn_discover:
  "discover (host_ignore warn_host w) ''a.rs'' path_config ReportAndContinue = Ok \<lparr>disc_files = [''a.rs''], disc_errors = []\<rparr>"
proof -
  have "is_ok (discover_file ''a.rs'')"
    by (simp add: discover_file_def extension_def file_name_def path_components_def rsplit_dot_def from_extension_def
        utf8_lossy.simps utf8_next.simps)
  then have "discover_file ''a.rs'' = Ok \<lparr>disc_files = [''a.rs''], disc_errors = []\<rparr>"
    by (auto simp: discover_file_def split: option.splits)
  then show ?thesis
    by (simp add: discover_def warn_host_def sample_ignore_def build_excludes_def path_config_def)
qed

theorem findings_are_listed_witness:
  "\<exists>code closing log w1 f. run_check warn_host (\<lambda>_. True) warn_args path_fs = (Ok code, closing, log, w1) \<and>
     Artifact f \<in> set log \<and>
     (\<exists>l. Artifact l \<in> set (fst (snd (snd (list_rules warn_host (\<lambda>_. True) ''a.rs'' path_fs)))) \<and> listed_rule l = find_rule f)"
proof -
  let ?disc = "\<lparr>disc_files = [''a.rs''], disc_errors = []\<rparr>"
  have path: "arg_path warn_args = ''a.rs''" "arg_keep_going warn_args" by (simp_all add: warn_args_def)
  have validate: "validate_rules path_config [warn_lint] = Ok ()"
    by (simp add: validate_rules_def validate_filter_def validate_options_def path_config_def btree_set_def)
  obtain code closing log where checked:
    "check_discovered warn_host (\<lambda>_. True) warn_args path_fs path_config [warn_lint] ?disc [] = (Ok code, closing, log)"
    using warn_run [of ?disc path_fs "[]"] by auto
  then have run: "run_check warn_host (\<lambda>_. True) warn_args path_fs = (Ok code, closing, log, path_fs)"
    by (simp add: run_check_def path warn_project validate warn_discover)
  from warn_analyze(2) obtain d where
    d: "analyze warn_host path_fs [warn_lint] path_config warn_providers ''a.rs'' = Checked ''fn'' [d]" by blast
  obtain f where f: "Artifact f \<in> set log"
    using checked
  proof (rule check_discovered_Ok)
    fix providers vs st fs
    assume "Providers_load (host_analyzers warn_host path_fs) (arg_path warn_args) (disc_files ?disc) = Ok providers"
      "vs = visited (check_recovery warn_args) (analyze warn_host path_fs [warn_lint] path_config providers) (disc_files ?disc)"
      "ws_diagnostics st = concat (map (\<lambda>p. found_in (analyze warn_host path_fs [warn_lint] path_config providers p)) vs)"
      and fs: "list_all2 (\<lambda>d f. Finding_new (host_emit warn_host) (promote (check_threshold warn_args) d) (ws_sources st) = Ok f)
        (ws_diagnostics st) fs"
      and log: "log = map progress vs @ map (\<lambda>r. Message (''help: '' @ r)) (ws_remedies st) @ map Artifact fs"
    then have "ws_diagnostics st = [d]" using warn_load d path by (simp add: check_recovery_def)
    with fs obtain f where "fs = [f]" by (auto simp: list_all2_Cons1)
    with log show thesis by (intro that [of f]) simp
  qed
  obtain listed where "list_rules warn_host (\<lambda>_. True) ''a.rs'' path_fs = (Ok (), [], listed, path_fs)"
    by (simp add: list_rules_def warn_project present_all_total)
  with findings_are_listed [OF run, of "\<lambda>_. True"] path f run show ?thesis by fastforce
qed

end
