(* ===== verification/Targets.thy ===== *)
theory Targets
  imports Projects
begin

text \<open>
  What the two providers share: the absolute path of a checked file, offsets that fit 32 bits, the
  nodes that a search for targets visits, and how the entries a provider inserts are read back.
\<close>

section \<open>Paths and offsets\<close>

text \<open>\<open>std::path::absolute\<close> with its error, which is the current directory's unless the path is empty.\<close>

definition absolute_path :: "(path, io_error) result \<Rightarrow> path \<Rightarrow> (path, io_error) result" where
  "absolute_path cwd p =
     (if p = [] then Err ''cannot make an empty path absolute''
      else case path_absolute (case cwd of Inl _ \<Rightarrow> None | Inr d \<Rightarrow> Some d) p of
        Some a \<Rightarrow> Ok a
      | None \<Rightarrow> (case cwd of Inl e \<Rightarrow> Err e | Inr _ \<Rightarrow> Err []))"

text \<open>\<open>u32::try_from\<close>.\<close>

definition u32_try_from :: "nat \<Rightarrow> nat option" where
  "u32_try_from n = (if n < 2 ^ 32 then Some n else None)"

section \<open>The nodes a search visits\<close>

text \<open>The node and, below it, the named children, in document order.\<close>

function visited_nodes :: "'e decorated_node \<Rightarrow> 'e decorated_node list" where
  "visited_nodes node = node # concat (map visited_nodes (dn_named_children node))"
  by pat_completeness auto
termination
  by (relation "measure (\<lambda>n. size (dn_node n))") (auto dest: dn_named_child_size)

declare visited_nodes.simps [simp del]

section \<open>Reading what was inserted\<close>

abbreviation on_node :: "nat \<Rightarrow> decoration_key \<Rightarrow> 'e entry \<Rightarrow> bool" where
  "on_node k key \<equiv> \<lambda>e. entry_node_id e = k \<and> entry_key e = key"

lemma concat_map_unique:
  assumes "distinct (map f xs)" "x \<in> set xs" "\<And>y. y \<in> set xs \<Longrightarrow> f y \<noteq> f x \<Longrightarrow> g y = []"
  shows "concat (map g xs) = g x"
  using assms
proof (induction xs)
  case (Cons y ys)
  show ?case
  proof (cases "y = x")
    case True
    with Cons.prems have "\<forall>z \<in> set ys. g z = []" by (metis distinct.simps(2) image_eqI list.set_intros(2) list.simps(9) set_map)
    with True show ?thesis by simp
  next
    case False
    with Cons.prems have "x \<in> set ys" "f y \<noteq> f x" by (auto simp: image_iff)
    with Cons.prems Cons.IH show ?thesis by simp
  qed
qed simp

lemma concat_map_filter: "concat (map g (List.map_filter f xs)) = concat (map (\<lambda>x. case f x of None \<Rightarrow> [] | Some y \<Rightarrow> g y) xs)"
  by (induction xs) (simp_all add: map_filter_Cons List.map_filter_def split: option.splits)

lemma find_hd_filter: "find P xs = (case filter P xs of [] \<Rightarrow> None | x # _ \<Rightarrow> Some x)"
  by (induction xs) auto

lemma map_get_entries:
  assumes "map_invar m"
  shows "fst (map_get D k m) =
    (case filter (\<lambda>e. entry_node_id e = k \<and> entry_key e = deco_key D) (map_entries m) of [] \<Rightarrow> None | e # _ \<Rightarrow> entry_read D e)"
  by (simp add: map_get_fst map_on_entries [OF assms] entries_on_def find_hd_filter conj_commute split: list.splits)

section \<open>What a toolchain promises\<close>

text \<open>
  The contract of a provider backed by a toolchain: it covers a file only when the text it holds for
  the file is the text that was parsed. It may fail to answer, which is \<open>None\<close>.
\<close>

locale decoration_source =
  fixes decorate :: "'e decorated_tree \<Rightarrow> ('e coverage, decorate_tree_error) result option"
    and held_text :: "'e decorated_tree \<Rightarrow> string option"
  assumes covered_text: "decorate tree = Some (Ok (Covered m)) \<Longrightarrow> held_text tree = Some (dt_source tree)"
    and covered_invar: "decorate tree = Some (Ok (Covered m)) \<Longrightarrow> map_invar m"
begin

text \<open>A file that is linted with such a provider alone is analyzed in the text that is linted.\<close>

lemma linted_is_fresh:
  assumes answers: "\<And>t. decorate (DecoratedTree_new t (pipe_language pipe) source p) =
      Some (prov_decorate provider (DecoratedTree_new t (pipe_language pipe) source p))"
    and linted: "run_on_source parse pipe source p [provider] lints = (Ok found, lints')"
  shows "\<exists>t m. parse (pipe_parser pipe) source = Some t \<and> map_invar m \<and>
     held_text (DecoratedTree_new t (pipe_language pipe) source p) = Some source \<and>
     prov_decorate provider (DecoratedTree_new t (pipe_language pipe) source p) = Ok (Covered m)"
proof -
  from linted obtain t where t: "parse (pipe_parser pipe) source = Some t"
    by (auto simp: run_on_source_def ok_or_def split: option.splits)
  let ?tree = "DecoratedTree_new t (pipe_language pipe) source p"
  from linted t obtain m where m: "prov_decorate provider ?tree = Ok (Covered m)"
    by (cases "prov_decorate provider ?tree")
      (auto simp: run_on_source_def ok_or_def Let_def split: coverage.splits sum.splits)
  with answers have "decorate ?tree = Some (Ok (Covered m))" by simp
  from covered_text [OF this] covered_invar [OF this] t m show ?thesis by (auto simp: DecoratedTree_new_def)
qed

text \<open>A file whose text the toolchain does not hold is refused, and no lint sees it.\<close>

lemma stale_is_refused:
  assumes answers: "\<And>t. decorate (DecoratedTree_new t (pipe_language pipe) source p) =
      Some (prov_decorate provider (DecoratedTree_new t (pipe_language pipe) source p))"
    and stale: "\<And>t. held_text (DecoratedTree_new t (pipe_language pipe) source p) \<noteq> Some source"
  shows "\<exists>e. run_on_source parse pipe source p [provider] lints = (Err e, lints)"
proof (cases "parse (pipe_parser pipe) source")
  case (Some t)
  let ?tree = "DecoratedTree_new t (pipe_language pipe) source p"
  have "prov_decorate provider ?tree \<noteq> Ok (Covered m)" for m
    using covered_text [of ?tree m] answers [of t] stale [of t] by (auto simp: DecoratedTree_new_def)
  with Some show ?thesis
    by (cases "prov_decorate provider ?tree")
      (auto simp: run_on_source_def ok_or_def Let_def split: coverage.splits)
qed (simp add: run_on_source_def ok_or_def)

end

end
