(* ===== verification/TsPathScan.thy ===== *)
theory TsPathScan
  imports Text
begin

text \<open>
  Relative segments of a path in the TypeScript checker: \<open>has_relative_path_segment\<close> of
  \<open>crates/stiles-tsrs/tsrs_core/src/tspath/path.rs\<close>, which reads eight bytes at a time as one word. The
  indices at which the code reads are inside the path; \<open>ts_nth\<close> is \<open>slice::get\<close>.
\<close>

unbundle bit_operations_syntax

section \<open>The scan\<close>

definition ts_nth :: "string \<Rightarrow> nat \<Rightarrow> char option" where
  "ts_nth s i = (if i < length s then Some (s ! i) else None)"

fun from_le_bytes :: "string \<Rightarrow> 64 word" where
  "from_le_bytes [] = 0"
| "from_le_bytes (c # cs) = of_char c OR push_bit 8 (from_le_bytes cs)"

definition swar_ones :: "64 word" where "swar_ones = 0x0101010101010101"

definition swar_highs :: "64 word" where "swar_highs = 0x8080808080808080"

definition zero_bytes :: "64 word \<Rightarrow> 64 word" where
  "zero_bytes x = (x - swar_ones) AND NOT x AND swar_highs"

definition trailing_zeros :: "64 word \<Rightarrow> nat" where
  "trailing_zeros w = length (takeWhile (\<lambda>k. \<not> bit w k) [0..<64])"

definition dot_segment_at :: "string \<Rightarrow> nat \<Rightarrow> bool" where
  "dot_segment_at p start =
     (case ts_nth p (start + 1) of
        None \<Rightarrow> True
      | Some c \<Rightarrow>
          if c = CHR ''/'' then True
          else if c = CHR ''.'' then (case ts_nth p (start + 2) of None \<Rightarrow> True | Some d \<Rightarrow> d = CHR ''/'')
          else False)"

definition relative_segment_after :: "string \<Rightarrow> nat \<Rightarrow> bool" where
  "relative_segment_after p slash \<longleftrightarrow>
     p ! slash = CHR ''/'' \<and>
     (case ts_nth p (slash + 1) of None \<Rightarrow> False | Some c \<Rightarrow> c = CHR ''/'' \<or> c = CHR ''.'' \<and> dot_segment_at p (slash + 1))"

lemma takeWhile_stops:
  assumes "y \<in> set ys" "\<not> Q y"
  shows "length (takeWhile Q ys) < length ys"
proof (rule ccontr)
  assume "\<not> ?thesis"
  then have "takeWhile Q ys = ys" using length_takeWhile_le [of Q ys] by (metis le_neq_implies_less takeWhile_eq_take take_all)
  with assms show False by (auto dest: set_takeWhileD simp: takeWhile_eq_all_conv)
qed

lemma trailing_zeros_bit:
  assumes "w \<noteq> 0"
  shows "trailing_zeros w < 64" "bit w (trailing_zeros w)" "k < trailing_zeros w \<Longrightarrow> \<not> bit w k"
proof -
  let ?P = "\<lambda>k. \<not> bit w k" and ?xs = "[0..<64]"
  from assms obtain j where j: "bit w j" by (auto simp: bit_eq_iff)
  then have "j < 64" using bit_imp_le_length [OF j] by simp
  with j have lt: "length (takeWhile ?P ?xs) < length ?xs" by (intro takeWhile_stops [of j]) auto
  then show "trailing_zeros w < 64" by (simp add: trailing_zeros_def)
  from nth_length_takeWhile [OF lt] lt show "bit w (trailing_zeros w)" by (simp add: trailing_zeros_def)
  show "\<not> bit w k" if "k < trailing_zeros w"
    using that nth_mem [of k "takeWhile ?P ?xs"] set_takeWhileD [of "takeWhile ?P ?xs ! k" ?P ?xs] takeWhile_nth [of k ?P ?xs] lt
    by (auto simp: trailing_zeros_def)
qed

lemma clear_lowest_bit:
  fixes w :: "64 word"
  assumes "w \<noteq> 0"
  shows "bit (w AND (w - 1)) k \<longleftrightarrow> bit w k \<and> k \<noteq> trailing_zeros w"
proof -
  let ?t = "trailing_zeros w"
  note t = trailing_zeros_bit [OF assms]
  define v where "v = w AND NOT (mask (?t + 1))"
  have v: "bit v i \<longleftrightarrow> ?t < i \<and> bit w i" for i
    using bit_imp_le_length [of w i] by (auto simp: v_def bit_and_iff bit_not_iff bit_mask_iff simp del: mask_Suc_exp)
  have disj: "v AND 2 ^ ?t = 0" "v AND mask ?t = 0"
    by (auto intro!: bit_eqI simp: bit_and_iff v bit_exp_iff bit_mask_iff)
  have "w = v OR 2 ^ ?t"
  proof (rule bit_eqI)
    fix i
    show "bit w i = bit (v OR 2 ^ ?t) i"
      using t by (cases "i < ?t"; cases "i = ?t") (auto simp: bit_or_iff v bit_exp_iff)
  qed
  then have "w = v + 2 ^ ?t" using disj(1) by (simp add: disjunctive_add_eq_or)
  then have "w - 1 = v + mask ?t" by (simp add: mask_eq_exp_minus_1)
  then have "w - 1 = v OR mask ?t" using disj(2) by (simp add: disjunctive_add_eq_or)
  then show ?thesis
    using t(1) t(3) [of k] by (auto simp: bit_and_iff bit_or_iff v bit_mask_iff not_less_iff_gr_or_eq)
qed

lemma clear_lowest_less: "w \<noteq> 0 \<Longrightarrow> unat (w AND (w - 1)) < unat (w :: 64 word)"
proof -
  assume "w \<noteq> 0"
  have "w AND (w - 1) \<le> w - 1" by (simp add: word_and_le1)
  then have "unat (w AND (w - 1)) \<le> unat w - 1" using unat_minus_one [OF \<open>w \<noteq> 0\<close>] by (simp add: word_le_nat_alt)
  moreover have "0 < unat w" using \<open>w \<noteq> 0\<close> by (simp add: unat_gt_0)
  ultimately show ?thesis by simp
qed

function check_pairs :: "string \<Rightarrow> nat \<Rightarrow> 64 word \<Rightarrow> bool" where
  "check_pairs p i pairs =
     (if pairs = 0 then False
      else if relative_segment_after p (i + trailing_zeros pairs div 8) then True
      else check_pairs p i (pairs AND (pairs - 1)))"
  by pat_completeness auto

termination
  by (relation "measure (\<lambda>(p, i, pairs). unat pairs)") (simp_all add: clear_lowest_less)

declare check_pairs.simps [simp del]

function scan_words :: "string \<Rightarrow> nat \<Rightarrow> bool" where
  "scan_words p i =
     (if i + 8 \<le> length p then
        let word = from_le_bytes (take 8 (drop i p));
            slashes = zero_bytes (word XOR from_le_bytes (replicate 8 (CHR ''/'')));
            dots = zero_bytes (word XOR from_le_bytes (replicate 8 (CHR ''.'')));
            pairs = slashes AND drop_bit 8 (slashes OR dots)
        in if check_pairs p i pairs then True else scan_words p (i + 7)
      else list_ex (relative_segment_after p) [i..<length p - 1])"
  by pat_completeness auto

termination
  by (relation "measure (\<lambda>(p, i). length p - i)") auto

declare scan_words.simps [simp del]

definition has_relative_path_segment :: "string \<Rightarrow> bool" where
  "has_relative_path_segment p =
     (if ts_nth p 0 = Some (CHR ''.'') \<and> dot_segment_at p 0 then True else scan_words p 0)"

section \<open>What a word of eight bytes shows\<close>

lemma check_pairs_iff: "check_pairs p i w \<longleftrightarrow> (\<exists>k. bit w k \<and> relative_segment_after p (i + k div 8))"
proof (induction p i w rule: check_pairs.induct)
  case (1 p i w)
  show ?case
  proof (cases "w = 0 \<or> relative_segment_after p (i + trailing_zeros w div 8)")
    case True
    then show ?thesis using trailing_zeros_bit(2) [of w] by (auto simp: check_pairs.simps [of p i w])
  next
    case False
    then have "check_pairs p i w = check_pairs p i (w AND (w - 1))" by (simp add: check_pairs.simps [of p i w])
    also have "\<dots> \<longleftrightarrow> (\<exists>k. (bit w k \<and> k \<noteq> trailing_zeros w) \<and> relative_segment_after p (i + k div 8))"
      using 1 False by (simp add: clear_lowest_bit)
    finally show ?thesis using False by auto
  qed
qed

lemma bit_of_char_high: "8 \<le> k \<Longrightarrow> \<not> bit (of_char c :: 64 word) k"
proof -
  assume "8 \<le> k"
  have "of_char c = (word_of_nat (of_char c) :: 64 word)" by (simp only: of_nat_of_char)
  moreover have "\<not> bit (of_char c :: nat) k"
  proof -
    have "(of_char c :: nat) < 2 ^ 8" using nat_of_char_less_256 [of c] by simp
    also have "\<dots> \<le> 2 ^ k" using \<open>8 \<le> k\<close> by (intro power_increasing) simp_all
    finally show ?thesis by (simp add: bit_iff_odd)
  qed
  ultimately show ?thesis by (metis bit_of_nat_iff)
qed

lemma bit_from_le_bytes:
  assumes "k < 8" "j < length cs" "length cs \<le> 8"
  shows "bit (from_le_bytes cs) (8 * j + k) = bit (of_char (cs ! j) :: 64 word) k"
  using assms
proof (induction cs arbitrary: j)
  case (Cons c cs)
  show ?case
  proof (cases j)
    case 0
    with Cons.prems show ?thesis by (simp add: bit_or_iff bit_push_bit_iff)
  next
    case (Suc i)
    with Cons.prems have "bit (from_le_bytes (c # cs)) (8 * j + k) = bit (from_le_bytes cs) (8 * i + k)"
      using bit_of_char_high [of "8 * j + k" c] by (auto simp: bit_or_iff bit_push_bit_iff)
    with Cons Suc show ?thesis by simp
  qed
qed simp

text \<open>The subtraction borrows through the lower bytes, and sets the high bit of a byte that is zero.\<close>

lemma swar_ones_low: "k < 8 \<Longrightarrow> 2 ^ (8 * k) \<le> (swar_ones_int :: int) mod 2 ^ (8 * k + 8) \<and> swar_ones_int mod 2 ^ (8 * k + 8) < 2 ^ (8 * k + 1)"
  if "swar_ones_int = 0x0101010101010101" for swar_ones_int
proof -
  assume "k < 8"
  then have "k \<in> {0, 1, 2, 3, 4, 5, 6, 7}" by auto
  with that show ?thesis by auto
qed

lemma high_bit_range:
  fixes m :: int
  assumes "2 ^ n - 2 ^ (n - 7) \<le> m" "m < 2 ^ n" "7 < n"
  shows "bit m (n - 1)"
proof -
  have "(2::int) ^ (n - 7) \<le> 2 ^ (n - 1)" by (intro power_increasing) auto
  moreover have n: "(2::int) ^ n = 2 * 2 ^ (n - 1)" using assms(3) by (cases n) auto
  ultimately have "2 ^ (n - 1) \<le> m" using assms(1) by linarith
  with assms(2) n have "m div 2 ^ (n - 1) = 1" by (intro div_pos_geq [THEN trans]) (auto simp: div_pos_pos_trivial)
  then show ?thesis by (simp add: bit_iff_odd)
qed

lemma zero_bytes_complete:
  assumes k: "k < 8" and zero: "\<And>b. b < 8 \<Longrightarrow> \<not> bit x (8 * k + b)"
  shows "bit (zero_bytes x) (8 * k + 7)"
proof -
  let ?n = "8 * k + 8"
  define ones :: int where "ones = 0x0101010101010101"
  have ones: "uint swar_ones = ones" by (simp add: swar_ones_def ones_def)
  have o_range: "2 ^ (8 * k) \<le> ones mod 2 ^ ?n" "ones mod 2 ^ ?n < 2 ^ (8 * k + 1)" using swar_ones_low [OF ones_def k] by auto
  have "take_bit ?n (uint x) = take_bit (8 * k) (uint x)"
  proof (rule bit_eqI)
    fix i
    have "\<not> bit x i" if "8 * k \<le> i" "i < ?n" using zero [of "i - 8 * k"] that by auto
    then show "bit (take_bit ?n (uint x)) i = bit (take_bit (8 * k) (uint x)) i"
      by (cases "8 * k \<le> i") (auto simp: bit_take_bit_iff bit_uint_iff)
  qed
  then have low: "uint x mod 2 ^ ?n < 2 ^ (8 * k)" "0 \<le> uint x mod 2 ^ ?n" by (simp_all add: take_bit_eq_mod)
  let ?m = "(uint x - ones) mod 2 ^ ?n"
  have big: "(2::int) ^ (8 * k + 1) \<le> 2 ^ ?n" by (intro power_increasing) auto
  have "?m = (uint x mod 2 ^ ?n - ones mod 2 ^ ?n) mod 2 ^ ?n" by (simp add: mod_diff_eq)
  also have "\<dots> = (uint x mod 2 ^ ?n - ones mod 2 ^ ?n + 2 ^ ?n) mod 2 ^ ?n" by simp
  also have "\<dots> = uint x mod 2 ^ ?n - ones mod 2 ^ ?n + 2 ^ ?n"
    using low o_range big by (intro mod_pos_pos_trivial) linarith+
  finally have m_eq: "?m = uint x mod 2 ^ ?n - ones mod 2 ^ ?n + 2 ^ ?n" .
  have n7: "?n - 7 = 8 * k + 1" by simp
  have m: "2 ^ ?n - 2 ^ (?n - 7) \<le> ?m" "?m < 2 ^ ?n" unfolding m_eq n7 using low o_range by linarith+
  from high_bit_range [OF m] have "bit (take_bit ?n (uint x - ones)) (8 * k + 7)" by (simp add: take_bit_eq_mod add.commute)
  then have "bit (uint x - ones) (8 * k + 7)" by (simp add: bit_take_bit_iff)
  moreover have "uint (x - swar_ones) = take_bit 64 (uint x - ones)" by (simp add: uint_word_arith_bintrs ones)
  ultimately have "bit (uint (x - swar_ones)) (8 * k + 7)" using k by (simp add: bit_take_bit_iff)
  then have "bit (x - swar_ones) (8 * k + 7)" by (simp add: bit_uint_iff)
  moreover have "bit swar_highs (8 * k + 7)"
  proof -
    from k have "k \<in> {0, 1, 2, 3, 4, 5, 6, 7}" by auto
    then show ?thesis by (auto simp: swar_highs_def)
  qed
  ultimately show ?thesis using zero [of 7] k by (simp add: zero_bytes_def bit_and_iff bit_not_iff)
qed

lemma zero_bytes_high: "bit (zero_bytes x) i \<Longrightarrow> \<exists>k < 8. i = 8 * k + 7"
proof -
  assume "bit (zero_bytes x) i"
  then have "bit swar_highs i" by (simp add: zero_bytes_def bit_and_iff)
  then have "i < 64" "bit (0x8080808080808080 :: 64 word) i" using bit_imp_le_length [of swar_highs i] by (simp_all add: swar_highs_def)
  then have "i \<in> set (filter (bit (0x8080808080808080 :: 64 word)) [0..<64])" by simp
  also have "filter (bit (0x8080808080808080 :: 64 word)) [0..<64] = [7, 15, 23, 31, 39, 47, 55, 63]"
    by (simp add: upt_rec)
  finally show ?thesis by (auto intro: exI [of _ "(i - 7) div 8"])
qed

lemma zero_bytes_of_byte:
  assumes "length cs = 8" "k < 8" "cs ! k = c"
  shows "bit (zero_bytes (from_le_bytes cs XOR from_le_bytes (replicate 8 c))) (8 * k + 7)"
  using assms by (intro zero_bytes_complete) (auto simp: bit_xor_iff bit_from_le_bytes)

text \<open>A word shows every pair of its bytes that a relative segment starts with, and what it shows is checked.\<close>

definition word_pairs :: "string \<Rightarrow> nat \<Rightarrow> 64 word" where
  "word_pairs p i =
     (let word = from_le_bytes (take 8 (drop i p));
          slashes = zero_bytes (word XOR from_le_bytes (replicate 8 (CHR ''/'')));
          dots = zero_bytes (word XOR from_le_bytes (replicate 8 (CHR ''.'')))
      in slashes AND drop_bit 8 (slashes OR dots))"

lemma word_pairs_complete:
  assumes i: "i + 8 \<le> length p" and k: "k < 7" and rel: "relative_segment_after p (i + k)"
  shows "bit (word_pairs p i) (8 * k + 7)"
proof -
  let ?cs = "take 8 (drop i p)"
  have len: "length ?cs = 8" using i by simp
  have at: "?cs ! j = p ! (i + j)" if "j < 8" for j using that i by simp
  from rel have slash: "?cs ! k = CHR ''/''" using k at by (simp add: relative_segment_after_def)
  from rel have "p ! (i + k + 1) = CHR ''/'' \<or> p ! (i + k + 1) = CHR ''.''"
    by (auto simp: relative_segment_after_def ts_nth_def split: if_splits)
  then have after: "?cs ! (k + 1) = CHR ''/'' \<or> ?cs ! (k + 1) = CHR ''.''" using k at [of "k + 1"] by (simp add: add.assoc)
  from slash k have one: "bit (zero_bytes (from_le_bytes ?cs XOR from_le_bytes (replicate 8 (CHR ''/'')))) (8 * k + 7)"
    by (intro zero_bytes_of_byte [OF len]) auto
  have two: "bit (zero_bytes (from_le_bytes ?cs XOR from_le_bytes (replicate 8 (?cs ! (k + 1))))) (8 * (k + 1) + 7)"
    using k by (intro zero_bytes_of_byte [OF len]) auto
  have "bit (zero_bytes (from_le_bytes ?cs XOR from_le_bytes (replicate 8 (CHR ''/''))) OR
      zero_bytes (from_le_bytes ?cs XOR from_le_bytes (replicate 8 (CHR ''.'')))) (8 * (k + 1) + 7)"
    using after
  proof
    assume c: "?cs ! (k + 1) = CHR ''/''"
    show ?thesis using two unfolding c bit_or_iff by (rule disjI1)
  next
    assume c: "?cs ! (k + 1) = CHR ''.''"
    show ?thesis using two unfolding c bit_or_iff by (rule disjI2)
  qed
  moreover have "8 + (8 * k + 7) = 8 * (k + 1) + 7" by simp
  ultimately show ?thesis using one unfolding word_pairs_def Let_def bit_and_iff bit_drop_bit_eq o_def by (simp only: simp_thms)
qed

lemma word_pairs_range: "bit (word_pairs p i) b \<Longrightarrow> \<exists>k < 8. b = 8 * k + 7"
  by (auto simp: word_pairs_def Let_def bit_and_iff dest: zero_bytes_high)

lemma relative_segment_inside: "relative_segment_after p j \<Longrightarrow> j + 1 < length p"
  by (auto simp: relative_segment_after_def ts_nth_def split: if_splits)

lemma scan_words_iff: "scan_words p i \<longleftrightarrow> (\<exists>j \<ge> i. relative_segment_after p j)"
proof (induction p i rule: scan_words.induct)
  case (1 p i)
  show ?case
  proof (cases "i + 8 \<le> length p")
    case True
    have "scan_words p i \<longleftrightarrow> check_pairs p i (word_pairs p i) \<or> scan_words p (i + 7)"
      using True by (simp add: scan_words.simps [of p i] word_pairs_def Let_def)
    also have "\<dots> \<longleftrightarrow> check_pairs p i (word_pairs p i) \<or> (\<exists>j \<ge> i + 7. relative_segment_after p j)"
      using 1 [OF True refl refl refl refl] by (auto simp: word_pairs_def Let_def)
    also have "\<dots> \<longleftrightarrow> (\<exists>j \<ge> i. relative_segment_after p j)"
    proof
      assume "check_pairs p i (word_pairs p i) \<or> (\<exists>j \<ge> i + 7. relative_segment_after p j)"
      then show "\<exists>j \<ge> i. relative_segment_after p j"
        unfolding check_pairs_iff by (metis add_leD1 le_add1)
    next
      assume "\<exists>j \<ge> i. relative_segment_after p j"
      then obtain j where j: "i \<le> j" "relative_segment_after p j" by blast
      show "check_pairs p i (word_pairs p i) \<or> (\<exists>j \<ge> i + 7. relative_segment_after p j)"
      proof (cases "j < i + 7")
        case False
        with j show ?thesis by auto
      next
        case inside: True
        define k where "k = j - i"
        from inside j have k: "k < 7" "j = i + k" by (auto simp: k_def)
        with word_pairs_complete [OF True] j have "bit (word_pairs p i) (8 * k + 7)" by simp
        moreover have "(8 * k + 7) div 8 = k" by simp
        ultimately show ?thesis unfolding check_pairs_iff using j k by metis
      qed
    qed
    finally show ?thesis .
  next
    case False
    have "scan_words p i \<longleftrightarrow> (\<exists>j \<in> set [i..<length p - 1]. relative_segment_after p j)"
      using False by (simp add: scan_words.simps [of p i] list_ex_iff)
    then show ?thesis using relative_segment_inside by fastforce
  qed
qed

section \<open>The segments of a path\<close>

definition starts_relative :: "string \<Rightarrow> bool" where
  "starts_relative r \<longleftrightarrow> ts_nth r 0 = Some (CHR ''/'') \<or> ts_nth r 0 = Some (CHR ''.'') \<and> dot_segment_at r 0"

lemma dot_segment_iff:
  assumes "CHR ''/'' \<notin> set t" and "r = t \<or> (\<exists>u. r = t @ CHR ''/'' # u)"
  shows "ts_nth r 0 = Some (CHR ''.'') \<and> dot_segment_at r 0 \<longleftrightarrow> t = ''.'' \<or> t = ''..''"
proof -
  consider "t = []" | c where "t = [c]" | c d where "t = [c, d]" | c d e u where "t = c # d # e # u"
    by (metis neq_Nil_conv)
  then show ?thesis
    using assms by cases (auto simp: dot_segment_at_def ts_nth_def)
qed

lemma starts_relative_join:
  assumes "\<forall>s \<in> set (t # ts). CHR ''/'' \<notin> set s"
  shows "starts_relative (join ''/'' (t # ts)) \<longleftrightarrow> t = ''.'' \<or> t = ''..'' \<or> t = [] \<and> ts \<noteq> []"
proof -
  have r: "join ''/'' (t # ts) = t \<or> (\<exists>u. join ''/'' (t # ts) = t @ CHR ''/'' # u)" by (simp add: join_Cons)
  have "ts_nth (join ''/'' (t # ts)) 0 = Some (CHR ''/'') \<longleftrightarrow> t = [] \<and> ts \<noteq> []"
    using assms by (cases t) (auto simp: join_Cons ts_nth_def)
  with dot_segment_iff [OF _ r] assms show ?thesis by (auto simp: starts_relative_def)
qed

lemma relative_segment_append:
  assumes "CHR ''/'' \<notin> set s"
  shows "(\<exists>j. relative_segment_after (s @ CHR ''/'' # r) j) \<longleftrightarrow> starts_relative r \<or> (\<exists>j. relative_segment_after r j)"
proof -
  let ?p = "s @ CHR ''/'' # r"
  have shift: "ts_nth ?p (length s + 1 + j) = ts_nth r j" for j by (auto simp: ts_nth_def nth_append)
  have dots: "dot_segment_at ?p (length s + 1 + j) = dot_segment_at r j" for j
  proof -
    have "ts_nth ?p (length s + 1 + j + 1) = ts_nth r (j + 1)" "ts_nth ?p (length s + 1 + j + 2) = ts_nth r (j + 2)"
      using shift [of "j + 1"] shift [of "j + 2"] by (simp_all add: add.assoc)
    then show ?thesis unfolding dot_segment_at_def by (simp only:)
  qed
  have here: "relative_segment_after ?p (length s) \<longleftrightarrow> starts_relative r"
    using shift [of 0] dots [of 0]
    by (auto simp: relative_segment_after_def starts_relative_def split: option.splits)
  have later: "relative_segment_after ?p (length s + 1 + j) \<longleftrightarrow> relative_segment_after r j" for j
    using shift [of "j + 1"] dots [of "j + 1"]
    by (auto simp: relative_segment_after_def nth_append add.assoc split: option.splits)
  have before: "\<not> relative_segment_after ?p j" if "j < length s" for j
    using that assms by (auto simp: relative_segment_after_def nth_append dest: nth_mem)
  have "(\<exists>j. relative_segment_after ?p j) \<longleftrightarrow>
      relative_segment_after ?p (length s) \<or> (\<exists>j. relative_segment_after ?p (length s + 1 + j))"
    using before by (metis add.commute add.left_neutral less_iff_Suc_add linorder_neqE_nat plus_1_eq_Suc add_Suc_right add_Suc_shift)
  with here later show ?thesis by simp
qed

lemma relative_segment_plain: "CHR ''/'' \<notin> set s \<Longrightarrow> \<not> relative_segment_after s j"
  by (metis add_lessD1 nth_mem relative_segment_after_def relative_segment_inside)

lemma relative_segment_join:
  "\<forall>s \<in> set (t # ts). CHR ''/'' \<notin> set s \<Longrightarrow>
   (\<exists>j. relative_segment_after (join ''/'' (t # ts)) j) \<longleftrightarrow> ''.'' \<in> set ts \<or> ''..'' \<in> set ts \<or> [] \<in> set (butlast ts)"
proof (induction ts arbitrary: t)
  case Nil
  then show ?case by (simp add: relative_segment_plain)
next
  case (Cons u ts)
  have "join ''/'' (t # u # ts) = t @ CHR ''/'' # join ''/'' (u # ts)" by simp
  with Cons starts_relative_join [of u ts] relative_segment_append [of t "join ''/'' (u # ts)"]
  show ?case by auto
qed

lemma has_relative_segment:
  "has_relative_path_segment p \<longleftrightarrow>
     ''.'' \<in> set (split_char (CHR ''/'') p) \<or> ''..'' \<in> set (split_char (CHR ''/'') p) \<or>
     [] \<in> set (butlast (tl (split_char (CHR ''/'') p)))"
proof -
  obtain t ts where parts: "split_char (CHR ''/'') p = t # ts" using split_char_nonempty by (metis list.exhaust)
  then have p: "p = join ''/'' (t # ts)" using join_split_char [of "CHR ''/''" p] by simp
  have plain: "\<forall>s \<in> set (t # ts). CHR ''/'' \<notin> set s" using split_char_no_sep [of _ "CHR ''/''" p] parts by auto
  have "p = t \<or> (\<exists>u. p = t @ CHR ''/'' # u)" by (simp add: p join_Cons)
  with dot_segment_iff [of t p] plain have "ts_nth p 0 = Some (CHR ''.'') \<and> dot_segment_at p 0 \<longleftrightarrow> t = ''.'' \<or> t = ''..''"
    by simp
  moreover have "scan_words p 0 \<longleftrightarrow> ''.'' \<in> set ts \<or> ''..'' \<in> set ts \<or> [] \<in> set (butlast ts)"
    using relative_segment_join [OF plain] by (simp add: scan_words_iff p)
  ultimately show ?thesis by (auto simp: has_relative_path_segment_def parts)
qed

text \<open>
  C23: The scan of eight bytes at a time decides what it is documented to: whether a segment of the path
  is \<open>.\<close> or \<open>..\<close>, or an empty one lies between two slashes. Words that show a byte by mistake are checked
  exactly, and windows that step by seven bytes miss no pair.
\<close>

theorem has_relative_path_segment_spec:
  "has_relative_path_segment p \<longleftrightarrow>
     (let segments = split_char (CHR ''/'') p
      in ''.'' \<in> set segments \<or> ''..'' \<in> set segments \<or> [] \<in> set (butlast (tl segments)))"
  unfolding Let_def by (rule has_relative_segment)

end
