(* ===== verification/TsPath.thy ===== *)
theory TsPath
  imports TsPathScan
begin

text \<open>
  Paths of the TypeScript checker: \<open>crates/stiles-tsrs/tsrs_core/src/tspath/path.rs\<close>. A path is text with
  \<open>/\<close> between its segments and an optional root: \<open>/\<close>, a volume, a server, a URL or the root of a virtual
  file. Every slice the code takes ends next to an ASCII byte, so slices are \<open>take\<close> and \<open>drop\<close>.
\<close>

section \<open>Searching\<close>

text \<open>\<open>memchr\<close> and \<open>memrchr\<close>.\<close>

definition find_char :: "char \<Rightarrow> string \<Rightarrow> nat option" where
  "find_char c s = (if c \<in> set s then Some (length (takeWhile (\<lambda>d. d \<noteq> c) s)) else None)"

definition last_index_byte :: "string \<Rightarrow> char \<Rightarrow> nat option" where
  "last_index_byte s c = map_option (\<lambda>i. length s - 1 - i) (find_char c (rev s))"

definition slash :: char where "slash = CHR ''/''"

definition backslash :: char where "backslash = CHR 0x5C"

section \<open>Roots\<close>

datatype encoded_root_length = RootRelative | RootDisk nat | RootUrl nat

fun root_len :: "encoded_root_length \<Rightarrow> nat" where
  "root_len RootRelative = 0"
| "root_len (RootDisk n) = n"
| "root_len (RootUrl n) = n"

definition is_any_directory_separator :: "char \<Rightarrow> bool" where
  "is_any_directory_separator c \<longleftrightarrow> c = slash \<or> c = backslash"

definition is_volume_character :: "char \<Rightarrow> bool" where
  "is_volume_character c = (let b = of_char c :: nat in 97 \<le> b \<and> b \<le> 122 \<or> 65 \<le> b \<and> b \<le> 90)"

definition eq_ignore_ascii_case :: "string \<Rightarrow> string \<Rightarrow> bool" where
  "eq_ignore_ascii_case a b \<longleftrightarrow> to_ascii_lowercase a = to_ascii_lowercase b"

definition get_file_url_volume_separator_end :: "string \<Rightarrow> nat \<Rightarrow> nat option" where
  "get_file_url_volume_separator_end url start =
     (if length url \<le> start then None
      else if url ! start = CHR '':'' then Some (start + 1)
      else if url ! start = CHR 0x25 \<and> start + 2 < length url \<and> url ! (start + 1) = CHR ''3'' \<and>
          (url ! (start + 2) = CHR ''a'' \<or> url ! (start + 2) = CHR ''A'') then Some (start + 3)
      else None)"

definition dynamic_uri_file_name_prefix :: string where
  "dynamic_uri_file_name_prefix = ''^/~ts-uri~/''"

text \<open>The first colon that two slashes follow.\<close>

definition find_scheme_end :: "string \<Rightarrow> nat option" where
  "find_scheme_end p = find (\<lambda>i. p ! i = CHR '':'' \<and> starts_with (drop (i + 1) p) ''//'') [0..<length p]"

definition url_root :: "string \<Rightarrow> nat \<Rightarrow> encoded_root_length" where
  "url_root p scheme_end =
     (let authority_start = scheme_end + 3 in
      case find_char slash (drop authority_start p) of
        None \<Rightarrow> RootUrl (length p)
      | Some authority_length \<Rightarrow>
          (let authority_end = authority_start + authority_length;
               scheme = take scheme_end p;
               authority = take authority_length (drop authority_start p);
               plain = RootUrl (authority_end + 1)
           in if eq_ignore_ascii_case scheme ''file'' \<and> (authority = [] \<or> eq_ignore_ascii_case authority ''localhost'') \<and>
                authority_end + 2 < length p \<and> is_volume_character (p ! (authority_end + 1))
              then (case get_file_url_volume_separator_end p (authority_end + 2) of
                      None \<Rightarrow> plain
                    | Some volume_separator_end \<Rightarrow>
                        if volume_separator_end = length p then RootUrl volume_separator_end
                        else if p ! volume_separator_end = slash then RootUrl (volume_separator_end + 1)
                        else plain)
              else plain))"

definition dynamic_root :: "string \<Rightarrow> encoded_root_length" where
  "dynamic_root p =
     (if starts_with p dynamic_uri_file_name_prefix then
        (let prefix_len = length dynamic_uri_file_name_prefix in
         case find_char slash (drop prefix_len p) of
           None \<Rightarrow> RootDisk 2
         | Some scheme \<Rightarrow>
             (let scheme_end = prefix_len + scheme in
              case find_char slash (drop (scheme_end + 1) p) of
                Some authority_end \<Rightarrow> RootDisk (scheme_end + authority_end + 2)
              | None \<Rightarrow> RootUrl (length p)))
      else RootDisk 2)"

definition get_encoded_root_length :: "string \<Rightarrow> encoded_root_length" where
  "get_encoded_root_length p =
     (let ln = length p in
      if ln = 0 then RootRelative
      else let ch0 = p ! 0 in
      if is_any_directory_separator ch0 then
        (if ln = 1 \<or> p ! 1 \<noteq> ch0 then RootDisk 1
         else case find_char ch0 (drop 2 p) of None \<Rightarrow> RootDisk ln | Some p1 \<Rightarrow> RootDisk (p1 + 2 + 1))
      else if ch0 = CHR ''^'' \<and> 1 < ln \<and> p ! 1 = slash then dynamic_root p
      else if is_volume_character ch0 \<and> 1 < ln \<and> p ! 1 = CHR '':'' \<and> ln = 2 then RootDisk 2
      else if is_volume_character ch0 \<and> 1 < ln \<and> p ! 1 = CHR '':'' \<and> is_any_directory_separator (p ! 2) then RootDisk 3
      else case find_scheme_end p of Some scheme_end \<Rightarrow> url_root p scheme_end | None \<Rightarrow> RootRelative)"

definition get_root_length :: "string \<Rightarrow> nat" where
  "get_root_length p = root_len (get_encoded_root_length p)"

definition is_url :: "string \<Rightarrow> bool" where
  "is_url p = (case get_encoded_root_length p of RootUrl _ \<Rightarrow> True | _ \<Rightarrow> False)"

definition is_rooted_disk_path :: "string \<Rightarrow> bool" where
  "is_rooted_disk_path p = (case get_encoded_root_length p of RootDisk _ \<Rightarrow> True | _ \<Rightarrow> False)"

definition is_disk_path_root :: "string \<Rightarrow> bool" where
  "is_disk_path_root p = (case get_encoded_root_length p of RootDisk n \<Rightarrow> n = length p | _ \<Rightarrow> False)"

definition path_is_absolute :: "string \<Rightarrow> bool" where
  "path_is_absolute p \<longleftrightarrow> get_encoded_root_length p \<noteq> RootRelative"

definition is_network_path :: "string \<Rightarrow> bool" where
  "is_network_path p \<longleftrightarrow>
     (if length p < 2 \<or> \<not> is_any_directory_separator (p ! 0) then False
      else if is_any_directory_separator (p ! 1) then True
      else 3 \<le> length p \<and> p ! 1 = CHR ''?'' \<and> p ! 2 = CHR ''?'' \<and> (length p = 3 \<or> is_any_directory_separator (p ! 3)))"

definition is_dynamic_file_name :: "string \<Rightarrow> bool" where
  "is_dynamic_file_name file_name = starts_with file_name ''^/''"

section \<open>Relative names\<close>

definition path_is_relative :: "string \<Rightarrow> bool" where
  "path_is_relative p \<longleftrightarrow>
     p = ''.'' \<or> p = ''..'' \<or>
     2 \<le> length p \<and> p ! 0 = CHR ''.'' \<and> is_any_directory_separator (p ! 1) \<or>
     3 \<le> length p \<and> p ! 0 = CHR ''.'' \<and> p ! 1 = CHR ''.'' \<and> is_any_directory_separator (p ! 2)"

definition ensure_path_is_non_module_name :: "string \<Rightarrow> string" where
  "ensure_path_is_non_module_name p =
     (if \<not> path_is_absolute p \<and> \<not> path_is_relative p then ''./'' @ p else p)"

definition is_external_module_name_relative :: "string \<Rightarrow> bool" where
  "is_external_module_name_relative module_name \<longleftrightarrow> path_is_relative module_name \<or> is_rooted_disk_path module_name"

section \<open>Separators\<close>

definition has_trailing_directory_separator :: "string \<Rightarrow> bool" where
  "has_trailing_directory_separator p \<longleftrightarrow> p \<noteq> [] \<and> is_any_directory_separator (last p)"

definition remove_trailing_directory_separator :: "string \<Rightarrow> string" where
  "remove_trailing_directory_separator p = (if has_trailing_directory_separator p then butlast p else p)"

function remove_trailing_directory_separators :: "string \<Rightarrow> string" where
  "remove_trailing_directory_separators p =
     (if has_trailing_directory_separator p then remove_trailing_directory_separators (remove_trailing_directory_separator p) else p)"
  by pat_completeness auto

termination
  by (relation "measure length") (auto simp: remove_trailing_directory_separator_def has_trailing_directory_separator_def)

declare remove_trailing_directory_separators.simps [simp del]

definition ensure_trailing_directory_separator :: "string \<Rightarrow> string" where
  "ensure_trailing_directory_separator p = (if \<not> has_trailing_directory_separator p then p @ [slash] else p)"

definition normalize_slashes :: "string \<Rightarrow> string" where
  "normalize_slashes p = (if backslash \<notin> set p then p else map (\<lambda>c. if c = backslash then slash else c) p)"

section \<open>Combining and splitting\<close>

definition combines_absolute :: "string \<Rightarrow> bool" where
  "combines_absolute p \<longleftrightarrow>
     (if backslash \<in> set p then get_root_length (normalize_slashes p) \<noteq> 0 else get_root_length p \<noteq> 0)"

fun combine_trailing :: "string \<Rightarrow> string list \<Rightarrow> string" where
  "combine_trailing result [] = result"
| "combine_trailing result (trailing_path # paths) =
     (if trailing_path = [] then combine_trailing result paths
      else let trailing_path = normalize_slashes trailing_path in
        if result = [] \<or> get_root_length trailing_path \<noteq> 0 then combine_trailing trailing_path paths
        else combine_trailing ((if has_trailing_directory_separator result then result else result @ [slash]) @ trailing_path) paths)"

definition combine_paths :: "string \<Rightarrow> string list \<Rightarrow> string" where
  "combine_paths first_path paths =
     (let (first, rest) =
        (case find (\<lambda>i. combines_absolute (paths ! i)) (rev [0..<length paths]) of
           Some last_absolute \<Rightarrow> (paths ! last_absolute, drop (last_absolute + 1) paths)
         | None \<Rightarrow> (first_path, paths))
      in combine_trailing (normalize_slashes first) rest)"

definition ts_components :: "string \<Rightarrow> nat \<Rightarrow> string list" where
  "ts_components p root_length =
     (let rest = split_char slash (drop root_length p);
          rest = (if last rest = [] then butlast rest else rest)
      in take root_length p # rest)"

definition get_path_components :: "string \<Rightarrow> string \<Rightarrow> string list" where
  "get_path_components p current_directory =
     (let p = combine_paths current_directory [p] in ts_components p (get_root_length p))"

definition get_path_from_path_components :: "string list \<Rightarrow> string" where
  "get_path_from_path_components components =
     (case components of
        [] \<Rightarrow> []
      | root # rest \<Rightarrow>
          fst (fold (\<lambda>c (result, i). (if 0 < i then result @ [slash] @ c else result @ c, i + 1)) rest
            (if root = [] then [] else ensure_trailing_directory_separator root, 0 :: nat)))"

section \<open>Reducing\<close>

fun reduce_step :: "string \<Rightarrow> string list \<Rightarrow> string list" where
  "reduce_step component reduced =
     (if component = [] then reduced
      else if component = ''.'' then reduced
      else if component = ''..'' then
        (if 1 < length reduced then
           (if last reduced \<noteq> ''..'' then butlast reduced else reduced @ [component])
         else if hd reduced \<noteq> [] then reduced
         else reduced @ [component])
      else reduced @ [component])"

definition reduce_path_components :: "string list \<Rightarrow> string list" where
  "reduce_path_components components =
     (case components of [] \<Rightarrow> [] | root # rest \<Rightarrow> fold reduce_step rest [root])"

definition reduced_path_components_of_combined :: "string \<Rightarrow> string list" where
  "reduced_path_components_of_combined p =
     (let root_length = get_root_length p
      in fold reduce_step (split_char slash (drop root_length p)) [take root_length p])"

lemma after_slashes:
  assumes "\<not> length p \<le> i + length (takeWhile (\<lambda>c. c = slash) (drop i p))"
  shows "0 < length (takeWhile (\<lambda>c. c \<noteq> slash) (drop (i + length (takeWhile (\<lambda>c. c = slash) (drop i p))) p))"
proof -
  let ?k = "length (takeWhile (\<lambda>c. c = slash) (drop i p))"
  let ?j = "i + ?k"
  from assms have "?k < length (drop i p)" by simp
  from nth_length_takeWhile [OF this] have "p ! ?j \<noteq> slash" using assms by simp
  moreover have "drop ?j p = p ! ?j # drop (Suc ?j) p" using assms by (simp add: Cons_nth_drop_Suc)
  ultimately show ?thesis by simp
qed

function normalized_components_loop :: "string \<Rightarrow> nat \<Rightarrow> string list \<Rightarrow> string list" where
  "normalized_components_loop p i components =
     (if i < length p then
        (let i = i + length (takeWhile (\<lambda>c. c = slash) (drop i p)) in
         if length p \<le> i then components
         else let start = i;
                  i = i + length (takeWhile (\<lambda>c. c \<noteq> slash) (drop i p))
              in normalized_components_loop p i (reduce_step (take (i - start) (drop start p)) components))
      else components)"
  by pat_completeness auto

termination
proof (relation "measure (\<lambda>(p, i, components). length p - i)")
  fix i x xa xb :: nat and p :: string and components :: "string list"
  assume x: "x = i + length (takeWhile (\<lambda>c. c = slash) (drop i p))" "\<not> length p \<le> x" "xa = x"
    "xb = x + length (takeWhile (\<lambda>c. c \<noteq> slash) (drop x p))"
  from x(1,2) after_slashes [of p i] have "0 < length (takeWhile (\<lambda>c. c \<noteq> slash) (drop x p))" by simp
  with x have "length p - xb < length p - i" by linarith
  then show "((p, xb, reduce_step (take (xb - xa) (drop xa p)) components), p, i, components)
      \<in> measure (\<lambda>(p, i, components). length p - i)" by simp
qed simp

declare normalized_components_loop.simps [simp del]

definition get_normalized_path_components_from_combined :: "string \<Rightarrow> string list" where
  "get_normalized_path_components_from_combined p =
     (let root_length = get_root_length p in normalized_components_loop p root_length [take root_length p])"

definition get_normalized_path_components :: "string \<Rightarrow> string \<Rightarrow> string list" where
  "get_normalized_path_components p current_directory =
     get_normalized_path_components_from_combined (combine_paths current_directory [p])"

section \<open>Reductions agree\<close>

lemma reduce_step_empty [simp]: "reduce_step [] = id" "reduce_step ''.'' = id"
  by (auto simp: fun_eq_iff)

declare reduce_step.simps [simp del]

lemma fold_reduce_ts_components:
  "reduce_path_components (ts_components p n) = fold reduce_step (split_char slash (drop n p)) [take n p]"
proof -
  let ?rest = "split_char slash (drop n p)"
  have "fold reduce_step ?rest init = fold reduce_step (butlast ?rest) init" if "last ?rest = []" for init
  proof -
    have "?rest = butlast ?rest @ [[]]" using append_butlast_last_id [of ?rest] that by simp
    then have "fold reduce_step ?rest init = fold reduce_step (butlast ?rest @ [[]]) init" by (rule arg_cong)
    then show ?thesis by simp
  qed
  then show ?thesis by (simp add: reduce_path_components_def ts_components_def Let_def)
qed

lemma split_char_takeWhile:
  "split_char d s = takeWhile (\<lambda>c. c \<noteq> d) s # (case dropWhile (\<lambda>c. c \<noteq> d) s of [] \<Rightarrow> [] | _ # t \<Rightarrow> split_char d t)"
  by (induction s) (auto split: list.splits)

lemma fold_split_skip:
  "f [] = id \<Longrightarrow> fold f (split_char d (dropWhile (\<lambda>c. c = d) s)) = fold f (split_char d s)"
  by (induction s) auto

lemma fold_split_word:
  assumes "f [] = id"
  shows "fold f (split_char d (dropWhile (\<lambda>c. c \<noteq> d) s)) (f (takeWhile (\<lambda>c. c \<noteq> d) s) x) = fold f (split_char d s) x"
proof (cases "dropWhile (\<lambda>c. c \<noteq> d) s")
  case Nil
  have "split_char d s = [takeWhile (\<lambda>c. c \<noteq> d) s]" using split_char_takeWhile [of d s] unfolding Nil by simp
  with assms show ?thesis unfolding Nil by simp
next
  case (Cons c t)
  then have "c = d" using hd_dropWhile [of "\<lambda>c. c \<noteq> d" s] by simp
  moreover have "split_char d s = takeWhile (\<lambda>c. c \<noteq> d) s # split_char d t" using split_char_takeWhile [of d s] Cons by simp
  ultimately show ?thesis using Cons assms by simp
qed

lemma normalized_components_loop_eq:
  "normalized_components_loop p i components = fold reduce_step (split_char slash (drop i p)) components"
proof (induction p i components rule: normalized_components_loop.induct)
  case (1 p i components)
  let ?j = "i + length (takeWhile (\<lambda>c. c = slash) (drop i p))"
  have j: "drop ?j p = dropWhile (\<lambda>c. c = slash) (drop i p)"
    by (metis add.commute drop_drop dropWhile_eq_drop)
  then have skip: "fold reduce_step (split_char slash (drop i p)) components = fold reduce_step (split_char slash (drop ?j p)) components"
    using fold_split_skip [of reduce_step slash "drop i p"] by simp
  show ?case
  proof (cases "i < length p \<and> \<not> length p \<le> ?j")
    case False
    then have "normalized_components_loop p i components = components" "length p \<le> ?j"
      by (auto simp: normalized_components_loop.simps [of p i] Let_def)
    with skip show ?thesis by simp
  next
    case True
    let ?n = "length (takeWhile (\<lambda>c. c \<noteq> slash) (drop ?j p))"
    have "normalized_components_loop p i components =
        normalized_components_loop p (?j + ?n) (reduce_step (take (?j + ?n - ?j) (drop ?j p)) components)"
      using True by (simp add: normalized_components_loop.simps [of p i] Let_def)
    also have "\<dots> = fold reduce_step (split_char slash (drop (?j + ?n) p)) (reduce_step (take ?n (drop ?j p)) components)"
      using 1 True by simp
    also have "take ?n (drop ?j p) = takeWhile (\<lambda>c. c \<noteq> slash) (drop ?j p)" by (simp add: takeWhile_eq_take [symmetric])
    also have "drop (?j + ?n) p = dropWhile (\<lambda>c. c \<noteq> slash) (drop ?j p)" by (metis add.commute drop_drop dropWhile_eq_drop)
    also have "fold reduce_step (split_char slash (dropWhile (\<lambda>c. c \<noteq> slash) (drop ?j p))) (reduce_step (takeWhile (\<lambda>c. c \<noteq> slash) (drop ?j p)) components)
        = fold reduce_step (split_char slash (drop ?j p)) components"
      by (rule fold_split_word) (rule reduce_step_empty)
    finally show ?thesis using skip by simp
  qed
qed

text \<open>
  The three ways in which the checker reduces a path give the same components. The loop over the bytes
  that builds normalized components, and the one that borrows them from the text, are the reduction of the
  components of the path.
\<close>

theorem reductions_agree:
  "get_normalized_path_components_from_combined p = reduce_path_components (ts_components p (get_root_length p)) \<and>
   reduced_path_components_of_combined p = reduce_path_components (ts_components p (get_root_length p))"
  by (simp add: get_normalized_path_components_from_combined_def reduced_path_components_of_combined_def
      fold_reduce_ts_components normalized_components_loop_eq Let_def)

end
