(* ===== verification/TypeScriptProvider.thy ===== *)
theory TypeScriptProvider
  imports Targets TsPath "HOL-Library.Word"
begin

text \<open>
  The TypeScript provider: \<open>crates/stiles-typescript/src/provider.rs\<close> and \<open>queries.rs\<close> with the
  decorations they attach. The checker it asks, a port of the TypeScript checker, is the record
  \<open>tsrs\<close>: one field per question, over type variables for its files, syntax nodes, types and
  symbols. The keys and the erasure of the five decoration types are the record \<open>ts_types\<close>.
\<close>

unbundle bit_operations_syntax

section \<open>Decorations\<close>

datatype primitive = PrimString | PrimNumber | PrimBigInt | PrimBoolean | PrimSymbol | NotPrimitive

record resolved_type =
  rt_display :: string
  rt_alias :: "string option"
  rt_primitive :: primitive

record parameter =
  par_name :: string
  par_ty :: resolved_type

record fn_signature =
  sig_parameters :: "parameter list"
  sig_return_type :: resolved_type

datatype import_source = Relative | Dependency | Workspace | Unresolved

record 'e ts_types =
  T_type_text :: "(string, 'e) decoration"
  T_resolved_type :: "(resolved_type, 'e) decoration"
  T_string_union :: "(string list, 'e) decoration"
  T_fn_signature :: "(fn_signature, 'e) decoration"
  T_import_source :: "(import_source, 'e) decoration"

section \<open>The checker\<close>

datatype literal_value = LitString string | LitNumber | LitBoolean | LitBigInt

record ('f, 'n, 't, 'y) tsrs =
  tsrs_source_file :: "string \<Rightarrow> 'f option"
  tsrs_text :: "'f \<Rightarrow> string"
  tsrs_property_name_at :: "'f \<Rightarrow> nat \<Rightarrow> 'n"
  tsrs_token_at :: "'f \<Rightarrow> nat \<Rightarrow> 'n"
  tsrs_end :: "'n \<Rightarrow> nat option"
  tsrs_parent :: "'n \<Rightarrow> 'n option"
  tsrs_kind :: "'n \<Rightarrow> string"
  tsrs_string_literal_like :: "'n \<Rightarrow> bool"
  tsrs_node_text :: "'n \<Rightarrow> string"
  tsrs_annotation :: "'n \<Rightarrow> 'n option"
  tsrs_type_name :: "'n \<Rightarrow> 'n"
  tsrs_symbol_at :: "'n \<Rightarrow> 'y option"
  tsrs_symbol_name :: "'y \<Rightarrow> string"
  tsrs_symbol_flags :: "'y \<Rightarrow> 32 word"
  tsrs_declaration :: "'y \<Rightarrow> 'n option"
  tsrs_type_of_symbol :: "'y \<Rightarrow> 't"
  tsrs_type_at :: "'n \<Rightarrow> 't"
  tsrs_type_string :: "'t \<Rightarrow> string"
  tsrs_type_alias :: "'t \<Rightarrow> string option"
  tsrs_flags :: "'t \<Rightarrow> 32 word"
  tsrs_members :: "'t \<Rightarrow> 't list"
  tsrs_is_string_literal :: "'t \<Rightarrow> bool"
  tsrs_literal :: "'t \<Rightarrow> literal_value option"
  tsrs_parameters :: "'n \<Rightarrow> 'y list"
  tsrs_return_type :: "'n \<Rightarrow> 't"
  tsrs_resolved_module :: "'f \<Rightarrow> 'n \<Rightarrow> (bool \<times> string) option"
  tsrs_include_spec :: "string \<Rightarrow> string"

text \<open>The flags the queries test, as \<open>tsrs_checker/src/types.rs\<close> and \<open>tsrs_ast/src/symbolflags.rs\<close> number them.\<close>

definition flag :: "nat \<Rightarrow> 32 word" where
  "flag n = push_bit n 1"

definition intersects :: "32 word \<Rightarrow> 32 word \<Rightarrow> bool" where
  "intersects a b = (a AND b \<noteq> 0)"

definition enum_flags :: "32 word" where "enum_flags = flag 15 OR flag 16"
definition boolean_flags :: "32 word" where "boolean_flags = flag 8 OR flag 13"
definition string_flags :: "32 word" where "string_flags = flag 5 OR flag 10"
definition number_flags :: "32 word" where "number_flags = flag 6 OR flag 11"
definition bigint_flags :: "32 word" where "bigint_flags = flag 7 OR flag 12"
definition symbol_flags :: "32 word" where "symbol_flags = flag 9 OR flag 14"
definition union_flag :: "32 word" where "union_flag = flag 27"
definition alias_flags :: "32 word" where "alias_flags = flag 19 OR flag 21"

section \<open>Queries\<close>

definition value_declarations :: "string list" where
  "value_declarations = [''Parameter'', ''VariableDeclaration'', ''PropertySignature'', ''PropertyDeclaration'']"

definition function_declarations :: "string list" where
  "function_declarations = [''FunctionDeclaration'', ''MethodDeclaration'', ''MethodSignature'']"

definition written_alias :: "('f, 'n, 't, 'y) tsrs \<Rightarrow> 'n \<Rightarrow> string option" where
  "written_alias c annotation =
     (if tsrs_kind c annotation \<noteq> ''TypeReference'' then None
      else Option.bind (tsrs_symbol_at c (tsrs_type_name c annotation)) (\<lambda>symbol.
        if intersects (tsrs_symbol_flags c symbol) alias_flags then Some (tsrs_symbol_name c symbol) else None))"

definition primitive_of :: "('f, 'n, 't, 'y) tsrs \<Rightarrow> 't \<Rightarrow> primitive" where
  "primitive_of c ty =
     (let flags = tsrs_flags c ty in
      if intersects flags enum_flags then NotPrimitive
      else if intersects flags boolean_flags then PrimBoolean
      else if intersects flags string_flags then PrimString
      else if intersects flags number_flags then PrimNumber
      else if intersects flags bigint_flags then PrimBigInt
      else if intersects flags symbol_flags then PrimSymbol
      else NotPrimitive)"

definition resolved_type_of :: "('f, 'n, 't, 'y) tsrs \<Rightarrow> 't \<Rightarrow> 'n option \<Rightarrow> resolved_type" where
  "resolved_type_of c ty declaration =
     \<lparr>rt_display = tsrs_type_string c ty,
      rt_alias = (case tsrs_type_alias c ty of
          Some alias \<Rightarrow> Some alias
        | None \<Rightarrow> Option.bind declaration (\<lambda>d.
            if tsrs_kind c d \<notin> set value_declarations then None
            else Option.bind (tsrs_annotation c d) (written_alias c))),
      rt_primitive = primitive_of c ty\<rparr>"

fun collect_options :: "'a option list \<Rightarrow> 'a list option" where
  "collect_options [] = Some []"
| "collect_options (x # xs) = Option.bind x (\<lambda>a. map_option ((#) a) (collect_options xs))"

definition string_union_of :: "('f, 'n, 't, 'y) tsrs \<Rightarrow> 't \<Rightarrow> string list option" where
  "string_union_of c ty =
     (if \<not> intersects (tsrs_flags c ty) union_flag then None
      else Option.bind (collect_options (map (\<lambda>member.
             if \<not> tsrs_is_string_literal c member then None
             else case tsrs_literal c member of Some (LitString t) \<Rightarrow> Some t | _ \<Rightarrow> None) (tsrs_members c ty)))
           (\<lambda>members. if members = [] then None else Some members))"

definition fn_signature_of :: "('f, 'n, 't, 'y) tsrs \<Rightarrow> 'n \<Rightarrow> fn_signature option" where
  "fn_signature_of c declaration =
     (if tsrs_kind c declaration \<notin> set function_declarations then None
      else
        let parameters = map (\<lambda>p. \<lparr>par_name = tsrs_symbol_name c p,
                par_ty = resolved_type_of c (tsrs_type_of_symbol c p) (tsrs_declaration c p)\<rparr>) (tsrs_parameters c declaration);
            returned = tsrs_return_type c declaration
        in Some \<lparr>sig_parameters = parameters,
             sig_return_type = \<lparr>rt_display = tsrs_type_string c returned,
               rt_alias = Option.bind (tsrs_annotation c declaration) (written_alias c),
               rt_primitive = primitive_of c returned\<rparr>\<rparr>)"

definition classify_import :: "string \<Rightarrow> path \<Rightarrow> import_source" where
  "classify_import specifier resolved =
     (if is_external_module_name_relative specifier then Relative
      else if list_ex (\<lambda>component. component_os component = ''node_modules'') (components resolved) then Dependency
      else Workspace)"

definition import_source_of :: "('f, 'n, 't, 'y) tsrs \<Rightarrow> 'f \<Rightarrow> 'n \<Rightarrow> import_source" where
  "import_source_of c source_file specifier =
     (case tsrs_resolved_module c source_file specifier of
        None \<Rightarrow> Unresolved
      | Some (is_resolved, resolved_file_name) \<Rightarrow>
          if \<not> is_resolved then Unresolved
          else classify_import (tsrs_node_text c specifier) resolved_file_name)"

section \<open>Targets\<close>

definition typed_kinds :: "string list" where
  "typed_kinds = [''identifier'', ''property_identifier'', ''shorthand_property_identifier'']"

definition function_kinds :: "string list" where
  "function_kinds = [''function_declaration'', ''generator_function_declaration'', ''function_signature'',
     ''method_definition'', ''method_signature'', ''abstract_method_signature'']"

definition module_reference_kinds :: "string list" where
  "module_reference_kinds = [''import_statement'', ''export_statement'']"

record target =
  target_node_id :: nat
  target_start :: nat
  target_end :: nat

definition Target_new :: "'e decorated_node \<Rightarrow> 'e decorated_node \<Rightarrow> target option" where
  "Target_new node found_by =
     Option.bind (u32_try_from (ts_start (dn_node found_by))) (\<lambda>s.
       Option.bind (u32_try_from (ts_end (dn_node found_by))) (\<lambda>e.
         Some \<lparr>target_node_id = dn_id node, target_start = s, target_end = e\<rparr>))"

record targets =
  targets_values :: "target list"
  targets_functions :: "target list"
  targets_modules :: "target list"

definition no_targets :: targets where
  "no_targets = \<lparr>targets_values = [], targets_functions = [], targets_modules = []\<rparr>"

text \<open>What one node adds, before its children are visited.\<close>

definition value_target :: "'e decorated_node \<Rightarrow> target option" where
  "value_target node = (if dn_kind node \<in> set typed_kinds then Target_new node node else None)"

definition function_target :: "'e decorated_node \<Rightarrow> target option" where
  "function_target node =
     (if dn_kind node \<in> set function_kinds
      then Option.bind (dn_child_by_field_name node ''name'') (Target_new node) else None)"

definition module_target :: "'e decorated_node \<Rightarrow> target option" where
  "module_target node =
     (if dn_kind node \<in> set module_reference_kinds
      then Option.bind (dn_child_by_field_name node ''source'') (\<lambda>source. Target_new source source) else None)"

fun push_option :: "'a option \<Rightarrow> 'a list \<Rightarrow> 'a list" where
  "push_option None xs = xs"
| "push_option (Some x) xs = xs @ [x]"

definition add_targets :: "'e decorated_node \<Rightarrow> targets \<Rightarrow> targets" where
  "add_targets node ts =
     \<lparr>targets_values = push_option (value_target node) (targets_values ts),
      targets_functions = push_option (function_target node) (targets_functions ts),
      targets_modules = push_option (module_target node) (targets_modules ts)\<rparr>"

function collect_targets :: "'e decorated_node \<Rightarrow> targets \<Rightarrow> targets"
  and collect_children :: "'e decorated_node list \<Rightarrow> targets \<Rightarrow> targets" where
  "collect_targets node ts = collect_children (dn_named_children node) (add_targets node ts)"
| "collect_children [] ts = ts"
| "collect_children (n # ns) ts = collect_children ns (collect_targets n ts)"
  by pat_completeness auto
termination
  by (relation "measure (\<lambda>x. case x of Inl (n, _) \<Rightarrow> 2 * size (dn_node n)
        | Inr (ns, _) \<Rightarrow> Suc (2 * size_list (\<lambda>c. size (dn_node c)) ns))")
    (auto simp: visit_measure)

section \<open>The provider\<close>

record ('f, 'n, 't, 'y) typescript_provider =
  tsp_program :: "('f, 'n, 't, 'y) tsrs"
  tsp_root :: path

datatype load_typescript_error =
    TsUnresolvablePath path io_error
  | MissingConfig path
  | TsNotUtf8 path
  | InvalidConfig path "string list"
  | EmptyConfig path

text \<open>
  Loading. \<open>get_config\<close> parses a configuration file in a directory, and \<open>new_program\<close> builds the
  program of one; both are the port's.
\<close>

definition load_typescript ::
  "(path, io_error) result \<Rightarrow> (path \<Rightarrow> bool) \<Rightarrow> (string \<Rightarrow> string \<Rightarrow> 'c option \<times> string list) \<Rightarrow>
   (string \<Rightarrow> 'c \<Rightarrow> ('f, 'n, 't, 'y) tsrs) \<Rightarrow> path \<Rightarrow>
   (('f, 'n, 't, 'y) typescript_provider, load_typescript_error) result" where
  "load_typescript cwd is_file get_config new_program p =
     result_bind (map_err (TsUnresolvablePath p) (absolute_path cwd p)) (\<lambda>p.
       case discover_root is_file p of
         None \<Rightarrow> Err (MissingConfig p)
       | Some root \<Rightarrow>
           (let config_file = path_join root config_file in
            case to_str root of
              None \<Rightarrow> Err (TsNotUtf8 root)
            | Some root_text \<Rightarrow>
                (case to_str config_file of
                   None \<Rightarrow> Err (TsNotUtf8 config_file)
                 | Some config_text \<Rightarrow>
                     (let (config, errors) = get_config root_text config_text in
                      if errors \<noteq> [] then Err (InvalidConfig config_file errors)
                      else case config of
                        None \<Rightarrow> Err (EmptyConfig config_file)
                      | Some config \<Rightarrow> Ok \<lparr>tsp_program = new_program root_text config, tsp_root = root\<rparr>))))"

definition ts_gap_for_unknown_file :: "('f, 'n, 't, 'y) typescript_provider \<Rightarrow> path \<Rightarrow> coverage_gap" where
  "ts_gap_for_unknown_file prov p =
     (if \<not> path_starts_with p (tsp_root prov) then OutsideRoot (tsp_root prov)
      else case to_str p of
        None \<Rightarrow> Unreachable (tsp_root prov)
      | Some name \<Rightarrow>
          if tsrs_include_spec (tsp_program prov) name = [] then Unreachable (tsp_root prov)
          else ExcludedByToolchain (tsp_root prov))"

text \<open>The three loops of \<open>decorate\<close>: what one target inserts.\<close>

definition decorate_value ::
  "'e ts_types \<Rightarrow> ('f, 'n, 't, 'y) tsrs \<Rightarrow> 'f \<Rightarrow> target \<Rightarrow> 'e decoration_map \<Rightarrow> 'e decoration_map" where
  "decorate_value T c source_file t m =
     (let token = tsrs_property_name_at c source_file (target_start t) in
      if tsrs_end c token \<noteq> Some (target_end t) then m
      else let ty = tsrs_type_at c token;
               declaration = Option.bind (tsrs_symbol_at c token) (tsrs_declaration c);
               m = map_insert (T_type_text T) (target_node_id t) (tsrs_type_string c ty) m;
               m = map_insert (T_resolved_type T) (target_node_id t) (resolved_type_of c ty declaration) m
           in case string_union_of c ty of
                Some literals \<Rightarrow> map_insert (T_string_union T) (target_node_id t) literals m
              | None \<Rightarrow> m)"

definition decorate_function ::
  "'e ts_types \<Rightarrow> ('f, 'n, 't, 'y) tsrs \<Rightarrow> 'f \<Rightarrow> target \<Rightarrow> 'e decoration_map \<Rightarrow> 'e decoration_map" where
  "decorate_function T c source_file t m =
     (let token = tsrs_property_name_at c source_file (target_start t) in
      if tsrs_end c token \<noteq> Some (target_end t) then m
      else case tsrs_parent c token of
        None \<Rightarrow> m
      | Some declaration \<Rightarrow>
          (case fn_signature_of c declaration of
             Some signature \<Rightarrow> map_insert (T_fn_signature T) (target_node_id t) signature m
           | None \<Rightarrow> m))"

definition decorate_module ::
  "'e ts_types \<Rightarrow> ('f, 'n, 't, 'y) tsrs \<Rightarrow> 'f \<Rightarrow> target \<Rightarrow> 'e decoration_map \<Rightarrow> 'e decoration_map" where
  "decorate_module T c source_file t m =
     (let token = tsrs_token_at c source_file (target_start t) in
      if tsrs_end c token \<noteq> Some (target_end t) \<or> \<not> tsrs_string_literal_like c token then m
      else map_insert (T_import_source T) (target_node_id t) (import_source_of c source_file token) m)"

definition ts_decorate ::
  "'e ts_types \<Rightarrow> (path, io_error) result \<Rightarrow> ('f, 'n, 't, 'y) typescript_provider \<Rightarrow> 'e decorated_tree \<Rightarrow>
   ('e coverage, decorate_tree_error) result" where
  "ts_decorate T cwd prov tree =
     result_bind (map_err (UnresolvablePath (as_path (dt_file tree))) (absolute_path cwd (as_path (dt_file tree)))) (\<lambda>p.
       let c = tsp_program prov in
       case Option.bind (to_str p) (tsrs_source_file c) of
         None \<Rightarrow> Ok (NotCovered (ts_gap_for_unknown_file prov p))
       | Some source_file \<Rightarrow>
           if tsrs_text c source_file \<noteq> dt_source tree then Ok (NotCovered StaleSource)
           else let targets = collect_targets (dt_root_node tree) no_targets;
                    m = fold (decorate_value T c source_file) (targets_values targets) map_new;
                    m = fold (decorate_function T c source_file) (targets_functions targets) m;
                    m = fold (decorate_module T c source_file) (targets_modules targets) m
                in Ok (Covered m))"

definition typescript_decoration_provider ::
  "'e ts_types \<Rightarrow> (path, io_error) result \<Rightarrow> ('f, 'n, 't, 'y) typescript_provider \<Rightarrow> 'e provider" where
  "typescript_decoration_provider T cwd prov = \<lparr>prov_name = typescript_name, prov_decorate = ts_decorate T cwd prov\<rparr>"

section \<open>What is attached where\<close>

declare collect_targets.simps [simp del]

lemma collect_targets_fold:
  fixes n :: "'e decorated_node" and ns :: "'e decorated_node list"
  shows "collect_targets n ts = fold add_targets (visited_nodes n) ts"
  "collect_children ns ts = fold add_targets (concat (map visited_nodes ns)) ts"
proof (induction n ts and ns ts rule: collect_targets_collect_children.induct)
  case (1 node ts)
  then show ?case by (subst visited_nodes.simps) (simp add: collect_targets.simps)
qed simp_all

lemma add_targets_sel:
  "targets_values (add_targets n ts) = targets_values ts @ (case value_target n of None \<Rightarrow> [] | Some t \<Rightarrow> [t])"
  "targets_functions (add_targets n ts) = targets_functions ts @ (case function_target n of None \<Rightarrow> [] | Some t \<Rightarrow> [t])"
  "targets_modules (add_targets n ts) = targets_modules ts @ (case module_target n of None \<Rightarrow> [] | Some t \<Rightarrow> [t])"
  by (simp_all add: add_targets_def split: option.splits)

lemma fold_add_targets:
  "targets_values (fold add_targets ns ts) = targets_values ts @ List.map_filter value_target ns"
  "targets_functions (fold add_targets ns ts) = targets_functions ts @ List.map_filter function_target ns"
  "targets_modules (fold add_targets ns ts) = targets_modules ts @ List.map_filter module_target ns"
proof (induction ns arbitrary: ts)
  case Nil
  { case 1 show ?case by (simp add: List.map_filter_def) }
  { case 2 show ?case by (simp add: List.map_filter_def) }
  { case 3 show ?case by (simp add: List.map_filter_def) }
qed (simp_all add: add_targets_sel map_filter_Cons split: option.splits)

text \<open>The entries one target adds.\<close>

definition value_entries :: "'e ts_types \<Rightarrow> ('f, 'n, 't, 'y) tsrs \<Rightarrow> 'f \<Rightarrow> target \<Rightarrow> 'e entry list" where
  "value_entries T c f t = map_entries (decorate_value T c f t map_new)"

definition function_entries :: "'e ts_types \<Rightarrow> ('f, 'n, 't, 'y) tsrs \<Rightarrow> 'f \<Rightarrow> target \<Rightarrow> 'e entry list" where
  "function_entries T c f t = map_entries (decorate_function T c f t map_new)"

definition module_entries :: "'e ts_types \<Rightarrow> ('f, 'n, 't, 'y) tsrs \<Rightarrow> 'f \<Rightarrow> target \<Rightarrow> 'e entry list" where
  "module_entries T c f t = map_entries (decorate_module T c f t map_new)"

lemma decorate_entries:
  "map_entries (decorate_value T c f t m) = map_entries m @ value_entries T c f t"
  "map_entries (decorate_function T c f t m) = map_entries m @ function_entries T c f t"
  "map_entries (decorate_module T c f t m) = map_entries m @ module_entries T c f t"
  by (simp_all add: value_entries_def function_entries_def module_entries_def decorate_value_def decorate_function_def
      decorate_module_def map_insert_def map_new_def Let_def split: option.splits)

lemma decorate_invar:
  assumes "map_invar m"
  shows "map_invar (decorate_value T c f t m)" "map_invar (decorate_function T c f t m)" "map_invar (decorate_module T c f t m)"
  using assms by (simp_all add: decorate_value_def decorate_function_def decorate_module_def Let_def split: option.splits)

lemma fold_decorate:
  assumes "\<And>t m. map_entries (step t m) = map_entries m @ es t" "\<And>t m. map_invar m \<Longrightarrow> map_invar (step t m)" "map_invar m"
  shows "map_entries (fold step ts m) = map_entries m @ concat (map es ts) \<and> map_invar (fold step ts m)"
  using assms(3) by (induction ts arbitrary: m) (simp_all add: assms(1,2))

text \<open>What the program answers for the range of a node: the token that ends where the node does.\<close>

definition value_token :: "('f, 'n, 't, 'y) tsrs \<Rightarrow> 'f \<Rightarrow> 'e decorated_node \<Rightarrow> 'n option" where
  "value_token c f n = Option.bind (value_target n) (\<lambda>t.
     let token = tsrs_property_name_at c f (target_start t)
     in if tsrs_end c token = Some (target_end t) then Some token else None)"

definition declared_signature :: "('f, 'n, 't, 'y) tsrs \<Rightarrow> 'f \<Rightarrow> 'e decorated_node \<Rightarrow> fn_signature option" where
  "declared_signature c f n = Option.bind (function_target n) (\<lambda>t.
     let token = tsrs_property_name_at c f (target_start t)
     in if tsrs_end c token = Some (target_end t) then Option.bind (tsrs_parent c token) (fn_signature_of c) else None)"

definition ts_keys :: "'e ts_types \<Rightarrow> decoration_key list" where
  "ts_keys T = [deco_key (T_type_text T), deco_key (T_resolved_type T), deco_key (T_string_union T),
     deco_key (T_fn_signature T), deco_key (T_import_source T)]"

definition ts_stable :: "'e ts_types \<Rightarrow> bool" where
  "ts_stable T \<longleftrightarrow> distinct (ts_keys T) \<and> stable_downcast (T_type_text T) \<and> stable_downcast (T_resolved_type T) \<and>
     stable_downcast (T_string_union T) \<and> stable_downcast (T_fn_signature T) \<and> stable_downcast (T_import_source T)"

lemma target_ids:
  "value_target n = Some t \<Longrightarrow> target_node_id t = dn_id n" "function_target n = Some t \<Longrightarrow> target_node_id t = dn_id n"
  by (auto simp: value_target_def function_target_def Target_new_def bind_eq_Some_conv split: if_splits)

text \<open>The entries a covered file has, in order.\<close>

lemma ts_decorate_entries:
  assumes "ts_decorate T cwd prov tree = Ok (Covered m)"
  shows "\<exists>p f. map_invar m \<and> (let c = tsp_program prov; ns = visited_nodes (dt_root_node tree) in
     absolute_path cwd (as_path (dt_file tree)) = Ok p \<and> Option.bind (to_str p) (tsrs_source_file c) = Some f \<and>
     tsrs_text c f = dt_source tree \<and>
     map_entries m = concat (map (\<lambda>n. case value_target n of None \<Rightarrow> [] | Some t \<Rightarrow> value_entries T c f t) ns)
       @ concat (map (\<lambda>n. case function_target n of None \<Rightarrow> [] | Some t \<Rightarrow> function_entries T c f t) ns)
       @ concat (map (\<lambda>n. case module_target n of None \<Rightarrow> [] | Some t \<Rightarrow> module_entries T c f t) ns))"
proof -
  let ?c = "tsp_program prov" and ?ns = "visited_nodes (dt_root_node tree)"
  from assms obtain p f where at: "absolute_path cwd (as_path (dt_file tree)) = Ok p"
      "Option.bind (to_str p) (tsrs_source_file ?c) = Some f" and same: "tsrs_text ?c f = dt_source tree"
    and m: "m = fold (decorate_module T ?c f) (List.map_filter module_target ?ns)
       (fold (decorate_function T ?c f) (List.map_filter function_target ?ns)
         (fold (decorate_value T ?c f) (List.map_filter value_target ?ns) map_new))"
    by (auto simp: ts_decorate_def result_bind_eq_Ok Let_def collect_targets_fold fold_add_targets no_targets_def
        split: option.splits if_splits)
  let ?v = "fold (decorate_value T ?c f) (List.map_filter value_target ?ns) map_new"
  let ?w = "fold (decorate_function T ?c f) (List.map_filter function_target ?ns) ?v"
  have v: "map_entries ?v = map_entries map_new @ concat (map (value_entries T ?c f) (List.map_filter value_target ?ns)) \<and> map_invar ?v"
    by (rule fold_decorate) (simp_all add: decorate_entries decorate_invar)
  then have w: "map_entries ?w = map_entries ?v @ concat (map (function_entries T ?c f) (List.map_filter function_target ?ns)) \<and> map_invar ?w"
    by (intro fold_decorate) (simp_all add: decorate_entries decorate_invar)
  then have "map_entries m = map_entries ?w @ concat (map (module_entries T ?c f) (List.map_filter module_target ?ns)) \<and> map_invar m"
    unfolding m by (intro fold_decorate) (simp_all add: decorate_entries decorate_invar)
  with v w at same show ?thesis by (intro exI [of _ p] exI [of _ f]) (simp add: Let_def concat_map_filter map_new_def)
qed

lemmas entries_defs = value_entries_def function_entries_def module_entries_def decorate_value_def decorate_function_def
  decorate_module_def map_insert_def map_new_def Entry_new_def ts_stable_def ts_keys_def Let_def

text \<open>What the entries of one target hold under each key, and that they hold nothing else.\<close>

lemma value_entries_on:
  fixes c :: "('f, 'n, 't, 'y) tsrs" and f :: 'f and t :: target
  assumes "ts_stable T"
  defines "token \<equiv> tsrs_property_name_at c f (target_start t)"
  shows "filter (on_node k (deco_key (T_type_text T))) (value_entries T c f t) =
      (if target_node_id t = k \<and> tsrs_end c token = Some (target_end t)
       then [Entry_new (T_type_text T) k (tsrs_type_string c (tsrs_type_at c token))] else [])"
    and "filter (on_node k (deco_key (T_resolved_type T))) (value_entries T c f t) =
      (if target_node_id t = k \<and> tsrs_end c token = Some (target_end t)
       then [Entry_new (T_resolved_type T) k
          (resolved_type_of c (tsrs_type_at c token) (Option.bind (tsrs_symbol_at c token) (tsrs_declaration c)))] else [])"
    and "filter (on_node k (deco_key (T_string_union T))) (value_entries T c f t) =
      (if target_node_id t = k \<and> tsrs_end c token = Some (target_end t)
       then (case string_union_of c (tsrs_type_at c token) of
           None \<Rightarrow> [] | Some literals \<Rightarrow> [Entry_new (T_string_union T) k literals]) else [])"
    and "key \<notin> {deco_key (T_type_text T), deco_key (T_resolved_type T), deco_key (T_string_union T)} \<Longrightarrow>
      filter (on_node k key) (value_entries T c f t) = []"
  using assms(1) by (auto simp: entries_defs token_def split: option.splits)

lemma function_entries_on:
  fixes c :: "('f, 'n, 't, 'y) tsrs" and f :: 'f and t :: target
  assumes "ts_stable T"
  defines "token \<equiv> tsrs_property_name_at c f (target_start t)"
  shows "filter (on_node k (deco_key (T_fn_signature T))) (function_entries T c f t) =
      (if target_node_id t = k \<and> tsrs_end c token = Some (target_end t)
       then (case Option.bind (tsrs_parent c token) (fn_signature_of c) of
           None \<Rightarrow> [] | Some signature \<Rightarrow> [Entry_new (T_fn_signature T) k signature]) else [])"
    and "key \<noteq> deco_key (T_fn_signature T) \<Longrightarrow> filter (on_node k key) (function_entries T c f t) = []"
  using assms(1) by (auto simp: entries_defs token_def split: option.splits)

lemma module_entries_on:
  fixes c :: "('f, 'n, 't, 'y) tsrs" and f :: 'f and t :: target
  assumes "ts_stable T"
  defines "token \<equiv> tsrs_token_at c f (target_start t)"
  shows "filter (on_node k (deco_key (T_import_source T))) (module_entries T c f t) =
      (if target_node_id t = k \<and> tsrs_end c token = Some (target_end t) \<and> tsrs_string_literal_like c token
       then [Entry_new (T_import_source T) k (import_source_of c f token)] else [])"
    and "key \<noteq> deco_key (T_import_source T) \<Longrightarrow> filter (on_node k key) (module_entries T c f t) = []"
  using assms(1) by (auto simp: entries_defs token_def)

lemma entries_keys:
  assumes "ts_stable T"
  shows "e \<in> set (value_entries T c f t) \<Longrightarrow> entry_key e \<in> set (ts_keys T)"
    and "e \<in> set (function_entries T c f t) \<Longrightarrow> entry_key e \<in> set (ts_keys T)"
    and "e \<in> set (module_entries T c f t) \<Longrightarrow> entry_key e \<in> set (ts_keys T)"
  using value_entries_on(4) [OF assms, where key = "entry_key e" and k = "entry_node_id e" and c = c and f = f and t = t]
    function_entries_on(2) [OF assms, where key = "entry_key e" and k = "entry_node_id e" and c = c and f = f and t = t]
    module_entries_on(2) [OF assms, where key = "entry_key e" and k = "entry_node_id e" and c = c and f = f and t = t]
  by (auto simp: ts_keys_def filter_empty_conv)

lemma filter_concat_cases:
  "filter P (concat (map (\<lambda>n. case g n of None \<Rightarrow> [] | Some t \<Rightarrow> es t) ns))
   = concat (map (\<lambda>n. case g n of None \<Rightarrow> [] | Some t \<Rightarrow> filter P (es t)) ns)"
  by (induction ns) (simp_all split: option.splits)

text \<open>The module that an import or a re-export at a node names, at the string that names it.\<close>

definition imported_module :: "('f, 'n, 't, 'y) tsrs \<Rightarrow> 'f \<Rightarrow> 'e decorated_node \<Rightarrow> (nat \<times> import_source) option" where
  "imported_module c f n = Option.bind (module_target n) (\<lambda>t.
     let token = tsrs_token_at c f (target_start t)
     in if tsrs_end c token = Some (target_end t) \<and> tsrs_string_literal_like c token
        then Some (target_node_id t, import_source_of c f token) else None)"

text \<open>What the nodes of an identity have to say: the first answer among them, in document order.\<close>

definition answer_at :: "'e decorated_node list \<Rightarrow> nat \<Rightarrow> ('e decorated_node \<Rightarrow> 'v option) \<Rightarrow> 'v option" where
  "answer_at ns k g = find_map (\<lambda>n. if dn_id n = k then g n else None) ns"

lemma answer_at_distinct: "distinct (map dn_id ns) \<Longrightarrow> n \<in> set ns \<Longrightarrow> answer_at ns (dn_id n) g = g n"
proof (induction ns)
  case (Cons x ns)
  have none: "answer_at ns (dn_id x) g = None" if "dn_id x \<notin> dn_id ` set ns"
    using that unfolding answer_at_def by (induction ns) auto
  from Cons show ?case
    by (cases "n = x") (auto simp: answer_at_def split: option.splits dest: none [unfolded answer_at_def])
qed simp

lemma read_first:
  assumes stable: "stable_downcast D" and h: "\<And>n. h n = (case g n of None \<Rightarrow> [] | Some v \<Rightarrow> [Entry_new D k v])"
  shows "(case concat (map h ns) of [] \<Rightarrow> None | e # _ \<Rightarrow> entry_read D e) = find_map g ns"
proof (induction ns)
  case (Cons n ns)
  then show ?case using stable by (cases "g n") (simp_all add: h entry_read_def Entry_new_def stable_downcast_def)
qed simp

text \<open>
  C20: What the TypeScript provider attaches is what the checker says, where it says it, and nothing
  else. For a file it covers, the checker's own file at the absolute path of the tree, whose text is
  the text that was parsed: reading the text of a type, a type or a string union at a node gives the
  answer for the token that starts and ends with the node, when the node is an identifier and there
  is such a token; reading a signature gives that of the declaration whose name the checker finds at
  the name of the function; reading an import gives where the module comes from that the string of
  an import or export statement names. Every other node and every other kind of decoration reads as
  nothing.
\<close>

theorem ts_decorate_reads:
  assumes covered: "ts_decorate T cwd prov tree = Ok (Covered m)" and stable: "ts_stable T"
  shows "\<exists>p f. let c = tsp_program prov; ns = visited_nodes (dt_root_node tree) in
     absolute_path cwd (as_path (dt_file tree)) = Ok p \<and> Option.bind (to_str p) (tsrs_source_file c) = Some f \<and>
     tsrs_text c f = dt_source tree \<and>
     (\<forall>k. fst (map_get (T_type_text T) k m) =
            answer_at ns k (\<lambda>n. map_option (\<lambda>t. tsrs_type_string c (tsrs_type_at c t)) (value_token c f n)) \<and>
          fst (map_get (T_resolved_type T) k m) =
            answer_at ns k (\<lambda>n. map_option (\<lambda>t. resolved_type_of c (tsrs_type_at c t)
              (Option.bind (tsrs_symbol_at c t) (tsrs_declaration c))) (value_token c f n)) \<and>
          fst (map_get (T_string_union T) k m) =
            answer_at ns k (\<lambda>n. Option.bind (value_token c f n) (\<lambda>t. string_union_of c (tsrs_type_at c t))) \<and>
          fst (map_get (T_fn_signature T) k m) = answer_at ns k (declared_signature c f) \<and>
          fst (map_get (T_import_source T) k m) =
            find_map (\<lambda>n. case imported_module c f n of Some (node, source) \<Rightarrow> if node = k then Some source else None
              | None \<Rightarrow> None) ns) \<and>
     (\<forall>e \<in> set (map_entries m). entry_key e \<in> set (ts_keys T))"
proof -
  let ?c = "tsp_program prov" and ?ns = "visited_nodes (dt_root_node tree)"
  from ts_decorate_entries [OF covered] obtain p f where invar: "map_invar m"
    and at: "absolute_path cwd (as_path (dt_file tree)) = Ok p" "Option.bind (to_str p) (tsrs_source_file ?c) = Some f"
      "tsrs_text ?c f = dt_source tree"
    and entries: "map_entries m = concat (map (\<lambda>n. case value_target n of None \<Rightarrow> [] | Some t \<Rightarrow> value_entries T ?c f t) ?ns)
       @ concat (map (\<lambda>n. case function_target n of None \<Rightarrow> [] | Some t \<Rightarrow> function_entries T ?c f t) ?ns)
       @ concat (map (\<lambda>n. case module_target n of None \<Rightarrow> [] | Some t \<Rightarrow> module_entries T ?c f t) ?ns)"
    by (auto simp: Let_def)
  note on = value_entries_on [OF stable] function_entries_on [OF stable] module_entries_on [OF stable]
  have none: "concat (map (\<lambda>n. case g n of None \<Rightarrow> [] | Some (t :: target) \<Rightarrow> []) ?ns) = ([] :: 'a entry list)" for g
    by (simp split: option.splits)
  have keys: "deco_key (T_fn_signature T) \<notin> {deco_key (T_type_text T), deco_key (T_resolved_type T), deco_key (T_string_union T)}"
    "deco_key (T_import_source T) \<notin> {deco_key (T_type_text T), deco_key (T_resolved_type T), deco_key (T_string_union T)}"
    "deco_key (T_type_text T) \<noteq> deco_key (T_fn_signature T)" "deco_key (T_resolved_type T) \<noteq> deco_key (T_fn_signature T)"
    "deco_key (T_string_union T) \<noteq> deco_key (T_fn_signature T)" "deco_key (T_import_source T) \<noteq> deco_key (T_fn_signature T)"
    "deco_key (T_type_text T) \<noteq> deco_key (T_import_source T)" "deco_key (T_resolved_type T) \<noteq> deco_key (T_import_source T)"
    "deco_key (T_string_union T) \<noteq> deco_key (T_import_source T)" "deco_key (T_fn_signature T) \<noteq> deco_key (T_import_source T)"
    using stable by (auto simp: ts_stable_def ts_keys_def)
  note read = map_get_entries [OF invar] entries filter_append filter_concat_cases
  have stables: "stable_downcast (T_type_text T)" "stable_downcast (T_resolved_type T)" "stable_downcast (T_string_union T)"
    "stable_downcast (T_fn_signature T)" "stable_downcast (T_import_source T)"
    using stable by (simp_all add: ts_stable_def)
  have "fst (map_get (T_type_text T) k m) =
      answer_at ?ns k (\<lambda>n. map_option (\<lambda>t. tsrs_type_string ?c (tsrs_type_at ?c t)) (value_token ?c f n))" for k
    unfolding read on(6) [OF keys(3)] on(8) [OF keys(7)] none append_Nil2 answer_at_def
  proof (rule read_first [OF stables(1)])
    fix n
    show "(case value_target n of None \<Rightarrow> [] | Some t \<Rightarrow> filter (on_node k (deco_key (T_type_text T))) (value_entries T ?c f t)) =
        (case (if dn_id n = k then map_option (\<lambda>t. tsrs_type_string ?c (tsrs_type_at ?c t)) (value_token ?c f n) else None) of
          None \<Rightarrow> [] | Some v \<Rightarrow> [Entry_new (T_type_text T) k v])"
      by (cases "value_target n") (simp_all add: on(1) target_ids value_token_def Let_def)
  qed
  moreover have "fst (map_get (T_resolved_type T) k m) =
      answer_at ?ns k (\<lambda>n. map_option (\<lambda>t. resolved_type_of ?c (tsrs_type_at ?c t)
        (Option.bind (tsrs_symbol_at ?c t) (tsrs_declaration ?c))) (value_token ?c f n))" for k
    unfolding read on(6) [OF keys(4)] on(8) [OF keys(8)] none append_Nil2 answer_at_def
  proof (rule read_first [OF stables(2)])
    fix n
    show "(case value_target n of None \<Rightarrow> [] | Some t \<Rightarrow> filter (on_node k (deco_key (T_resolved_type T))) (value_entries T ?c f t)) =
        (case (if dn_id n = k then map_option (\<lambda>t. resolved_type_of ?c (tsrs_type_at ?c t)
            (Option.bind (tsrs_symbol_at ?c t) (tsrs_declaration ?c))) (value_token ?c f n) else None) of
          None \<Rightarrow> [] | Some v \<Rightarrow> [Entry_new (T_resolved_type T) k v])"
      by (cases "value_target n") (simp_all add: on(2) target_ids value_token_def Let_def)
  qed
  moreover have "fst (map_get (T_string_union T) k m) =
      answer_at ?ns k (\<lambda>n. Option.bind (value_token ?c f n) (\<lambda>t. string_union_of ?c (tsrs_type_at ?c t)))" for k
    unfolding read on(6) [OF keys(5)] on(8) [OF keys(9)] none append_Nil2 answer_at_def
  proof (rule read_first [OF stables(3)])
    fix n
    show "(case value_target n of None \<Rightarrow> [] | Some t \<Rightarrow> filter (on_node k (deco_key (T_string_union T))) (value_entries T ?c f t)) =
        (case (if dn_id n = k then Option.bind (value_token ?c f n) (\<lambda>t. string_union_of ?c (tsrs_type_at ?c t)) else None) of
          None \<Rightarrow> [] | Some v \<Rightarrow> [Entry_new (T_string_union T) k v])"
      by (cases "value_target n") (simp_all add: on(3) target_ids value_token_def Let_def)
  qed
  moreover have "fst (map_get (T_fn_signature T) k m) = answer_at ?ns k (declared_signature ?c f)" for k
    unfolding read on(4) [OF keys(1)] on(8) [OF keys(10)] none append_Nil append_Nil2 answer_at_def
  proof (rule read_first [OF stables(4)])
    fix n
    show "(case function_target n of None \<Rightarrow> [] | Some t \<Rightarrow> filter (on_node k (deco_key (T_fn_signature T))) (function_entries T ?c f t)) =
        (case (if dn_id n = k then declared_signature ?c f n else None) of None \<Rightarrow> [] | Some v \<Rightarrow> [Entry_new (T_fn_signature T) k v])"
      by (cases "function_target n") (simp_all add: on(5) target_ids declared_signature_def Let_def)
  qed
  moreover have "fst (map_get (T_import_source T) k m) = find_map (\<lambda>n. case imported_module ?c f n of
      Some (node, source) \<Rightarrow> if node = k then Some source else None | None \<Rightarrow> None) ?ns" for k
    unfolding read on(4) [OF keys(2)] on(6) [OF keys(6)] none append_Nil
  proof (rule read_first [OF stables(5)])
    fix n
    show "(case module_target n of None \<Rightarrow> [] | Some t \<Rightarrow> filter (on_node k (deco_key (T_import_source T))) (module_entries T ?c f t)) =
        (case (case imported_module ?c f n of Some (node, source) \<Rightarrow> if node = k then Some source else None | None \<Rightarrow> None) of
          None \<Rightarrow> [] | Some v \<Rightarrow> [Entry_new (T_import_source T) k v])"
      by (cases "module_target n") (simp_all add: on(7) imported_module_def Let_def)
  qed
  moreover have "\<forall>e \<in> set (map_entries m). entry_key e \<in> set (ts_keys T)"
    unfolding entries by (auto dest: entries_keys [OF stable] split: option.splits)
  ultimately show ?thesis using at by (intro exI [of _ p] exI [of _ f]) (simp only: Let_def simp_thms)
qed

text \<open>The text the loaded project holds for the file of a tree.\<close>

definition ts_held_text :: "(path, io_error) result \<Rightarrow> ('f, 'n, 't, 'y) typescript_provider \<Rightarrow> 'e decorated_tree \<Rightarrow> string option" where
  "ts_held_text cwd prov tree =
     (case absolute_path cwd (as_path (dt_file tree)) of
        Inl _ \<Rightarrow> None
      | Inr p \<Rightarrow> map_option (tsrs_text (tsp_program prov)) (Option.bind (to_str p) (tsrs_source_file (tsp_program prov))))"

interpretation tsd: decoration_source "\<lambda>tree. Some (ts_decorate T cwd prov tree)" "ts_held_text cwd prov"
proof
  fix tree m
  assume covered: "Some (ts_decorate T cwd prov tree) = Some (Ok (Covered m))"
  then show "ts_held_text cwd prov tree = Some (dt_source tree)"
    by (auto simp: ts_decorate_def ts_held_text_def result_bind_eq_Ok Let_def map_err_def split: option.splits if_splits sum.splits)
  from covered ts_decorate_entries [of T cwd prov tree m] show "map_invar m" by auto
qed

text \<open>A file \<open>x\<close> whose one identifier is a number.\<close>

type_synonym example_erased = "string + resolved_type + string list + fn_signature + import_source"

definition example_types :: "example_erased ts_types" where
  "example_types =
     \<lparr>T_type_text = \<lparr>deco_key = DecorationKey ''text'', deco_erase = Inl, deco_downcast = (\<lambda>e. case e of Inl v \<Rightarrow> Some v | _ \<Rightarrow> None)\<rparr>,
      T_resolved_type = \<lparr>deco_key = DecorationKey ''type'', deco_erase = Inr \<circ> Inl,
        deco_downcast = (\<lambda>e. case e of Inr (Inl v) \<Rightarrow> Some v | _ \<Rightarrow> None)\<rparr>,
      T_string_union = \<lparr>deco_key = DecorationKey ''union'', deco_erase = Inr \<circ> Inr \<circ> Inl,
        deco_downcast = (\<lambda>e. case e of Inr (Inr (Inl v)) \<Rightarrow> Some v | _ \<Rightarrow> None)\<rparr>,
      T_fn_signature = \<lparr>deco_key = DecorationKey ''fn'', deco_erase = Inr \<circ> Inr \<circ> Inr \<circ> Inl,
        deco_downcast = (\<lambda>e. case e of Inr (Inr (Inr (Inl v))) \<Rightarrow> Some v | _ \<Rightarrow> None)\<rparr>,
      T_import_source = \<lparr>deco_key = DecorationKey ''import'', deco_erase = Inr \<circ> Inr \<circ> Inr \<circ> Inr,
        deco_downcast = (\<lambda>e. case e of Inr (Inr (Inr (Inr v))) \<Rightarrow> Some v | _ \<Rightarrow> None)\<rparr>\<rparr>"

definition example_tsrs :: "(unit, nat, unit, unit) tsrs" where
  "example_tsrs =
     \<lparr>tsrs_source_file = (\<lambda>p. Some ()), tsrs_text = (\<lambda>f. ''x''), tsrs_property_name_at = (\<lambda>f s. s), tsrs_token_at = (\<lambda>f s. s),
      tsrs_end = (\<lambda>n. Some (Suc n)), tsrs_parent = (\<lambda>n. None), tsrs_kind = (\<lambda>n. ''Identifier''),
      tsrs_string_literal_like = (\<lambda>n. False), tsrs_node_text = (\<lambda>n. ''x''), tsrs_annotation = (\<lambda>n. None), tsrs_type_name = (\<lambda>n. n),
      tsrs_symbol_at = (\<lambda>n. None), tsrs_symbol_name = (\<lambda>y. ''x''), tsrs_symbol_flags = (\<lambda>y. 0), tsrs_declaration = (\<lambda>y. None),
      tsrs_type_of_symbol = (\<lambda>y. ()), tsrs_type_at = (\<lambda>n. ()), tsrs_type_string = (\<lambda>t. ''number''), tsrs_type_alias = (\<lambda>t. None),
      tsrs_flags = (\<lambda>t. flag 6), tsrs_members = (\<lambda>t. []), tsrs_is_string_literal = (\<lambda>t. False), tsrs_literal = (\<lambda>t. None),
      tsrs_parameters = (\<lambda>n. []), tsrs_return_type = (\<lambda>n. ()), tsrs_resolved_module = (\<lambda>f n. None),
      tsrs_include_spec = (\<lambda>s. [])\<rparr>"

definition example_ts_tree :: "example_erased decorated_tree" where
  "example_ts_tree = DecoratedTree_new (TsNode 1 ''program'' 0 1 True None [TsNode 2 ''identifier'' 0 1 True None []])
     TypeScript ''x'' (''/p/x.ts'')"

definition example_ts_provider :: "(unit, nat, unit, unit) typescript_provider" where
  "example_ts_provider = \<lparr>tsp_program = example_tsrs, tsp_root = ''/p''\<rparr>"

lemma example_types_stable: "ts_stable example_types"
  by (simp add: ts_stable_def ts_keys_def example_types_def stable_downcast_def)

lemma example_ts_nodes:
  "visited_nodes (dt_root_node example_ts_tree) = [dt_root_node example_ts_tree, dn_sibling (dt_root_node example_ts_tree) (TsNode 2 ''identifier'' 0 1 True None [])]"
  by (simp add: visited_nodes.simps dn_named_children_eq example_ts_tree_def DecoratedTree_new_def dt_root_node_def
      dn_named_child_count_def ts_named_children_def dn_sibling_def)

lemma example_ts_covered: "\<exists>m. ts_decorate example_types (Ok ''/'') example_ts_provider example_ts_tree = Ok (Covered m)"
proof -
  have "absolute_path (Ok ''/'') (as_path (dt_file example_ts_tree)) = Ok ''/p/x.ts''" by code_simp
  moreover have "to_str ''/p/x.ts'' = Some ''/p/x.ts''" by code_simp
  ultimately show ?thesis
    by (simp add: ts_decorate_def example_ts_provider_def example_tsrs_def Let_def)
      (simp add: example_ts_tree_def DecoratedTree_new_def)
qed

theorem ts_decorate_reads_witness:
  "\<exists>m. ts_decorate example_types (Ok ''/'') example_ts_provider example_ts_tree = Ok (Covered m) \<and>
     fst (map_get (T_type_text example_types) 2 m) = Some ''number''"
proof -
  let ?n = "dn_sibling (dt_root_node example_ts_tree) (TsNode 2 ''identifier'' 0 1 True None [])"
  obtain m where m: "ts_decorate example_types (Ok ''/'') example_ts_provider example_ts_tree = Ok (Covered m)"
    using example_ts_covered by blast
  from ts_decorate_reads [OF m example_types_stable] m show ?thesis
    unfolding example_ts_nodes
    by (auto simp: Let_def answer_at_def dt_root_node_def example_ts_tree_def DecoratedTree_new_def value_token_def value_target_def typed_kinds_def Target_new_def u32_try_from_def ts_end_def dn_kind_def
        dn_id_def dn_sibling_def example_ts_provider_def example_tsrs_def)
qed

end
