(* ===== verification/TsNormalize.thy ===== *)
theory TsNormalize
  imports TsPath
begin

text \<open>
  Normal forms of paths: \<open>simple_normalize_path\<close>, \<open>get_normalized_absolute_path\<close>, \<open>normalize_path\<close>,
  directories and base names, of \<open>crates/stiles-tsrs/tsrs_core/src/tspath/path.rs\<close>.
\<close>

section \<open>Normalizing text\<close>

text \<open>\<open>path.replace("/./", "/")\<close>, left to right and without overlaps.\<close>

fun replace_dots :: "string \<Rightarrow> string" where
  "replace_dots (a # b # c # s) =
     (if a = slash \<and> b = CHR ''.'' \<and> c = slash then slash # replace_dots s else a # replace_dots (b # c # s))"
| "replace_dots s = s"

definition simple_normalize_path :: "string \<Rightarrow> string option" where
  "simple_normalize_path p =
     (if \<not> has_relative_path_segment p then Some p
      else let simplified = replace_dots p;
               trimmed = (case strip_prefix simplified ''./'' of Some r \<Rightarrow> r | None \<Rightarrow> simplified)
           in if trimmed \<noteq> p \<and> \<not> has_relative_path_segment trimmed \<and> \<not> (trimmed \<noteq> simplified \<and> starts_with trimmed [slash])
              then Some trimmed else None)"

definition seen_non_dot_dot :: "nat \<Rightarrow> string \<Rightarrow> bool" where
  "seen_non_dot_dot root_length normalized \<longleftrightarrow>
     (length normalized \<noteq> root_length \<or> root_length \<noteq> 0) \<and> normalized \<noteq> ''..'' \<and> \<not> ends_with normalized ''/..''"

text \<open>\<open>normalized\<close> is initialized once the path is known not to be normal, when \<open>changed\<close> is set.\<close>

record norm_state =
  ns_changed :: bool
  ns_normalized :: string
  ns_up_to :: nat
  ns_seen :: bool

definition segment_end :: "string \<Rightarrow> nat \<Rightarrow> nat" where
  "segment_end fb index = (case find_char slash (drop (index + 1) fb) of None \<Rightarrow> length fb | Some e \<Rightarrow> e + index + 1)"

text \<open>
  A superfluous separator, from \<open>start\<close> on. A path without a root does not start with a separator, so
  \<open>start\<close> is positive and the subtraction of the code does not wrap.
\<close>

definition normalize_separator :: "string \<Rightarrow> nat \<Rightarrow> nat \<Rightarrow> norm_state \<Rightarrow> norm_state" where
  "normalize_separator fb root_length start st =
     (if ns_changed st then st
      else st\<lparr>ns_normalized := take (max root_length (start - 1)) fb, ns_changed := True\<rparr>)"

text \<open>The segment at \<open>index\<close>.\<close>

definition normalize_segment :: "string \<Rightarrow> nat \<Rightarrow> nat \<Rightarrow> norm_state \<Rightarrow> norm_state" where
  "normalize_segment fb root_length index st =
     (let end = segment_end fb index;
          segment = take (end - index) (drop index fb);
          normalized = ns_normalized st;
          up_to = ns_up_to st
      in if segment = ''.'' then
           (if ns_changed st then st else st\<lparr>ns_normalized := take up_to fb, ns_changed := True\<rparr>)
         else if segment = ''..'' then
           (if \<not> ns_seen st then
              (if ns_changed st
               then st\<lparr>ns_normalized := normalized @ (if length normalized = root_length then ''..'' else ''/..'')\<rparr>
               else st\<lparr>ns_up_to := index + 2\<rparr>)
            else if \<not> ns_changed st then
              (let normalized =
                     (if 1 \<le> up_to
                      then take (case last_index_byte (take (up_to - 1) fb) slash of None \<Rightarrow> root_length | Some i \<Rightarrow> max root_length i) fb
                      else take up_to fb)
               in st\<lparr>ns_normalized := normalized, ns_changed := True, ns_seen := seen_non_dot_dot root_length normalized\<rparr>)
            else
              (let normalized =
                     (case last_index_byte normalized slash of
                        Some last_slash \<Rightarrow> take (max root_length last_slash) normalized
                      | None \<Rightarrow> take root_length fb)
               in st\<lparr>ns_normalized := normalized, ns_seen := seen_non_dot_dot root_length normalized\<rparr>))
         else if ns_changed st then
           st\<lparr>ns_normalized := (if length normalized \<noteq> root_length then normalized @ [slash] else normalized) @ segment, ns_seen := True\<rparr>
         else st\<lparr>ns_seen := True, ns_up_to := end\<rparr>)"

lemma segment_end_later: "index < length fb \<Longrightarrow> index < segment_end fb index"
  by (auto simp: segment_end_def split: option.splits)

lemma slashes_bound: "i < length fb \<Longrightarrow> i + length (takeWhile P (drop i fb)) \<le> length fb"
  using length_takeWhile_le [of P "drop i fb"] by simp

function normalize_loop :: "string \<Rightarrow> nat \<Rightarrow> nat \<Rightarrow> norm_state \<Rightarrow> norm_state" where
  "normalize_loop fb root_length index st =
     (if index < length fb then
        (let start = index;
             index = index + length (takeWhile (\<lambda>c. c = slash) (drop index fb));
             st = (if start < index then normalize_separator fb root_length start st else st)
         in if index = length fb then st
            else normalize_loop fb root_length (segment_end fb index + 1) (normalize_segment fb root_length index st))
      else st)"
  by pat_completeness auto

termination
proof (relation "measure (\<lambda>(fb, root_length, index, st). length fb - index)")
  fix fb :: string and root_length index x xa :: nat and st xb :: norm_state
  assume x: "index < length fb" "x = index" "xa = index + length (takeWhile (\<lambda>c. c = slash) (drop index fb))" "xa \<noteq> length fb"
  then have "xa < length fb" using slashes_bound [of index fb "\<lambda>c. c = slash"] by linarith
  then have "xa < segment_end fb xa" by (rule segment_end_later)
  with x have "length fb - (segment_end fb xa + 1) < length fb - index" by linarith
  then show "((fb, root_length, segment_end fb xa + 1, normalize_segment fb root_length xa xb), fb, root_length, index, st)
      \<in> measure (\<lambda>(fb, root_length, index, st). length fb - index)" by simp
qed simp

declare normalize_loop.simps [simp del]

definition get_normalized_absolute_path :: "string \<Rightarrow> string \<Rightarrow> string" where
  "get_normalized_absolute_path file_name current_directory =
     (let file_name =
        (if get_root_length file_name = 0 \<and> current_directory \<noteq> [] then combine_paths current_directory [file_name]
         else normalize_slashes file_name);
          root_length = get_root_length file_name
      in case simple_normalize_path file_name of
           Some simple_normalized \<Rightarrow>
             (if root_length < length simple_normalized then remove_trailing_directory_separator simple_normalized
              else if length simple_normalized = root_length \<and> root_length \<noteq> 0 then ensure_trailing_directory_separator simple_normalized
              else simple_normalized)
         | None \<Rightarrow>
             (let st = normalize_loop file_name root_length root_length
                \<lparr>ns_changed = False, ns_normalized = [], ns_up_to = root_length, ns_seen = root_length \<noteq> 0\<rparr>
              in if ns_changed st then ns_normalized st
                 else if root_length < length file_name then remove_trailing_directory_separators file_name
                 else if length file_name = root_length then ensure_trailing_directory_separator file_name
                 else file_name))"

definition normalize_path :: "string \<Rightarrow> string" where
  "normalize_path p =
     (let p = normalize_slashes p in
      case simple_normalize_path p of
        Some normalized \<Rightarrow> normalized
      | None \<Rightarrow>
          (let normalized = get_normalized_absolute_path p []
           in if normalized \<noteq> [] \<and> has_trailing_directory_separator p then ensure_trailing_directory_separator normalized
              else normalized))"

definition resolve_path :: "string \<Rightarrow> string list \<Rightarrow> string" where
  "resolve_path p paths = normalize_path (if paths = [] then normalize_slashes p else combine_paths p paths)"

section \<open>Directories\<close>

definition get_directory_path :: "string \<Rightarrow> string" where
  "get_directory_path p =
     (let p = normalize_slashes p; root_length = get_root_length p
      in if root_length = length p then p
         else take (case last_index_byte (remove_trailing_directory_separator p) slash of
                      None \<Rightarrow> root_length | Some i \<Rightarrow> max root_length i) p)"

definition get_base_file_name :: "string \<Rightarrow> string" where
  "get_base_file_name p =
     (let p = normalize_slashes p
      in if get_root_length p = length p then []
         else let trimmed = remove_trailing_directory_separator p;
                  root_length = get_root_length trimmed;
                  base_start = (case last_index_byte trimmed slash of None \<Rightarrow> root_length | Some i \<Rightarrow> max root_length (i + 1))
              in drop base_start trimmed)"

section \<open>Searching backwards\<close>

lemma last_index_None: "last_index_byte s c = None \<longleftrightarrow> c \<notin> set s"
  by (simp add: last_index_byte_def find_char_def)

lemma last_index_append: "c \<notin> set t \<Longrightarrow> last_index_byte (s @ c # t) c = Some (length s)"
proof -
  assume "c \<notin> set t"
  then have "takeWhile (\<lambda>d. d \<noteq> c) (rev t @ c # rev s) = rev t" by (subst takeWhile_append2) auto
  then show ?thesis by (simp add: last_index_byte_def find_char_def)
qed

lemma last_index_less: "last_index_byte s c = Some i \<Longrightarrow> i < length s"
  by (cases s) (auto simp: last_index_byte_def find_char_def)

text \<open>Cutting at the last separator behind the root removes the last segment.\<close>

definition cut_last :: "nat \<Rightarrow> string \<Rightarrow> nat" where
  "cut_last root_length s = (case last_index_byte s slash of None \<Rightarrow> root_length | Some i \<Rightarrow> max root_length i)"

lemma cut_last_root: "length root = n \<Longrightarrow> slash \<notin> set c \<Longrightarrow> cut_last n (root @ c) = n"
proof -
  assume n: "length root = n" and c: "slash \<notin> set c"
  show ?thesis
  proof (cases "slash \<in> set root")
    case True
    then obtain a b where "root = a @ slash # b" "slash \<notin> set b" using split_list_last by metis
    with c n last_index_append [of slash "b @ c" a] show ?thesis by (simp add: cut_last_def)
  next
    case False
    with c have "last_index_byte (root @ c) slash = None" by (simp add: last_index_None)
    then show ?thesis by (simp add: cut_last_def)
  qed
qed

lemma cut_last_segment: "slash \<notin> set c \<Longrightarrow> n \<le> length s \<Longrightarrow> cut_last n (s @ slash # c) = length s"
  by (simp add: cut_last_def last_index_append)

section \<open>Components as text\<close>

abbreviation joined_path :: "string \<Rightarrow> string list \<Rightarrow> string" where
  "joined_path root R \<equiv> root @ join [slash] R"

lemma join_snoc: "join sep (R @ [c]) = (if R = [] then c else join sep R @ sep @ c)"
proof (induction R)
  case (Cons x R)
  then show ?case by (cases R) auto
qed simp

definition plain_components :: "bool \<Rightarrow> string list \<Rightarrow> bool" where
  "plain_components rooted R \<longleftrightarrow> (\<forall>c \<in> set R. c \<noteq> [] \<and> slash \<notin> set c) \<and> (rooted \<longrightarrow> ''..'' \<notin> set R)"

definition reduce_rest :: "bool \<Rightarrow> string \<Rightarrow> string list \<Rightarrow> string list" where
  "reduce_rest rooted c R =
     (if c = [] \<or> c = ''.'' then R
      else if c = ''..'' then
        (if R \<noteq> [] then (if last R \<noteq> ''..'' then butlast R else R @ [c]) else if rooted then R else R @ [c])
      else R @ [c])"

lemma reduce_step_rest: "reduce_step c (root # R) = root # reduce_rest (root \<noteq> []) c R"
  by (cases R) (auto simp: reduce_step.simps reduce_rest_def)

lemma fold_reduce_rest: "fold reduce_step cs (root # R) = root # fold (reduce_rest (root \<noteq> [])) cs R"
  by (induction cs arbitrary: R) (simp_all add: reduce_step_rest)

lemma plain_reduce_rest: "plain_components rooted R \<Longrightarrow> slash \<notin> set c \<Longrightarrow> plain_components rooted (reduce_rest rooted c R)"
  by (auto simp: plain_components_def reduce_rest_def dest: in_set_butlastD last_in_set)

lemma cut_last_joined:
  assumes "plain_components rooted (R @ [c])"
  shows "cut_last (length root) (joined_path root (R @ [c])) = length (joined_path root R)"
    and "cut_last (length root) (butlast (joined_path root (R @ [c]))) = length (joined_path root R)"
proof -
  from assms have c: "slash \<notin> set c" "c \<noteq> []" by (simp_all add: plain_components_def)
  then have b: "slash \<notin> set (butlast c)" by (meson in_set_butlastD)
  show "cut_last (length root) (joined_path root (R @ [c])) = length (joined_path root R)"
    using cut_last_root [of root _ c] cut_last_segment [of c "length root" "joined_path root R"] c by (simp add: join_snoc)
  show "cut_last (length root) (butlast (joined_path root (R @ [c]))) = length (joined_path root R)"
    using cut_last_root [of root _ "butlast c"] cut_last_segment [of "butlast c" "length root" "joined_path root R"] b c
    by (simp add: join_snoc butlast_append)
qed

lemma ends_with_iff: "ends_with s p \<longleftrightarrow> (\<exists>r. s = r @ p)"
  by (auto simp: ends_with_def) (metis append_take_drop_id)

lemma ends_dot_dot: "slash \<notin> set c \<Longrightarrow> ends_with (x @ slash # c) ''/..'' \<longleftrightarrow> c = ''..''"
proof -
  assume c: "slash \<notin> set c"
  have "ends_with (x @ slash # c) ''/..'' \<longleftrightarrow> (\<exists>y. x @ slash # c = y @ slash # ''..'')"
    by (simp add: ends_with_iff slash_def)
  also have "\<dots> \<longleftrightarrow> c = ''..''"
  proof
    assume "\<exists>y. x @ slash # c = y @ slash # ''..''"
    then obtain y where eq: "x @ slash # c = y @ slash # ''..''" by blast
    moreover have "slash \<notin> set ''..''" by (simp add: slash_def)
    ultimately have "length x = length y" using last_index_append [OF c, of x] last_index_append [of slash "''..''" y] by simp
    with eq show "c = ''..''" by simp
  qed auto
  finally show ?thesis .
qed

lemma seen_joined:
  assumes plain: "plain_components (root \<noteq> []) R" and root: "root \<noteq> [] \<Longrightarrow> last root = slash"
  shows "seen_non_dot_dot (length root) (joined_path root R) \<longleftrightarrow> root \<noteq> [] \<or> R \<noteq> [] \<and> last R \<noteq> ''..''"
proof (cases "root = [] \<and> length R \<le> 1")
  case True
  then consider "R = []" | c where "R = [c]" by (cases R) auto
  then show ?thesis
  proof cases
    case 2
    with plain have "slash \<notin> set c" "c \<noteq> []" by (simp_all add: plain_components_def)
    then have "\<not> ends_with c ''/..''" by (auto simp: ends_with_iff slash_def)
    with 2 True \<open>c \<noteq> []\<close> show ?thesis by (auto simp: seen_non_dot_dot_def)
  qed (use True in \<open>simp add: seen_non_dot_dot_def\<close>)
next
  case False
  have "\<exists>x c. joined_path root R = x @ slash # c \<and> slash \<notin> set c \<and> (c = ''..'' \<longleftrightarrow> root = [] \<and> last R = ''..'')"
  proof (cases "R = []")
    case True
    with False root obtain x where "root = x @ [slash]" by (metis append_butlast_last_id le0 list.size(3) zero_le_one)
    with True show ?thesis by (intro exI [of _ x] exI [of _ "[]"]) simp
  next
    case R: False
    then obtain R' c where R': "R = R' @ [c]" by (metis rev_exhaust)
    with plain have c: "slash \<notin> set c" "root \<noteq> [] \<Longrightarrow> c \<noteq> ''..''" by (auto simp: plain_components_def)
    show ?thesis
    proof (cases "R' = []")
      case True
      with False R' have "root \<noteq> []" by simp
      then obtain x where "root = x @ [slash]" using root by (metis append_butlast_last_id)
      with True R' c \<open>root \<noteq> []\<close> show ?thesis by (intro exI [of _ x] exI [of _ c]) simp
    next
      case rest: False
      with R' c show ?thesis by (intro exI [of _ "joined_path root R'"] exI [of _ c]) (auto simp: join_snoc)
    qed
  qed
  then obtain x c where n: "joined_path root R = x @ slash # c" "slash \<notin> set c" "c = ''..'' \<longleftrightarrow> root = [] \<and> last R = ''..''" by blast
  have "x @ slash # c \<noteq> ''..''" by (auto simp: slash_def append_eq_Cons_conv)
  moreover have "length (x @ slash # c) \<noteq> length root \<or> length root \<noteq> 0" by (cases root) auto
  ultimately have "seen_non_dot_dot (length root) (joined_path root R) \<longleftrightarrow> \<not> (root = [] \<and> last R = ''..'')"
    unfolding n seen_non_dot_dot_def using ends_dot_dot [OF n(2)] n(3) by auto
  with False show ?thesis by auto
qed

section \<open>The loop over the segments\<close>

definition norm_inv :: "string \<Rightarrow> nat \<Rightarrow> nat \<Rightarrow> norm_state \<Rightarrow> string list \<Rightarrow> bool" where
  "norm_inv fb n index st R \<longleftrightarrow>
     (if ns_changed st then ns_normalized st = joined_path (take n fb) R
      else ns_up_to st = n + length (join [slash] R) \<and> take (ns_up_to st) fb = joined_path (take n fb) R \<and>
        (if R = [] then index = n else index = ns_up_to st + 1 \<and> (ns_up_to st < length fb \<longrightarrow> fb ! ns_up_to st = slash))) \<and>
     (ns_seen st \<longleftrightarrow> n \<noteq> 0 \<or> R \<noteq> [] \<and> last R \<noteq> ''..'') \<and> plain_components (n \<noteq> 0) R"

lemma norm_inv_unchanged:
  assumes "norm_inv fb n index st R" "\<not> ns_changed st"
  shows "ns_up_to st = n + length (join [slash] R)" "take (ns_up_to st) fb = joined_path (take n fb) R"
    "if R = [] then index = n else index = ns_up_to st + 1 \<and> (ns_up_to st < length fb \<longrightarrow> fb ! ns_up_to st = slash)"
proof -
  from assms(1) have "ns_up_to st = n + length (join [slash] R) \<and> take (ns_up_to st) fb = joined_path (take n fb) R \<and>
      (if R = [] then index = n else index = ns_up_to st + 1 \<and> (ns_up_to st < length fb \<longrightarrow> fb ! ns_up_to st = slash))"
    unfolding norm_inv_def if_not_P [OF assms(2)] by (rule conjunct1)
  then show "ns_up_to st = n + length (join [slash] R)" "take (ns_up_to st) fb = joined_path (take n fb) R"
    "if R = [] then index = n else index = ns_up_to st + 1 \<and> (ns_up_to st < length fb \<longrightarrow> fb ! ns_up_to st = slash)"
    by (blast+)
qed

lemma segment_at:
  assumes "index < length fb" "fb ! index \<noteq> slash"
  shows "take (segment_end fb index - index) (drop index fb) = takeWhile (\<lambda>c. c \<noteq> slash) (drop index fb)"
    and "segment_end fb index = index + length (takeWhile (\<lambda>c. c \<noteq> slash) (drop index fb))"
proof -
  let ?w = "takeWhile (\<lambda>c. c \<noteq> slash) (drop (Suc index) fb)"
  have d: "drop index fb = fb ! index # drop (Suc index) fb" using assms by (simp add: Cons_nth_drop_Suc)
  have "slash \<notin> set (drop (Suc index) fb) \<Longrightarrow> length ?w = length fb - Suc index"
    using takeWhile_eq_all_conv [of "\<lambda>c. c \<noteq> slash" "drop (Suc index) fb"] by (metis length_drop)
  then show until: "segment_end fb index = index + length (takeWhile (\<lambda>c. c \<noteq> slash) (drop index fb))"
    using assms by (auto simp: segment_end_def find_char_def d)
  show "take (segment_end fb index - index) (drop index fb) = takeWhile (\<lambda>c. c \<noteq> slash) (drop index fb)"
    unfolding until by (simp add: takeWhile_eq_take [symmetric])
qed

lemma normalize_separator_inv:
  assumes inv: "norm_inv fb n start st R" and n: "n \<le> length fb"
  shows "norm_inv fb n index (normalize_separator fb n start st) R \<and> ns_changed (normalize_separator fb n start st)"
proof (cases "ns_changed st")
  case False
  have "take (max n (start - 1)) fb = joined_path (take n fb) R"
    using inv False by (cases "R = []") (auto simp: norm_inv_def max_def)
  with inv False show ?thesis by (simp add: norm_inv_def normalize_separator_def)
qed (use inv in \<open>simp add: norm_inv_def normalize_separator_def\<close>)

lemma normalize_segment_pop:
  assumes inv: "norm_inv fb n index st R" and n: "n \<le> length fb" and seen: "ns_seen st"
    and root: "n \<noteq> 0 \<Longrightarrow> last (take n fb) = slash"
    and segment: "take (segment_end fb index - index) (drop index fb) = ''..''"
  shows "norm_inv fb n next (normalize_segment fb n index st) (reduce_rest (n \<noteq> 0) ''..'' R)"
proof -
  let ?root = "take n fb" and ?R = "reduce_rest (n \<noteq> 0) ''..'' R"
  have root_len: "length ?root = n" using n by simp
  have rooted: "?root \<noteq> [] \<longleftrightarrow> n \<noteq> 0" using n by auto
  from inv have plain: "plain_components (n \<noteq> 0) R" and seen': "n \<noteq> 0 \<or> R \<noteq> [] \<and> last R \<noteq> ''..''"
    using seen by (simp_all add: norm_inv_def)
  have not_dots: "R \<noteq> [] \<Longrightarrow> last R \<noteq> ''..''" using seen' plain by (metis last_in_set plain_components_def)
  have R: "?R = butlast R" using seen' not_dots by (auto simp: reduce_rest_def)
  have plain': "plain_components (n \<noteq> 0) (butlast R)" using plain by (auto simp: plain_components_def dest: in_set_butlastD)
  have seen_R: "seen_non_dot_dot n (joined_path ?root (butlast R)) \<longleftrightarrow> n \<noteq> 0 \<or> butlast R \<noteq> [] \<and> last (butlast R) \<noteq> ''..''"
    using seen_joined [of ?root "butlast R"] plain' root rooted root_len by simp
  show ?thesis
  proof (cases "ns_changed st")
    case True
    let ?m = "joined_path ?root R"
    from inv True have m: "ns_normalized st = ?m" by (simp add: norm_inv_def)
    have "(case last_index_byte ?m slash of Some i \<Rightarrow> take (max n i) ?m | None \<Rightarrow> take n fb) = take (cut_last n ?m) ?m"
      using root_len by (auto simp: cut_last_def split: option.splits)
    also have "\<dots> = joined_path ?root (butlast R)"
    proof (cases "R = []")
      case True
      with root_len cut_last_root [of ?root n "[]"] show ?thesis by simp
    next
      case False
      then have "R = butlast R @ [last R]" by simp
      with cut_last_joined(1) [of "n \<noteq> 0" "butlast R" "last R" ?root] plain root_len
      have "cut_last n ?m = length (joined_path ?root (butlast R))" by simp
      moreover have "\<exists>t. ?m = joined_path ?root (butlast R) @ t"
        using join_snoc [of "[slash]" "butlast R" "last R"] False by auto
      ultimately show ?thesis by (metis append_eq_conv_conj)
    qed
    finally show ?thesis
      unfolding R using True m seen_R plain' segment seen
      by (simp add: norm_inv_def normalize_segment_def Let_def)
  next
    case False
    let ?up = "ns_up_to st"
    note up = norm_inv_unchanged(1,2) [OF inv False]
    have le: "length (joined_path ?root (butlast R)) \<le> ?up"
    proof (cases "R = []")
      case False
      then show ?thesis using join_snoc [of "[slash]" "butlast R" "last R"] root_len up(1) by (auto split: if_splits)
    qed (simp add: up root_len)
    have cut: "cut_last n (take (?up - 1) fb) = length (joined_path ?root (butlast R))" if "1 \<le> ?up"
    proof (cases "R = []")
      case True
      have "cut_last n (take (n - 1) fb) = n"
        using last_index_less [of "take (n - 1) fb" slash] by (auto simp: cut_last_def max_def split: option.splits)
      with True up root_len show ?thesis by simp
    next
      case False
      then have "R = butlast R @ [last R]" by simp
      moreover have "take (?up - 1) fb = butlast (take ?up fb)"
      proof -
        have "length (take ?up fb) = ?up" using up root_len by simp
        then have "?up \<le> length fb" by simp
        then show ?thesis by (simp add: butlast_take)
      qed
      ultimately show ?thesis using cut_last_joined(2) [of "n \<noteq> 0" "butlast R" "last R" ?root] plain root_len up by simp
    qed
    have prefix: "take (length (joined_path ?root (butlast R))) fb = joined_path ?root (butlast R)"
    proof -
      have "\<exists>t. joined_path ?root R = joined_path ?root (butlast R) @ t"
        using join_snoc [of "[slash]" "butlast R" "last R"] by (cases "R = []") auto
      then obtain t where t: "joined_path ?root R = joined_path ?root (butlast R) @ t" ..
      define m where "m = joined_path ?root (butlast R)"
      have "take (length m) fb = take (length m) (take ?up fb)" using le by (simp add: min_def m_def)
      also have "\<dots> = take (length m) (m @ t)" by (simp only: up(2) t m_def)
      also have "\<dots> = m" by simp
      finally show ?thesis unfolding m_def .
    qed
    have "1 \<le> ?up" using seen' up(1) plain by (cases R) (auto simp: plain_components_def join_Cons Suc_le_eq)
    with cut prefix have "take (case last_index_byte (take (?up - 1) fb) slash of None \<Rightarrow> n | Some i \<Rightarrow> max n i) fb
        = joined_path ?root (butlast R)"
      by (simp add: cut_last_def)
    with \<open>1 \<le> ?up\<close> False seen_R plain' segment seen show ?thesis
      unfolding R by (simp add: norm_inv_def normalize_segment_def Let_def)
  qed
qed

lemma normalize_segment_push:
  assumes inv: "norm_inv fb n index st R" and n: "n \<le> length fb"
    and index: "n \<le> index" "index < length fb" "fb ! index \<noteq> slash"
    and w: "w = takeWhile (\<lambda>c. c \<noteq> slash) (drop index fb)" "w \<noteq> ''.''" "w = ''..'' \<Longrightarrow> \<not> ns_seen st"
  shows "norm_inv fb n (segment_end fb index + 1) (normalize_segment fb n index st) (R @ [w])"
proof -
  let ?root = "take n fb"
  note segment = segment_at [OF index(2,3), folded w(1)]
  have root_len: "length ?root = n" using n by simp
  have w_ne: "w \<noteq> []" "slash \<notin> set w" using index by (auto simp: w Cons_nth_drop_Suc [symmetric] dest: set_takeWhileD)
  from inv have plain: "plain_components (n \<noteq> 0) R" and seen: "ns_seen st \<longleftrightarrow> n \<noteq> 0 \<or> R \<noteq> [] \<and> last R \<noteq> ''..''"
    by (simp_all add: norm_inv_def)
  have plain': "plain_components (n \<noteq> 0) (R @ [w])" using plain w_ne w(3) seen by (auto simp: plain_components_def)
  have seen': "(if w = ''..'' then ns_seen st else True) \<longleftrightarrow> n \<noteq> 0 \<or> w \<noteq> ''..''" using w(3) seen by auto
  show ?thesis
  proof (cases "ns_changed st")
    case True
    from inv True have m: "ns_normalized st = joined_path ?root R" by (simp add: norm_inv_def)
    have empty: "length (joined_path ?root R) = n \<longleftrightarrow> R = []"
      using plain root_len by (cases R) (auto simp: plain_components_def join_Cons)
    have shown: "joined_path ?root (R @ [w]) = (if R = [] then ?root @ w else joined_path ?root R @ slash # w)" by (simp add: join_snoc)
    have dots: "''/..'' = slash # ''..''" by (simp add: slash_def)
    show ?thesis
      using True m empty shown plain' seen' segment w(2,3)
      by (cases "w = ''..''") (auto simp: norm_inv_def normalize_segment_def Let_def dots)
  next
    case False
    let ?up = "ns_up_to st"
    note up = norm_inv_unchanged [OF inv False]
    have before: "take index fb = (if R = [] then ?root else joined_path ?root R @ [slash])"
      using up index by (auto simp: take_Suc_conv_app_nth split: if_splits)
    have upto: "take (index + length w) fb = take index fb @ w"
      using segment(1) by (simp add: take_add segment(2))
    have shown: "take (index + length w) fb = joined_path ?root (R @ [w])"
      unfolding upto before by (simp add: join_snoc)
    have len: "index + length w = n + length (join [slash] (R @ [w]))"
      using up index by (auto simp: join_snoc split: if_splits)
    have next_slash: "fb ! (index + length w) = slash" if "index + length w < length fb"
    proof -
      have "length w < length (drop index fb)" using that by simp
      from nth_length_takeWhile [OF this [unfolded w(1)]] show ?thesis using that by (simp add: w(1))
    qed
    have two: "w = ''..'' \<Longrightarrow> index + 2 = index + length w" by simp
    show ?thesis
      using False shown len next_slash plain' seen' segment w(2,3) two
      by (cases "w = ''..''") (auto simp: norm_inv_def normalize_segment_def Let_def)
  qed
qed

lemma normalize_segment_dot:
  assumes inv: "norm_inv fb n index st R" and segment: "take (segment_end fb index - index) (drop index fb) = ''.''"
  shows "norm_inv fb n next (normalize_segment fb n index st) R"
  using assms by (cases "ns_changed st") (auto simp: norm_inv_def normalize_segment_def Let_def)

lemma normalize_segment_inv:
  assumes inv: "norm_inv fb n index st R" and n: "n \<le> length fb" and root: "n \<noteq> 0 \<Longrightarrow> last (take n fb) = slash"
    and index: "n \<le> index" "index < length fb" "fb ! index \<noteq> slash"
    and w: "w = takeWhile (\<lambda>c. c \<noteq> slash) (drop index fb)"
  shows "norm_inv fb n (segment_end fb index + 1) (normalize_segment fb n index st) (reduce_rest (n \<noteq> 0) w R)"
proof -
  note segment = segment_at [OF index(2,3), folded w]
  have "w \<noteq> []" using index by (auto simp: w Cons_nth_drop_Suc [symmetric])
  from inv have seen: "ns_seen st \<longleftrightarrow> n \<noteq> 0 \<or> R \<noteq> [] \<and> last R \<noteq> ''..''" by (simp add: norm_inv_def)
  consider "w = ''.''" | "w = ''..''" "ns_seen st" | "w \<noteq> ''.''" "w = ''..'' \<longrightarrow> \<not> ns_seen st" by blast
  then show ?thesis
  proof cases
    case 1
    with normalize_segment_dot [OF inv] segment show ?thesis by (simp add: reduce_rest_def)
  next
    case 2
    with normalize_segment_pop [OF inv n _ root] segment show ?thesis by simp
  next
    case 3
    with seen \<open>w \<noteq> []\<close> have "reduce_rest (n \<noteq> 0) w R = R @ [w]" by (auto simp: reduce_rest_def)
    with normalize_segment_push [OF inv n index w] 3 show ?thesis by simp
  qed
qed

lemma drop_takeWhile: "drop (i + length (takeWhile P (drop i s))) s = dropWhile P (drop i s)"
  by (simp add: dropWhile_eq_drop add.commute)

lemma normalize_loop_inv:
  assumes "norm_inv fb n index st R" "n \<le> length fb" "n \<noteq> 0 \<Longrightarrow> last (take n fb) = slash" "n \<le> index"
  shows "\<exists>final. length fb \<le> final \<and>
     norm_inv fb n final (normalize_loop fb n index st) (fold (reduce_rest (n \<noteq> 0)) (split_char slash (drop index fb)) R)"
  using assms
proof (induction fb n index st arbitrary: R rule: normalize_loop.induct)
  case (1 fb n index st)
  let ?f = "reduce_rest (n \<noteq> 0)"
  let ?j = "index + length (takeWhile (\<lambda>c. c = slash) (drop index fb))"
  let ?st = "if index < ?j then normalize_separator fb n index st else st"
  have f: "?f [] = id" by (simp add: reduce_rest_def fun_eq_iff)
  have j: "drop ?j fb = dropWhile (\<lambda>c. c = slash) (drop index fb)" by (rule drop_takeWhile)
  have skip: "fold ?f (split_char slash (drop index fb)) R = fold ?f (split_char slash (drop ?j fb)) R"
    using fold_split_skip [of ?f slash "drop index fb"] f j by simp
  have inv: "norm_inv fb n ?j ?st R"
    using normalize_separator_inv [OF 1(2,3), of ?j] 1(2) by auto
  show ?case
  proof (cases "index < length fb")
    case False
    then have "normalize_loop fb n index st = st" by (simp add: normalize_loop.simps)
    with False 1(2) f show ?thesis by (intro exI [of _ index]) simp
  next
    case inside: True
    show ?thesis
    proof (cases "?j = length fb")
      case True
      then have "normalize_loop fb n index st = ?st" using inside by (simp add: normalize_loop.simps [of fb n index] Let_def)
      with True inv skip f show ?thesis by (intro exI [of _ ?j]) simp
    next
      case more: False
      then have lt: "?j < length fb" using slashes_bound [OF inside, of "\<lambda>c. c = slash"] by linarith
      then have "drop ?j fb \<noteq> []" by simp
      then have not_slash: "fb ! ?j \<noteq> slash"
        using hd_dropWhile [of "\<lambda>c. c = slash" "drop index fb"] lt unfolding j [symmetric] by (simp add: hd_drop_conv_nth)
      define w where "w = takeWhile (\<lambda>c. c \<noteq> slash) (drop ?j fb)"
      have step: "norm_inv fb n (segment_end fb ?j + 1) (normalize_segment fb n ?j ?st) (?f w R)"
        using normalize_segment_inv [OF inv 1(3,4) _ lt not_slash w_def] 1(5) by simp
      have loop: "normalize_loop fb n index st = normalize_loop fb n (segment_end fb ?j + 1) (normalize_segment fb n ?j ?st)"
        using inside more by (simp add: normalize_loop.simps [of fb n index] Let_def)
      have rest: "fold ?f (split_char slash (drop ?j fb)) R = fold ?f (split_char slash (drop (segment_end fb ?j + 1) fb)) (?f w R)"
      proof -
        have "drop (segment_end fb ?j) fb = dropWhile (\<lambda>c. c \<noteq> slash) (drop ?j fb)"
          unfolding segment_at(2) [OF lt not_slash] by (rule drop_takeWhile)
        then have tail: "drop (segment_end fb ?j + 1) fb = tl (dropWhile (\<lambda>c. c \<noteq> slash) (drop ?j fb))"
          by (simp add: drop_Suc tl_drop flip: \<open>drop (segment_end fb ?j) fb = dropWhile (\<lambda>c. c \<noteq> slash) (drop ?j fb)\<close>)
        show ?thesis
        proof (cases "dropWhile (\<lambda>c. c \<noteq> slash) (drop ?j fb)")
          case Nil
          have "split_char slash (drop ?j fb) = [w]" using split_char_takeWhile [of slash "drop ?j fb"] unfolding Nil w_def by simp
          moreover have "drop (segment_end fb ?j + 1) fb = []" unfolding tail Nil by simp
          ultimately show ?thesis using f by (simp only: split_char.simps fold_simps id_apply)
        next
          case (Cons c t)
          have "split_char slash (drop ?j fb) = w # split_char slash t"
            using split_char_takeWhile [of slash "drop ?j fb"] unfolding Cons w_def by simp
          moreover have "drop (segment_end fb ?j + 1) fb = t" unfolding tail Cons by simp
          ultimately show ?thesis by (simp only: fold_simps)
        qed
      qed
      have "n \<le> segment_end fb ?j + 1" using segment_end_later [OF lt] 1(5) by linarith
      from 1(1) [OF inside refl refl refl more step 1(3,4) this] show ?thesis unfolding loop skip rest .
    qed
  qed
qed

end
