(* ===== verification/TsNormalForm.thy ===== *)
theory TsNormalForm
  imports TsNormalize
begin

text \<open>
  The normal form of a path in the TypeScript checker: what the fast path and the loop of
  \<open>get_normalized_absolute_path\<close> leave of the text is what the reduced components spell.
\<close>

section \<open>Roots are prefixes that end with a separator\<close>

lemma find_char_Some: "find_char c s = Some i \<Longrightarrow> i < length s \<and> s ! i = c"
proof -
  assume "find_char c s = Some i"
  then have "c \<in> set s" and i: "i = length (takeWhile (\<lambda>d. d \<noteq> c) s)" by (auto simp: find_char_def split: if_splits)
  then have lt: "length (takeWhile (\<lambda>d. d \<noteq> c) s) < length s" by (intro takeWhile_stops [of c]) auto
  from nth_length_takeWhile [OF this] lt i show ?thesis by simp
qed

lemma find_char_drop: "find_char c (drop k s) = Some i \<Longrightarrow> k + i < length s \<and> s ! (k + i) = c"
  using find_char_Some [of c "drop k s" i] by (cases "k \<le> length s") auto

definition root_ok :: "string \<Rightarrow> nat \<Rightarrow> bool" where
  "root_ok p n \<longleftrightarrow> n = length p \<or> 0 < n \<and> n < length p \<and> is_any_directory_separator (p ! (n - 1))"

lemma slash_separator [simp]: "is_any_directory_separator slash"
  by (simp add: is_any_directory_separator_def)

lemma scheme_end_inside: "find_scheme_end p = Some e \<Longrightarrow> e + 3 \<le> length p"
proof -
  assume "find_scheme_end p = Some e"
  then have "e < length p" "starts_with (drop (e + 1) p) ''//''" by (auto simp: find_scheme_end_def find_Some_iff)
  then show ?thesis by (auto simp: starts_with_def dest: arg_cong [where f = length])
qed

lemma root_ok_next: "k < length p \<Longrightarrow> is_any_directory_separator (p ! k) \<Longrightarrow> root_ok p (k + 1)"
  by (auto simp: root_ok_def)

lemma root_ok_url: "root_ok p (root_len (url_root p e))"
proof (cases "find_char slash (drop (e + 3) p)")
  case None
  then show ?thesis by (simp add: url_root_def root_ok_def)
next
  case (Some a)
  from find_char_drop [OF this] have plain: "root_ok p (e + 3 + a + 1)" by (intro root_ok_next) auto
  have volume: "v \<le> length p" if "get_file_url_volume_separator_end p k = Some v" for k v
    using that by (auto simp: get_file_url_volume_separator_end_def split: if_splits)
  show ?thesis
  proof (cases "get_file_url_volume_separator_end p (e + 3 + a + 2)")
    case None
    with Some plain show ?thesis by (simp add: url_root_def Let_def)
  next
    case v: (Some v)
    have "root_ok p (length p)" by (simp add: root_ok_def)
    moreover from volume [OF v] root_ok_next [of v p] have "root_ok p (v + 1)" if "v \<noteq> length p" "p ! v = slash" using that by simp
    ultimately show ?thesis using v Some plain by (simp add: url_root_def Let_def)
  qed
qed

lemma root_ok_dynamic: "2 \<le> length p \<Longrightarrow> p ! 1 = slash \<Longrightarrow> root_ok p (root_len (dynamic_root p))"
proof -
  assume p: "2 \<le> length p" "p ! 1 = slash"
  have two: "root_ok p 2" using p root_ok_next [of 1 p] by (simp add: numeral_2_eq_2)
  moreover have "root_ok p (k + a + 2)" if "find_char slash (drop (k + 1) p) = Some a" for k a
    using find_char_drop [OF that] root_ok_next [of "k + 1 + a" p] by simp
  moreover have "root_ok p (length p)" by (simp add: root_ok_def)
  ultimately show ?thesis by (simp add: dynamic_root_def Let_def split: option.split)
qed

lemma get_root_length_ok: "get_root_length p = 0 \<or> root_ok p (get_root_length p)"
proof (cases "p = []")
  case False
  have all: "root_ok p (length p)" by (simp add: root_ok_def)
  have server: "root_ok p (a + 2 + 1)" if "find_char (p ! 0) (drop 2 p) = Some a" "is_any_directory_separator (p ! 0)" for a
    using find_char_drop [OF that(1)] that(2) root_ok_next [of "2 + a" p] by (simp add: add.commute)
  have one: "root_ok p 1" if "is_any_directory_separator (p ! 0)" using that False root_ok_next [of 0 p] by simp
  have three: "root_ok p 3" if "length p \<noteq> 2" "1 < length p" "is_any_directory_separator (p ! 2)"
    using that root_ok_next [of 2 p] by simp
  have two: "root_ok p 2" if "length p = 2" using that all by simp
  have dynamic: "root_ok p (root_len (dynamic_root p))" if "1 < length p" "p ! 1 = slash"
    using that by (intro root_ok_dynamic) simp_all
  show ?thesis
    using False all server one two three dynamic root_ok_url [of p]
    unfolding get_root_length_def get_encoded_root_length_def Let_def
    by (simp split: option.split)
qed (simp add: get_root_length_def get_encoded_root_length_def)

lemma root_length_le: "get_root_length p \<le> length p"
  using get_root_length_ok [of p] by (auto simp: root_ok_def)

lemma root_ends:
  assumes "backslash \<notin> set p" "get_root_length p \<noteq> 0" "get_root_length p < length p"
  shows "last (take (get_root_length p) p) = slash"
proof -
  let ?n = "get_root_length p"
  have "is_any_directory_separator (p ! (?n - 1))" using get_root_length_ok [of p] assms by (auto simp: root_ok_def)
  moreover have "p ! (?n - 1) \<in> set p" using assms by (intro nth_mem) linarith
  ultimately have "p ! (?n - 1) = slash" using assms(1) by (auto simp: is_any_directory_separator_def)
  moreover have "last (take ?n p) = p ! (?n - 1)" using assms by (subst last_conv_nth) auto
  ultimately show ?thesis by simp
qed

lemma unrooted_start:
  assumes "get_root_length p = 0"
  shows "p = [] \<or> hd p \<noteq> slash"
proof (rule ccontr)
  assume "\<not> ?thesis"
  then obtain t where "p = slash # t" by (cases p) auto
  then have "get_root_length p \<noteq> 0"
    by (simp add: get_root_length_def get_encoded_root_length_def Let_def split: option.split)
  with assms show False by simp
qed

section \<open>Text from components\<close>

lemma path_from_components:
  "get_path_from_path_components (root # R) = (if root = [] then [] else ensure_trailing_directory_separator root) @ join [slash] R"
proof -
  let ?f = "\<lambda>c (result, i). (if 0 < i then result @ [slash] @ c else result @ c, i + 1)"
  have later: "fst (fold ?f R (s, k)) = s @ concat (map (\<lambda>c. slash # c) R)" if "0 < k" for R s and k :: nat
    using that by (induction R arbitrary: s k) auto
  have joined: "join [slash] (c # cs) = c @ concat (map (\<lambda>c. slash # c) cs)" for c cs
    by (induction cs arbitrary: c) simp_all
  show ?thesis
  proof (cases R)
    case (Cons c cs)
    have "fold ?f R (s, 0 :: nat) = fold ?f cs (s @ c, 1)" for s by (simp add: Cons)
    with later [of 1 cs] joined Cons show ?thesis unfolding get_path_from_path_components_def by (simp only: list.case) simp
  qed (simp add: get_path_from_path_components_def)
qed


section \<open>Removing dots from the segments\<close>

fun remove_dots :: "string list \<Rightarrow> string list" where
  "remove_dots [] = []"
| "remove_dots [t] = [t]"
| "remove_dots [t, d] = [t, d]"
| "remove_dots (t # d # u # ts) = (if d = ''.'' then t # remove_dots (u # ts) else t # remove_dots (d # u # ts))"

lemma remove_dots_hd: "remove_dots ts \<noteq> [] \<longleftrightarrow> ts \<noteq> []" "hd (remove_dots ts) = hd ts"
  by (induction ts rule: remove_dots.induct) auto

lemma replace_dots_other: "a \<noteq> slash \<Longrightarrow> replace_dots (a # s) = a # replace_dots s"
  by (cases s rule: replace_dots.cases) auto

lemma replace_dots_prefix: "slash \<notin> set t \<Longrightarrow> replace_dots (t @ s) = t @ replace_dots s"
  by (induction t) (auto simp: replace_dots_other)

lemma replace_dots_slash:
  "replace_dots (slash # s) =
     slash # (if 2 \<le> length s \<and> s ! 0 = CHR ''.'' \<and> s ! 1 = slash then replace_dots (drop 2 s) else replace_dots s)"
  by (cases s rule: replace_dots.cases) auto

lemma starts_dot_slash:
  assumes "slash \<notin> set d"
  shows "2 \<le> length (d @ slash # s) \<and> (d @ slash # s) ! 0 = CHR ''.'' \<and> (d @ slash # s) ! 1 = slash \<longleftrightarrow> d = ''.''"
proof -
  have dot: "CHR ''.'' \<noteq> slash" by (simp add: slash_def)
  consider "d = []" | c where "d = [c]" | c e r where "d = c # e # r" by (metis neq_Nil_conv)
  then show ?thesis using assms dot by cases auto
qed

lemma replace_dots_join:
  "\<forall>c \<in> set (t # ts). slash \<notin> set c \<Longrightarrow> replace_dots (join [slash] (t # ts)) = join [slash] (remove_dots (t # ts))"
proof (induction "t # ts" arbitrary: t ts rule: remove_dots.induct)
  case (2 t)
  then show ?case using replace_dots_prefix [of t "[]"] by simp
next
  case (3 t va)
  have "replace_dots (slash # va) = slash # va"
  proof -
    have "\<not> (2 \<le> length va \<and> va ! 0 = CHR ''.'' \<and> va ! 1 = slash)" using 3 by (metis One_nat_def Suc_1 Suc_le_eq list.set_intros nth_mem)
    then show ?thesis using replace_dots_prefix [of va "[]"] 3 by (auto simp: replace_dots_slash)
  qed
  then show ?case using replace_dots_prefix [of t "slash # va"] 3 by simp
next
  case (4 t d u ts)
  have dots: "join [slash] (t # d # u # ts) = t @ slash # (d @ slash # join [slash] (u # ts))" by simp
  have "remove_dots (x # xs) \<noteq> []" for x xs by (simp add: remove_dots_hd)
  then have tail: "join [slash] (t # remove_dots (x # xs)) = t @ slash # join [slash] (remove_dots (x # xs))" for x xs
    by (simp add: join_Cons)
  from 4(3) have t: "slash \<notin> set t" and d: "slash \<notin> set d" by simp_all
  show ?case
  proof (cases "d = ''.''")
    case True
    have "replace_dots (join [slash] (t # d # u # ts)) = t @ slash # replace_dots (join [slash] (u # ts))"
      unfolding dots replace_dots_prefix [OF t] by (simp add: replace_dots_slash True)
    with True 4 tail show ?thesis by simp
  next
    case False
    have "replace_dots (join [slash] (t # d # u # ts)) = t @ slash # replace_dots (join [slash] (d # u # ts))"
      unfolding dots replace_dots_prefix [OF t] replace_dots_slash using starts_dot_slash [OF d] False by (simp only: if_False) simp
    with False 4 tail show ?thesis by simp
  qed
qed

lemma remove_dots_filter: "filter (\<lambda>c. c \<noteq> ''.'') (remove_dots ts) = filter (\<lambda>c. c \<noteq> ''.'') ts"
  by (induction ts rule: remove_dots.induct) auto

lemma remove_dots_subset: "set (remove_dots ts) \<subseteq> set ts"
  by (induction ts rule: remove_dots.induct) auto

lemma remove_dots_none: "''.'' \<notin> set ts \<Longrightarrow> remove_dots ts = ts"
  by (induction ts rule: remove_dots.induct) auto

lemma remove_dots_append:
  "A \<noteq> [] \<Longrightarrow> ''.'' \<notin> set A \<Longrightarrow> B \<noteq> [] \<Longrightarrow> \<exists>B'. remove_dots (A @ B) = A @ B' \<and> B' \<noteq> []"
proof (induction "A @ B" arbitrary: A rule: remove_dots.induct)
  case (2 t)
  then show ?case by (cases A) auto
next
  case (3 t d)
  then have shown: "A @ B = [t, d]" by simp
  then show ?case unfolding shown using 3 by (cases A) (auto simp: Cons_eq_append_conv)
next
  case (4 t d u ts)
  have shown: "A @ B = t # d # u # ts" using 4 by simp
  show ?case
  proof (cases "tl A")
    case Nil
    then have "A = [t]" using 4 by (cases A) auto
    then show ?thesis unfolding shown by (simp add: remove_dots_hd)
  next
    case (Cons x xs)
    then have A: "A = t # d # xs" using 4 by (cases A) auto
    with 4 have "d \<noteq> ''.''" by auto
    moreover from 4(2) [OF this, of "d # xs"] 4 A obtain B' where "remove_dots (d # u # ts) = (d # xs) @ B'" "B' \<noteq> []" by auto
    ultimately show ?thesis unfolding shown by (simp add: A)
  qed
qed simp

lemma join_append: "A \<noteq> [] \<Longrightarrow> B \<noteq> [] \<Longrightarrow> join sep (A @ B) = join sep A @ sep @ join sep B"
  by (induction A) (auto simp: join_Cons)

lemma set_replace_dots: "set (replace_dots s) \<subseteq> set s"
  by (induction s rule: replace_dots.induct) auto

section \<open>The simple cases\<close>

lemma starts_join:
  assumes "\<forall>c \<in> set ts. slash \<notin> set c" "ts \<noteq> []"
  shows "strip_prefix (join [slash] ts) ''./'' = (if hd ts = ''.'' \<and> tl ts \<noteq> [] then Some (join [slash] (tl ts)) else None)"
proof -
  obtain t us where ts: "ts = t # us" using assms by (cases ts) auto
  have dot: "''./'' = [CHR ''.'', slash]" "CHR ''.'' \<noteq> slash" by (simp_all add: slash_def)
  show ?thesis
  proof (cases "us = []")
    case True
    with ts assms have "\<not> starts_with t ''./''" unfolding dot starts_with_def by (metis in_set_takeD list.set_intros(1,2) list.size(3,4) One_nat_def add.right_neutral add_Suc_right ts list.set_intros(1))
    with ts True show ?thesis by (simp add: strip_prefix_def)
  next
    case False
    with ts have j: "join [slash] ts = t @ slash # join [slash] us" by (simp add: join_Cons)
    consider "t = []" | c where "t = [c]" | c e r where "t = c # e # r" by (metis neq_Nil_conv)
    then show ?thesis unfolding j using ts assms dot False by cases (auto simp: strip_prefix_def starts_with_def)
  qed
qed

lemma trimmed_segments:
  assumes "''.'' \<notin> set (split_char slash root)" and p: "p = root @ rest"
    and root: "rest = [] \<or> root = [] \<or> last root = slash"
    and trimmed: "trimmed = (case strip_prefix (replace_dots p) ''./'' of Some r \<Rightarrow> r | None \<Rightarrow> replace_dots p)"
  shows "\<exists>rest'. trimmed = root @ rest' \<and>
     filter (\<lambda>c. c \<noteq> ''.'') (split_char slash rest') = filter (\<lambda>c. c \<noteq> ''.'') (split_char slash rest) \<and>
     (rest = [] \<longrightarrow> rest' = [])"
proof -
  let ?S = "remove_dots (split_char slash p)"
  have p_join: "p = join [slash] (split_char slash p)" by (simp add: join_split_char)
  have S: "\<forall>c \<in> set ?S. slash \<notin> set c" "?S \<noteq> []"
    using remove_dots_subset split_char_no_sep remove_dots_hd(1) [of "split_char slash p"] by (auto dest: split_char_no_sep subsetD)
  obtain t ts where parts: "split_char slash p = t # ts" by (metis split_char_nonempty list.exhaust)
  have simplified: "replace_dots p = join [slash] ?S"
    using replace_dots_join [of t ts] split_char_no_sep [of _ slash p] p_join unfolding parts by auto
  have trimmed': "trimmed = (if hd ?S = ''.'' \<and> tl ?S \<noteq> [] then join [slash] (tl ?S) else join [slash] ?S)"
    unfolding trimmed simplified starts_join [OF S] by simp
  show ?thesis
  proof (cases "root = []")
    case True
    let ?T = "if hd ?S = ''.'' \<and> tl ?S \<noteq> [] then tl ?S else ?S"
    have "split_char slash (join [slash] ?T) = ?T" using S by (intro split_char_join) (auto dest: list.set_sel(2))
    moreover have "filter (\<lambda>c. c \<noteq> ''.'') ?T = filter (\<lambda>c. c \<noteq> ''.'') ?S" using S(2) by (cases ?S) auto
    ultimately show ?thesis using True p trimmed' remove_dots_filter by (intro exI [of _ "join [slash] ?T"]) auto
  next
    case False
    show ?thesis
    proof (cases "rest = []")
      case True
      then have "?S = split_char slash p" using assms(1) p by (intro remove_dots_none) simp
      moreover from this have "hd ?S \<noteq> ''.''" using True assms(1) p by (metis append.right_neutral hd_in_set split_char_nonempty)
      ultimately show ?thesis using True p trimmed' p_join by (intro exI [of _ "[]"]) simp
    next
      case more: False
      with root False obtain a where a: "root = a @ [slash]" by (metis append_butlast_last_id)
      let ?A = "split_char slash a" and ?B = "split_char slash rest"
      have A: "split_char slash p = ?A @ ?B" "''.'' \<notin> set ?A" using assms(1) p by (simp_all add: a split_char_sep)
      from remove_dots_append [of ?A ?B] A obtain B' where B': "?S = ?A @ B'" "B' \<noteq> []" by auto
      have filters: "filter (\<lambda>c. c \<noteq> ''.'') B' = filter (\<lambda>c. c \<noteq> ''.'') ?B"
        using remove_dots_filter [of "split_char slash p"] unfolding A(1) B'(1) [unfolded A(1)] by simp
      have "hd ?S \<noteq> ''.''" using A(2) B'(1) by (metis hd_append2 hd_in_set split_char_nonempty)
      then have "trimmed = join [slash] (?A @ B')" using trimmed' B' by simp
      also have "\<dots> = root @ join [slash] B'" using B'(2) by (simp add: join_append join_split_char a)
      finally show ?thesis using filters split_char_join [of B' slash] S B' more by (intro exI [of _ "join [slash] B'"]) auto
    qed
  qed
qed

lemma fold_reduce_plain:
  "''.'' \<notin> set cs \<Longrightarrow> ''..'' \<notin> set cs \<Longrightarrow> fold (reduce_rest rooted) cs R = R @ filter (\<lambda>c. c \<noteq> []) cs"
  by (induction cs arbitrary: R) (auto simp: reduce_rest_def)

lemma fold_reduce_filter: "fold (reduce_rest rooted) (filter (\<lambda>c. c \<noteq> ''.'') cs) R = fold (reduce_rest rooted) cs R"
  by (induction cs arbitrary: R) (auto simp: reduce_rest_def)

definition shown_path :: "string \<Rightarrow> string list \<Rightarrow> string" where
  "shown_path root cs = get_path_from_path_components (fold reduce_step cs [root])"

lemma shown_path_eq:
  "shown_path root cs =
     (if root = [] then [] else ensure_trailing_directory_separator root) @ join [slash] (fold (reduce_rest (root \<noteq> [])) cs [])"
  by (simp add: shown_path_def fold_reduce_rest path_from_components)

lemma ensure_slash: "root \<noteq> [] \<Longrightarrow> last root = slash \<Longrightarrow> ensure_trailing_directory_separator root = root"
  by (simp add: ensure_trailing_directory_separator_def has_trailing_directory_separator_def)

lemma plain_segments_of:
  assumes plain: "\<not> has_relative_path_segment (root @ rest)" and rest: "rest \<noteq> []"
    and root: "if root = [] then hd rest \<noteq> slash else last root = slash"
  shows "''.'' \<notin> set (split_char slash rest)" "''..'' \<notin> set (split_char slash rest)" "[] \<notin> set (butlast (split_char slash rest))"
proof -
  let ?B = "split_char slash rest"
  have rel: "''.'' \<notin> set (split_char slash (root @ rest))" "''..'' \<notin> set (split_char slash (root @ rest))"
    "[] \<notin> set (butlast (tl (split_char slash (root @ rest))))"
    using plain has_relative_segment by (simp_all add: slash_def)
  have "\<exists>A. split_char slash (root @ rest) = A @ ?B \<and> (A = [] \<longrightarrow> hd ?B \<noteq> [])"
  proof (cases "root = []")
    case True
    have "hd ?B \<noteq> []" using True root rest by (cases rest) (auto split: list.splits)
    with True show ?thesis by simp
  next
    case False
    with root obtain a where "root = a @ [slash]" by (metis append_butlast_last_id)
    then show ?thesis by (intro exI [of _ "split_char slash a"]) (simp add: split_char_sep)
  qed
  then obtain A where A: "split_char slash (root @ rest) = A @ ?B" "A = [] \<longrightarrow> hd ?B \<noteq> []" by blast
  show "''.'' \<notin> set ?B" "''..'' \<notin> set ?B" using rel(1,2) A(1) by simp_all
  show "[] \<notin> set (butlast ?B)"
  proof (cases A)
    case Nil
    with rel(3) A show ?thesis by (cases ?B) (auto split: if_splits)
  next
    case (Cons x xs)
    with rel(3) A(1) show ?thesis by (simp add: butlast_append)
  qed
qed

lemma filter_last: "xs \<noteq> [] \<Longrightarrow> [] \<notin> set (butlast xs) \<Longrightarrow> filter (\<lambda>c. c \<noteq> []) xs = (if last xs = [] then butlast xs else xs)"
  by (cases xs rule: rev_cases) (auto simp: filter_id_conv)

lemma split_char_last:
  "s = (if butlast (split_char d s) = [] then last (split_char d s)
     else join [d] (butlast (split_char d s)) @ d # last (split_char d s))"
proof -
  have "join [d] (butlast (split_char d s) @ [last (split_char d s)]) = s" by (simp add: join_split_char)
  then show ?thesis unfolding join_snoc by (cases "butlast (split_char d s) = []") simp_all
qed

lemma simple_shown:
  assumes plain: "\<not> has_relative_path_segment (root @ rest)" and bs: "backslash \<notin> set (root @ rest)"
    and root: "rest = [] \<or> (if root = [] then hd rest \<noteq> slash else last root = slash)"
  shows "(if length root < length (root @ rest) then remove_trailing_directory_separator (root @ rest)
      else if length (root @ rest) = length root \<and> length root \<noteq> 0 then ensure_trailing_directory_separator (root @ rest)
      else root @ rest) = shown_path root (split_char slash rest)"
proof (cases "rest = []")
  case True
  then show ?thesis by (simp add: shown_path_eq reduce_rest_def)
next
  case False
  let ?B = "split_char slash rest"
  from root False have root': "if root = [] then hd rest \<noteq> slash else last root = slash" by simp
  note B = plain_segments_of [OF plain False root']
  have root_shown: "(if root = [] then [] else ensure_trailing_directory_separator root) = root" using root' ensure_slash by simp
  have R: "filter (\<lambda>c. c \<noteq> []) ?B = (if last ?B = [] then butlast ?B else ?B)" using B(3) by (intro filter_last) simp
  have joined: "rest = (if butlast ?B = [] then last ?B else join [slash] (butlast ?B) @ slash # last ?B)"
    by (rule split_char_last)
  have "remove_trailing_directory_separator (root @ rest) = root @ join [slash] (if last ?B = [] then butlast ?B else ?B)"
  proof (cases "last ?B = []")
    case True
    with joined False have "rest = join [slash] (butlast ?B) @ [slash]" by (auto split: if_splits)
    then have "last rest = slash" "butlast rest = join [slash] (butlast ?B)" by (metis last_snoc, metis butlast_snoc)
    with True False show ?thesis
      by (simp add: remove_trailing_directory_separator_def has_trailing_directory_separator_def butlast_append)
  next
    case more: False
    then have "last rest = last (last ?B)" using joined by (metis last_appendR last_ConsR list.distinct(1))
    moreover have "slash \<notin> set (last ?B)" using split_char_no_sep [of "last ?B" slash rest] by simp
    moreover have "last (last ?B) \<in> set (last ?B)" using more by simp
    ultimately have "\<not> is_any_directory_separator (last rest)"
      using bs last_in_set [OF False] by (auto simp: is_any_directory_separator_def)
    with False more show ?thesis
      by (simp add: remove_trailing_directory_separator_def has_trailing_directory_separator_def join_split_char)
  qed
  then show ?thesis using False root_shown fold_reduce_plain [OF B(1,2), of "root \<noteq> []" "[]"] R by (simp add: shown_path_eq)
qed

lemma simple_normalize_segments:
  assumes simple: "simple_normalize_path (root @ rest) = Some s" and dots: "''.'' \<notin> set (split_char slash root)"
    and root: "rest = [] \<or> (if root = [] then hd rest \<noteq> slash else last root = slash)"
  shows "\<exists>rest'. s = root @ rest' \<and> \<not> has_relative_path_segment s \<and> set s \<subseteq> set (root @ rest) \<and>
     filter (\<lambda>c. c \<noteq> ''.'') (split_char slash rest') = filter (\<lambda>c. c \<noteq> ''.'') (split_char slash rest) \<and>
     (rest' = [] \<or> (if root = [] then hd rest' \<noteq> slash else last root = slash))"
proof (cases "has_relative_path_segment (root @ rest)")
  case False
  with simple root show ?thesis by (intro exI [of _ rest]) (simp add: simple_normalize_path_def)
next
  case True
  let ?r = "replace_dots (root @ rest)"
  from simple True have s: "s = (case strip_prefix ?r ''./'' of Some r \<Rightarrow> r | None \<Rightarrow> ?r)" "\<not> has_relative_path_segment s"
    "s \<noteq> ?r \<Longrightarrow> \<not> starts_with s [slash]"
    by (auto simp: simple_normalize_path_def Let_def split: if_splits)
  from trimmed_segments [OF dots refl _ s(1)] root obtain rest' where rest': "s = root @ rest'"
    "filter (\<lambda>c. c \<noteq> ''.'') (split_char slash rest') = filter (\<lambda>c. c \<noteq> ''.'') (split_char slash rest)"
    "rest = [] \<Longrightarrow> rest' = []" by (auto split: if_splits)
  have "set s \<subseteq> set (root @ rest)"
    using s(1) set_replace_dots [of "root @ rest"] by (auto simp: strip_prefix_def split: if_splits dest: in_set_dropD)
  moreover have "hd rest' \<noteq> slash" if "rest' \<noteq> []" "root = []"
  proof (cases "s = ?r")
    case True
    from that rest'(3) root obtain a t where "rest = a # t" "a \<noteq> slash" by (cases rest) auto
    with True rest'(1) that show ?thesis by (simp add: replace_dots_other)
  next
    case False
    with s(3) rest'(1) that show ?thesis by (cases rest') (auto simp: starts_with_def)
  qed
  ultimately show ?thesis using rest' s(2) root by (intro exI [of _ rest']) auto
qed

lemma simple_normalize_empty: "simple_normalize_path [] = Some []"
  by (simp add: simple_normalize_path_def has_relative_segment)

lemma simple_normalize_shown:
  assumes simple: "simple_normalize_path (root @ rest) = Some s" and dots: "''.'' \<notin> set (split_char slash root)"
    and root: "rest = [] \<or> (if root = [] then hd rest \<noteq> slash else last root = slash)" and bs: "backslash \<notin> set (root @ rest)"
  shows "(if length root < length s then remove_trailing_directory_separator s
      else if length s = length root \<and> length root \<noteq> 0 then ensure_trailing_directory_separator s
      else s) = shown_path root (split_char slash rest)"
proof -
  from simple_normalize_segments [OF simple dots root] obtain rest' where rest': "s = root @ rest'"
    "\<not> has_relative_path_segment s" "set s \<subseteq> set (root @ rest)"
    "filter (\<lambda>c. c \<noteq> ''.'') (split_char slash rest') = filter (\<lambda>c. c \<noteq> ''.'') (split_char slash rest)"
    "rest' = [] \<or> (if root = [] then hd rest' \<noteq> slash else last root = slash)" by blast
  have "backslash \<notin> set (root @ rest')" using rest'(1,3) bs by auto
  note simple_shown [OF rest'(2) [unfolded rest'(1)] this rest'(5), folded rest'(1)]
  also have "shown_path root (split_char slash rest') = shown_path root (split_char slash rest)"
    unfolding shown_path_eq using rest'(4) by (metis fold_reduce_filter)
  finally show ?thesis .
qed

section \<open>Normal forms agree\<close>

lemma remove_separators_joined:
  assumes "s \<noteq> []" "\<not> is_any_directory_separator (last s)"
  shows "remove_trailing_directory_separators s = s" "remove_trailing_directory_separators (s @ [slash]) = s"
proof -
  show s: "remove_trailing_directory_separators s = s"
    using assms by (simp add: remove_trailing_directory_separators.simps [of s] has_trailing_directory_separator_def)
  show "remove_trailing_directory_separators (s @ [slash]) = s"
    using s by (simp add: remove_trailing_directory_separators.simps [of "s @ [slash]"] has_trailing_directory_separator_def
        remove_trailing_directory_separator_def)
qed

lemma slash_free_last: "slash \<notin> set c \<Longrightarrow> c \<noteq> [] \<Longrightarrow> last c \<noteq> slash"
  by (metis last_in_set)

lemma loop_shown:
  assumes bs: "backslash \<notin> set g" and n: "n = get_root_length g"
    and st: "st = normalize_loop g n n \<lparr>ns_changed = False, ns_normalized = [], ns_up_to = n, ns_seen = n \<noteq> 0\<rparr>"
  shows "(if ns_changed st then ns_normalized st
     else if n < length g then remove_trailing_directory_separators g
     else if length g = n then ensure_trailing_directory_separator g
     else g) = shown_path (take n g) (split_char slash (drop n g)) \<or> g = []"
proof (cases "n < length g")
  case False
  then have "n = length g" using root_length_le [of g] n by simp
  then show ?thesis using st by (auto simp: normalize_loop.simps [of g] shown_path_eq reduce_rest_def)
next
  case True
  let ?R = "fold (reduce_rest (n \<noteq> 0)) (split_char slash (drop n g)) []"
  have ends: "n \<noteq> 0 \<Longrightarrow> last (take n g) = slash" using root_ends [OF bs] True n by simp
  have "norm_inv g n n \<lparr>ns_changed = False, ns_normalized = [], ns_up_to = n, ns_seen = n \<noteq> 0\<rparr> []"
    by (simp add: norm_inv_def plain_components_def)
  from normalize_loop_inv [OF this _ ends] True obtain final where final: "length g \<le> final" "norm_inv g n final st ?R"
    unfolding st by auto
  have shown: "shown_path (take n g) (split_char slash (drop n g)) = joined_path (take n g) ?R"
    using ends ensure_slash True by (cases "n = 0") (auto simp: shown_path_eq)
  show ?thesis
  proof (cases "ns_changed st")
    case True
    with final(2) shown show ?thesis by (simp add: norm_inv_def)
  next
    case False
    let ?s = "joined_path (take n g) ?R"
    note up = norm_inv_unchanged [OF final(2) False]
    have R: "?R \<noteq> []" using up(3) final(1) True by auto
    have len: "ns_up_to st = length ?s" using up(1) True by simp
    have "plain_components (n \<noteq> 0) ?R" using final(2) by (simp add: norm_inv_def)
    then have "last ?R \<noteq> []" "slash \<notin> set (last ?R)" using R by (auto simp: plain_components_def)
    then have s: "?s \<noteq> []" "last ?s \<noteq> slash"
      using join_snoc [of "[slash]" "butlast ?R" "last ?R"] R slash_free_last [of "last ?R"] by (auto split: if_splits)
    have prefix: "take (length ?s) g = ?s" using up(2) len by simp
    have "last ?s \<in> set g" using s(1) prefix by (metis in_set_takeD last_in_set)
    with s(2) bs have not_sep: "\<not> is_any_directory_separator (last ?s)" by (auto simp: is_any_directory_separator_def)
    have "g = ?s \<or> g = ?s @ [slash]"
    proof (cases "length ?s < length g")
      case True
      then have "g = ?s @ [g ! length ?s]" using up(3) R final(1) len prefix
        by (metis Suc_eq_plus1 Suc_leI append_take_drop_id le_antisym take_Suc_conv_app_nth take_all_iff)
      with up(3) R len True show ?thesis by simp
    next
      case False
      with prefix show ?thesis by simp
    qed
    with remove_separators_joined [OF s(1) not_sep] have "remove_trailing_directory_separators g = ?s" by metis
    then show ?thesis unfolding shown using False True by simp
  qed
qed

section \<open>The path that is normalized\<close>

lemma normalize_slashes_plain: "backslash \<notin> set (normalize_slashes p)"
  by (auto simp: normalize_slashes_def slash_def backslash_def)

lemma normalize_slashes_id: "backslash \<notin> set p \<Longrightarrow> normalize_slashes p = p"
  by (simp add: normalize_slashes_def)

lemma normalize_slashes_map: "normalize_slashes p = map (\<lambda>c. if c = backslash then slash else c) p"
  unfolding normalize_slashes_def by (auto intro: map_idI [symmetric])

lemma normalize_slashes_nth: "i < length p \<Longrightarrow> normalize_slashes p ! i = (if p ! i = backslash then slash else p ! i)"
  by (simp add: normalize_slashes_map)

lemma length_normalize_slashes [simp]: "length (normalize_slashes p) = length p"
  by (simp add: normalize_slashes_def)

lemma find_scheme_end_None:
  "find_scheme_end p = None \<longleftrightarrow>
     \<not> (\<exists>i. i + 2 < length p \<and> p ! i = CHR '':'' \<and> p ! (i + 1) = slash \<and> p ! (i + 2) = slash)"
proof -
  have "starts_with (drop (i + 1) p) ''//'' \<longleftrightarrow> i + 2 < length p \<and> p ! (i + 1) = slash \<and> p ! (i + 2) = slash" for i
  proof (cases "i + 2 < length p")
    case True
    then have "drop (i + 1) p = p ! (i + 1) # p ! (i + 2) # drop (i + 3) p" by (simp add: Cons_nth_drop_Suc numeral_3_eq_3)
    with True show ?thesis by (auto simp: starts_with_def slash_def)
  next
    case False
    then have "length (take 2 (drop (i + 1) p)) < 2" by simp
    then have "take 2 (drop (i + 1) p) \<noteq> ''//''" by (metis length_Cons list.size(3) numeral_2_eq_2 less_irrefl)
    with False show ?thesis by (auto simp: starts_with_def numeral_2_eq_2)
  qed
  then show ?thesis by (auto simp: find_scheme_end_def find_None_iff)
qed

lemma unrooted_iff:
  "get_root_length p = 0 \<longleftrightarrow>
     p = [] \<or> \<not> is_any_directory_separator (p ! 0) \<and> \<not> (p ! 0 = CHR ''^'' \<and> 1 < length p \<and> p ! 1 = slash) \<and>
     \<not> (is_volume_character (p ! 0) \<and> 1 < length p \<and> p ! 1 = CHR '':'' \<and> (length p = 2 \<or> is_any_directory_separator (p ! 2))) \<and>
     find_scheme_end p = None"
proof (cases "p = []")
  case False
  let ?D = "p ! 0 = CHR ''^'' \<and> 1 < length p \<and> p ! 1 = slash" and ?V = "is_volume_character (p ! 0) \<and> 1 < length p \<and> p ! 1 = CHR '':''"
  have dynamic: "root_len (dynamic_root p) \<noteq> 0" by (simp add: dynamic_root_def Let_def False split: option.split)
  have url: "root_len (url_root p e) \<noteq> 0" if "find_scheme_end p = Some e" for e
    using scheme_end_inside [OF that] by (auto simp: url_root_def Let_def split: option.split)
  note defs = get_root_length_def get_encoded_root_length_def Let_def
  consider "is_any_directory_separator (p ! 0)" | "\<not> is_any_directory_separator (p ! 0)" ?D
    | "\<not> is_any_directory_separator (p ! 0)" "\<not> ?D" ?V "length p = 2"
    | "\<not> is_any_directory_separator (p ! 0)" "\<not> ?D" ?V "length p \<noteq> 2" "is_any_directory_separator (p ! 2)"
    | "\<not> is_any_directory_separator (p ! 0)" "\<not> ?D" "\<not> (?V \<and> (length p = 2 \<or> is_any_directory_separator (p ! 2)))" by blast
  then show ?thesis
  proof cases
    case 1
    with False show ?thesis by (simp add: defs split: option.split)
  next
    case 2
    with False dynamic show ?thesis by (simp add: defs)
  next
    case 3
    with False dynamic show ?thesis by (simp add: defs)
  next
    case 4
    with False dynamic show ?thesis by (simp add: defs)
  next
    case 5
    then have "\<not> (?V \<and> length p = 2)" "\<not> (?V \<and> is_any_directory_separator (p ! 2))" by blast+
    with 5(1,2) False have "get_root_length p = (case find_scheme_end p of Some e \<Rightarrow> root_len (url_root p e) | None \<Rightarrow> 0)"
      unfolding defs by (cases "find_scheme_end p") (simp_all only: if_False length_0_conv conj_assoc option.case root_len.simps)
    with 5 False url show ?thesis by (cases "find_scheme_end p") auto
  qed
qed (simp add: get_root_length_def get_encoded_root_length_def)

lemma normalize_slashes_rooted:
  assumes rooted: "get_root_length p \<noteq> 0"
  shows "get_root_length (normalize_slashes p) \<noteq> 0"
proof
  let ?q = "normalize_slashes p"
  assume "get_root_length ?q = 0"
  moreover from rooted have p: "p \<noteq> []" by (auto simp: unrooted_iff)
  ultimately have q: "\<not> is_any_directory_separator (?q ! 0)" "\<not> (?q ! 0 = CHR ''^'' \<and> 1 < length p \<and> ?q ! 1 = slash)"
    "\<not> (is_volume_character (?q ! 0) \<and> 1 < length p \<and> ?q ! 1 = CHR '':'' \<and> (length p = 2 \<or> is_any_directory_separator (?q ! 2)))"
    "find_scheme_end ?q = None"
    using unrooted_iff [of ?q] by (simp_all add: normalize_slashes_map)
  have keep: "p ! i \<noteq> backslash \<Longrightarrow> i < length p \<Longrightarrow> ?q ! i = p ! i" for i by (simp add: normalize_slashes_nth)
  have sep: "i < length p \<Longrightarrow> is_any_directory_separator (p ! i) \<Longrightarrow> is_any_directory_separator (?q ! i)" for i
    by (auto simp: normalize_slashes_nth is_any_directory_separator_def)
  have chars: "slash \<noteq> backslash" "CHR ''^'' \<noteq> backslash" "CHR '':'' \<noteq> backslash" "\<not> is_volume_character backslash"
    by (simp_all add: slash_def backslash_def is_volume_character_def)
  have "\<not> is_any_directory_separator (p ! 0)" using q(1) sep [of 0] p by auto
  then have "p ! 0 \<noteq> backslash" by (auto simp: is_any_directory_separator_def)
  then have first: "?q ! 0 = p ! 0" using keep [of 0] p by simp
  have "\<not> (p ! 0 = CHR ''^'' \<and> 1 < length p \<and> p ! 1 = slash)" using q(2) keep [of 1] first chars by auto
  moreover have "\<not> (is_volume_character (p ! 0) \<and> 1 < length p \<and> p ! 1 = CHR '':'' \<and> (length p = 2 \<or> is_any_directory_separator (p ! 2)))"
    using q(3) keep [of 1] sep [of 2] first chars by auto
  moreover have "find_scheme_end p = None"
    using q(4) keep chars unfolding find_scheme_end_None by fastforce
  ultimately show False using rooted \<open>\<not> is_any_directory_separator (p ! 0)\<close> unfolding unrooted_iff by simp
qed

lemma combine_one:
  "combine_paths dir [f] =
     (if get_root_length (normalize_slashes f) \<noteq> 0 \<or> dir = [] then normalize_slashes f
      else if f = [] then normalize_slashes dir
      else (if has_trailing_directory_separator (normalize_slashes dir) then normalize_slashes dir else normalize_slashes dir @ [slash])
        @ normalize_slashes f)"
proof -
  have absolute: "combines_absolute f \<longleftrightarrow> get_root_length (normalize_slashes f) \<noteq> 0"
    by (simp add: combines_absolute_def normalize_slashes_id)
  have "normalize_slashes f = [] \<longleftrightarrow> f = []" "normalize_slashes dir = [] \<longleftrightarrow> dir = []"
    by (simp_all add: normalize_slashes_map)
  then show ?thesis by (auto simp: combine_paths_def absolute Let_def)
qed

text \<open>
  C24: The text of a normalized path is the one its reduced components spell. The fast path that removes
  \<open>./\<close> from the text and the loop that edits it segment by segment agree with the reduction of the
  components, for every path and directory whose root has no segment \<open>.\<close>.
\<close>

theorem get_normalized_absolute_path_spec:
  assumes "''.'' \<notin> set (split_char slash (hd (get_normalized_path_components f dir)))"
  shows "get_normalized_absolute_path f dir = get_path_from_path_components (get_normalized_path_components f dir)"
proof -
  define g where "g = combine_paths dir [f]"
  define n where "n = get_root_length g"
  have bs: "backslash \<notin> set g"
    using normalize_slashes_plain by (auto simp: g_def combine_one slash_def backslash_def)
  have start: "(if get_root_length f = 0 \<and> dir \<noteq> [] then combine_paths dir [f] else normalize_slashes f) = g"
    using normalize_slashes_rooted [of f] by (auto simp: g_def combine_one)
  have shown: "get_path_from_path_components (get_normalized_path_components f dir) = shown_path (take n g) (split_char slash (drop n g))"
    by (simp add: get_normalized_path_components_def get_normalized_path_components_from_combined_def
        normalized_components_loop_eq shown_path_def g_def n_def Let_def)
  have root: "hd (get_normalized_path_components f dir) = take n g"
    by (simp add: get_normalized_path_components_def get_normalized_path_components_from_combined_def
        normalized_components_loop_eq fold_reduce_rest g_def n_def Let_def)
  have n: "length (take n g) = n" "take n g @ drop n g = g" using root_length_le [of g] by (simp_all add: n_def)
  have root_slash: "drop n g = [] \<or> (if take n g = [] then hd (drop n g) \<noteq> slash else last (take n g) = slash)"
    using root_ends [OF bs] unrooted_start [of g] root_length_le [of g] by (cases "n = 0"; cases "n = length g") (auto simp: n_def)
  have simple: "(if n < length s then remove_trailing_directory_separator s
      else if length s = n \<and> n \<noteq> 0 then ensure_trailing_directory_separator s else s) = shown_path (take n g) (split_char slash (drop n g))"
    if "simple_normalize_path g = Some s" for s
    using simple_normalize_shown [of "take n g" "drop n g" s, unfolded n, OF that assms [unfolded root] root_slash bs] .
  show ?thesis
    unfolding get_normalized_absolute_path_def start shown
    using simple loop_shown [OF bs n_def refl] n_def simple_normalize_empty
    by (cases "simple_normalize_path g") (auto simp: Let_def)
qed

theorem get_normalized_absolute_path_spec_witness:
  "get_normalized_path_components ''../b/./c/'' ''/a/x'' = [''/'', ''a'', ''b'', ''c''] \<and>
   ''.'' \<notin> set (split_char slash ''/'') \<and>
   get_normalized_absolute_path ''../b/./c/'' ''/a/x'' = ''/a/b/c''"
proof -
  have c: "get_normalized_path_components ''../b/./c/'' ''/a/x'' = [''/'', ''a'', ''b'', ''c'']" by code_simp
  have root: "''.'' \<notin> set (split_char slash ''/'')" by code_simp
  have "get_path_from_path_components [''/'', ''a'', ''b'', ''c''] = ''/a/b/c''" by code_simp
  with get_normalized_absolute_path_spec [of "''../b/./c/''" "''/a/x''", unfolded c list.sel, OF root] c root
  show ?thesis by simp
qed

end
