(* ===== verification/TsRelative.thy ===== *)
theory TsRelative
  imports TsNormalForm
begin

text \<open>
  Relations between paths: \<open>get_path_components_relative_to\<close>, \<open>contains_path\<close>, \<open>compare_paths\<close>, ancestors,
  extensions and common parents, of \<open>crates/stiles-tsrs/tsrs_core/src/tspath/path.rs\<close>. What it means to
  ignore case is a table of Unicode, the record \<open>case_folding\<close>.
\<close>

section \<open>Comparing names\<close>

datatype ordering = Less | Equal | Greater

record case_folding =
  equate_string_case_insensitive :: "string \<Rightarrow> string \<Rightarrow> bool"
  compare_strings_case_insensitive :: "string \<Rightarrow> string \<Rightarrow> ordering"
  to_file_name_lower_case :: "string \<Rightarrow> string"

fun compare_bytes :: "string \<Rightarrow> string \<Rightarrow> ordering" where
  "compare_bytes [] [] = Equal"
| "compare_bytes [] (b # bs) = Less"
| "compare_bytes (a # as) [] = Greater"
| "compare_bytes (a # as) (b # bs) = (if a = b then compare_bytes as bs else if a < b then Less else Greater)"

record compare_paths_options =
  use_case_sensitive_file_names :: bool
  current_directory :: string

definition get_comparer :: "case_folding \<Rightarrow> compare_paths_options \<Rightarrow> string \<Rightarrow> string \<Rightarrow> ordering" where
  "get_comparer cf options =
     (if \<not> use_case_sensitive_file_names options then compare_strings_case_insensitive cf else compare_bytes)"

definition get_equality_comparer :: "case_folding \<Rightarrow> compare_paths_options \<Rightarrow> string \<Rightarrow> string \<Rightarrow> bool" where
  "get_equality_comparer cf options =
     (if \<not> use_case_sensitive_file_names options then equate_string_case_insensitive cf else (=))"

definition get_canonical_file_name :: "case_folding \<Rightarrow> string \<Rightarrow> bool \<Rightarrow> string" where
  "get_canonical_file_name cf file_name case_sensitive = (if case_sensitive then file_name else to_file_name_lower_case cf file_name)"

section \<open>Relative paths\<close>

text \<open>How many components two paths share; the roots are compared without case.\<close>

function common_components :: "case_folding \<Rightarrow> compare_paths_options \<Rightarrow> string list \<Rightarrow> string list \<Rightarrow> nat \<Rightarrow> nat" where
  "common_components cf options from_components to_components start =
     (if start < min (length from_components) (length to_components) then
        if start = 0 then
          (if \<not> equate_string_case_insensitive cf (from_components ! start) (to_components ! start) then start
           else common_components cf options from_components to_components (start + 1))
        else
          (if \<not> get_equality_comparer cf options (from_components ! start) (to_components ! start) then start
           else common_components cf options from_components to_components (start + 1))
      else start)"
  by pat_completeness auto

termination
  by (relation "measure (\<lambda>(cf, options, from_components, to_components, start). length from_components - start)") auto

declare common_components.simps [simp del]

definition get_path_components_relative_to :: "case_folding \<Rightarrow> compare_paths_options \<Rightarrow> string \<Rightarrow> string \<Rightarrow> string list" where
  "get_path_components_relative_to cf options from to =
     (let from_components = reduce_path_components (get_path_components from (current_directory options));
          to_components = reduce_path_components (get_path_components to (current_directory options));
          start = common_components cf options from_components to_components 0
      in if start = 0 then to_components
         else [] # replicate (length from_components - start) ''..'' @ drop start to_components)"

text \<open>\<open>None\<close> is the failed assertion.\<close>

definition get_relative_path_from_directory :: "case_folding \<Rightarrow> compare_paths_options \<Rightarrow> string \<Rightarrow> string \<Rightarrow> string option" where
  "get_relative_path_from_directory cf options from_directory to =
     (if (0 < get_root_length from_directory) = (0 < get_root_length to)
      then Some (get_path_from_path_components (get_path_components_relative_to cf options from_directory to))
      else None)"

definition get_relative_path_from_file :: "case_folding \<Rightarrow> compare_paths_options \<Rightarrow> string \<Rightarrow> string \<Rightarrow> string option" where
  "get_relative_path_from_file cf options from to =
     map_option ensure_path_is_non_module_name (get_relative_path_from_directory cf options (get_directory_path from) to)"

definition get_relative_path_to_directory_or_url ::
    "case_folding \<Rightarrow> compare_paths_options \<Rightarrow> string \<Rightarrow> string \<Rightarrow> bool \<Rightarrow> string" where
  "get_relative_path_to_directory_or_url cf options directory_path_or_url relative_or_absolute_path is_absolute_path_an_url =
     (let components = get_path_components_relative_to cf options directory_path_or_url relative_or_absolute_path;
          first_component = hd components;
          components =
            (if is_absolute_path_an_url \<and> is_rooted_disk_path first_component
             then ((if first_component ! 0 = slash then ''file://'' else ''file:///'') @ first_component) # tl components
             else components)
      in get_path_from_path_components components)"

definition convert_to_relative_path :: "case_folding \<Rightarrow> compare_paths_options \<Rightarrow> string \<Rightarrow> string" where
  "convert_to_relative_path cf options absolute_or_relative_path =
     (if \<not> is_rooted_disk_path absolute_or_relative_path then absolute_or_relative_path
      else get_relative_path_to_directory_or_url cf options (current_directory options) absolute_or_relative_path False)"

section \<open>Order and containment\<close>

definition compare_paths :: "case_folding \<Rightarrow> compare_paths_options \<Rightarrow> string \<Rightarrow> string \<Rightarrow> ordering" where
  "compare_paths cf options a b =
     (let a = combine_paths (current_directory options) [a];
          b = combine_paths (current_directory options) [b]
      in if a = b then Equal
         else if a = [] then Less
         else if b = [] then Greater
         else
           let a_root = take (get_root_length a) a;
               b_root = take (get_root_length b) b;
               result = compare_strings_case_insensitive cf a_root b_root
           in if result \<noteq> Equal then result
              else
                let a_rest = drop (length a_root) a;
                    b_rest = drop (length b_root) b
                in if \<not> has_relative_path_segment a_rest \<and> \<not> has_relative_path_segment b_rest
                   then get_comparer cf options a_rest b_rest
                   else
                     let a_components = reduce_path_components (get_path_components a []);
                         b_components = reduce_path_components (get_path_components b []);
                         shared_length = min (length a_components) (length b_components)
                     in case find (\<lambda>result. result \<noteq> Equal)
                            (map (\<lambda>i. get_comparer cf options (a_components ! i) (b_components ! i)) [1..<shared_length]) of
                          Some result \<Rightarrow> result
                        | None \<Rightarrow>
                            if length a_components < length b_components then Less
                            else if length a_components = length b_components then Equal
                            else Greater)"

definition contains_path :: "case_folding \<Rightarrow> compare_paths_options \<Rightarrow> string \<Rightarrow> string \<Rightarrow> bool" where
  "contains_path cf options parent child =
     (let parent = combine_paths (current_directory options) [parent];
          child = combine_paths (current_directory options) [child]
      in if parent = [] \<or> child = [] then False
         else if parent = child then True
         else
           let parent_components = reduced_path_components_of_combined parent;
               child_components = reduced_path_components_of_combined child
           in if length child_components < length parent_components then False
              else \<not> list_ex (\<lambda>i. \<not> (if i = 0 then equate_string_case_insensitive cf else get_equality_comparer cf options)
                       (parent_components ! i) (child_components ! i)) [0..<length parent_components])"

text \<open>\<open>Path::contains_path\<close>, on paths that are rooted, reduced and canonical.\<close>

definition Path_contains_path :: "string \<Rightarrow> string \<Rightarrow> bool" where
  "Path_contains_path p c \<longleftrightarrow>
     (if p = [] then False
      else p = c \<or> length p < length c \<and> starts_with c p \<and> (p ! (length p - 1) = slash \<or> c ! length p = slash))"

definition starts_with_directory :: "case_folding \<Rightarrow> string \<Rightarrow> string \<Rightarrow> bool \<Rightarrow> bool" where
  "starts_with_directory cf file_name directory_name case_sensitive =
     (if directory_name = [] then False
      else let canonical_file_name = get_canonical_file_name cf file_name case_sensitive;
               d = get_canonical_file_name cf directory_name case_sensitive;
               d = (case strip_suffix d [slash] of Some r \<Rightarrow> r | None \<Rightarrow> d);
               d = (case strip_suffix d [backslash] of Some r \<Rightarrow> r | None \<Rightarrow> d)
           in starts_with canonical_file_name (d @ [slash]) \<or> starts_with canonical_file_name (d @ [backslash]))"

definition compare_number_of_directory_separators :: "string \<Rightarrow> string \<Rightarrow> ordering" where
  "compare_number_of_directory_separators path1 path2 =
     (let m = count_list path1 slash; n = count_list path2 slash
      in if m < n then Less else if m = n then Equal else Greater)"

section \<open>Ancestors\<close>

lemma directory_shorter: "get_directory_path p \<noteq> p \<Longrightarrow> backslash \<notin> set p \<Longrightarrow> length (get_directory_path p) < length p"
  by (auto simp: get_directory_path_def normalize_slashes_id Let_def)

text \<open>The walk starts at a path without backslashes, and every parent is a prefix of it.\<close>

function for_each_ancestor :: "(string \<Rightarrow> 'a option) \<Rightarrow> string \<Rightarrow> 'a option" where
  "for_each_ancestor callback directory =
     (case callback directory of
        Some result \<Rightarrow> Some result
      | None \<Rightarrow>
          if backslash \<in> set directory then None
          else let parent_path = get_directory_path directory
               in if parent_path = directory then None else for_each_ancestor callback parent_path)"
  by pat_completeness auto

termination
  by (relation "measure (\<lambda>(callback, directory). length directory)") (auto simp: directory_shorter)

declare for_each_ancestor.simps [simp del]

definition for_each_ancestor_directory :: "string \<Rightarrow> (string \<Rightarrow> 'a option) \<Rightarrow> 'a option" where
  "for_each_ancestor_directory directory callback = for_each_ancestor callback (normalize_slashes directory)"

definition for_each_ancestor_directory_stopping_at_global_cache ::
    "'a \<Rightarrow> string \<Rightarrow> string \<Rightarrow> (string \<Rightarrow> 'a option) \<Rightarrow> 'a" where
  "for_each_ancestor_directory_stopping_at_global_cache T_default global_cache_location directory callback =
     (case for_each_ancestor_directory directory (\<lambda>ancestor_directory.
        case callback ancestor_directory of
          Some result \<Rightarrow> Some result
        | None \<Rightarrow> if ancestor_directory = global_cache_location then Some T_default else None) of
        Some result \<Rightarrow> result
      | None \<Rightarrow> T_default)"

section \<open>Extensions\<close>

definition try_get_extension_from_path_with :: "string \<Rightarrow> string \<Rightarrow> (string \<Rightarrow> string \<Rightarrow> bool) \<Rightarrow> string" where
  "try_get_extension_from_path_with p extension comparer =
     (let without_dot = (case strip_prefix extension ''.'' of Some r \<Rightarrow> r | None \<Rightarrow> extension);
          len = length without_dot + 1
      in if len \<le> length p \<and> p ! (length p - len) = CHR ''.'' then
           (let path_extension = drop (length p - len) p
            in if comparer (drop 1 path_extension) without_dot then path_extension else [])
         else [])"

definition get_string_equality_comparer :: "case_folding \<Rightarrow> bool \<Rightarrow> string \<Rightarrow> string \<Rightarrow> bool" where
  "get_string_equality_comparer cf ignore_case = (if ignore_case then equate_string_case_insensitive cf else (=))"

definition get_any_extension_from_path_worker :: "string \<Rightarrow> string list \<Rightarrow> (string \<Rightarrow> string \<Rightarrow> bool) \<Rightarrow> string" where
  "get_any_extension_from_path_worker p extensions comparer =
     (case find_map (\<lambda>extension. let result = try_get_extension_from_path_with p extension comparer
                      in if result \<noteq> [] then Some result else None) extensions of
        Some result \<Rightarrow> result
      | None \<Rightarrow> [])"

text \<open>Without a list of extensions, from the final dot of the base name on.\<close>

definition last_extension :: "string \<Rightarrow> string" where
  "last_extension p =
     (let base_file_name = get_base_file_name p
      in case last_index_byte base_file_name (CHR ''.'') of
           Some extension_index \<Rightarrow> drop extension_index base_file_name
         | None \<Rightarrow> [])"

definition get_any_extension_from_path :: "case_folding \<Rightarrow> string \<Rightarrow> string list \<Rightarrow> bool \<Rightarrow> string" where
  "get_any_extension_from_path cf p extensions ignore_case =
     (if extensions \<noteq> [] then
        get_any_extension_from_path_worker (remove_trailing_directory_separator p) extensions (get_string_equality_comparer cf ignore_case)
      else last_extension p)"

definition get_longest_extension_from_path :: "case_folding \<Rightarrow> string \<Rightarrow> string list \<Rightarrow> bool \<Rightarrow> string" where
  "get_longest_extension_from_path cf p extensions ignore_case =
     (let p = remove_trailing_directory_separator p;
          comparer = get_string_equality_comparer cf ignore_case
      in fold (\<lambda>extension longest.
           if length longest < length extension then
             (let matched = try_get_extension_from_path_with p extension comparer
              in if matched \<noteq> [] then matched else longest)
           else longest) extensions [])"

definition file_extension_is :: "string \<Rightarrow> string \<Rightarrow> bool" where
  "file_extension_is p extension \<longleftrightarrow> length extension < length p \<and> ends_with p extension"

definition has_extension :: "string \<Rightarrow> bool" where
  "has_extension file_name \<longleftrightarrow> CHR ''.'' \<in> set (get_base_file_name file_name)"

definition split_volume_path :: "string \<Rightarrow> (string \<times> string) option" where
  "split_volume_path p =
     (if 2 \<le> length p \<and> is_volume_character (p ! 0) \<and> p ! 1 = CHR '':'' then Some (to_ascii_lowercase (take 2 p), drop 2 p) else None)"

section \<open>What a relative path leads to\<close>

lemma reduce_rest_no_dot: "''.'' \<notin> set R \<Longrightarrow> ''.'' \<notin> set (reduce_rest rooted c R)"
  by (auto simp: reduce_rest_def dest: in_set_butlastD)

lemma reduce_no_dot: "''.'' \<notin> set R \<Longrightarrow> ''.'' \<notin> set (fold (reduce_rest rooted) cs R)"
  by (induction cs arbitrary: R) (simp_all add: reduce_rest_no_dot)

lemma fold_reduce_plain_components:
  "\<forall>c \<in> set cs. slash \<notin> set c \<Longrightarrow> plain_components rooted R \<Longrightarrow> plain_components rooted (fold (reduce_rest rooted) cs R)"
  by (induction cs arbitrary: R) (simp_all add: plain_reduce_rest)

text \<open>The components of a reduced path behind its root.\<close>

definition reduced_rest :: "string \<Rightarrow> string list" where
  "reduced_rest p = fold (reduce_rest (take (get_root_length p) p \<noteq> [])) (split_char slash (drop (get_root_length p) p)) []"

lemma reduced_components:
  "reduce_path_components (ts_components p (get_root_length p)) = take (get_root_length p) p # reduced_rest p"
  by (simp add: fold_reduce_ts_components fold_reduce_rest reduced_rest_def)

lemma reduced_rest_plain:
  "plain_components (take (get_root_length p) p \<noteq> []) (reduced_rest p)" "''.'' \<notin> set (reduced_rest p)"
  unfolding reduced_rest_def
  by (rule fold_reduce_plain_components) (auto simp: plain_components_def dest: split_char_no_sep, simp add: reduce_no_dot)

lemma common_components_prefix:
  assumes "use_case_sensitive_file_names options" "start \<le> length F" "start \<le> length T" "take start F = take start T"
    "F \<noteq> []" "T \<noteq> []" "hd F = hd T"
  shows "start \<le> common_components cf options F T start \<and> common_components cf options F T start \<le> length F \<and>
     take (common_components cf options F T start) F = take (common_components cf options F T start) T"
  using assms(2-4)
proof (induction "length F - start" arbitrary: start rule: less_induct)
  case less
  show ?case
  proof (cases "common_components cf options F T start = start")
    case True
    with less show ?thesis by simp
  next
    case False
    then have step: "start < length F" "start < length T" "common_components cf options F T start = common_components cf options F T (start + 1)"
      "F ! start = T ! start"
      using assms by (auto simp: common_components.simps [of cf options F T start] get_equality_comparer_def hd_conv_nth split: if_splits)
    have "length F - (start + 1) < length F - start" "take (start + 1) F = take (start + 1) T"
      using step less by (simp_all add: take_Suc_conv_app_nth)
    from less(1) [OF this(1) _ _ this(2)] step show ?thesis by simp
  qed
qed

lemma climb:
  assumes "plain_components True R" "k \<le> length R"
  shows "fold (reduce_rest True) (replicate k ''..'') R = take (length R - k) R"
  using assms
proof (induction k arbitrary: R)
  case (Suc k)
  then have R: "R \<noteq> []" by auto
  then have "last R \<noteq> ''..''" using Suc(2) last_in_set [OF R] by (metis plain_components_def)
  with R have "reduce_rest True ''..'' R = butlast R" by (simp add: reduce_rest_def)
  moreover have "plain_components True (butlast R)" using Suc(2) by (auto simp: plain_components_def dest: in_set_butlastD)
  ultimately show ?case using Suc(1) [of "butlast R"] Suc(3) by (simp add: take_butlast del: fold_replicate)
qed simp

lemma descend: "\<forall>c \<in> set cs. c \<noteq> [] \<and> c \<noteq> ''.'' \<and> c \<noteq> ''..'' \<Longrightarrow> fold (reduce_rest rooted) cs R = R @ cs"
  by (induction cs arbitrary: R) (simp_all add: reduce_rest_def)

text \<open>
  C27: The relative path between two paths leads from the one to the other. Going up and down its
  components from the reduced components of a rooted directory ends at the reduced components of the
  target, when both have the same root and case matters.
\<close>

theorem relative_leads_to:
  assumes "use_case_sensitive_file_names options"
    and "from_components = reduce_path_components (get_path_components from (current_directory options))"
    and "to_components = reduce_path_components (get_path_components to (current_directory options))"
    and "hd from_components = hd to_components" "hd from_components \<noteq> []"
    and "equate_string_case_insensitive cf (hd from_components) (hd from_components)"
  shows "fold reduce_step (tl (get_path_components_relative_to cf options from to)) from_components = to_components \<and>
     hd (get_path_components_relative_to cf options from to) = []"
proof -
  define p where "p = combine_paths (current_directory options) [from]"
  define q where "q = combine_paths (current_directory options) [to]"
  define root where "root = take (get_root_length p) p"
  have F: "from_components = root # reduced_rest p" and T: "to_components = take (get_root_length q) q # reduced_rest q"
    using assms(2,3) by (simp_all add: get_path_components_def Let_def reduced_components p_def q_def root_def)
  with assms(4) have T': "to_components = root # reduced_rest q" and root_q: "take (get_root_length q) q = root" by simp_all
  have root: "root \<noteq> []" using assms(5) F by simp
  define s where "s = common_components cf options from_components to_components 0"
  have "common_components cf options from_components to_components 0 = common_components cf options from_components to_components 1"
    using assms(6) unfolding F T' by (subst common_components.simps) simp
  with common_components_prefix [OF assms(1), of 1 from_components to_components cf]
  have s: "1 \<le> s" "s \<le> length from_components" "take s from_components = take s to_components"
    by (simp_all add: s_def F T')
  then obtain k where k: "s = Suc k" by (cases s) auto
  have rel: "get_path_components_relative_to cf options from to = [] # replicate (length from_components - s) ''..'' @ drop s to_components"
    using s(1) unfolding get_path_components_relative_to_def assms(2,3) [symmetric] s_def [symmetric] Let_def by simp
  have up: "fold (reduce_rest True) (replicate (length (reduced_rest p) - k) ''..'') (reduced_rest p) = take k (reduced_rest p)"
    using climb [of "reduced_rest p" "length (reduced_rest p) - k"] reduced_rest_plain(1) [of p] root s(2)
    by (simp add: root_def [symmetric] F k)
  have down: "fold (reduce_rest True) (drop k (reduced_rest q)) R = R @ drop k (reduced_rest q)" for R
  proof (rule descend, intro ballI)
    fix c assume "c \<in> set (drop k (reduced_rest q))"
    then have "c \<in> set (reduced_rest q)" by (rule in_set_dropD)
    then show "c \<noteq> [] \<and> c \<noteq> ''.'' \<and> c \<noteq> ''..''"
      using reduced_rest_plain [of q] root unfolding root_q by (auto simp: plain_components_def)
  qed
  have "take k (reduced_rest p) = take k (reduced_rest q)" using s(3) by (simp add: F T' k)
  with up down show ?thesis unfolding rel by (simp add: fold_reduce_rest F T' k root del: fold_replicate)
qed

definition plain_folding :: case_folding where
  "plain_folding = \<lparr>equate_string_case_insensitive = (=), compare_strings_case_insensitive = compare_bytes,
     to_file_name_lower_case = to_ascii_lowercase\<rparr>"

definition posix_options :: compare_paths_options where
  "posix_options = \<lparr>use_case_sensitive_file_names = True, current_directory = ''/w''\<rparr>"

theorem relative_leads_to_witness:
  "get_path_components_relative_to plain_folding posix_options ''x/y'' ''/w/x/z/t'' = [[], ''..'', ''z'', ''t''] \<and>
   fold reduce_step [''..'', ''z'', ''t''] [''/'', ''w'', ''x'', ''y''] = [''/'', ''w'', ''x'', ''z'', ''t'']"
proof -
  have options: "use_case_sensitive_file_names posix_options" "current_directory posix_options = ''/w''"
    by (simp_all add: posix_options_def)
  have f: "[''/'', ''w'', ''x'', ''y''] = reduce_path_components (get_path_components ''x/y'' (current_directory posix_options))"
    unfolding options by code_simp
  have t: "[''/'', ''w'', ''x'', ''z'', ''t''] = reduce_path_components (get_path_components ''/w/x/z/t'' (current_directory posix_options))"
    unfolding options by code_simp
  have rel: "get_path_components_relative_to plain_folding posix_options ''x/y'' ''/w/x/z/t'' = [[], ''..'', ''z'', ''t'']" by code_simp
  have "equate_string_case_insensitive plain_folding ''/'' ''/''" by (simp add: plain_folding_def)
  with relative_leads_to [OF options(1) f t, of plain_folding] rel show ?thesis by simp
qed

section \<open>Containment on text\<close>

lemma prefix_joined:
  assumes R: "\<forall>c \<in> set R. c \<noteq> [] \<and> slash \<notin> set c" and R': "\<forall>c \<in> set R'. c \<noteq> [] \<and> slash \<notin> set c"
    and e: "e \<noteq> []" "last e = slash"
  shows "Path_contains_path (joined_path e R) (joined_path e R') \<longleftrightarrow> (\<exists>S. R' = R @ S)"
proof (cases "R = []")
  case True
  have "length e - 1 < length e" "e ! (length e - 1) = slash" using e by (simp_all add: last_conv_nth)
  moreover have "join [slash] R' = [] \<longleftrightarrow> R' = []" using R' by (cases R') (auto simp: join_Cons)
  ultimately show ?thesis using True e
    by (auto simp: Path_contains_path_def starts_with_def nth_append)
next
  case False
  let ?p = "joined_path e R" and ?c = "joined_path e R'"
  have parts: "split_char slash (join [slash] R) = R" using False R by (intro split_char_join) auto
  have last_c: "last R \<noteq> []" "slash \<notin> set (last R)" using R last_in_set [OF False] by simp_all
  then have "last ?p \<noteq> slash"
    using join_snoc [of "[slash]" "butlast R" "last R"] False slash_free_last [of "last R"] by (auto split: if_splits)
  then have tail: "?p ! (length ?p - 1) \<noteq> slash" using e by (metis append_is_Nil_conv last_conv_nth)
  have "Path_contains_path ?p ?c \<longleftrightarrow> ?p = ?c \<or> (\<exists>x. ?c = ?p @ slash # x)"
  proof -
    have "length ?p < length ?c \<and> starts_with ?c ?p \<and> ?c ! length ?p = slash \<longleftrightarrow> (\<exists>x. ?c = ?p @ slash # x)"
      (is "?l \<longleftrightarrow> ?r")
    proof
      assume l: ?l
      then have "?c = ?p @ drop (length ?p) ?c" by (metis append_take_drop_id starts_with_def)
      also have "drop (length ?p) ?c = ?c ! length ?p # drop (Suc (length ?p)) ?c" using l by (metis Cons_nth_drop_Suc)
      finally show ?r using l by metis
    next
      assume ?r
      then obtain x where x: "?c = ?p @ slash # x" ..
      show ?l unfolding x by (simp add: starts_with_def)
    qed
    with e tail show ?thesis unfolding Path_contains_path_def by simp
  qed
  also have "\<dots> \<longleftrightarrow> (\<exists>S. R' = R @ S)"
  proof
    assume "?p = ?c \<or> (\<exists>x. ?c = ?p @ slash # x)"
    then have c: "join [slash] R' = join [slash] R \<or> (\<exists>x. join [slash] R' = join [slash] R @ slash # x)" by auto
    have "join [slash] R \<noteq> []" using False R by (cases R) (auto simp: join_Cons)
    with c have "R' \<noteq> []" by auto
    then have "split_char slash (join [slash] R') = R'" using R' by (intro split_char_join) auto
    with c parts show "\<exists>S. R' = R @ S" by (metis append_Nil2 split_char_sep)
  next
    assume "\<exists>S. R' = R @ S"
    then obtain S where S: "R' = R @ S" ..
    show "?p = ?c \<or> (\<exists>x. ?c = ?p @ slash # x)" using S False by (cases "S = []") (simp_all add: join_append)
  qed
  finally show ?thesis .
qed

lemma list_ex_upt: "list_ex P [0..<Suc n] \<longleftrightarrow> P 0 \<or> (\<exists>i < n. P (Suc i))"
  by (auto simp: list_ex_iff less_Suc_eq_0_disj simp del: upt_Suc)

lemma prefix_iff_nth: "length a \<le> length b \<and> (\<forall>i < length a. a ! i = b ! i) \<longleftrightarrow> (\<exists>s. b = a @ s)"
  (is "?l \<longleftrightarrow> ?r")
proof
  assume ?l
  then have "take (length a) b = a" by (intro nth_equalityI) auto
  then show ?r by (metis append_take_drop_id)
qed (auto simp: nth_append)

text \<open>
  C28: On paths that are rooted and spelled by their own reduced components, the check for a prefix of the
  text that \<open>Path::contains_path\<close> does decides what \<open>contains_path\<close> decides on the components, when both have
  the same root and case matters. Without the same root they differ: \<open>/\<close> is a prefix of the text of
  \<open>//server/share\<close>.
\<close>

theorem contains_path_text:
  assumes "use_case_sensitive_file_names options"
    and p: "p = get_path_from_path_components (reduced_path_components_of_combined p)" "backslash \<notin> set p" "get_root_length p \<noteq> 0"
    and c: "c = get_path_from_path_components (reduced_path_components_of_combined c)" "backslash \<notin> set c" "get_root_length c \<noteq> 0"
    and root: "take (get_root_length p) p = take (get_root_length c) c"
      "equate_string_case_insensitive cf (take (get_root_length p) p) (take (get_root_length p) p)"
  shows "contains_path cf options p c = Path_contains_path p c"
proof -
  define r where "r = take (get_root_length p) p"
  define e where "e = ensure_trailing_directory_separator r"
  have r: "r \<noteq> []" using p(3) root_length_le [of p] by (auto simp: r_def)
  have "last r \<in> set p" using r by (metis in_set_takeD last_in_set r_def)
  then have e: "e \<noteq> []" "last e = slash" using p(2)
    by (auto simp: e_def ensure_trailing_directory_separator_def has_trailing_directory_separator_def is_any_directory_separator_def)
  have comps: "reduced_path_components_of_combined x = take (get_root_length x) x # reduced_rest x" for x
    by (simp add: reduced_path_components_of_combined_def reduced_rest_def fold_reduce_rest Let_def)
  have P: "reduced_path_components_of_combined p = r # reduced_rest p" and C: "reduced_path_components_of_combined c = r # reduced_rest c"
    using comps [of p] comps [of c] root(1) by (simp_all add: r_def)
  have text_p: "p = joined_path e (reduced_rest p)" using p(1) r unfolding P path_from_components e_def by simp
  have text_c: "c = joined_path e (reduced_rest c)" using c(1) r unfolding C path_from_components e_def by simp
  have plain: "\<forall>x \<in> set (reduced_rest y). x \<noteq> [] \<and> slash \<notin> set x" for y
    using reduced_rest_plain(1) [of y] by (simp add: plain_components_def)
  have combined: "combine_paths d [p] = p" "combine_paths d [c] = c" for d
    using p c by (simp_all add: combine_one normalize_slashes_id)
  have nonempty: "p \<noteq> []" "c \<noteq> []" using r e text_p text_c by auto
  have "contains_path cf options p c \<longleftrightarrow> (\<exists>S. reduced_rest c = reduced_rest p @ S)"
  proof (cases "p = c")
    case True
    with nonempty combined show ?thesis by (simp add: contains_path_def)
  next
    case False
    have "contains_path cf options p c \<longleftrightarrow> length (reduced_rest p) \<le> length (reduced_rest c) \<and>
        (\<forall>i < length (reduced_rest p). reduced_rest p ! i = reduced_rest c ! i)"
      using False nonempty assms(1) root(2) unfolding r_def [symmetric]
      by (auto simp: contains_path_def combined Let_def P C list_ex_upt get_equality_comparer_def simp del: upt_Suc)
    also have "\<dots> \<longleftrightarrow> (\<exists>S. reduced_rest c = reduced_rest p @ S)" by (rule prefix_iff_nth)
    finally show ?thesis .
  qed
  also have "\<dots> \<longleftrightarrow> Path_contains_path p c"
    using prefix_joined [OF plain [of p] plain [of c] e] text_p text_c by simp
  finally show ?thesis .
qed

theorem contains_path_text_witness:
  "contains_path plain_folding posix_options ''/a/b'' ''/a/b/c'' = Path_contains_path ''/a/b'' ''/a/b/c'' \<and>
   Path_contains_path ''/a/b'' ''/a/b/c'' \<and> \<not> Path_contains_path ''/a/b'' ''/a/bc''"
proof -
  have "use_case_sensitive_file_names posix_options" by (simp add: posix_options_def)
  moreover have "''/a/b'' = get_path_from_path_components (reduced_path_components_of_combined ''/a/b'')" by code_simp
  moreover have "''/a/b/c'' = get_path_from_path_components (reduced_path_components_of_combined ''/a/b/c'')" by code_simp
  moreover have "backslash \<notin> set ''/a/b''" "backslash \<notin> set ''/a/b/c''" by (simp_all add: backslash_def)
  moreover have n: "get_root_length ''/a/b'' = 1" "get_root_length ''/a/b/c'' = 1" by code_simp+
  moreover have "equate_string_case_insensitive plain_folding s s" for s by (simp add: plain_folding_def)
  ultimately have "contains_path plain_folding posix_options ''/a/b'' ''/a/b/c'' = Path_contains_path ''/a/b'' ''/a/b/c''"
    by (intro contains_path_text) simp_all
  moreover have "Path_contains_path ''/a/b'' ''/a/b/c''" "\<not> Path_contains_path ''/a/b'' ''/a/bc''" by code_simp+
  ultimately show ?thesis by blast
qed

end
