(* ===== verification/TsDynamic.thy ===== *)
theory TsDynamic
  imports TsRelative
begin

text \<open>
  File names for documents that are not files: \<open>crates/stiles-tsrs/tsrs_core/src/tspath/dynamic.rs\<close>. A segment
  that a path could not keep is written in hexadecimal behind an escape, its extension left readable. The
  declaration extensions are those of \<open>tspath/extension.rs\<close>.
\<close>

section \<open>Searching text\<close>

definition str_find :: "string \<Rightarrow> string \<Rightarrow> nat option" where
  "str_find s pattern = find (\<lambda>i. starts_with (drop i s) pattern) [0..<Suc (length s)]"

definition str_contains :: "string \<Rightarrow> string \<Rightarrow> bool" where
  "str_contains s pattern \<longleftrightarrow> str_find s pattern \<noteq> None"

definition split_once :: "string \<Rightarrow> char \<Rightarrow> (string \<times> string) option" where
  "split_once s c = map_option (\<lambda>i. (take i s, drop (i + 1) s)) (find_char c s)"

definition rsplit_once :: "string \<Rightarrow> char \<Rightarrow> (string \<times> string) option" where
  "rsplit_once s c = map_option (\<lambda>i. (take i s, drop (i + 1) s)) (last_index_byte s c)"

section \<open>Declaration extensions\<close>

definition supported_declaration_extensions :: "string list" where
  "supported_declaration_extensions = [''.d.ts'', ''.d.cts'', ''.d.mts'']"

definition get_declaration_file_extension :: "string \<Rightarrow> string" where
  "get_declaration_file_extension file_name =
     (let base = get_base_file_name file_name;
          len = (case find (ends_with base) supported_declaration_extensions of
                   Some ext \<Rightarrow> length ext
                 | None \<Rightarrow>
                     if ends_with base ''.ts''
                     then (case str_find base ''.d.'' of Some index \<Rightarrow> length base - index | None \<Rightarrow> 0)
                     else 0)
      in if len = 0 then []
         else let trimmed = rev (dropWhile is_any_directory_separator (rev file_name))
              in drop (length trimmed - len) trimmed)"

section \<open>Hexadecimal\<close>

fun hex_encode :: "string \<Rightarrow> string" where
  "hex_encode [] = []"
| "hex_encode (c # cs) = digit (byte_of c div 16) # digit (byte_of c mod 16) # hex_encode cs"

definition to_digit16 :: "char \<Rightarrow> nat option" where
  "to_digit16 c =
     (let b = byte_of c in
      if 48 \<le> b \<and> b \<le> 57 then Some (b - 48)
      else if 97 \<le> b \<and> b \<le> 102 then Some (b - 87)
      else if 65 \<le> b \<and> b \<le> 70 then Some (b - 55)
      else None)"

fun hex_pairs :: "string \<Rightarrow> string option" where
  "hex_pairs (a # b # s) =
     (case to_digit16 a of
        None \<Rightarrow> None
      | Some hi \<Rightarrow>
          (case to_digit16 b of
             None \<Rightarrow> None
           | Some lo \<Rightarrow> map_option (\<lambda>bytes. char_of (hi * 16 + lo) # bytes) (hex_pairs s)))"
| "hex_pairs s = Some []"

definition hex_decode :: "string \<Rightarrow> string option" where
  "hex_decode encoded =
     (if length encoded mod 2 \<noteq> 0 then None
      else Option.bind (hex_pairs encoded) (\<lambda>bytes. if utf8_valid bytes then Some bytes else None))"

section \<open>Segments\<close>

definition path_escape :: string where "path_escape = ''~ts-uri-escape~''"

definition spec_escape :: string where "spec_escape = ''~ts-uri-spec~''"

definition no_path_escape :: string where "no_path_escape = ''~ts-uri-no-path~''"

definition dynamic_uri_path_segment_needs_encoding :: "string \<Rightarrow> bool" where
  "dynamic_uri_path_segment_needs_encoding segment \<longleftrightarrow>
     segment = [] \<or> segment = ''.'' \<or> segment = ''..'' \<or> starts_with segment path_escape \<or>
     starts_with segment spec_escape \<or> starts_with segment no_path_escape \<or> backslash \<in> set segment"

definition split_dynamic_uri_file_extension :: "string \<Rightarrow> string \<times> string" where
  "split_dynamic_uri_file_extension segment =
     (let base_name = last (split_char backslash segment);
          declaration_extension = get_declaration_file_extension base_name;
          extension = (if declaration_extension = [] then last_extension base_name else declaration_extension)
      in if extension = [] then (segment, [])
         else let split = length segment - length extension in (take split segment, drop split segment))"

definition force_encode_dynamic_uri_path_segment :: "string \<Rightarrow> bool \<Rightarrow> string" where
  "force_encode_dynamic_uri_path_segment segment preserve_extension =
     (let (base, extension) =
        (if preserve_extension \<and> segment \<noteq> ''.'' \<and> segment \<noteq> ''..'' then split_dynamic_uri_file_extension segment
         else (segment, []))
      in path_escape @ hex_encode base @ ''~'' @ extension)"

definition force_encode_dynamic_uri_path_segment_with_suffix :: "string \<Rightarrow> string \<Rightarrow> string" where
  "force_encode_dynamic_uri_path_segment_with_suffix segment suffix =
     (let (base, extension) = split_dynamic_uri_file_extension segment
      in path_escape @ hex_encode (base @ [CHR 0x00] @ suffix) @ ''~'' @ extension)"

definition encode_dynamic_uri_path_segment :: "string \<Rightarrow> bool \<Rightarrow> string" where
  "encode_dynamic_uri_path_segment segment preserve_extension =
     (if dynamic_uri_path_segment_needs_encoding segment then force_encode_dynamic_uri_path_segment segment preserve_extension
      else segment)"

definition try_decode_dynamic_uri_path_segment :: "string \<Rightarrow> string option" where
  "try_decode_dynamic_uri_path_segment segment =
     (case strip_prefix segment path_escape of
        None \<Rightarrow> if dynamic_uri_path_segment_needs_encoding segment then None else Some segment
      | Some encoded \<Rightarrow>
          (case split_once encoded (CHR ''~'') of
             None \<Rightarrow> None
           | Some (encoded, extension) \<Rightarrow>
               (case hex_decode encoded of
                  None \<Rightarrow> None
                | Some decoded \<Rightarrow>
                    (case split_once decoded (CHR 0x00) of
                       Some (base, suffix) \<Rightarrow> Some (base @ extension @ suffix)
                     | None \<Rightarrow> Some (decoded @ extension)))))"

definition decode_dynamic_uri_path_segment :: "string \<Rightarrow> string" where
  "decode_dynamic_uri_path_segment segment =
     (case try_decode_dynamic_uri_path_segment segment of Some decoded \<Rightarrow> decoded | None \<Rightarrow> segment)"

section \<open>Paths\<close>

definition is_encoded_dynamic_file_name :: "string \<Rightarrow> bool" where
  "is_encoded_dynamic_file_name p = starts_with p dynamic_uri_file_name_prefix"

definition canonical_dynamic_uri_path :: "string \<Rightarrow> string" where
  "canonical_dynamic_uri_path p =
     (if is_encoded_dynamic_file_name p \<and> get_root_length p = length p \<and> \<not> has_trailing_directory_separator p
      then p @ ''/'' else p)"

fun encode_segments_loop :: "bool \<Rightarrow> string \<Rightarrow> string list \<Rightarrow> string" where
  "encode_segments_loop preserve_final_extension out [] = out"
| "encode_segments_loop preserve_final_extension out (segment # segments) =
     encode_segments_loop preserve_final_extension
       ((if out \<noteq> [] then out @ [slash] else out)
         @ encode_dynamic_uri_path_segment segment (preserve_final_extension \<and> segments = [])) segments"

definition encode_dynamic_uri_path_segments :: "string \<Rightarrow> bool \<Rightarrow> string" where
  "encode_dynamic_uri_path_segments p preserve_final_extension =
     (if \<not> list_ex dynamic_uri_path_segment_needs_encoding (split_char slash p) then p
      else encode_segments_loop preserve_final_extension [] (split_char slash p))"

definition encode_dynamic_uri_path_root_aware :: "string \<Rightarrow> bool \<Rightarrow> string" where
  "encode_dynamic_uri_path_root_aware p preserve_final_extension =
     (let encoded = encode_dynamic_uri_path_segments p preserve_final_extension
      in if \<not> path_is_absolute encoded then encoded
         else (case split_once encoded slash of
                 Some (first, rest) \<Rightarrow> force_encode_dynamic_uri_path_segment first False @ [slash] @ rest
               | None \<Rightarrow> force_encode_dynamic_uri_path_segment encoded preserve_final_extension))"

definition encode_dynamic_uri_path :: "string \<Rightarrow> string" where
  "encode_dynamic_uri_path p = encode_dynamic_uri_path_root_aware p True"

definition encode_dynamic_uri_directory_path :: "string \<Rightarrow> string" where
  "encode_dynamic_uri_directory_path p = encode_dynamic_uri_path_root_aware p False"

definition encode_dynamic_relative_uri_path :: "string \<Rightarrow> string" where
  "encode_dynamic_relative_uri_path p = encode_dynamic_uri_path_root_aware p True"

definition encode_dynamic_relative_uri_directory_path :: "string \<Rightarrow> string" where
  "encode_dynamic_relative_uri_directory_path p = encode_dynamic_uri_path_root_aware p False"

definition encode_dynamic_uri_path_with_suffix :: "string \<Rightarrow> string \<Rightarrow> string" where
  "encode_dynamic_uri_path_with_suffix p suffix =
     (if suffix = [] then encode_dynamic_uri_path p
      else let (before, final) =
             (case rsplit_once p slash of
                Some (before, final) \<Rightarrow> (encode_dynamic_uri_directory_path before @ ''/'', final)
              | None \<Rightarrow> ([], p))
           in before @ force_encode_dynamic_uri_path_segment_with_suffix final suffix)"

definition encode_dynamic_uri_no_path :: "string \<Rightarrow> string" where
  "encode_dynamic_uri_no_path suffix = no_path_escape @ hex_encode suffix @ ''~''"

definition decode_dynamic_uri_no_path :: "string \<Rightarrow> string option" where
  "decode_dynamic_uri_no_path p =
     Option.bind (Option.bind (strip_prefix p no_path_escape) (\<lambda>e. strip_suffix e ''~'')) hex_decode"

definition decode_dynamic_uri_path :: "string \<Rightarrow> string" where
  "decode_dynamic_uri_path p =
     (if \<not> str_contains p path_escape then p
      else join [slash] (map decode_dynamic_uri_path_segment (split_char slash p)))"

definition try_decode_dynamic_uri_path :: "string \<Rightarrow> string option" where
  "try_decode_dynamic_uri_path p =
     map_option (join [slash]) (those (map try_decode_dynamic_uri_path_segment (split_char slash p)))"

fun disk_segments :: "string list \<Rightarrow> bool" where
  "disk_segments [] = True"
| "disk_segments (segment # segments) =
     (if segment = [] then segments = []
      else if segment = ''.'' \<or> segment = ''..'' \<or> backslash \<in> set segment then False
      else disk_segments segments)"

definition decode_dynamic_uri_path_for_disk :: "string \<Rightarrow> string option" where
  "decode_dynamic_uri_path_for_disk p =
     (let decoded = decode_dynamic_uri_path p
      in if path_is_absolute decoded then None
         else if disk_segments (split_char slash decoded) then Some decoded else None)"

section \<open>Module specifiers\<close>

definition encode_dynamic_module_specifier_segment :: "string \<Rightarrow> bool \<Rightarrow> string" where
  "encode_dynamic_module_specifier_segment segment preserve_extension =
     (let otherwise =
        (if starts_with segment path_escape then force_encode_dynamic_uri_path_segment segment preserve_extension else segment)
      in case strip_prefix segment spec_escape of
           Some encoded \<Rightarrow>
             (let physical = path_escape @ encoded
              in if decode_dynamic_uri_path_segment physical \<noteq> physical then physical else otherwise)
         | None \<Rightarrow> otherwise)"

function specifier_loop :: "bool \<Rightarrow> string \<Rightarrow> string \<Rightarrow> string" where
  "specifier_loop preserve_final_extension out rest =
     (let index = length (takeWhile (\<lambda>c. \<not> is_any_directory_separator c) rest) in
      if index < length rest then
        specifier_loop preserve_final_extension
          (out @ encode_dynamic_module_specifier_segment (take index rest) False @ [rest ! index]) (drop (index + 1) rest)
      else out @ encode_dynamic_module_specifier_segment rest preserve_final_extension)"
  by pat_completeness auto

termination
  by (relation "measure (\<lambda>(preserve_final_extension, out, rest). length rest)") auto

declare specifier_loop.simps [simp del]

definition encode_dynamic_module_specifier_worker :: "string \<Rightarrow> bool \<Rightarrow> string" where
  "encode_dynamic_module_specifier_worker specifier preserve_final_extension =
     (if \<not> str_contains specifier path_escape \<and> \<not> str_contains specifier spec_escape then specifier
      else specifier_loop preserve_final_extension [] specifier)"

definition dynamic_uri_path_to_module_specifier :: "string \<Rightarrow> string" where
  "dynamic_uri_path_to_module_specifier p =
     (if \<not> str_contains p path_escape then p
      else join [slash] (map (\<lambda>segment.
             if starts_with segment path_escape \<and> decode_dynamic_uri_path_segment segment \<noteq> segment
             then spec_escape @ drop (length path_escape) segment else segment) (split_char slash p)))"

definition encode_dynamic_logical_module_specifier :: "string \<Rightarrow> string" where
  "encode_dynamic_logical_module_specifier specifier =
     (if specifier = [] then []
      else let trailing = has_trailing_directory_separator specifier;
               body = (if trailing then remove_trailing_directory_separator specifier else specifier);
               encoded = dynamic_uri_path_to_module_specifier (encode_dynamic_relative_uri_path body)
           in if trailing then encoded @ ''/'' else encoded)"

section \<open>Hexadecimal reads back\<close>

lemma to_digit16_digit: "n < 16 \<Longrightarrow> to_digit16 (digit n) = Some n"
  by (auto simp: to_digit16_def byte_of_digit Let_def)

lemma byte_of_nibbles: "byte_of c div 16 < 16" "byte_of c mod 16 < 16"
  using less_mult_imp_div_less [of "byte_of c" 16 16] nat_of_char_less_256 [of c] by simp_all

lemma hex_pairs_encode: "hex_pairs (hex_encode s) = Some s"
proof (induction s)
  case (Cons c s)
  have "byte_of c div 16 * 16 + byte_of c mod 16 = byte_of c" by simp
  with Cons byte_of_nibbles [of c] show ?case by (simp add: to_digit16_digit)
qed simp

lemma length_hex_encode: "length (hex_encode s) = 2 * length s"
  by (induction s) simp_all

lemma hex_encode_chars:
  assumes "c \<in> set (hex_encode s)"
  shows "c \<noteq> CHR ''~'' \<and> c \<noteq> slash \<and> c \<noteq> backslash \<and> c \<noteq> CHR '':''"
proof -
  have "\<exists>n < 16. c = digit n" using assms
  proof (induction s)
    case (Cons d s)
    with byte_of_nibbles [of d] show ?case by (metis hex_encode.simps(2) set_ConsD)
  qed simp
  then obtain n where n: "n < 16" "c = digit n" by blast
  then have "byte_of c = (if n < 10 then 48 + n else 87 + n)" by (simp add: byte_of_digit)
  then have "byte_of c \<noteq> 126 \<and> byte_of c \<noteq> 47 \<and> byte_of c \<noteq> 92 \<and> byte_of c \<noteq> 58" using n(1) by (auto split: if_splits)
  then show ?thesis by (auto simp: slash_def backslash_def)
qed

lemma hex_decode_encode: "utf8_valid s \<Longrightarrow> hex_decode (hex_encode s) = Some s"
  by (simp add: hex_decode_def length_hex_encode hex_pairs_encode)

section \<open>UTF-8 around an ASCII character\<close>

lemma utf8_next_continues:
  assumes "fst (utf8_next s)"
  shows "snd (utf8_next s) \<le> length s" "0 < i \<Longrightarrow> i < snd (utf8_next s) \<Longrightarrow> 128 \<le> byte_of (s ! i)"
    "s = t @ r \<Longrightarrow> snd (utf8_next s) \<le> length t \<Longrightarrow> utf8_next t = utf8_next s"
proof -
  from assms obtain c cs where s: "s = c # cs" by (cases s) (simp_all add: utf8_next.simps)
  have step: "utf8_next s = (True, 1) \<or> (\<exists>d ds. cs = d # ds \<and> 128 \<le> byte_of d \<and> (utf8_next s = (True, 2) \<or>
      (\<exists>e es. ds = e # es \<and> 128 \<le> byte_of e \<and> (utf8_next s = (True, 3) \<or>
        (\<exists>f fs. es = f # fs \<and> 128 \<le> byte_of f \<and> utf8_next s = (True, 4))))))"
    using assms unfolding s utf8_next.simps Let_def
    by (auto simp: is_continuation_def second_ok_def split: list.splits if_splits)
  show "snd (utf8_next s) \<le> length s" using step by (auto simp: s)
  show "128 \<le> byte_of (s ! i)" if "0 < i" "i < snd (utf8_next s)"
    using step that by (auto simp: s nth_Cons numeral_eq_Suc less_Suc_eq split: nat.splits)
  show "utf8_next t = utf8_next s" if t: "s = t @ r" "snd (utf8_next s) \<le> length t"
  proof (cases t)
    case Nil
    with t step show ?thesis by auto
  next
    case (Cons a as)
    with t s have eq: "a = c" "cs = as @ r" by auto
    show ?thesis using step t(2) assms unfolding s Cons eq
      by (auto simp: utf8_next.simps Let_def Suc_le_length_iff numeral_eq_Suc split: if_splits list.splits)
  qed
qed

lemma utf8_valid_split:
  "utf8_valid (a @ c # b) \<Longrightarrow> byte_of c < 128 \<Longrightarrow> utf8_valid a \<and> utf8_valid b"
proof (induction "length a" arbitrary: a rule: less_induct)
  case less
  let ?s = "a @ c # b"
  have ok: "fst (utf8_next ?s)" "utf8_valid (drop (snd (utf8_next ?s)) ?s)"
    using less(2) by (cases a; simp add: utf8_valid.simps)+
  show ?case
  proof (cases "a = []")
    case True
    with ok less(3) show ?thesis by (simp add: utf8_next.simps)
  next
    case False
    let ?n = "snd (utf8_next ?s)"
    have pos: "0 < ?n" by (rule utf8_next_pos) simp
    have le: "?n \<le> length a"
    proof (rule ccontr)
      assume "\<not> ?n \<le> length a"
      then have "128 \<le> byte_of (?s ! length a)" using False by (intro utf8_next_continues(2) [OF ok(1)]) auto
      with less(3) show False by simp
    qed
    have "utf8_next a = utf8_next ?s" using le by (intro utf8_next_continues(3) [OF ok(1)]) simp_all
    moreover have "drop ?n ?s = drop ?n a @ c # b" using le by simp
    then have "utf8_valid (drop ?n a) \<and> utf8_valid b"
      using less(1) [of "drop ?n a"] ok(2) less(3) pos False by simp
    ultimately show ?thesis using ok(1) False by (cases a) (simp_all add: utf8_valid.simps)
  qed
qed

section \<open>Extensions are suffixes\<close>

lemma last_index_nth: "last_index_byte s c = Some i \<Longrightarrow> i < length s \<and> s ! i = c"
proof -
  assume "last_index_byte s c = Some i"
  then obtain j where j: "find_char c (rev s) = Some j" "i = length s - 1 - j" by (auto simp: last_index_byte_def)
  from find_char_Some [OF j(1)] have "j < length s" "rev s ! j = c" by simp_all
  with j(2) show ?thesis by (simp add: rev_nth)
qed

text \<open>A suffix that starts with a dot.\<close>

definition dot_suffix :: "string \<Rightarrow> string \<Rightarrow> bool" where
  "dot_suffix s e \<longleftrightarrow> (\<exists>b. s = b @ e) \<and> (e = [] \<or> hd e = CHR ''.'')"

lemma dot_suffix_trans: "s = b @ t \<Longrightarrow> dot_suffix t e \<Longrightarrow> dot_suffix s e"
  by (auto simp: dot_suffix_def)

lemma last_not_separator: "slash \<notin> set n \<Longrightarrow> backslash \<notin> set n \<Longrightarrow> n = [] \<or> \<not> is_any_directory_separator (last n)"
  unfolding is_any_directory_separator_def by (metis last_in_set)

lemma base_suffix:
  assumes "slash \<notin> set n" "backslash \<notin> set n"
  shows "\<exists>b. n = b @ get_base_file_name n"
proof -
  have "remove_trailing_directory_separator n = n"
    using last_not_separator [OF assms]
    by (auto simp: remove_trailing_directory_separator_def has_trailing_directory_separator_def)
  then have "get_base_file_name n = [] \<or> (\<exists>k. get_base_file_name n = drop k n)"
    using assms by (auto simp: get_base_file_name_def normalize_slashes_id Let_def)
  then show ?thesis by (metis append_Nil2 append_take_drop_id)
qed

lemma last_extension_suffix:
  assumes "slash \<notin> set n" "backslash \<notin> set n"
  shows "dot_suffix n (last_extension n)"
proof -
  let ?b = "get_base_file_name n"
  have "dot_suffix ?b (last_extension n)"
  proof (cases "last_index_byte ?b (CHR ''.'')")
    case (Some i)
    from last_index_nth [OF this] have "hd (drop i ?b) = CHR ''.''" by (simp add: hd_drop_conv_nth)
    with Some show ?thesis unfolding dot_suffix_def last_extension_def by (simp add: Let_def) (metis append_take_drop_id)
  qed (simp add: last_extension_def dot_suffix_def)
  with base_suffix [OF assms] show ?thesis using dot_suffix_trans by blast
qed

lemma declaration_extension_suffix:
  assumes "slash \<notin> set n" "backslash \<notin> set n"
  shows "dot_suffix n (get_declaration_file_extension n)"
proof -
  let ?b = "get_base_file_name n"
  obtain a where a: "n = a @ ?b" using base_suffix [OF assms] by blast
  have "dropWhile is_any_directory_separator (rev n) = rev n"
    using last_not_separator [OF assms] by (auto simp: dropWhile_eq_self_iff hd_rev)
  then have trimmed: "rev (dropWhile is_any_directory_separator (rev n)) = n" by simp
  define len where "len = (case find (ends_with ?b) supported_declaration_extensions of
      Some ext \<Rightarrow> length ext
    | None \<Rightarrow> if ends_with ?b ''.ts'' then (case str_find ?b ''.d.'' of Some index \<Rightarrow> length ?b - index | None \<Rightarrow> 0) else 0)"
  have ext: "get_declaration_file_extension n = (if len = 0 then [] else drop (length n - len) n)"
    unfolding get_declaration_file_extension_def Let_def trimmed len_def [symmetric] ..
  have "len = 0 \<or> (len \<le> length ?b \<and> hd (drop (length ?b - len) ?b) = CHR ''.'')"
  proof (cases "find (ends_with ?b) supported_declaration_extensions")
    case (Some x)
    then have "ends_with ?b x" "x \<in> set supported_declaration_extensions" by (auto simp: find_Some_iff in_set_conv_nth)
    moreover from this(2) have "hd x = CHR ''.''" by (auto simp: supported_declaration_extensions_def)
    ultimately show ?thesis using Some by (simp add: len_def ends_with_def)
  next
    case None
    show ?thesis
    proof (cases "str_find ?b ''.d.''")
      case (Some i)
      then have i: "i \<le> length ?b" "starts_with (drop i ?b) ''.d.''" by (auto simp: str_find_def find_Some_iff simp del: upt_Suc)
      then have "hd (drop i ?b) = CHR ''.''" by (cases "drop i ?b") (auto simp: starts_with_def)
      with i None Some show ?thesis by (simp add: len_def)
    qed (simp add: len_def None)
  qed
  moreover have "drop (length n - len) n = drop (length ?b - len) ?b" if "len \<le> length ?b"
  proof -
    have "length n - len = length a + (length ?b - len)" using that arg_cong [OF a, of length] by simp
    then show ?thesis by (metis a append_Nil append_eq_conv_conj drop_drop add.commute)
  qed
  ultimately show ?thesis unfolding ext dot_suffix_def by (metis append_Nil2 append_take_drop_id)
qed

lemma split_extension:
  assumes "slash \<notin> set segment" "split_dynamic_uri_file_extension segment = (b, e)"
  shows "segment = b @ e" "e = [] \<or> hd e = CHR ''.''" "backslash \<notin> set e"
proof -
  let ?n = "last (split_char backslash segment)"
  obtain a where a: "segment = a @ ?n" using split_char_last [of segment backslash] by (metis append.assoc append_Cons append_Nil)
  have n: "slash \<notin> set ?n" "backslash \<notin> set ?n"
    using assms(1) a split_char_no_sep [of ?n backslash segment] by (auto, metis Un_iff set_append)
  define x where "x = (if get_declaration_file_extension ?n = [] then last_extension ?n else get_declaration_file_extension ?n)"
  have "dot_suffix ?n x" using last_extension_suffix [OF n] declaration_extension_suffix [OF n] by (simp add: x_def)
  then obtain m where m: "?n = m @ x" "x = [] \<or> hd x = CHR ''.''" by (auto simp: dot_suffix_def)
  have "segment = a @ m @ x" using a m(1) by simp
  then have "b = a @ m \<and> e = x"
    using assms(2) unfolding split_dynamic_uri_file_extension_def Let_def x_def [symmetric] by (auto split: if_splits)
  then show "segment = b @ e" "e = [] \<or> hd e = CHR ''.''" using \<open>segment = a @ m @ x\<close> m(2) by simp_all
  show "backslash \<notin> set e" using n(2) m(1) \<open>b = a @ m \<and> e = x\<close> by (metis Un_iff set_append)
qed

section \<open>Segments read back\<close>

lemma split_once_append: "c \<notin> set a \<Longrightarrow> split_once (a @ c # b) c = Some (a, b)"
proof -
  assume "c \<notin> set a"
  then have "takeWhile (\<lambda>d. d \<noteq> c) (a @ c # b) = a" by (subst takeWhile_append2) auto
  then show ?thesis by (simp add: split_once_def find_char_def)
qed

lemma split_once_None: "c \<notin> set a \<Longrightarrow> split_once a c = None"
  by (simp add: split_once_def find_char_def)

lemma strip_prefix_append: "strip_prefix (p @ s) p = Some s"
  by (simp add: strip_prefix_Some)

lemma force_encode_shape:
  assumes "slash \<notin> set segment"
  obtains b e where "force_encode_dynamic_uri_path_segment segment preserve = path_escape @ hex_encode b @ CHR ''~'' # e"
    "segment = b @ e" "e = [] \<or> hd e = CHR ''.''" "backslash \<notin> set e"
proof (cases "preserve \<and> segment \<noteq> ''.'' \<and> segment \<noteq> ''..''")
  case True
  obtain b e where be: "split_dynamic_uri_file_extension segment = (b, e)" by fastforce
  from split_extension [OF assms be] be True show thesis
    by (intro that [of b e]) (simp_all add: force_encode_dynamic_uri_path_segment_def)
next
  case False
  show thesis by (rule that [of segment "[]"]) (use False in \<open>auto simp: force_encode_dynamic_uri_path_segment_def\<close>)
qed

lemma escape_chars: "slash \<notin> set path_escape" "backslash \<notin> set path_escape" "hd path_escape = CHR ''~''" "path_escape \<noteq> []"
  by (simp_all add: path_escape_def slash_def backslash_def)

lemma utf8_valid_prefix: "utf8_valid (b @ e) \<Longrightarrow> e = [] \<or> hd e = CHR ''.'' \<Longrightarrow> utf8_valid b"
  using utf8_valid_split [of b "CHR ''.''" "tl e"] by (cases e) auto

lemma force_encode_decode:
  assumes "slash \<notin> set segment" "utf8_valid segment" "CHR 0x00 \<notin> set segment"
  shows "try_decode_dynamic_uri_path_segment (force_encode_dynamic_uri_path_segment segment preserve) = Some segment"
proof -
  obtain b e where be: "force_encode_dynamic_uri_path_segment segment preserve = path_escape @ hex_encode b @ CHR ''~'' # e"
    "segment = b @ e" "e = [] \<or> hd e = CHR ''.''" by (rule force_encode_shape [OF assms(1)])
  have "hex_decode (hex_encode b) = Some b" using assms(2) be(2,3) utf8_valid_prefix by (intro hex_decode_encode) blast
  moreover have "split_once (hex_encode b @ CHR ''~'' # e) (CHR ''~'') = Some (hex_encode b, e)"
    using hex_encode_chars by (intro split_once_append) blast
  moreover have "split_once b (CHR 0x00) = None" using assms(3) be(2) by (intro split_once_None) simp
  ultimately show ?thesis unfolding be(1) try_decode_dynamic_uri_path_segment_def strip_prefix_append using be(2) by simp
qed

text \<open>A segment that survives the normal form of a path.\<close>

definition safe_segment :: "string \<Rightarrow> bool" where
  "safe_segment e \<longleftrightarrow> e \<noteq> [] \<and> e \<noteq> ''.'' \<and> e \<noteq> ''..'' \<and> slash \<notin> set e \<and> backslash \<notin> set e"

lemma force_encode_safe:
  assumes "slash \<notin> set segment"
  shows "safe_segment (force_encode_dynamic_uri_path_segment segment preserve)"
    "hd (force_encode_dynamic_uri_path_segment segment preserve) = CHR ''~''"
proof -
  obtain b e where be: "force_encode_dynamic_uri_path_segment segment preserve = path_escape @ hex_encode b @ CHR ''~'' # e"
    "segment = b @ e" "backslash \<notin> set e" by (rule force_encode_shape [OF assms])
  have "slash \<notin> set e" using assms be(2) by simp
  moreover have "CHR ''~'' \<noteq> slash" "CHR ''~'' \<noteq> backslash" by (simp_all add: slash_def backslash_def)
  moreover have "path_escape @ x \<noteq> ''.''" "path_escape @ x \<noteq> ''..''" for x by (simp_all add: path_escape_def)
  ultimately show "safe_segment (force_encode_dynamic_uri_path_segment segment preserve)"
    "hd (force_encode_dynamic_uri_path_segment segment preserve) = CHR ''~''"
    unfolding be(1) safe_segment_def using be(3) escape_chars hex_encode_chars by auto
qed

lemma encode_segment_safe:
  "slash \<notin> set segment \<Longrightarrow> safe_segment (encode_dynamic_uri_path_segment segment preserve)"
  using force_encode_safe(1) [of segment preserve]
  by (auto simp: encode_dynamic_uri_path_segment_def dynamic_uri_path_segment_needs_encoding_def safe_segment_def)

lemma encode_segment_decode:
  assumes "slash \<notin> set segment" "utf8_valid segment" "CHR 0x00 \<notin> set segment"
  shows "try_decode_dynamic_uri_path_segment (encode_dynamic_uri_path_segment segment preserve) = Some segment"
proof (cases "dynamic_uri_path_segment_needs_encoding segment")
  case True
  with force_encode_decode [OF assms] show ?thesis by (simp add: encode_dynamic_uri_path_segment_def)
next
  case False
  then show ?thesis
    by (auto simp: encode_dynamic_uri_path_segment_def try_decode_dynamic_uri_path_segment_def strip_prefix_def
        dynamic_uri_path_segment_needs_encoding_def)
qed

section \<open>Paths read back\<close>

fun encoded_segments :: "bool \<Rightarrow> string list \<Rightarrow> string list" where
  "encoded_segments preserve [] = []"
| "encoded_segments preserve (segment # segments) =
     encode_dynamic_uri_path_segment segment (preserve \<and> segments = []) # encoded_segments preserve segments"

lemma encode_segments_loop_join:
  "\<forall>c \<in> set segments. slash \<notin> set c \<Longrightarrow> out \<noteq> [] \<Longrightarrow>
   encode_segments_loop preserve out segments = join [slash] (out # encoded_segments preserve segments)"
proof (induction segments arbitrary: out)
  case (Cons c cs)
  have "join [slash] ((out @ slash # x) # xs) = join [slash] (out # x # xs)" for x xs by (cases xs) simp_all
  with Cons show ?case by simp
qed simp

lemma encode_segments_join:
  "encode_dynamic_uri_path_segments p preserve = join [slash] (encoded_segments preserve (split_char slash p))"
proof -
  obtain t ts where parts: "split_char slash p = t # ts" by (metis split_char_nonempty list.exhaust)
  then have plain: "\<forall>c \<in> set (t # ts). slash \<notin> set c" using split_char_no_sep [of _ slash p] by auto
  have "encoded_segments preserve cs = cs" if "\<not> list_ex dynamic_uri_path_segment_needs_encoding cs" for cs
    using that by (induction cs) (auto simp: encode_dynamic_uri_path_segment_def)
  then have no: "\<not> list_ex dynamic_uri_path_segment_needs_encoding (t # ts) \<Longrightarrow> join [slash] (encoded_segments preserve (t # ts)) = p"
    using join_split_char [of slash p] parts by metis
  have "encode_dynamic_uri_path_segment t x \<noteq> []" for x using encode_segment_safe [of t] plain by (auto simp: safe_segment_def)
  then have "encode_segments_loop preserve [] (t # ts) = join [slash] (encoded_segments preserve (t # ts))"
    using encode_segments_loop_join [of ts] plain by simp
  with no show ?thesis unfolding encode_dynamic_uri_path_segments_def parts by auto
qed

lemma encoded_segments_pairs:
  "\<forall>c \<in> set cs. slash \<notin> set c \<Longrightarrow> list_all2 (\<lambda>e c. safe_segment e \<and> (\<exists>b. e = encode_dynamic_uri_path_segment c b)) (encoded_segments preserve cs) cs"
  by (induction cs) (auto simp: encode_segment_safe)

lemma absolute_iff: "path_is_absolute p \<longleftrightarrow> get_root_length p \<noteq> 0"
proof (cases "get_root_length p = 0")
  case True
  have "get_encoded_root_length p = RootRelative"
  proof (cases "p = []")
    case False
    let ?V = "is_volume_character (p ! 0) \<and> 1 < length p \<and> p ! 1 = CHR '':''"
    from True False have no: "\<not> is_any_directory_separator (p ! 0)" "\<not> (p ! 0 = CHR ''^'' \<and> 1 < length p \<and> p ! 1 = slash)"
      "\<not> (?V \<and> length p = 2)" "\<not> (?V \<and> is_any_directory_separator (p ! 2))" "find_scheme_end p = None"
      unfolding unrooted_iff by blast+
    then show ?thesis unfolding get_encoded_root_length_def Let_def
      using False by (simp_all only: if_False length_0_conv conj_assoc option.case)
  qed (simp add: get_encoded_root_length_def)
  with True show ?thesis by (simp add: path_is_absolute_def)
next
  case False
  then show ?thesis by (auto simp: path_is_absolute_def get_root_length_def)
qed

lemma escaped_relative:
  assumes E: "\<forall>e \<in> set E. safe_segment e" "E \<noteq> []" and tilde: "hd (hd E) = CHR ''~''"
  shows "\<not> path_is_absolute (join [slash] E)"
proof -
  let ?p = "join [slash] E"
  have split: "split_char slash ?p = E" using E by (intro split_char_join) (auto simp: safe_segment_def)
  have "hd E \<noteq> []" using E by (auto simp: safe_segment_def)
  then have p: "?p \<noteq> []" "?p ! 0 = CHR ''~''" using E(2) tilde by (cases E; simp add: join_Cons hd_conv_nth nth_append)+
  have "\<not> (\<exists>i. i + 2 < length ?p \<and> ?p ! i = CHR '':'' \<and> ?p ! (i + 1) = slash \<and> ?p ! (i + 2) = slash)"
  proof
    assume "\<exists>i. i + 2 < length ?p \<and> ?p ! i = CHR '':'' \<and> ?p ! (i + 1) = slash \<and> ?p ! (i + 2) = slash"
    then obtain i where i: "i + 2 < length ?p" "?p ! (i + 1) = slash" "?p ! (i + 2) = slash" by blast
    have "?p = take (i + 1) ?p @ slash # slash # drop (i + 3) ?p"
      using i id_take_nth_drop [of "i + 1" ?p] Cons_nth_drop_Suc [of "i + 2" ?p] by (simp add: numeral_eq_Suc)
    then have "[] \<in> set (split_char slash ?p)"
      using split_char_sep [of slash "take (i + 1) ?p" "slash # drop (i + 3) ?p"] by simp
    with split E show False by (auto simp: safe_segment_def)
  qed
  then have "get_root_length ?p = 0"
    unfolding unrooted_iff find_scheme_end_None using p
    by (simp add: is_any_directory_separator_def slash_def backslash_def is_volume_character_def)
  then show ?thesis by (simp add: absolute_iff)
qed

lemma root_aware_segments:
  obtains E where "encode_dynamic_uri_path_root_aware p preserve = join [slash] E" "E \<noteq> []"
    "list_all2 (\<lambda>e c. safe_segment e \<and> (\<exists>b. e = encode_dynamic_uri_path_segment c b \<or> e = force_encode_dynamic_uri_path_segment c b))
       E (split_char slash p)"
    "\<not> path_is_absolute (join [slash] E)"
proof -
  define S where "S = split_char slash p"
  define E where "E = encoded_segments preserve S"
  have S: "\<forall>c \<in> set S. slash \<notin> set c" "S \<noteq> []" using split_char_no_sep [of _ slash p] by (auto simp: S_def)
  have pairs: "list_all2 (\<lambda>e c. safe_segment e \<and> (\<exists>b. e = encode_dynamic_uri_path_segment c b)) E S"
    unfolding E_def by (rule encoded_segments_pairs [OF S(1)])
  then have E: "E \<noteq> []" "\<forall>e \<in> set E. safe_segment e" using S(2) by (auto simp: list_all2_conv_all_nth in_set_conv_nth)
  have encoded: "encode_dynamic_uri_path_segments p preserve = join [slash] E" by (simp add: encode_segments_join E_def S_def)
  show thesis
  proof (cases "path_is_absolute (join [slash] E)")
    case False
    then show thesis using pairs E encoded
      by (intro that [of E]) (auto simp: encode_dynamic_uri_path_root_aware_def Let_def S_def elim: list_all2_mono)
  next
    case True
    obtain e es where es: "E = e # es" using E(1) by (cases E) auto
    obtain c cs where cs: "S = c # cs" using S(2) by (cases S) auto
    from pairs es cs obtain b where e: "e = encode_dynamic_uri_path_segment c b" and rest: "list_all2 (\<lambda>e c. safe_segment e \<and> (\<exists>b. e = encode_dynamic_uri_path_segment c b)) es cs"
      by auto
    have c: "slash \<notin> set c" using S(1) cs by simp
    have "\<not> dynamic_uri_path_segment_needs_encoding c"
      using True escaped_relative [OF E(2,1)] force_encode_safe(2) [OF c] e es
      by (auto simp: encode_dynamic_uri_path_segment_def)
    then have ec: "e = c" using e by (simp add: encode_dynamic_uri_path_segment_def)
    have "\<exists>b. encode_dynamic_uri_path_root_aware p preserve = join [slash] (force_encode_dynamic_uri_path_segment c b # es)"
    proof (cases "es = []")
      case True
      with c have "split_once (join [slash] E) slash = None" by (simp add: es ec split_once_None)
      then show ?thesis using \<open>path_is_absolute (join [slash] E)\<close> True
        by (intro exI [of _ preserve]) (simp add: encode_dynamic_uri_path_root_aware_def encoded Let_def es ec)
    next
      case False
      with c have "split_once (join [slash] E) slash = Some (c, join [slash] es)"
        using split_once_append [of slash c "join [slash] es"] by (simp add: es ec join_Cons)
      then show ?thesis using \<open>path_is_absolute (join [slash] E)\<close> False
        by (intro exI [of _ False]) (simp add: encode_dynamic_uri_path_root_aware_def encoded Let_def join_Cons)
    qed
    then obtain b' where b': "encode_dynamic_uri_path_root_aware p preserve = join [slash] (force_encode_dynamic_uri_path_segment c b' # es)" ..
    let ?E = "force_encode_dynamic_uri_path_segment c b' # es"
    have "\<forall>e \<in> set ?E. safe_segment e" using E(2) es force_encode_safe(1) [OF c] by simp
    then have "\<not> path_is_absolute (join [slash] ?E)" using escaped_relative [of ?E] force_encode_safe(2) [OF c] by simp
    moreover have "list_all2 (\<lambda>e c. safe_segment e \<and> (\<exists>b. e = encode_dynamic_uri_path_segment c b \<or> e = force_encode_dynamic_uri_path_segment c b)) ?E S"
      using rest force_encode_safe(1) [OF c] unfolding cs by (auto elim: list_all2_mono)
    ultimately show thesis using b' by (intro that [of ?E]) (simp_all add: S_def)
  qed
qed

lemma set_join: "set (join sep xs) \<subseteq> set sep \<union> (\<Union>x \<in> set xs. set x)"
  by (induction xs) (auto simp: join_Cons)

lemma segment_infix:
  assumes "c \<in> set (split_char d s)"
  shows "\<exists>a b. s = a @ c @ b"
proof -
  obtain xs ys where parts: "split_char d s = xs @ c # ys" using assms by (auto simp: in_set_conv_decomp)
  define b where "b = (if ys = [] then [] else d # join [d] ys)"
  have c: "join [d] (c # ys) = c @ b" by (simp add: join_Cons b_def)
  have "s = (if xs = [] then [] else join [d] xs @ [d]) @ c @ b"
    using join_append [of xs "c # ys" "[d]"] c join_split_char [of d s] parts by (auto split: if_splits)
  then show ?thesis by blast
qed

lemma set_split_char: "c \<in> set (split_char d s) \<Longrightarrow> set c \<subseteq> set s"
  by (drule segment_infix) auto

lemma segment_contains:
  assumes "c \<in> set (split_char slash p)" "starts_with c x"
  shows "str_contains p x"
proof -
  obtain a b where p: "p = a @ c @ b" using segment_infix [OF assms(1)] by blast
  have "starts_with (drop (length a) p) x" using assms(2) unfolding p starts_with_def
    by (metis append_eq_conv_conj append_take_drop_id take_append append.assoc)
  moreover have "length a \<in> set [0..<Suc (length p)]" by (simp add: p)
  ultimately show ?thesis unfolding str_contains_def str_find_def find_None_iff by blast
qed

lemma decode_path_segments:
  "decode_dynamic_uri_path p = join [slash] (map decode_dynamic_uri_path_segment (split_char slash p))"
proof (cases "str_contains p path_escape")
  case False
  have "decode_dynamic_uri_path_segment c = c" if "c \<in> set (split_char slash p)" for c
  proof -
    have "\<not> starts_with c path_escape" using False segment_contains [OF that] by blast
    then show ?thesis by (simp add: decode_dynamic_uri_path_segment_def try_decode_dynamic_uri_path_segment_def strip_prefix_def)
  qed
  then have "map decode_dynamic_uri_path_segment (split_char slash p) = split_char slash p" by (simp add: map_idI)
  with False show ?thesis by (simp add: decode_dynamic_uri_path_def join_split_char)
qed (simp add: decode_dynamic_uri_path_def)

lemma utf8_valid_segments: "utf8_valid p \<Longrightarrow> c \<in> set (split_char slash p) \<Longrightarrow> utf8_valid c"
proof (induction "length p" arbitrary: p c rule: less_induct)
  case less
  show ?case
  proof (cases "slash \<in> set p")
    case False
    with less show ?thesis by (simp add: split_char_single)
  next
    case True
    then obtain a b where p: "p = a @ slash # b" "slash \<notin> set a" by (metis split_list_first)
    moreover have "byte_of slash < 128" by (simp add: slash_def)
    ultimately have "utf8_valid a" "utf8_valid b" using less(2) utf8_valid_split by blast+
    moreover have "c = a \<or> c \<in> set (split_char slash b)" using less(3) p by (simp add: split_char_append_sep)
    ultimately show ?thesis using less(1) [of b c] p(1) by auto
  qed
qed

text \<open>
  C25: Every name that is encoded reads back. Encoding a path segment by segment, with the first segment
  written out as well when the path would look absolute, and decoding the result gives the path, for all
  UTF-8 text without a NUL, with or without its last extension left readable.
\<close>

theorem dynamic_uri_path_read_back:
  assumes "utf8_valid p" "CHR 0x00 \<notin> set p"
  shows "try_decode_dynamic_uri_path (encode_dynamic_uri_path_root_aware p preserve) = Some p \<and>
     decode_dynamic_uri_path (encode_dynamic_uri_path_root_aware p preserve) = p"
proof -
  obtain E where E: "encode_dynamic_uri_path_root_aware p preserve = join [slash] E" "E \<noteq> []"
    "list_all2 (\<lambda>e c. safe_segment e \<and> (\<exists>b. e = encode_dynamic_uri_path_segment c b \<or> e = force_encode_dynamic_uri_path_segment c b))
       E (split_char slash p)" by (rule root_aware_segments)
  have decoded: "try_decode_dynamic_uri_path_segment e = Some c"
    if "c \<in> set (split_char slash p)" "e = encode_dynamic_uri_path_segment c b \<or> e = force_encode_dynamic_uri_path_segment c b" for e c b
  proof -
    have "slash \<notin> set c" using that(1) by (rule split_char_no_sep)
    moreover have "utf8_valid c" using utf8_valid_segments [OF assms(1) that(1)] .
    moreover have "CHR 0x00 \<notin> set c" using assms(2) that(1) set_split_char by blast
    ultimately show ?thesis using that(2) encode_segment_decode force_encode_decode by blast
  qed
  have all: "map try_decode_dynamic_uri_path_segment E = map Some (split_char slash p)"
  proof (rule nth_equalityI)
    show "length (map try_decode_dynamic_uri_path_segment E) = length (map Some (split_char slash p))"
      using list_all2_lengthD [OF E(3)] by simp
    fix i assume "i < length (map try_decode_dynamic_uri_path_segment E)"
    then have i: "i < length E" "i < length (split_char slash p)" using list_all2_lengthD [OF E(3)] by simp_all
    then obtain b where "E ! i = encode_dynamic_uri_path_segment (split_char slash p ! i) b \<or>
        E ! i = force_encode_dynamic_uri_path_segment (split_char slash p ! i) b" using list_all2_nthD [OF E(3) i(1)] by blast
    with decoded [OF nth_mem [OF i(2)]] i
    show "map try_decode_dynamic_uri_path_segment E ! i = map Some (split_char slash p) ! i" by simp
  qed
  have split: "split_char slash (join [slash] E) = E"
    using E(2,3) by (intro split_char_join) (auto simp: list_all2_conv_all_nth in_set_conv_nth safe_segment_def)
  have "those (map Some xs) = Some xs" for xs :: "string list" by (induction xs) simp_all
  then have "try_decode_dynamic_uri_path (join [slash] E) = Some p"
    by (simp add: try_decode_dynamic_uri_path_def split all join_split_char)
  moreover have "map decode_dynamic_uri_path_segment E = split_char slash p"
    using all by (auto simp: decode_dynamic_uri_path_segment_def map_eq_conv list_eq_iff_nth_eq)
  then have "decode_dynamic_uri_path (join [slash] E) = p"
    by (simp add: decode_path_segments split join_split_char)
  ultimately show ?thesis by (simp add: E(1))
qed

theorem dynamic_uri_path_read_back_witness:
  "encode_dynamic_uri_path_root_aware ''c:/./a.ts'' True = ''~ts-uri-escape~633a~/~ts-uri-escape~2e~/a.ts'' \<and>
   decode_dynamic_uri_path ''~ts-uri-escape~633a~/~ts-uri-escape~2e~/a.ts'' = ''c:/./a.ts''"
proof -
  have e: "encode_dynamic_uri_path_root_aware ''c:/./a.ts'' True = ''~ts-uri-escape~633a~/~ts-uri-escape~2e~/a.ts''" by code_simp
  have "utf8_valid ''c:/./a.ts''" by (rule utf8_valid_ascii) simp
  from dynamic_uri_path_read_back [OF this, of True, unfolded e] e show ?thesis by simp
qed

text \<open>
  An encoded path is a plain relative path. It has no backslash and no segment that normalizing would
  remove or a root would start, so it can be put behind the root of a document and read off again.
\<close>

theorem dynamic_uri_path_plain:
  "\<not> path_is_absolute (encode_dynamic_uri_path_root_aware p preserve) \<and>
   \<not> has_relative_path_segment (encode_dynamic_uri_path_root_aware p preserve) \<and>
   backslash \<notin> set (encode_dynamic_uri_path_root_aware p preserve) \<and>
   fold reduce_step (split_char slash (encode_dynamic_uri_path_root_aware p preserve)) [root] =
     root # split_char slash (encode_dynamic_uri_path_root_aware p preserve)"
proof -
  obtain E where E: "encode_dynamic_uri_path_root_aware p preserve = join [slash] E" "E \<noteq> []"
    "list_all2 (\<lambda>e c. safe_segment e \<and> (\<exists>b. e = encode_dynamic_uri_path_segment c b \<or> e = force_encode_dynamic_uri_path_segment c b))
       E (split_char slash p)" "\<not> path_is_absolute (join [slash] E)" by (rule root_aware_segments)
  have safe: "safe_segment e" if "e \<in> set E" for e using E(3) that by (auto simp: list_all2_conv_all_nth in_set_conv_nth)
  have split: "split_char slash (join [slash] E) = E" using E(2) safe by (intro split_char_join) (auto simp: safe_segment_def)
  have "[] \<notin> set (butlast (tl E))" using safe E(2) by (metis in_set_butlastD list.set_sel(2) safe_segment_def)
  then have "\<not> has_relative_path_segment (join [slash] E)"
    using safe split unfolding has_relative_segment slash_def by (auto simp: safe_segment_def)
  moreover have "backslash \<notin> set (join [slash] E)"
  proof
    assume "backslash \<in> set (join [slash] E)"
    with set_join [of "[slash]" E] have "backslash \<in> {slash} \<union> (\<Union>x \<in> set E. set x)" by auto
    then show False using safe by (auto simp: safe_segment_def slash_def backslash_def)
  qed
  moreover have "fold reduce_step E [root] = root # E"
    using safe by (simp add: fold_reduce_rest descend safe_segment_def)
  ultimately show ?thesis using E(4) split by (simp add: E(1))
qed

lemma disk_segments_plain:
  "disk_segments S \<Longrightarrow> \<forall>c \<in> set S. c \<noteq> ''.'' \<and> c \<noteq> ''..'' \<and> backslash \<notin> set c"
proof (induction S)
  case (Cons c S)
  show ?case
  proof (cases "c = []")
    case True
    with Cons(2) have "S = []" by simp
    with True show ?thesis by simp
  next
    case False
    with Cons(2) have "\<not> (c = ''.'' \<or> c = ''..'' \<or> backslash \<in> set c)" "disk_segments S"
      by (metis disk_segments.simps(2))+
    with Cons(1) show ?thesis by simp
  qed
qed simp

text \<open>
  C26: A name that is decoded for the disk stays below the directory it is put in. It is relative, has no
  backslash, and reducing it behind any components only adds components.
\<close>

theorem decode_for_disk_stays_below:
  assumes "decode_dynamic_uri_path_for_disk p = Some d"
  shows "\<not> path_is_absolute d \<and> backslash \<notin> set d \<and>
     fold reduce_step (split_char slash d) (root # R) = root # R @ filter (\<lambda>c. c \<noteq> []) (split_char slash d)"
proof -
  from assms have d: "\<not> path_is_absolute d" "disk_segments (split_char slash d)"
    by (auto simp: decode_dynamic_uri_path_for_disk_def Let_def split: if_splits)
  note plain = disk_segments_plain [OF d(2)]
  have "set d \<subseteq> set [slash] \<union> (\<Union>x \<in> set (split_char slash d). set x)"
    using set_join [of "[slash]" "split_char slash d"] by (simp add: join_split_char)
  moreover have "backslash \<notin> set [slash] \<union> (\<Union>x \<in> set (split_char slash d). set x)"
    using plain by (auto simp: slash_def backslash_def)
  ultimately have "backslash \<notin> set d" by blast
  moreover have "fold reduce_step (split_char slash d) (root # R) = root # R @ filter (\<lambda>c. c \<noteq> []) (split_char slash d)"
    unfolding fold_reduce_rest using plain by (subst fold_reduce_plain) auto
  ultimately show ?thesis using d(1) by blast
qed

theorem decode_for_disk_stays_below_witness:
  "decode_dynamic_uri_path_for_disk ''a/~ts-uri-escape~62~.ts'' = Some ''a/b.ts'' \<and>
   decode_dynamic_uri_path_for_disk ''a/~ts-uri-escape~2e2e~/b.ts'' = None \<and>
   fold reduce_step (split_char slash ''a/b.ts'') [''/'', ''w''] = [''/'', ''w'', ''a'', ''b.ts'']"
proof -
  have d: "decode_dynamic_uri_path_for_disk ''a/~ts-uri-escape~62~.ts'' = Some ''a/b.ts''" by code_simp
  have n: "decode_dynamic_uri_path_for_disk ''a/~ts-uri-escape~2e2e~/b.ts'' = None" by code_simp
  have "split_char slash ''a/b.ts'' = [''a'', ''b.ts'']" by code_simp
  with decode_for_disk_stays_below [OF d, of "''/''" "[''w'']"] d n show ?thesis by simp
qed

end
