(* ===== verification/BundleRewrite.thy ===== *)
theory BundleRewrite
  imports Config
begin

text \<open>
  The rewriting of the checker into one crate: \<open>tools/bundle-tsrs/src/rewrite.rs\<close>. Tokens come from the lexer of
  \<open>proc_macro2\<close>, an argument; a token carries the byte range of its text. A crate name is its string, a
  \<open>BTreeMap\<close> an ordered association list.
\<close>

section \<open>Tokens\<close>

type_synonym byte_range = "nat \<times> nat"

datatype delimiter = Parenthesis | Brace | Bracket | NoDelimiter

datatype spacing = Alone | Joint

datatype token_tree =
  Group delimiter "token_tree list" byte_range
| Ident string byte_range
| Punct char spacing byte_range
| Literal string byte_range

fun token_range :: "token_tree \<Rightarrow> byte_range" where
  "token_range (Group d inner r) = r"
| "token_range (Ident n r) = r"
| "token_range (Punct c s r) = r"
| "token_range (Literal t r) = r"

definition get_token :: "token_tree list \<Rightarrow> nat \<Rightarrow> token_tree option" where
  "get_token tokens index = (if index < length tokens then Some (tokens ! index) else None)"

datatype rewrite_error =
  LexFailed string
| HoldsEscape string
| EditsOverlap nat
| MacroTwice nat string
| MacroNamedAsCrate string

section \<open>Looking at tokens\<close>

definition is_punct :: "token_tree list \<Rightarrow> nat \<Rightarrow> char \<Rightarrow> bool" where
  "is_punct tokens index character = (case get_token tokens index of Some (Punct c s r) \<Rightarrow> c = character | _ \<Rightarrow> False)"

definition is_path_separator :: "token_tree list \<Rightarrow> nat \<Rightarrow> bool" where
  "is_path_separator tokens index =
     (case get_token tokens index of
        Some (Punct c s r) \<Rightarrow> c = CHR '':'' \<and> s = Joint \<and> is_punct tokens (index + 1) (CHR '':'')
      | _ \<Rightarrow> False)"

definition follows_path_or_field :: "token_tree list \<Rightarrow> nat \<Rightarrow> bool" where
  "follows_path_or_field tokens index =
     (if index = 0 then False
      else let previous = index - 1
           in (if previous = 0 then False else is_path_separator tokens (previous - 1)) \<or> is_punct tokens previous (CHR ''.''))"

definition macro_literal :: "token_tree list \<Rightarrow> nat \<Rightarrow> ((string \<times> nat) option, rewrite_error anyhow) result" where
  "macro_literal tokens index =
     (if \<not> is_punct tokens (index + 1) (CHR ''!'') then Ok None
      else case get_token tokens (index + 2) of
        Some (Group d arguments r) \<Rightarrow>
          (case arguments of
             [Literal text r'] \<Rightarrow>
               (case Option.bind (strip_prefix text [CHR 0x22]) (\<lambda>text. strip_suffix text [CHR 0x22]) of
                  None \<Rightarrow> Ok None
                | Some v \<Rightarrow>
                    if CHR 0x5C \<in> set v then Err (Cause (HoldsEscape text))
                    else Ok (Some (v, snd r)))
           | _ \<Rightarrow> Ok None)
      | _ \<Rightarrow> Ok None)"

section \<open>Exported macros\<close>

definition has_macro_export_step :: "token_tree \<Rightarrow> token_tree \<Rightarrow> bool option" where
  "has_macro_export_step hash attribute =
     (case (hash, attribute) of
        (Punct c s r, Group d inner r') \<Rightarrow>
          if c \<noteq> CHR ''#'' \<or> d \<noteq> Bracket then Some False
          else (case inner of Ident n r'' # _ \<Rightarrow> if n = ''macro_export'' then Some True else None | _ \<Rightarrow> None)
      | _ \<Rightarrow> Some False)"

function has_macro_export_at :: "token_tree list \<Rightarrow> nat \<Rightarrow> bool" where
  "has_macro_export_at tokens end_of =
     (if 2 \<le> end_of then
        (case has_macro_export_step (tokens ! (end_of - 2)) (tokens ! (end_of - 1)) of
           Some b \<Rightarrow> b
         | None \<Rightarrow> has_macro_export_at tokens (end_of - 2))
      else False)"
  by pat_completeness auto

termination
  by (relation "measure snd") auto

declare has_macro_export_at.simps [simp del]

definition has_macro_export :: "token_tree list \<Rightarrow> bool" where
  "has_macro_export tokens = has_macro_export_at tokens (length tokens)"

definition count_macro :: "string \<Rightarrow> (string \<times> nat) list \<Rightarrow> (string \<times> nat) list" where
  "count_macro name exported =
     btree_insert name (case map_of exported name of Some n \<Rightarrow> n + 1 | None \<Rightarrow> 1) exported"

definition collect_ident :: "token_tree list \<Rightarrow> nat \<Rightarrow> string \<Rightarrow> (string \<times> nat) list \<Rightarrow> (string \<times> nat) list" where
  "collect_ident tokens index ident exported =
     (if ident \<noteq> ''macro_rules'' \<or> \<not> is_punct tokens (index + 1) (CHR ''!'') then exported
      else case get_token tokens (index + 2) of
             Some (Ident name r) \<Rightarrow> if has_macro_export (take index tokens) then count_macro name exported else exported
           | _ \<Rightarrow> exported)"

text \<open>The loop over \<open>tokens\<close> at \<open>index\<close>, with the tokens that are left.\<close>

fun collect_loop :: "token_tree list \<Rightarrow> nat \<Rightarrow> token_tree list \<Rightarrow> (string \<times> nat) list \<Rightarrow> (string \<times> nat) list" where
  "collect_loop tokens index [] exported = exported"
| "collect_loop tokens index (Group d inner r # rest) exported =
     collect_loop tokens (index + 1) rest (collect_loop inner 0 inner exported)"
| "collect_loop tokens index (Ident ident r # rest) exported =
     collect_loop tokens (index + 1) rest (collect_ident tokens index ident exported)"
| "collect_loop tokens index (Punct c s r # rest) exported = collect_loop tokens (index + 1) rest exported"
| "collect_loop tokens index (Literal t r # rest) exported = collect_loop tokens (index + 1) rest exported"

definition collect_macros :: "token_tree list \<Rightarrow> (string \<times> nat) list \<Rightarrow> (string \<times> nat) list" where
  "collect_macros tokens exported = collect_loop tokens 0 tokens exported"

section \<open>The rewriter\<close>

record rewriter =
  rw_crates :: "string set"
  rw_exported :: "(string \<times> nat) list"

definition Rewriter_new :: "string set \<Rightarrow> rewriter" where
  "Rewriter_new crates = \<lparr>rw_crates = crates, rw_exported = []\<rparr>"

type_synonym lexer = "string \<Rightarrow> (token_tree list, string) result"

definition lex :: "lexer \<Rightarrow> string \<Rightarrow> (token_tree list, rewrite_error anyhow) result" where
  "lex parse text = with_context ''failed to lex the file'' (map_err (\<lambda>e. Cause (LexFailed e)) (parse text))"

definition collect_exported_macros :: "lexer \<Rightarrow> string \<Rightarrow> rewriter \<Rightarrow> (rewriter, rewrite_error anyhow) result" where
  "collect_exported_macros parse text rw =
     result_bind (with_context ''failed to read the tokens of the file'' (lex parse text))
       (\<lambda>stream. Ok (rw\<lparr>rw_exported := collect_macros stream (rw_exported rw)\<rparr>))"

fun check_macros :: "string set \<Rightarrow> (string \<times> nat) list \<Rightarrow> (unit, rewrite_error anyhow) result" where
  "check_macros crates [] = Ok ()"
| "check_macros crates ((name, n) # exported) =
     (if n \<noteq> 1 then Err (Cause (MacroTwice n name))
      else if name \<in> crates then Err (Cause (MacroNamedAsCrate name))
      else check_macros crates exported)"

definition check_exported_macros :: "rewriter \<Rightarrow> (unit, rewrite_error anyhow) result" where
  "check_exported_macros rw = check_macros (rw_crates rw) (rw_exported rw)"

definition names_macro :: "rewriter \<Rightarrow> token_tree list \<Rightarrow> nat \<Rightarrow> bool" where
  "names_macro rw tokens index =
     (case get_token tokens index of
        Some (Ident ident r) \<Rightarrow> map_of (rw_exported rw) ident \<noteq> None \<and> \<not> is_path_separator tokens (index + 1)
      | _ \<Rightarrow> False)"

record edit =
  edit_range :: byte_range
  edit_replacement :: string

definition manifest_dir :: string where
  "manifest_dir = ''CARGO_MANIFEST_DIR''"

text \<open>The edits and the includes that one identifier adds.\<close>

definition visit_ident :: "rewriter \<Rightarrow> string \<Rightarrow> token_tree list \<Rightarrow> nat \<Rightarrow> string \<Rightarrow> byte_range \<Rightarrow>
    edit list \<times> string list \<Rightarrow> (edit list \<times> string list, rewrite_error anyhow) result" where
  "visit_ident rw module tokens index name bytes found =
     (let (edits, includes) = found in
      if name = ''crate'' then
        Ok (if is_path_separator tokens (index + 1) \<and> \<not> names_macro rw tokens (index + 3)
            then (edits @ [\<lparr>edit_range = (snd bytes, snd bytes), edit_replacement = ''::'' @ module\<rparr>], includes)
            else found)
      else if name \<in> rw_crates rw then
        Ok (if follows_path_or_field tokens index then found
            else if is_path_separator tokens (index + 1) \<and> names_macro rw tokens (index + 3)
            then (edits @ [\<lparr>edit_range = (fst bytes, fst (token_range (tokens ! (index + 3)))), edit_replacement = ''crate::''\<rparr>], includes)
            else (edits @ [\<lparr>edit_range = (fst bytes, fst bytes), edit_replacement = ''crate::''\<rparr>], includes))
      else if name = ''env'' then
        result_bind (with_context ''failed to read env!'' (macro_literal tokens index)) (\<lambda>call. Ok
          (case call of
             None \<Rightarrow> found
           | Some (literal, end_of) \<Rightarrow>
               if literal = manifest_dir
               then (edits @ [\<lparr>edit_range = (fst bytes, end_of),
                       edit_replacement = ''concat!(env!('' @ [CHR 0x22] @ manifest_dir @ [CHR 0x22] @ ''), '' @ [CHR 0x22] @ ''/'' @ module @ [CHR 0x22] @ '')''\<rparr>], includes)
               else found))
      else if name = ''include_str'' \<or> name = ''include_bytes'' then
        result_bind (with_context ''failed to read an include'' (macro_literal tokens index)) (\<lambda>call. Ok
          (case call of None \<Rightarrow> found | Some (literal, _) \<Rightarrow> (edits, includes @ [literal])))
      else Ok found)"

fun visit_loop :: "rewriter \<Rightarrow> string \<Rightarrow> token_tree list \<Rightarrow> nat \<Rightarrow> token_tree list \<Rightarrow>
    edit list \<times> string list \<Rightarrow> (edit list \<times> string list, rewrite_error anyhow) result" where
  "visit_loop rw module tokens index [] found = Ok found"
| "visit_loop rw module tokens index (Group d inner r # rest) found =
     result_bind (with_context ''failed to rewrite a group of tokens'' (visit_loop rw module inner 0 inner found))
       (visit_loop rw module tokens (index + 1) rest)"
| "visit_loop rw module tokens index (Ident name r # rest) found =
     result_bind (visit_ident rw module tokens index name r found) (visit_loop rw module tokens (index + 1) rest)"
| "visit_loop rw module tokens index (Punct c s r # rest) found = visit_loop rw module tokens (index + 1) rest found"
| "visit_loop rw module tokens index (Literal t r # rest) found = visit_loop rw module tokens (index + 1) rest found"

definition visit :: "rewriter \<Rightarrow> string \<Rightarrow> token_tree list \<Rightarrow> edit list \<times> string list \<Rightarrow>
    (edit list \<times> string list, rewrite_error anyhow) result" where
  "visit rw module tokens found = visit_loop rw module tokens 0 tokens found"

text \<open>\<open>None\<close> is the panic of a slice that is not in the text or cuts a character.\<close>

fun apply_loop :: "string \<Rightarrow> edit list \<Rightarrow> nat \<Rightarrow> string \<Rightarrow> (string, rewrite_error anyhow) result option" where
  "apply_loop text [] position out =
     map_option (\<lambda>tail. Ok (out @ tail)) (str_slice text position (length text))"
| "apply_loop text (e # edits) position out =
     (let (start, stop) = edit_range e in
      if start < position then Some (Err (Cause (EditsOverlap start)))
      else case str_slice text position start of
             None \<Rightarrow> None
           | Some kept \<Rightarrow> apply_loop text edits stop (out @ kept @ edit_replacement e))"

definition apply_edits :: "string \<Rightarrow> edit list \<Rightarrow> (string, rewrite_error anyhow) result option" where
  "apply_edits text edits = apply_loop text (sort_key edit_range edits) 0 []"

record rewritten =
  rewritten_text :: string
  rewritten_includes :: "string list"

definition rewrite :: "rewriter \<Rightarrow> lexer \<Rightarrow> string \<Rightarrow> string \<Rightarrow> (rewritten, rewrite_error anyhow) result option" where
  "rewrite rw parse text module =
     (case with_context ''failed to read the tokens of the file'' (lex parse text) of
        Err e \<Rightarrow> Some (Err e)
      | Ok stream \<Rightarrow>
          (case with_context ''failed to find the paths to rewrite'' (visit rw module stream ([], [])) of
             Err e \<Rightarrow> Some (Err e)
           | Ok (edits, includes) \<Rightarrow>
               map_option (\<lambda>applied. result_bind (with_context ''failed to apply the rewrite'' applied)
                 (\<lambda>text. Ok \<lparr>rewritten_text = text, rewritten_includes = includes\<rparr>)) (apply_edits text edits)))"

section \<open>Where tokens lie\<close>

text \<open>
  Identifiers and groups lie in the text one behind the other, begin and end between two characters
  (\<open>ok\<close> holds there), and a group encloses its tokens. Nothing
  is said of punctuation and literals: a comment of documentation becomes an attribute whose tokens all
  have the range of the comment.
\<close>

fun well_spanned :: "(nat \<Rightarrow> bool) \<Rightarrow> nat \<Rightarrow> token_tree list \<Rightarrow> nat \<Rightarrow> bool" where
  "well_spanned ok lo [] hi = (lo \<le> hi)"
| "well_spanned ok lo (Group d inner r # rest) hi = (lo \<le> fst r \<and> well_spanned ok (fst r) inner (snd r) \<and> ok (snd r) \<and> well_spanned ok (snd r) rest hi)"
| "well_spanned ok lo (Ident n r # rest) hi = (lo \<le> fst r \<and> fst r \<le> snd r \<and> ok (fst r) \<and> ok (snd r) \<and> well_spanned ok (snd r) rest hi)"
| "well_spanned ok lo (Punct c s r # rest) hi = well_spanned ok lo rest hi"
| "well_spanned ok lo (Literal t r # rest) hi = well_spanned ok lo rest hi"

text \<open>A group of literals and punctuation asks for no edit, so an edit may reach to its end.\<close>

definition quiet :: "token_tree list \<Rightarrow> bool" where
  "quiet tokens = list_all (\<lambda>t. case t of Punct c s r \<Rightarrow> True | Literal t r \<Rightarrow> True | _ \<Rightarrow> False) tokens"

fun spanned :: "(nat \<Rightarrow> bool) \<Rightarrow> nat \<Rightarrow> token_tree list \<Rightarrow> nat \<Rightarrow> bool" where
  "spanned ok lo [] hi = (lo \<le> hi)"
| "spanned ok lo (Group d inner r # rest) hi =
     ((if quiet inner then lo \<le> snd r else lo \<le> fst r \<and> spanned ok (fst r) inner (snd r)) \<and> ok (snd r) \<and> spanned ok (snd r) rest hi)"
| "spanned ok lo (Ident n r # rest) hi = (lo \<le> fst r \<and> fst r \<le> snd r \<and> ok (fst r) \<and> ok (snd r) \<and> spanned ok (snd r) rest hi)"
| "spanned ok lo (Punct c s r # rest) hi = spanned ok lo rest hi"
| "spanned ok lo (Literal t r # rest) hi = spanned ok lo rest hi"

lemma well_spanned_le: "well_spanned ok lo ts hi \<Longrightarrow> lo \<le> hi"
  by (induction ok lo ts hi rule: well_spanned.induct) auto

lemma well_spanned_spanned: "well_spanned ok lo ts hi \<Longrightarrow> spanned ok lo ts hi"
proof (induction ok lo ts hi rule: well_spanned.induct)
  case (2 ok lo d inner r rest hi)
  then show ?case using well_spanned_le [of ok "fst r" inner "snd r"] by auto
qed auto

fun edits_chain :: "(nat \<Rightarrow> bool) \<Rightarrow> nat \<Rightarrow> edit list \<Rightarrow> nat \<Rightarrow> bool" where
  "edits_chain ok lo [] hi = (lo \<le> hi)"
| "edits_chain ok lo (e # es) hi = (lo \<le> fst (edit_range e) \<and> fst (edit_range e) \<le> snd (edit_range e) \<and>
     ok (fst (edit_range e)) \<and> ok (snd (edit_range e)) \<and> edits_chain ok (snd (edit_range e)) es hi)"

lemma edits_chain_append: "edits_chain ok lo es mid \<Longrightarrow> edits_chain ok mid fs hi \<Longrightarrow> edits_chain ok lo (es @ fs) hi"
proof (induction es arbitrary: lo)
  case Nil
  then show ?case by (cases fs) auto
qed auto

lemma edits_chain_start: "lo \<le> mid \<Longrightarrow> edits_chain ok mid es hi \<Longrightarrow> edits_chain ok lo es hi"
  by (cases es) auto

lemma quiet_visit: "quiet ts \<Longrightarrow> visit_loop rw module tokens index ts found = Ok found"
  by (induction ts arbitrary: index) (auto simp: quiet_def split: token_tree.splits)

lemma get_token_drop:
  assumes "drop index tokens = t # rest"
  shows "get_token tokens (index + k) = get_token (t # rest) k" "k < length (t # rest) \<Longrightarrow> tokens ! (index + k) = (t # rest) ! k"
proof -
  have index: "index \<le> length tokens" using assms by (metis drop_all linear list.distinct(1))
  have len: "length tokens = index + length (t # rest)" using arg_cong [OF assms, of length] index by simp
  have nth: "tokens ! (index + k) = (t # rest) ! k" if "k < length (t # rest)" for k
    using that index by (metis assms nth_drop)
  then show "get_token tokens (index + k) = get_token (t # rest) k" by (simp add: get_token_def len)
  show "k < length (t # rest) \<Longrightarrow> tokens ! (index + k) = (t # rest) ! k" by (rule nth)
qed

lemma get_token_1: "get_token (t # rest) (Suc k) = get_token rest k"
  by (simp add: get_token_def)

lemma get_token_0: "get_token ts 0 = Some t \<longleftrightarrow> (\<exists>rest. ts = t # rest)"
  by (cases ts) (auto simp: get_token_def)

lemma is_punct_0: "is_punct ts 0 c \<longleftrightarrow> (\<exists>s r rest. ts = Punct c s r # rest)"
  by (cases ts) (auto simp: is_punct_def get_token_def split: token_tree.splits)

lemma ahead:
  assumes "drop index tokens = t # rest"
  shows "is_punct tokens (index + 1 + k) c = is_punct rest k c" "is_path_separator tokens (index + 1 + k) = is_path_separator rest k"
    "names_macro rw tokens (index + 1 + k) = names_macro rw rest k" "get_token tokens (index + 1 + k) = get_token rest k"
proof -
  have g: "get_token tokens (index + 1 + k) = get_token rest k" for k
    using get_token_drop(1) [OF assms, of "Suc k"] by (simp add: get_token_1)
  then show "get_token tokens (index + 1 + k) = get_token rest k" .
  have p: "is_punct tokens (index + 1 + k) c = is_punct rest k c" for k c by (simp only: is_punct_def g)
  then show "is_punct tokens (index + 1 + k) c = is_punct rest k c" .
  have s: "is_path_separator tokens (index + 1 + k) = is_path_separator rest k" for k
    using p [of "k + 1"] by (simp add: is_path_separator_def g [simplified] split: option.split token_tree.split)
  then show "is_path_separator tokens (index + 1 + k) = is_path_separator rest k" .
  show "names_macro rw tokens (index + 1 + k) = names_macro rw rest k"
    using s [of "k + 1"] by (simp add: names_macro_def g [simplified] split: option.split token_tree.split)
qed

lemma separator_shape: "is_path_separator ts 0 \<Longrightarrow> \<exists>c s r c' s' r' rest. ts = Punct c s r # Punct c' s' r' # rest"
  by (cases ts) (auto simp: is_path_separator_def get_token_def is_punct_def split: token_tree.splits if_splits,
      metis list.exhaust list.size(3) neq0_conv nth_Cons_0)

lemma names_macro_token: "names_macro rw ts k \<Longrightarrow> \<exists>n r. get_token ts k = Some (Ident n r)"
  by (auto simp: names_macro_def split: option.splits token_tree.splits)

lemma drop_tail: "drop index ts = t # rest \<Longrightarrow> drop (index + 1) ts = rest"
proof -
  assume "drop index ts = t # rest"
  then have "tl (drop index ts) = rest" by simp
  then show ?thesis by (simp add: drop_Suc tl_drop)
qed

lemma macro_literal_shape:
  assumes "drop index tokens = t # rest" "macro_literal tokens index = Ok (Some (v, stop))"
  shows "\<exists>s r d lit r' gr rest'. rest = Punct (CHR ''!'') s r # Group d [Literal lit r'] gr # rest' \<and> stop = snd gr"
proof -
  have "is_punct tokens (index + 1) (CHR ''!'')" using assms(2) by (auto simp: macro_literal_def split: if_splits)
  then have "is_punct rest 0 (CHR ''!'')" using ahead(1) [OF assms(1), of 0] by simp
  then obtain s r rest' where rest: "rest = Punct (CHR ''!'') s r # rest'" by (auto simp: is_punct_0)
  have second: "get_token tokens (index + 2) = get_token rest' 0"
    using ahead(4) [OF assms(1), of 1] by (simp add: rest get_token_1 [of _ _ 0, simplified])
  have "\<exists>d lit r' gr. get_token tokens (index + 2) = Some (Group d [Literal lit r'] gr) \<and> stop = snd gr"
    using assms(2) by (auto simp: macro_literal_def split: if_splits option.splits token_tree.splits list.splits)
  then obtain d lit r' gr where g: "get_token rest' 0 = Some (Group d [Literal lit r'] gr)" "stop = snd gr" unfolding second by blast
  from g(1) obtain rest'' where "rest' = Group d [Literal lit r'] gr # rest''" by (auto simp: get_token_0)
  with rest g(2) show ?thesis by blast
qed

lemma visit_ident_chain:
  assumes "drop index tokens = Ident name r # rest" "spanned ok lo (Ident name r # rest) hi"
    "visit_ident rw module tokens index name r (es, inc) = Ok (es', inc')"
  shows "\<exists>new mid. es' = es @ new \<and> edits_chain ok lo new mid \<and> spanned ok mid rest hi"
proof -
  have r: "lo \<le> fst r" "fst r \<le> snd r" "ok (fst r)" "ok (snd r)" "spanned ok (snd r) rest hi" using assms(2) by simp_all
  have none: ?thesis if "es' = es" using that r by (intro exI [of _ "[]"] exI [of _ "snd r"]) simp
  have one: ?thesis if "es' = es @ [\<lparr>edit_range = (a, b), edit_replacement = t\<rparr>]" "lo \<le> a" "a \<le> b" "b \<le> mid" "ok a" "ok b" "spanned ok mid rest hi" for a b mid t
    using that by (intro exI [of _ "[\<lparr>edit_range = (a, b), edit_replacement = t\<rparr>]"] exI [of _ mid]) simp
  consider (crate) "name = ''crate''" | (known) "name \<noteq> ''crate''" "name \<in> rw_crates rw"
    | (env) "name \<noteq> ''crate''" "name \<notin> rw_crates rw" "name = ''env''"
    | (other) "name \<noteq> ''crate''" "name \<notin> rw_crates rw" "name \<noteq> ''env''" by blast
  then show ?thesis
  proof cases
    case crate
    with assms(3) one [of "snd r" "snd r" _ "snd r"] none r show ?thesis by (auto simp: visit_ident_def split: if_splits)
  next
    case known
    show ?thesis
    proof (cases "\<not> follows_path_or_field tokens index \<and> is_path_separator tokens (index + 1) \<and> names_macro rw tokens (index + 3)")
      case True
      then have "is_path_separator rest 0" "names_macro rw rest 2"
        using ahead(2) [OF assms(1), of 0] ahead(3) [OF assms(1), of rw 2] by (simp_all add: numeral_eq_Suc)
      then obtain c s q c' s' q' rest' where rest: "rest = Punct c s q # Punct c' s' q' # rest'" using separator_shape by blast
      from names_macro_token [OF \<open>names_macro rw rest 2\<close>] obtain n3 r3 where "get_token rest' 0 = Some (Ident n3 r3)"
        by (auto simp: rest get_token_1 numeral_eq_Suc)
      then obtain rest3 where rest': "rest' = Ident n3 r3 # rest3" by (auto simp: get_token_0)
      have third: "tokens ! (index + 3) = Ident n3 r3"
        using get_token_drop(2) [OF assms(1), of 3] by (simp add: rest rest' numeral_eq_Suc)
      have "es' = es @ [\<lparr>edit_range = (fst r, fst r3), edit_replacement = ''crate::''\<rparr>]"
        using assms(3) True known by (auto simp: visit_ident_def third)
      then show ?thesis by (rule one [where mid = "fst r3"]) (use r in \<open>simp_all add: rest rest'\<close>)
    next
      case False
      with known assms(3) one [of "fst r" "fst r" _ "snd r"] none r show ?thesis by (auto simp: visit_ident_def split: if_splits)
    qed
  next
    case env
    show ?thesis
    proof (cases "es' = es")
      case False
      then obtain v stop where call: "macro_literal tokens index = Ok (Some (v, stop))"
        "es' = es @ [\<lparr>edit_range = (fst r, stop),
           edit_replacement = ''concat!(env!('' @ [CHR 0x22] @ manifest_dir @ [CHR 0x22] @ ''), '' @ [CHR 0x22] @ ''/'' @ module @ [CHR 0x22] @ '')''\<rparr>]"
        using assms(3) env by (auto simp: visit_ident_def with_context_def result_bind_eq_Ok map_err_eq_Ok split: option.splits if_splits)
      from macro_literal_shape [OF assms(1) call(1)] obtain s q d lit q' gr rest'
        where rest: "rest = Punct (CHR ''!'') s q # Group d [Literal lit q'] gr # rest'" "stop = snd gr" by blast
      have "quiet [Literal lit q']" by (simp add: quiet_def)
      then have "snd r \<le> snd gr" "ok (snd gr)" "spanned ok (snd gr) rest hi" using r(5) by (simp_all add: rest)
      with r rest(2) have "lo \<le> fst r" "fst r \<le> stop" "stop \<le> stop" "ok (fst r)" "ok stop" "spanned ok stop rest hi" by simp_all
      with one [OF call(2)] show ?thesis by blast
    qed (rule none)
  next
    case other
    with assms(3) have "es' = es"
      by (auto simp: visit_ident_def with_context_def result_bind_eq_Ok map_err_eq_Ok split: option.splits if_splits)
    then show ?thesis by (rule none)
  qed
qed

lemma visit_loop_chain:
  "drop index tokens = rest \<Longrightarrow> spanned ok lo rest hi \<Longrightarrow> visit_loop rw module tokens index rest found = Ok found' \<Longrightarrow>
   \<exists>new. fst found' = fst found @ new \<and> edits_chain ok lo new hi"
proof (induction rw module tokens index rest found arbitrary: found' lo hi rule: visit_loop.induct)
  case (2 rw module tokens index d inner r rest found)
  from 2(5) obtain found1 where first: "visit_loop rw module inner 0 inner found = Ok found1"
    and later: "visit_loop rw module tokens (index + 1) rest found1 = Ok found'"
    by (auto simp: with_context_def result_bind_eq_Ok map_err_eq_Ok)
  have "\<exists>new. fst found1 = fst found @ new \<and> edits_chain ok lo new (snd r)"
  proof (cases "quiet inner")
    case True
    with first quiet_visit [OF True] 2(4) show ?thesis by simp
  next
    case False
    with 2(4) have s: "lo \<le> fst r" "spanned ok (fst r) inner (snd r)" by simp_all
    from 2(1) [OF _ s(2) first] s(1) edits_chain_start show ?thesis by fastforce
  qed
  moreover have "\<exists>new. fst found' = fst found1 @ new \<and> edits_chain ok (snd r) new hi"
    using 2(2) [OF drop_tail [OF 2(3)] _ later] 2(4) by simp
  ultimately show ?case using edits_chain_append by (metis append.assoc)
next
  case (3 rw module tokens index name r rest found)
  from 3(4) obtain found1 where first: "visit_ident rw module tokens index name r found = Ok found1"
    and later: "visit_loop rw module tokens (index + 1) rest found1 = Ok found'"
    by (auto simp: result_bind_eq_Ok)
  obtain new mid where new: "fst found1 = fst found @ new" "edits_chain ok lo new mid" "spanned ok mid rest hi"
    using visit_ident_chain [OF 3(2,3), of rw module "fst found" "snd found" "fst found1" "snd found1"] first by auto
  from 3(1) [OF drop_tail [OF 3(2)] new(3) later] new edits_chain_append show ?case by (metis append.assoc)
next
  case (4 rw module tokens index c s r rest found)
  then show ?case using drop_tail [OF 4(2)] by simp
next
  case (5 rw module tokens index t r rest found)
  then show ?case using drop_tail [OF 5(2)] by simp
qed simp

section \<open>What a rewrite keeps\<close>

text \<open>Pieces of text with others between them.\<close>

fun weave :: "string list \<Rightarrow> string list \<Rightarrow> string" where
  "weave (k # ks) (p # ps) = k @ p @ weave ks ps"
| "weave ks ps = concat ks"

definition range_text :: "string \<Rightarrow> edit \<Rightarrow> string" where
  "range_text text e = take (snd (edit_range e) - fst (edit_range e)) (drop (fst (edit_range e)) text)"

lemma edits_chain_le: "edits_chain ok lo es hi \<Longrightarrow> lo \<le> hi"
  by (induction es arbitrary: lo) fastforce+

lemma edits_chain_later: "edits_chain ok lo es hi \<Longrightarrow> \<forall>e \<in> set es. lo \<le> fst (edit_range e) \<and> fst (edit_range e) \<le> snd (edit_range e)"
  by (induction es arbitrary: lo) fastforce+

lemma edits_chain_sorted: "edits_chain ok lo es hi \<Longrightarrow> sorted (map edit_range es)"
proof (induction es arbitrary: lo)
  case (Cons e es)
  then have "edit_range e \<le> edit_range f" if "f \<in> set es" for f
    using edits_chain_later [of ok "snd (edit_range e)" es hi] that by (fastforce simp: less_eq_prod_def)
  with Cons show ?case by auto
qed simp

lemma apply_loop_chain:
  "edits_chain (is_char_boundary text) position es (length text) \<Longrightarrow> is_char_boundary text position \<Longrightarrow>
   \<exists>kept. length kept = Suc (length es) \<and> apply_loop text es position out = Some (Ok (out @ weave kept (map edit_replacement es))) \<and>
     drop position text = weave kept (map (range_text text) es)"
proof (induction es arbitrary: position out)
  case Nil
  then show ?case by (intro exI [of _ "[drop position text]"]) (simp add: str_slice_def is_char_boundary_def)
next
  case (Cons e es)
  obtain a b where ab: "edit_range e = (a, b)" by fastforce
  with Cons(2) have chain: "position \<le> a" "a \<le> b" "edits_chain (is_char_boundary text) b es (length text)"
    and on: "is_char_boundary text a" "is_char_boundary text b" by simp_all
  have slice: "str_slice text position a = Some (take (a - position) (drop position text))"
    using chain(1) on(1) Cons(3) by (simp add: str_slice_def)
  let ?k = "take (a - position) (drop position text)"
  from Cons(1) [OF chain(3) on(2), of "out @ ?k @ edit_replacement e"] obtain kept where kept: "length kept = Suc (length es)"
    "apply_loop text es b (out @ ?k @ edit_replacement e) = Some (Ok ((out @ ?k @ edit_replacement e) @ weave kept (map edit_replacement es)))"
    "drop b text = weave kept (map (range_text text) es)" by blast
  have "drop position text = ?k @ drop a text" using chain(1) by (metis append_take_drop_id drop_drop le_add_diff_inverse2)
  also have "drop a text = range_text text e @ drop b text"
    using chain(2) by (simp add: range_text_def ab) (metis append_take_drop_id drop_drop le_add_diff_inverse2)
  finally have "drop position text = weave (?k # kept) (map (range_text text) (e # es))" by (simp add: kept(3))
  moreover have "apply_loop text (e # es) position out = Some (Ok (out @ weave (?k # kept) (map edit_replacement (e # es))))"
    using kept(2) chain by (simp add: ab slice)
  ultimately show ?case using kept(1) by (intro exI [of _ "?k # kept"]) simp
qed

lemma macro_literal_error: "macro_literal tokens index = Err e \<Longrightarrow> \<exists>t. root_cause e = HoldsEscape t"
  by (auto simp: macro_literal_def split: if_splits option.splits token_tree.splits list.splits)

lemma visit_ident_error: "visit_ident rw module tokens index name r found = Err e \<Longrightarrow> \<exists>t. root_cause e = HoldsEscape t"
  by (auto simp: visit_ident_def with_context_def result_bind_eq_Err map_err_eq_Err dest: macro_literal_error split: if_splits prod.splits)

lemma visit_error: "visit_loop rw module tokens index rest found = Err e \<Longrightarrow> \<exists>t. root_cause e = HoldsEscape t"
proof (induction rw module tokens index rest found arbitrary: e rule: visit_loop.induct)
  case (2 rw module tokens index d inner r rest found)
  then show ?case by (auto simp: with_context_def result_bind_eq_Err map_err_eq_Err)
next
  case (3 rw module tokens index name r rest found)
  then show ?case by (auto simp: result_bind_eq_Err dest: visit_ident_error)
qed simp_all

text \<open>
  C32: The rewrite of a file whose tokens lie in order neither panics nor finds overlapping edits. It fails
  only for a file that does not lex or a string with an escape; otherwise the edits come in the order of
  the text, each replaces its own range, and every byte between two of them is kept.
\<close>

theorem rewrite_keeps_the_rest:
  assumes spans: "\<And>stream. parse text = Ok stream \<Longrightarrow> well_spanned (is_char_boundary text) 0 stream (length text)"
  shows "(\<exists>e. rewrite rw parse text module = Some (Err e) \<and> (\<exists>t. root_cause e = LexFailed t \<or> root_cause e = HoldsEscape t)) \<or>
    (\<exists>stream edits includes kept. parse text = Ok stream \<and> visit rw module stream ([], []) = Ok (edits, includes) \<and>
       rewrite rw parse text module = Some (Ok \<lparr>rewritten_text = weave kept (map edit_replacement edits), rewritten_includes = includes\<rparr>) \<and>
       text = weave kept (map (range_text text) edits) \<and> length kept = Suc (length edits) \<and> edits_chain (is_char_boundary text) 0 edits (length text))"
proof (cases "parse text")
  case (Inl m)
  then show ?thesis by (simp add: rewrite_def lex_def with_context_def)
next
  case (Inr stream)
  note parsed = this
  show ?thesis
  proof (cases "visit rw module stream ([], [])")
    case (Inl e)
    with visit_error obtain t where "root_cause e = HoldsEscape t" unfolding visit_def by blast
    with Inl parsed show ?thesis by (simp add: rewrite_def lex_def with_context_def)
  next
    case (Inr found)
    obtain edits incs where found: "found = (edits, incs)" by fastforce
    have "spanned (is_char_boundary text) 0 stream (length text)" using spans [OF parsed] by (rule well_spanned_spanned)
    from visit_loop_chain [OF _ this, of 0 stream rw module "([], [])" found] Inr found
    have chain: "edits_chain (is_char_boundary text) 0 edits (length text)" by (auto simp: visit_def)
    from apply_loop_chain [OF chain _, of "[]"] obtain kept where kept: "length kept = Suc (length edits)"
      "apply_loop text edits 0 [] = Some (Ok (weave kept (map edit_replacement edits)))"
      "text = weave kept (map (range_text text) edits)" by (auto simp: is_char_boundary_def)
    have "apply_edits text edits = Some (Ok (weave kept (map edit_replacement edits)))"
      using kept(2) sort_key_id_if_sorted [OF edits_chain_sorted [OF chain]] by (simp add: apply_edits_def)
    then have "rewrite rw parse text module =
        Some (Ok \<lparr>rewritten_text = weave kept (map edit_replacement edits), rewritten_includes = incs\<rparr>)"
      using parsed Inr found by (simp add: rewrite_def lex_def with_context_def)
    with parsed Inr found kept chain show ?thesis by blast
  qed
qed

definition sample_use :: string where
  "sample_use = ''use tsrs_core::x;''"

definition sample_stream :: "token_tree list" where
  "sample_stream = [Ident ''use'' (0, 3), Ident ''tsrs_core'' (4, 13), Punct (CHR '':'') Joint (13, 14),
     Punct (CHR '':'') Alone (14, 15), Ident ''x'' (15, 16), Punct (CHR '';'') Alone (16, 17)]"

theorem rewrite_keeps_the_rest_witness:
  "rewrite (Rewriter_new {''tsrs_core''}) (\<lambda>_. Ok sample_stream) sample_use ''tsrs_ast'' =
     Some (Ok \<lparr>rewritten_text = ''use crate::tsrs_core::x;'', rewritten_includes = []\<rparr>) \<and>
   (\<exists>kept. sample_use = weave kept [[]] \<and> length kept = 2 \<and> ''use crate::tsrs_core::x;'' = weave kept [''crate::''])"
proof -
  have r: "rewrite (Rewriter_new {''tsrs_core''}) (\<lambda>_. Ok sample_stream) sample_use ''tsrs_ast'' =
     Some (Ok \<lparr>rewritten_text = ''use crate::tsrs_core::x;'', rewritten_includes = []\<rparr>)" by code_simp
  have v: "visit (Rewriter_new {''tsrs_core''}) ''tsrs_ast'' sample_stream ([], []) =
     Ok ([\<lparr>edit_range = (4, 4), edit_replacement = ''crate::''\<rparr>], [])" by code_simp
  have "well_spanned (is_char_boundary sample_use) 0 sample_stream (length sample_use)" by code_simp
  then have "\<And>stream. (Ok sample_stream :: (token_tree list, string) result) = Ok stream \<Longrightarrow> well_spanned (is_char_boundary sample_use) 0 stream (length sample_use)" by simp
  from rewrite_keeps_the_rest [where parse = "\<lambda>_. Ok sample_stream", OF this, where rw = "Rewriter_new {''tsrs_core''}" and module = "''tsrs_ast''"] r v
  show ?thesis by (auto simp: range_text_def)
qed

end
