(* ===== verification/BundleManifest.thy ===== *)
theory BundleManifest
  imports BundleRewrite "HOL-Library.Option_ord"
begin

text \<open>
  Which crates of the checker are bundled and what their manifest says: \<open>tools/bundle-tsrs/src/metadata.rs\<close> and
  \<open>manifest.rs\<close>. The output of \<open>cargo metadata\<close> is the list of its packages; an ordered map is an association
  list with its keys in order.
\<close>

section \<open>Packages\<close>

datatype optionality = Required | Optional

datatype default_features = FeaturesOn | FeaturesOff

record bundle_dependency =
  dep_name :: string
  dep_req :: string
  dep_kind :: "string option"
  dep_optional :: optionality
  dep_default_features :: default_features
  dep_features :: "string list"
  dep_target :: "string option"
  dep_rename :: "string option"

record bundle_target =
  target_kind :: "string list"
  target_src_path :: path

record bundle_package =
  pkg_name :: string
  pkg_manifest_path :: path
  pkg_edition :: string
  pkg_license :: "string option"
  pkg_rust_version :: "string option"
  pkg_dependencies :: "bundle_dependency list"
  pkg_targets :: "bundle_target list"

datatype bundle_error =
  NoCrateNamed string
| CratesDisagree string
| RequiresTwice string string string
| Renames string string string
| DependsAsOption string string
| UnknownKind string string

text \<open>\<open>Package::dependencies\<close>: the dependencies that a build of the library needs.\<close>

definition build_dependencies :: "bundle_package \<Rightarrow> bundle_dependency list" where
  "build_dependencies p = filter (\<lambda>d. dep_kind d \<noteq> Some ''dev'') (pkg_dependencies p)"

definition bundle_script :: "bundle_package \<Rightarrow> path option" where
  "bundle_script p = map_option target_src_path (find (\<lambda>t. ''custom-build'' \<in> set (target_kind t)) (pkg_targets p))"

section \<open>The crates to bundle\<close>

definition by_name :: "bundle_package list \<Rightarrow> (string \<times> bundle_package) list" where
  "by_name packages = fold (\<lambda>p. btree_insert (pkg_name p) p) packages []"

definition known_dependencies :: "(string \<times> bundle_package) list \<Rightarrow> bundle_package \<Rightarrow> string list" where
  "known_dependencies names p = filter (\<lambda>n. map_of names n \<noteq> None) (map dep_name (build_dependencies p))"

function closure_loop :: "(string \<times> bundle_package) list \<Rightarrow> string set \<Rightarrow> string list \<Rightarrow> (string set, bundle_error anyhow) result" where
  "closure_loop names seen pending =
     (if pending = [] then Ok seen
      else let name = last pending; pending = butlast pending in
        case map_of names name of
          None \<Rightarrow> Err (Cause (NoCrateNamed name))
        | Some package \<Rightarrow>
            if name \<in> seen then closure_loop names seen pending
            else closure_loop names (insert name seen) (pending @ known_dependencies names package))"
  by pat_completeness auto

termination
proof (relation "measures [\<lambda>(names, seen, pending). card (fst ` set names - seen), \<lambda>(names, seen, pending). length pending]",
    goal_cases)
  case 1
  show ?case by simp
next
  case (2 names seen pending x xa x2)
  then show ?case by simp
next
  case (3 names seen pending x xa x2)
  then have "x \<in> fst ` set names" by (metis map_of_SomeD fst_conv image_eqI)
  with 3 have "card (fst ` set names - insert x seen) < card (fst ` set names - seen)"
    by (intro psubset_card_mono) auto
  with 3 show ?case by simp
qed

declare closure_loop.simps [simp del]

definition closure :: "bundle_package list \<Rightarrow> string list \<Rightarrow> (bundle_package list, bundle_error anyhow) result" where
  "closure packages roots =
     (let names = by_name packages in
      result_bind (closure_loop names {} roots)
        (\<lambda>seen. Ok (map snd (filter (\<lambda>(n, p). n \<in> seen) names))))"

section \<open>The dependencies of the bundle\<close>

datatype dependency_table = NormalTable | BuildTable

instantiation dependency_table :: linorder
begin

definition less_eq_dependency_table :: "dependency_table \<Rightarrow> dependency_table \<Rightarrow> bool" where
  "less_eq_dependency_table a b \<longleftrightarrow> a = NormalTable \<or> b = BuildTable"

definition less_dependency_table :: "dependency_table \<Rightarrow> dependency_table \<Rightarrow> bool" where
  "less_dependency_table a b \<longleftrightarrow> a = NormalTable \<and> b = BuildTable"

instance
proof
  fix x y z :: dependency_table
  show "x < y \<longleftrightarrow> x \<le> y \<and> \<not> y \<le> x" "x \<le> x" "x \<le> y \<Longrightarrow> y \<le> z \<Longrightarrow> x \<le> z" "x \<le> y \<Longrightarrow> y \<le> x \<Longrightarrow> x = y" "x \<le> y \<or> y \<le> x"
    by (cases x; cases y; cases z; simp add: less_eq_dependency_table_def less_dependency_table_def)+
qed

end

text \<open>A section: the platform and the table.\<close>

type_synonym bundle_section = "string option \<times> dependency_table"

record merged =
  merged_req :: string
  merged_default_features :: default_features
  merged_features :: "string list"

definition convert :: "bundle_package \<Rightarrow> bundle_dependency \<Rightarrow> (bundle_section \<times> merged, bundle_error anyhow) result" where
  "convert package d =
     (case dep_rename d of
        Some rename \<Rightarrow> Err (Cause (Renames (pkg_name package) (dep_name d) rename))
      | None \<Rightarrow>
          (case dep_optional d of
             Optional \<Rightarrow> Err (Cause (DependsAsOption (pkg_name package) (dep_name d)))
           | Required \<Rightarrow>
               result_bind
                 (case dep_kind d of
                    None \<Rightarrow> Ok NormalTable
                  | Some kind \<Rightarrow>
                      if kind = ''build'' then Ok BuildTable else Err (Cause (UnknownKind (pkg_name package) kind)))
                 (\<lambda>table. Ok ((dep_target d, table),
                   \<lparr>merged_req = (case strip_prefix (dep_req d) ''^'' of Some r \<Rightarrow> r | None \<Rightarrow> dep_req d),
                    merged_default_features = dep_default_features d,
                    merged_features = btree_set (dep_features d)\<rparr>))))"

type_synonym bundle_sections = "(bundle_section \<times> (string \<times> merged) list) list"

definition section_table :: "bundle_sections \<Rightarrow> bundle_section \<Rightarrow> (string \<times> merged) list" where
  "section_table sections s = (case map_of sections s of Some table \<Rightarrow> table | None \<Rightarrow> [])"

definition merge_dependency :: "string set \<Rightarrow> bundle_package \<Rightarrow> bundle_dependency \<Rightarrow> bundle_sections \<Rightarrow>
    (bundle_sections, bundle_error anyhow) result" where
  "merge_dependency crates package d sections =
     (let name = dep_name d in
      if name \<in> crates then Ok sections
      else result_bind (with_context (''failed to read the dependency on '' @ name) (convert package d)) (\<lambda>(s, m).
        let table = section_table sections s in
        case map_of table name of
          None \<Rightarrow> Ok (btree_insert s (btree_insert name m table) sections)
        | Some existing \<Rightarrow>
            if merged_req existing \<noteq> merged_req m
            then Err (Cause (RequiresTwice name (merged_req existing) (merged_req m)))
            else
              let existing = (if merged_default_features m = FeaturesOn then existing\<lparr>merged_default_features := FeaturesOn\<rparr> else existing);
                  existing = existing\<lparr>merged_features := btree_set (merged_features existing @ merged_features m)\<rparr>
              in Ok (btree_insert s (btree_insert name existing table) sections)))"

fun merge_list :: "string set \<Rightarrow> (bundle_package \<times> bundle_dependency) list \<Rightarrow> bundle_sections \<Rightarrow>
    (bundle_sections, bundle_error anyhow) result" where
  "merge_list crates [] sections = Ok sections"
| "merge_list crates ((p, d) # ds) sections = result_bind (merge_dependency crates p d sections) (merge_list crates ds)"

definition merge_dependencies :: "bundle_package list \<Rightarrow> string set \<Rightarrow> (bundle_sections, bundle_error anyhow) result" where
  "merge_dependencies packages crates =
     merge_list crates (concat (map (\<lambda>p. map (Pair p) (build_dependencies p)) packages)) []"

section \<open>The manifest\<close>

definition one_value :: "bundle_package list \<Rightarrow> string \<Rightarrow> (bundle_package \<Rightarrow> string option) \<Rightarrow> (string option, bundle_error anyhow) result" where
  "one_value packages key f =
     (case btree_set (map f packages) of
        [] \<Rightarrow> Ok None
      | [first] \<Rightarrow> Ok first
      | _ \<Rightarrow> Err (Cause (CratesDisagree key)))"

definition in_quotes :: "string \<Rightarrow> string" where
  "in_quotes s = [CHR 0x22] @ s @ [CHR 0x22]"

definition render_dependency :: "merged \<Rightarrow> string" where
  "render_dependency m =
     (if merged_default_features m = FeaturesOn \<and> merged_features m = [] then in_quotes (merged_req m)
      else
        let fields = [''version = '' @ in_quotes (merged_req m)];
            fields = (if merged_default_features m = FeaturesOff then fields @ [''default-features = false''] else fields);
            fields = (if merged_features m \<noteq> []
                      then fields @ [''features = ['' @ join '', '' (map in_quotes (merged_features m)) @ '']''] else fields)
        in ''{ '' @ join '', '' fields @ '' }'')"

datatype build_script = ScriptPresent | ScriptAbsent

record bundle_spec =
  bundle_name :: string
  bundle_revision :: string
  bundle_packages :: "bundle_package list"
  bundle_crates :: "string set"
  bundle_build_script :: build_script

definition render_section :: "bundle_section \<times> (string \<times> merged) list \<Rightarrow> string list" where
  "render_section section =
     (let ((target, table), dependencies) = section;
          table = (case table of NormalTable \<Rightarrow> ''dependencies'' | BuildTable \<Rightarrow> ''build-dependencies'')
      in [[], (case target of Some target \<Rightarrow> ''[target.'' @ [CHR 0x27] @ target @ [CHR 0x27] @ ''.'' @ table @ '']'' | None \<Rightarrow> ''['' @ table @ '']'')]
         @ map (\<lambda>(name, m). name @ '' = '' @ render_dependency m) dependencies)"

definition render_manifest :: "bundle_spec \<Rightarrow> (string, bundle_error anyhow) result" where
  "render_manifest b =
     result_bind (with_context ''failed to choose the edition'' (one_value (bundle_packages b) ''edition'' (\<lambda>p. Some (pkg_edition p)))) (\<lambda>edition.
     result_bind (with_context ''failed to choose the license'' (one_value (bundle_packages b) ''license'' pkg_license)) (\<lambda>license.
     result_bind (with_context ''failed to choose the rust-version'' (one_value (bundle_packages b) ''rust-version'' pkg_rust_version)) (\<lambda>rust_version.
     result_bind (with_context ''failed to merge the dependencies'' (merge_dependencies (bundle_packages b) (bundle_crates b))) (\<lambda>sections.
     Ok (join [CHR 0x0A]
       ([''# Generated by tools/bundle-tsrs from tsrs commit '' @ bundle_revision b @ ''. Do not edit:'',
         ''# change the tool or the submodule, and run '' @ [CHR 0x60] @ ''mise run rakko -- bundle-tsrs'' @ [CHR 0x60] @ ''.'',
         ''# The bundle takes the version of the workspace, so it releases with stiles.'',
         ''[package]'',
         ''name = '' @ in_quotes (bundle_name b),
         ''version.workspace = true'',
         ''edition = '' @ in_quotes (case edition of Some e \<Rightarrow> e | None \<Rightarrow> ''2024'')]
        @ (case rust_version of Some v \<Rightarrow> [''rust-version = '' @ in_quotes v] | None \<Rightarrow> [])
        @ (case license of Some l \<Rightarrow> [''license = '' @ in_quotes l] | None \<Rightarrow> [])
        @ [''description = '' @ in_quotes ''The TypeScript checker of tsrs, repackaged as one crate'',
           ''repository = '' @ in_quotes ''https://github.com/aonyx-ai/stiles.git'',
           ''readme = '' @ in_quotes ''README.md'']
        @ [case bundle_build_script b of ScriptPresent \<Rightarrow> ''build = '' @ in_quotes ''build.rs'' | ScriptAbsent \<Rightarrow> ''build = false'']
        @ [[], ''[lib]'', ''path = '' @ in_quotes ''src/lib.rs'', ''test = false'', ''doctest = false'',
           ''# rustdoc names a page after each item, and some diagnostic constants of'',
           ''# tsrs have names longer than a file system allows in a file name.'',
           ''doc = false'', [],
           ''# The code is upstream'' @ [CHR 0x27] @ ''s, so the bundle inherits none of stiles'' @ [CHR 0x27] @ ''s lints.'',
           ''[lints]'']
        @ concat (map render_section sections)
        @ [[]]))))))"

section \<open>The generated texts\<close>

record bundle_arguments =
  arg_source :: path
  arg_out :: path
  arg_name :: string
  arg_roots :: "string list"

definition Arguments_parse :: "string list \<Rightarrow> (bundle_arguments, string) result" where
  "Arguments_parse arguments =
     (let usage = ''usage: bundle-tsrs <source> <out> <name> <crate>...'' in
      case arguments of
        source # out # name # roots \<Rightarrow>
          if roots = [] then Err usage
          else Ok \<lparr>arg_source = source, arg_out = out, arg_name = name, arg_roots = roots\<rparr>
      | _ \<Rightarrow> Err usage)"

definition root_module :: "string list \<Rightarrow> string \<Rightarrow> string" where
  "root_module crates revision =
     (let line = (\<lambda>s. s @ [CHR 0x0A])
      in line (''//! The crates of [tsrs] at commit '' @ revision @ '', one module each'')
         @ line ''//!''
         @ line (''//! '' @ [CHR 0x60] @ ''tools/bundle-tsrs'' @ [CHR 0x60] @ '' generates this crate. Do not edit it: change'')
         @ line (''//! the tool or the submodule, and run '' @ [CHR 0x60] @ ''mise run rakko -- bundle-tsrs'' @ [CHR 0x60] @ ''.'')
         @ line ''//!''
         @ line ''//! [tsrs]: https://github.com/oxc-project/tsrs''
         @ line []
         @ line (''// The code is upstream'' @ [CHR 0x27] @ ''s, and its lints are upstream'' @ [CHR 0x27] @ ''s to fix.'')
         @ line ''#![allow(warnings, clippy::all, clippy::pedantic, clippy::nursery)]''
         @ concat (map (\<lambda>name. line [] @ line (''#[path = '' @ in_quotes (''../'' @ name @ ''/src/lib.rs'') @ '']'')
             @ line (''pub mod '' @ name @ '';'')) crates))"

section \<open>The crates that are bundled\<close>

text \<open>The crates of the workspace that a crate needs to build.\<close>

definition crate_needs :: "(string \<times> bundle_package) list \<Rightarrow> string \<Rightarrow> string \<Rightarrow> bool" where
  "crate_needs names n d \<longleftrightarrow> (\<exists>p. map_of names n = Some p \<and> d \<in> set (known_dependencies names p))"

lemma crate_needs_known: "crate_needs names n d \<Longrightarrow> map_of names d \<noteq> None"
  by (auto simp: crate_needs_def known_dependencies_def)

lemma reaches_known: "(crate_needs names)\<^sup>*\<^sup>* r n \<Longrightarrow> map_of names r \<noteq> None \<Longrightarrow> map_of names n \<noteq> None"
  by (induction rule: rtranclp_induct) (auto dest: crate_needs_known)

lemma closure_loop_reaches:
  assumes "\<forall>n \<in> set pending. map_of names n \<noteq> None"
    and "\<forall>n \<in> seen. \<forall>d. crate_needs names n d \<longrightarrow> d \<in> seen \<or> d \<in> set pending"
  shows "\<exists>all. closure_loop names seen pending = Ok all \<and> seen \<union> set pending \<subseteq> all \<and>
     (\<forall>n \<in> all. \<forall>d. crate_needs names n d \<longrightarrow> d \<in> all) \<and>
     (\<forall>n \<in> all. n \<in> seen \<or> (\<exists>r \<in> set pending. (crate_needs names)\<^sup>*\<^sup>* r n))"
  using assms
proof (induction names seen pending rule: closure_loop.induct)
  case (1 names seen pending)
  show ?case
  proof (cases "pending = []")
    case True
    with 1(4) show ?thesis by (simp add: closure_loop.simps)
  next
    case False
    let ?n = "last pending" and ?rest = "butlast pending"
    have pending: "set pending = insert ?n (set ?rest)" using False by (metis append_butlast_last_id list.set(1,2) set_append Un_insert_right sup_bot_right)
    obtain p where p: "map_of names ?n = Some p" using 1(3) pending by auto
    show ?thesis
    proof (cases "?n \<in> seen")
      case True
      have step: "closure_loop names seen pending = closure_loop names seen ?rest"
        using False True p by (simp add: closure_loop.simps [of names seen pending])
      have "\<exists>all. closure_loop names seen ?rest = Ok all \<and> seen \<union> set ?rest \<subseteq> all \<and>
          (\<forall>n \<in> all. \<forall>d. crate_needs names n d \<longrightarrow> d \<in> all) \<and>
          (\<forall>n \<in> all. n \<in> seen \<or> (\<exists>r \<in> set ?rest. (crate_needs names)\<^sup>*\<^sup>* r n))"
        using 1(3,4) True pending by (intro 1(1) [OF False refl refl p True]) auto
      then show ?thesis unfolding step using True pending by fastforce
    next
      case new: False
      let ?deps = "known_dependencies names p"
      have step: "closure_loop names seen pending = closure_loop names (insert ?n seen) (?rest @ ?deps)"
        using False new p by (simp add: closure_loop.simps [of names seen pending])
      have needs: "crate_needs names ?n d \<longleftrightarrow> d \<in> set ?deps" for d using p by (simp add: crate_needs_def)
      have "\<exists>all. closure_loop names (insert ?n seen) (?rest @ ?deps) = Ok all \<and> insert ?n seen \<union> set (?rest @ ?deps) \<subseteq> all \<and>
          (\<forall>n \<in> all. \<forall>d. crate_needs names n d \<longrightarrow> d \<in> all) \<and>
          (\<forall>n \<in> all. n \<in> insert ?n seen \<or> (\<exists>r \<in> set (?rest @ ?deps). (crate_needs names)\<^sup>*\<^sup>* r n))"
      proof (rule 1(2) [OF False refl refl p new])
        show "\<forall>n \<in> set (?rest @ ?deps). map_of names n \<noteq> None"
          using 1(3) pending by (auto simp: known_dependencies_def)
        show "\<forall>n \<in> insert ?n seen. \<forall>d. crate_needs names n d \<longrightarrow> d \<in> insert ?n seen \<or> d \<in> set (?rest @ ?deps)"
          using 1(4) pending needs by auto
      qed
      then obtain all where all: "closure_loop names (insert ?n seen) (?rest @ ?deps) = Ok all" "insert ?n seen \<union> set (?rest @ ?deps) \<subseteq> all"
        "\<forall>n \<in> all. \<forall>d. crate_needs names n d \<longrightarrow> d \<in> all"
        "\<forall>n \<in> all. n \<in> insert ?n seen \<or> (\<exists>r \<in> set (?rest @ ?deps). (crate_needs names)\<^sup>*\<^sup>* r n)" by blast
      have "n \<in> seen \<or> (\<exists>r \<in> set pending. (crate_needs names)\<^sup>*\<^sup>* r n)" if "n \<in> all" for n
      proof -
        from all(4) that consider "n = ?n" | "n \<in> seen" | r where "r \<in> set ?rest" "(crate_needs names)\<^sup>*\<^sup>* r n"
          | r where "r \<in> set ?deps" "(crate_needs names)\<^sup>*\<^sup>* r n" by auto
        then show ?thesis
        proof cases
          case 4
          then have "(crate_needs names)\<^sup>*\<^sup>* ?n n" using needs converse_rtranclp_into_rtranclp by metis
          with pending show ?thesis by auto
        qed (use pending in auto)
      qed
      with all pending step show ?thesis by auto
    qed
  qed
qed

lemma closure_loop_unknown:
  assumes "n \<in> set pending" "map_of names n = None"
  shows "\<exists>m \<in> set pending. map_of names m = None \<and> closure_loop names seen pending = Err (Cause (NoCrateNamed m))"
  using assms
proof (induction names seen pending rule: closure_loop.induct)
  case (1 names seen pending)
  then have some: "pending \<noteq> []" by auto
  let ?n = "last pending" and ?rest = "butlast pending"
  have pending: "set pending = insert ?n (set ?rest)" using some by (metis append_butlast_last_id list.set(1,2) set_append Un_insert_right sup_bot_right)
  show ?case
  proof (cases "map_of names ?n")
    case None
    with some show ?thesis by (intro bexI [of _ ?n]) (simp_all add: closure_loop.simps [of names seen pending])
  next
    case p: (Some p)
    with 1(3,4) pending have n: "n \<in> set ?rest" by auto
    show ?thesis
    proof (cases "?n \<in> seen")
      case True
      from 1(1) [OF some refl refl p True n 1(4)] pending some p True show ?thesis
        by (auto simp: closure_loop.simps [of names seen pending])
    next
      case False
      have "n \<in> set (?rest @ known_dependencies names p)" using n by simp
      from 1(2) [OF some refl refl p False this 1(4)] obtain m where m: "m \<in> set (?rest @ known_dependencies names p)"
        "map_of names m = None" "closure_loop names (insert ?n seen) (?rest @ known_dependencies names p) = Err (Cause (NoCrateNamed m))" by blast
      then have "m \<in> set ?rest" by (auto simp: known_dependencies_def)
      with m pending some p False show ?thesis by (intro bexI [of _ m]) (auto simp: closure_loop.simps [of names seen pending])
    qed
  qed
qed

lemma by_name_wf: "btree_map_wf (by_name packages)"
proof -
  have "btree_map_wf m \<Longrightarrow> btree_map_wf (fold (\<lambda>p. btree_insert (pkg_name p) p) packages m)" for m
    by (induction packages arbitrary: m) (simp_all add: btree_insert_wf)
  then show ?thesis by (simp add: by_name_def btree_map_wf_def)
qed

lemma map_of_by_name: "map_of (by_name packages) n = find (\<lambda>p. pkg_name p = n) (rev packages)"
proof -
  have "btree_map_wf m \<Longrightarrow> map_of (fold (\<lambda>p. btree_insert (pkg_name p) p) packages m) n =
      (case find (\<lambda>p. pkg_name p = n) (rev packages) of Some p \<Rightarrow> Some p | None \<Rightarrow> map_of m n)" for m
  proof (induction packages arbitrary: m)
    case (Cons p packages)
    then show ?case by (auto simp: map_of_btree_insert btree_insert_wf find_append split: option.splits)
  qed simp
  then show ?thesis by (simp add: by_name_def btree_map_wf_def split: option.splits)
qed

lemma closure_reaches_names:
  assumes names_def: "names = by_name packages"
  shows "(\<forall>r \<in> set roots. map_of names r \<noteq> None) \<and>
      (\<exists>bundled. closure packages roots = Ok bundled \<and> sorted (map pkg_name bundled) \<and> distinct (map pkg_name bundled) \<and>
         set (map pkg_name bundled) = {n. \<exists>r \<in> set roots. (crate_needs names)\<^sup>*\<^sup>* r n} \<and> set bundled \<subseteq> set packages) \<or>
    (\<exists>r \<in> set roots. map_of names r = None \<and> closure packages roots = Err (Cause (NoCrateNamed r)))"
proof (cases "\<forall>r \<in> set roots. map_of names r \<noteq> None")
  case False
  then obtain r where "r \<in> set roots" "map_of names r = None" by blast
  from closure_loop_unknown [OF this, of "{}"] show ?thesis by (auto simp: closure_def names_def)
next
  case True
  from closure_loop_reaches [of roots names "{}"] True obtain all where all: "closure_loop names {} roots = Ok all" "set roots \<subseteq> all"
    "\<forall>n \<in> all. \<forall>d. crate_needs names n d \<longrightarrow> d \<in> all" "\<forall>n \<in> all. \<exists>r \<in> set roots. (crate_needs names)\<^sup>*\<^sup>* r n" by auto
  have "n \<in> all" if "(crate_needs names)\<^sup>*\<^sup>* r n" "r \<in> set roots" for r n
    using that by (induction rule: rtranclp_induct) (use all in auto)
  with all(4) have reach: "all = {n. \<exists>r \<in> set roots. (crate_needs names)\<^sup>*\<^sup>* r n}" by blast
  let ?found = "filter (\<lambda>(n, p). n \<in> all) names"
  have keyed: "pkg_name p = n \<and> p \<in> set packages" if "(n, p) \<in> set names" for n p
  proof -
    have "map_of names n = Some p" using that by_name_wf [of packages] by (simp add: names_def btree_map_wf_def map_of_is_SomeI)
    then have "find (\<lambda>p. pkg_name p = n) (rev packages) = Some p" by (simp add: names_def map_of_by_name)
    then show ?thesis by (auto simp: find_Some_iff) (metis length_rev nth_mem set_rev)
  qed
  have names_of: "map pkg_name (map snd ?found) = map fst ?found" using keyed by auto
  have sorted: "sorted (map fst names)" "distinct (map fst names)" using by_name_wf [of packages] by (simp_all add: names_def btree_map_wf_def)
  have "set (map fst ?found) = all"
  proof -
    have "n \<in> fst ` set names" if "n \<in> all" for n
    proof -
      from that all(4) True reaches_known have "map_of names n \<noteq> None" by blast
      then show ?thesis by (metis map_of_eq_None_iff)
    qed
    then show ?thesis by force
  qed
  then have "set (map pkg_name (map snd ?found)) = {n. \<exists>r \<in> set roots. (crate_needs names)\<^sup>*\<^sup>* r n}"
    unfolding names_of using reach by simp
  moreover have "sorted (map pkg_name (map snd ?found))" "distinct (map pkg_name (map snd ?found))"
    unfolding names_of using sorted_filter [OF sorted(1)] distinct_map_filter [OF sorted(2)] by simp_all
  moreover have "set (map snd ?found) \<subseteq> set packages" using keyed by auto
  moreover have "closure packages roots = Ok (map snd ?found)" using all(1) by (simp add: closure_def names_def Let_def)
  ultimately show ?thesis using True by blast
qed

text \<open>
  C33: The crates that are bundled are the named ones and all they need to build. When every named crate
  is in the workspace, the search ends with exactly the crates reachable along dependencies that are not
  for development, once each and in the order of their names; otherwise it names one that is missing.
\<close>

theorem closure_reaches:
  "(\<forall>r \<in> set roots. map_of (by_name packages) r \<noteq> None) \<and>
      (\<exists>bundled. closure packages roots = Ok bundled \<and> sorted (map pkg_name bundled) \<and> distinct (map pkg_name bundled) \<and>
         set (map pkg_name bundled) = {n. \<exists>r \<in> set roots. (crate_needs (by_name packages))\<^sup>*\<^sup>* r n} \<and> set bundled \<subseteq> set packages) \<or>
    (\<exists>r \<in> set roots. map_of (by_name packages) r = None \<and> closure packages roots = Err (Cause (NoCrateNamed r)))"
  by (rule closure_reaches_names [OF refl])

definition sample_dependency :: "string \<Rightarrow> string option \<Rightarrow> bundle_dependency" where
  "sample_dependency n kind = \<lparr>dep_name = n, dep_req = ''^1'', dep_kind = kind, dep_optional = Required,
     dep_default_features = FeaturesOn, dep_features = [], dep_target = None, dep_rename = None\<rparr>"

definition sample_package :: "string \<Rightarrow> bundle_dependency list \<Rightarrow> bundle_package" where
  "sample_package n ds = \<lparr>pkg_name = n, pkg_manifest_path = n @ ''/Cargo.toml'', pkg_edition = ''2024'', pkg_license = None,
     pkg_rust_version = None, pkg_dependencies = ds, pkg_targets = []\<rparr>"

definition sample_workspace :: "bundle_package list" where
  "sample_workspace =
     [sample_package ''checker'' [sample_dependency ''core'' None, sample_dependency ''testing'' (Some ''dev''), sample_dependency ''serde'' None],
      sample_package ''testing'' [], sample_package ''core'' [sample_dependency ''checker'' (Some ''build'')]]"

theorem closure_reaches_witness:
  "map_option (map pkg_name) (case closure sample_workspace [''checker''] of Ok ps \<Rightarrow> Some ps | Err _ \<Rightarrow> None) = Some [''checker'', ''core''] \<and>
   {n. (crate_needs (by_name sample_workspace))\<^sup>*\<^sup>* ''checker'' n} = {''checker'', ''core''}"
proof -
  have c: "closure sample_workspace [''checker''] = Ok [sample_workspace ! 0, sample_workspace ! 2]" by code_simp
  have n: "map pkg_name [sample_workspace ! 0, sample_workspace ! 2] = [''checker'', ''core'']" by code_simp
  from closure_reaches [of "[''checker'']" sample_workspace] c
  have "set (map pkg_name [sample_workspace ! 0, sample_workspace ! 2]) = {n. (crate_needs (by_name sample_workspace))\<^sup>*\<^sup>* ''checker'' n}"
    by auto
  with n c show ?thesis by auto
qed

end
