(* ===== verification/RustAnalyzer.thy ===== *)
theory RustAnalyzer
  imports Prelude
begin

text \<open>
  What the Rust provider asks rust-analyzer. The analyzer is code of other packages, so it is a
  record with one field per question, over type variables: \<open>'c\<close> for crates, \<open>'m\<close> for modules, \<open>'i\<close>
  for the other items, \<open>'k\<close> for the keys of an import map, \<open>'n\<close> for syntax nodes, \<open>'t\<close> for types and
  \<open>'f\<close> for the files of the virtual file system. The enums are those \<open>provider.rs\<close> matches on, with
  the constructors it names.
\<close>

datatype edition = Edition2015 | Edition2018 | Edition2021 | Edition2024

datatype 'i adt = AdtStruct 'i | AdtUnion 'i | AdtEnum 'i

datatype ('m, 'i) module_def =
    DefModule 'm
  | DefFunction 'i
  | DefAdt "'i adt"
  | DefEnumVariant 'i
  | DefConst 'i
  | DefStatic 'i
  | DefTrait 'i
  | DefTypeAlias 'i
  | DefBuiltinType 'i
  | DefMacro 'i

text \<open>A name in scope is a definition or something else, which the provider passes over.\<close>

datatype ('m, 'i) scope_def = ScopeModuleDef "('m, 'i) module_def" | ScopeOther

datatype ('m, 'i) path_resolution =
    ResDef "('m, 'i) module_def"
  | ResLocal
  | ResTypeParam
  | ResConstParam
  | ResSelfType
  | ResBuiltinAttr
  | ResToolModule
  | ResDeriveHelper

record 'm import_info =
  info_container :: 'm
  info_name :: string
  info_is_doc_hidden :: bool

record 'c crate_dependency =
  dep_krate :: 'c
  dep_name :: string

record text_range =
  range_start :: nat
  range_end :: nat

datatype 'n syntax_element = ElementNode 'n | ElementToken "'n option"

record ('c, 'm, 'i, 'k, 'n, 't, 'f) hir =
  hir_root_module :: "'c \<Rightarrow> 'm"
  hir_scope :: "'m \<Rightarrow> 'm \<Rightarrow> (string \<times> ('m, 'i) scope_def) list"
  hir_import_key :: "('m, 'i) module_def \<Rightarrow> 'k option"
  hir_import_info :: "'c \<Rightarrow> 'k \<Rightarrow> 'm import_info list option"
  hir_display :: "edition \<Rightarrow> string \<Rightarrow> string"
  hir_krate :: "'m \<Rightarrow> 'c"
  hir_def_module :: "('m, 'i) module_def \<Rightarrow> 'm option"
  hir_is_assoc_item :: "('m, 'i) module_def \<Rightarrow> bool"
  hir_parent_enum :: "'i \<Rightarrow> 'i"
  hir_item_name :: "'i \<Rightarrow> string"
  hir_item_module :: "'i \<Rightarrow> 'm"
  hir_path_segments :: "'m \<Rightarrow> string list"
  hir_dependencies :: "'c \<Rightarrow> 'c crate_dependency list"
  hir_transitive_reverse_dependencies :: "'c \<Rightarrow> 'c list"
  hir_edition :: "'c \<Rightarrow> edition"
  hir_display_name :: "'c \<Rightarrow> string option"
  hir_core_result :: "'c \<Rightarrow> 'i option"
  hir_core_option :: "'c \<Rightarrow> 'i option"
  hir_is_non_exhaustive :: "'i \<Rightarrow> bool"
  hir_is_async :: "'i \<Rightarrow> bool"
  hir_async_ret_type :: "'i \<Rightarrow> 't option"
  hir_ret_type :: "'i \<Rightarrow> 't"
  ty_as_adt :: "'t \<Rightarrow> 'i adt option"
  ty_as_adt_with_args :: "'t \<Rightarrow> ('i adt \<times> 't option list) option"
  ty_is_never :: "'t \<Rightarrow> bool"
  ty_is_type_param :: "'t \<Rightarrow> bool"
  ty_display :: "'t \<Rightarrow> 'c \<Rightarrow> string"
  ty_debug :: "'t \<Rightarrow> string"
  sema_fn_to_def :: "'n \<Rightarrow> 'i option"
  sema_type_of_expr :: "'n \<Rightarrow> 't option"
  sema_resolve_path :: "'n \<Rightarrow> ('m, 'i) path_resolution option"
  sema_file_to_module_def :: "'f \<Rightarrow> 'm option"
  sema_parse_guess_edition :: "'f \<Rightarrow> 'n"
  node_range :: "'n \<Rightarrow> text_range"
  node_covering_element :: "'n \<Rightarrow> text_range \<Rightarrow> 'n syntax_element"
  node_ancestors :: "'n \<Rightarrow> 'n list"
  node_is_fn :: "'n \<Rightarrow> bool"
  node_is_expr :: "'n \<Rightarrow> bool"
  node_is_use :: "'n \<Rightarrow> bool"
  node_is_path :: "'n \<Rightarrow> bool"
  node_is_use_tree :: "'n \<Rightarrow> bool"
  use_use_tree :: "'n \<Rightarrow> 'n option"
  tree_path :: "'n \<Rightarrow> 'n option"
  tree_has_list :: "'n \<Rightarrow> bool"
  tree_has_star :: "'n \<Rightarrow> bool"
  path_qualifier :: "'n \<Rightarrow> 'n option"

text \<open>\<open>DecorateCtx\<close>, the state shared by the targets of one file.\<close>

record ('c, 'm, 'i, 'k, 'n, 't, 'f) decorate_ctx =
  ctx_sema :: "('c, 'm, 'i, 'k, 'n, 't, 'f) hir"
  ctx_syntax :: 'n
  ctx_module :: 'm
  ctx_edition :: edition
  ctx_core_result :: "'i option"
  ctx_core_option :: "'i option"

end
