(* ===== verification/RustReexports.thy ===== *)
theory RustReexports
  imports RustAnalyzer
begin

text \<open>
  Public paths through other crates: \<open>ModulePaths\<close>, \<open>public_module_paths\<close>, \<open>defining_crate\<close> and
  \<open>public_paths\<close> of \<open>crates/stiles-rust/src/provider.rs\<close>. The walk of a dependency's modules is a
  loop over a queue that need not end for an arbitrary analyzer, so it is a partial function; the
  theorems show that it ends when the modules offered are finitely many, and that the paths it gives
  are the shortest public ones.
\<close>

section \<open>The walk of a crate\<close>

type_synonym 'm module_paths = "'m \<rightharpoonup> string list"

text \<open>Whether a crate's import map offers the step from a module to a child under a name.\<close>

definition step_offered ::
  "('c, 'm, 'i, 'k, 'n, 't, 'f) decorate_ctx \<Rightarrow> 'c \<Rightarrow> 'm \<Rightarrow> string \<Rightarrow> 'k \<Rightarrow> bool" where
  "step_offered ctx krate module name key =
     (case hir_import_info (ctx_sema ctx) krate key of
        None \<Rightarrow> False
      | Some infos \<Rightarrow> list_ex (\<lambda>i. info_container i = module \<and> info_name i = name \<and> \<not> info_is_doc_hidden i) infos)"

text \<open>The body of the inner loop.\<close>

definition visit_scope_entry ::
  "('c, 'm, 'i, 'k, 'n, 't, 'f) decorate_ctx \<Rightarrow> 'c \<Rightarrow> 'm \<Rightarrow> string list \<Rightarrow> string \<times> ('m, 'i) scope_def \<Rightarrow>
   'm module_paths \<times> 'm list \<Rightarrow> 'm module_paths \<times> 'm list" where
  "visit_scope_entry ctx krate module prefix entry st =
     (case (entry, st) of ((name, def), (paths, queue)) \<Rightarrow>
        case def of
          ScopeModuleDef (DefModule child) \<Rightarrow>
            if paths child \<noteq> None then st
            else (case hir_import_key (ctx_sema ctx) (DefModule child) of
                None \<Rightarrow> st
              | Some key \<Rightarrow>
                  if \<not> step_offered ctx krate module name key then st
                  else (paths(child \<mapsto> prefix @ [hir_display (ctx_sema ctx) (ctx_edition ctx) name]), queue @ [child]))
        | _ \<Rightarrow> st)"

definition visit_scope ::
  "('c, 'm, 'i, 'k, 'n, 't, 'f) decorate_ctx \<Rightarrow> 'c \<Rightarrow> 'm \<Rightarrow> string list \<Rightarrow>
   'm module_paths \<times> 'm list \<Rightarrow> 'm module_paths \<times> 'm list" where
  "visit_scope ctx krate module prefix st =
     fold (visit_scope_entry ctx krate module prefix) (hir_scope (ctx_sema ctx) module (ctx_module ctx)) st"

partial_function (option) walk_modules ::
  "('c, 'm, 'i, 'k, 'n, 't, 'f) decorate_ctx \<Rightarrow> 'c \<Rightarrow> 'm module_paths \<Rightarrow> 'm list \<Rightarrow> 'm module_paths option" where
  "walk_modules ctx krate paths queue =
     (case queue of
        [] \<Rightarrow> Some paths
      | module # rest \<Rightarrow>
          (case paths module of
             None \<Rightarrow> walk_modules ctx krate paths rest
           | Some prefix \<Rightarrow>
               walk_modules ctx krate (fst (visit_scope ctx krate module prefix (paths, rest)))
                 (snd (visit_scope ctx krate module prefix (paths, rest)))))"

definition public_module_paths :: "('c, 'm, 'i, 'k, 'n, 't, 'f) decorate_ctx \<Rightarrow> 'c \<Rightarrow> 'm module_paths option" where
  "public_module_paths ctx krate =
     (let root = hir_root_module (ctx_sema ctx) krate
      in walk_modules ctx krate [root \<mapsto> []] [root])"

section \<open>Public paths to an item\<close>

text \<open>\<open>ModulePaths\<close>: one walk per dependency and file.\<close>

type_synonym ('c, 'm) paths_by_crate = "'c \<rightharpoonup> 'm module_paths"

definition ModulePaths_of ::
  "('c, 'm, 'i, 'k, 'n, 't, 'f) decorate_ctx \<Rightarrow> 'c \<Rightarrow> ('c, 'm) paths_by_crate \<Rightarrow>
   ('m module_paths \<times> ('c, 'm) paths_by_crate) option" where
  "ModulePaths_of ctx krate by_crate =
     (case by_crate krate of
        Some paths \<Rightarrow> Some (paths, by_crate)
      | None \<Rightarrow> map_option (\<lambda>paths. (paths, by_crate(krate \<mapsto> paths))) (public_module_paths ctx krate))"

fun defining_crate :: "('c, 'm, 'i, 'k, 'n, 't, 'f) decorate_ctx \<Rightarrow> ('m, 'i) module_def \<Rightarrow> 'c option" where
  "defining_crate ctx (DefModule module) = Some (hir_krate (ctx_sema ctx) module)"
| "defining_crate ctx def = map_option (hir_krate (ctx_sema ctx)) (hir_def_module (ctx_sema ctx) def)"

record public_path =
  pp_krate :: string
  pp_segments :: "string list"

text \<open>\<open>Iterator::min_by\<close>: the first of the least elements.\<close>

fun min_by :: "('a \<Rightarrow> 'a \<Rightarrow> bool) \<Rightarrow> 'a list \<Rightarrow> 'a option" where
  "min_by le [] = None"
| "min_by le (x # xs) = Some (fold (\<lambda>y best. if le best y then best else y) xs x)"

definition segments_le :: "string list \<Rightarrow> string list \<Rightarrow> bool" where
  "segments_le lhs rhs = (length lhs < length rhs \<or> length lhs = length rhs \<and> lhs \<le> rhs)"

definition info_segments ::
  "('c, 'm, 'i, 'k, 'n, 't, 'f) decorate_ctx \<Rightarrow> 'm module_paths \<Rightarrow> 'm import_info \<Rightarrow> string list option" where
  "info_segments ctx modules info =
     map_option (\<lambda>segments. segments @ [hir_display (ctx_sema ctx) (ctx_edition ctx) (info_name info)])
       (modules (info_container info))"

text \<open>The body of the loop over the dependencies: the path through one of them, if it has one.\<close>

definition path_through ::
  "('c, 'm, 'i, 'k, 'n, 't, 'f) decorate_ctx \<Rightarrow> 'c \<Rightarrow> 'k \<Rightarrow> string list \<Rightarrow> 'c crate_dependency \<Rightarrow>
   ('c, 'm) paths_by_crate \<Rightarrow> (public_path option \<times> ('c, 'm) paths_by_crate) option" where
  "path_through ctx defining key suffix dep by_crate =
     (if dep_krate dep = defining
         \<or> dep_krate dep \<notin> set (hir_transitive_reverse_dependencies (ctx_sema ctx) defining) then Some (None, by_crate)
      else case hir_import_info (ctx_sema ctx) (dep_krate dep) key of
        None \<Rightarrow> Some (None, by_crate)
      | Some infos \<Rightarrow>
          Option.bind (ModulePaths_of ctx (dep_krate dep) by_crate) (\<lambda>(modules, by_crate).
            let shortest = min_by segments_le
                  (List.map_filter (info_segments ctx modules) (filter (\<lambda>i. \<not> info_is_doc_hidden i) infos))
            in Some (map_option (\<lambda>segments.
                 \<lparr>pp_krate = hir_display (ctx_sema ctx) (ctx_edition ctx) (dep_name dep), pp_segments = segments @ suffix\<rparr>) shortest,
               by_crate)))"

fun paths_through ::
  "('c, 'm, 'i, 'k, 'n, 't, 'f) decorate_ctx \<Rightarrow> 'c \<Rightarrow> 'k \<Rightarrow> string list \<Rightarrow> 'c crate_dependency list \<Rightarrow>
   ('c, 'm) paths_by_crate \<Rightarrow> (public_path list \<times> ('c, 'm) paths_by_crate) option" where
  "paths_through ctx defining key suffix [] by_crate = Some ([], by_crate)"
| "paths_through ctx defining key suffix (dep # deps) by_crate =
     Option.bind (path_through ctx defining key suffix dep by_crate) (\<lambda>(found, by_crate).
       Option.bind (paths_through ctx defining key suffix deps by_crate) (\<lambda>(paths, by_crate).
         Some ((case found of None \<Rightarrow> [] | Some p \<Rightarrow> [p]) @ paths, by_crate)))"

text \<open>A variant is looked up as its enum, with its own name after it.\<close>

fun item_and_suffix ::
  "('c, 'm, 'i, 'k, 'n, 't, 'f) decorate_ctx \<Rightarrow> ('m, 'i) module_def \<Rightarrow> ('m, 'i) module_def \<times> string list" where
  "item_and_suffix ctx (DefEnumVariant v) =
     (DefAdt (AdtEnum (hir_parent_enum (ctx_sema ctx) v)),
      [hir_display (ctx_sema ctx) (ctx_edition ctx) (hir_item_name (ctx_sema ctx) v)])"
| "item_and_suffix ctx def = (def, [])"

definition public_paths ::
  "('c, 'm, 'i, 'k, 'n, 't, 'f) decorate_ctx \<Rightarrow> ('c, 'm) paths_by_crate \<Rightarrow> ('m, 'i) module_def \<Rightarrow>
   (public_path list \<times> ('c, 'm) paths_by_crate) option" where
  "public_paths ctx by_crate def =
     (if hir_is_assoc_item (ctx_sema ctx) def then Some ([], by_crate)
      else let (item, suffix) = item_and_suffix ctx def;
               current = hir_krate (ctx_sema ctx) (ctx_module ctx)
           in case defining_crate ctx item of
                None \<Rightarrow> Some ([], by_crate)
              | Some defining \<Rightarrow>
                  if defining = current then Some ([], by_crate)
                  else (case hir_import_key (ctx_sema ctx) item of
                      None \<Rightarrow> Some ([], by_crate)
                    | Some key \<Rightarrow>
                        paths_through ctx defining key suffix (hir_dependencies (ctx_sema ctx) current) by_crate))"

section \<open>Public chains\<close>

text \<open>A step from a module to a child that the crate offers, and the chains of such steps from the root.\<close>

definition entry_step ::
  "('c, 'm, 'i, 'k, 'n, 't, 'f) decorate_ctx \<Rightarrow> 'c \<Rightarrow> 'm \<Rightarrow> (string \<times> ('m, 'i) scope_def) set \<Rightarrow> string \<Rightarrow> 'm \<Rightarrow> bool" where
  "entry_step ctx krate module entries name child \<longleftrightarrow>
     (name, ScopeModuleDef (DefModule child)) \<in> entries \<and>
     (\<exists>key. hir_import_key (ctx_sema ctx) (DefModule child) = Some key \<and> step_offered ctx krate module name key)"

abbreviation public_step :: "('c, 'm, 'i, 'k, 'n, 't, 'f) decorate_ctx \<Rightarrow> 'c \<Rightarrow> 'm \<Rightarrow> string \<Rightarrow> 'm \<Rightarrow> bool" where
  "public_step ctx krate module \<equiv> entry_step ctx krate module (set (hir_scope (ctx_sema ctx) module (ctx_module ctx)))"

inductive public_chain :: "('c, 'm, 'i, 'k, 'n, 't, 'f) decorate_ctx \<Rightarrow> 'c \<Rightarrow> 'm \<Rightarrow> string list \<Rightarrow> bool"
  for ctx krate where
  chain_root: "public_chain ctx krate (hir_root_module (ctx_sema ctx) krate) []"
| chain_step: "public_chain ctx krate module names \<Longrightarrow> public_step ctx krate module name child \<Longrightarrow>
    public_chain ctx krate child (names @ [hir_display (ctx_sema ctx) (ctx_edition ctx) name])"

definition public_modules :: "('c, 'm, 'i, 'k, 'n, 't, 'f) decorate_ctx \<Rightarrow> 'c \<Rightarrow> 'm set" where
  "public_modules ctx krate = {m. \<exists>names. public_chain ctx krate m names}"

definition shortest_paths :: "('c, 'm, 'i, 'k, 'n, 't, 'f) decorate_ctx \<Rightarrow> 'c \<Rightarrow> 'm module_paths \<Rightarrow> bool" where
  "shortest_paths ctx krate paths \<longleftrightarrow> dom paths = public_modules ctx krate \<and>
     (\<forall>m p. paths m = Some p \<longrightarrow> public_chain ctx krate m p \<and>
        (\<forall>names. public_chain ctx krate m names \<longrightarrow> length p \<le> length names))"

text \<open>What one scope adds: new children at the back of the queue, one step further than the module.\<close>

definition scope_grows ::
  "('c, 'm, 'i, 'k, 'n, 't, 'f) decorate_ctx \<Rightarrow> 'c \<Rightarrow> 'm \<Rightarrow> string list \<Rightarrow> (string \<times> ('m, 'i) scope_def) set \<Rightarrow>
   'm module_paths \<Rightarrow> 'm module_paths \<Rightarrow> 'm list \<Rightarrow> bool" where
  "scope_grows ctx krate module prefix entries paths paths' new \<longleftrightarrow>
     set new \<inter> dom paths = {} \<and> dom paths' = dom paths \<union> set new \<and> distinct new \<and> (\<forall>x \<in> dom paths. paths' x = paths x) \<and>
     (\<forall>c \<in> set new. \<exists>name. entry_step ctx krate module entries name c \<and>
        paths' c = Some (prefix @ [hir_display (ctx_sema ctx) (ctx_edition ctx) name])) \<and>
     (\<forall>name c. entry_step ctx krate module entries name c \<longrightarrow> c \<in> dom paths')"

lemma entry_step_insert:
  "entry_step ctx krate module (insert e E) name c \<longleftrightarrow> entry_step ctx krate module {e} name c \<or> entry_step ctx krate module E name c"
  by (auto simp: entry_step_def)

lemma visit_entry_cases:
  obtains (same) "visit_scope_entry ctx krate module prefix entry (paths, queue) = (paths, queue)"
      "\<forall>name c. entry_step ctx krate module {entry} name c \<longrightarrow> c \<in> dom paths"
  | (new) name c where "entry_step ctx krate module {entry} name c" "c \<notin> dom paths"
      "\<forall>name' c'. entry_step ctx krate module {entry} name' c' \<longrightarrow> c' = c"
      "visit_scope_entry ctx krate module prefix entry (paths, queue)
        = (paths(c \<mapsto> prefix @ [hir_display (ctx_sema ctx) (ctx_edition ctx) name]), queue @ [c])"
proof (cases "\<exists>name c. entry_step ctx krate module {entry} name c \<and> c \<notin> dom paths")
  case True
  then obtain name c where "entry_step ctx krate module {entry} name c" "c \<notin> dom paths" by blast
  then show thesis by (intro new) (auto simp: visit_scope_entry_def entry_step_def domIff)
next
  case False
  show thesis
  proof (rule same)
    obtain name def where e: "entry = (name, def)" by (cases entry)
    consider c where "def = ScopeModuleDef (DefModule c)" | "\<forall>c. def \<noteq> ScopeModuleDef (DefModule c)" by blast
    then show "visit_scope_entry ctx krate module prefix entry (paths, queue) = (paths, queue)"
      using False e
      by cases (auto simp: visit_scope_entry_def entry_step_def domIff split: option.splits scope_def.splits module_def.splits)
  qed (use False in blast)
qed

lemma scope_growsI:
  assumes "set new \<inter> dom paths = {}" "dom paths' = dom paths \<union> set new" "distinct new" "\<And>x. x \<in> dom paths \<Longrightarrow> paths' x = paths x"
    "\<And>c. c \<in> set new \<Longrightarrow> \<exists>name. entry_step ctx krate module entries name c \<and>
        paths' c = Some (prefix @ [hir_display (ctx_sema ctx) (ctx_edition ctx) name])"
    "\<And>name c. entry_step ctx krate module entries name c \<Longrightarrow> c \<in> dom paths'"
  shows "scope_grows ctx krate module prefix entries paths paths' new"
  unfolding scope_grows_def by (intro conjI ballI allI impI; fact assms)

lemma scope_growsD:
  assumes "scope_grows ctx krate module prefix entries paths paths' new"
  shows "set new \<inter> dom paths = {}" "dom paths' = dom paths \<union> set new" "distinct new" "\<And>x. x \<in> dom paths \<Longrightarrow> paths' x = paths x"
    "\<And>c. c \<in> set new \<Longrightarrow> \<exists>name. entry_step ctx krate module entries name c \<and>
        paths' c = Some (prefix @ [hir_display (ctx_sema ctx) (ctx_edition ctx) name])"
    "\<And>name c. entry_step ctx krate module entries name c \<Longrightarrow> c \<in> dom paths'"
proof -
  note all = assms [unfolded scope_grows_def]
  from all show "set new \<inter> dom paths = {}" by (elim conjE)
  from all show "dom paths' = dom paths \<union> set new" by (elim conjE)
  from all show "distinct new" by (elim conjE)
  from all show "\<And>x. x \<in> dom paths \<Longrightarrow> paths' x = paths x" by (elim conjE) (rule bspec)
  from all show "\<And>c. c \<in> set new \<Longrightarrow> \<exists>name. entry_step ctx krate module entries name c \<and>
      paths' c = Some (prefix @ [hir_display (ctx_sema ctx) (ctx_edition ctx) name])" by (elim conjE) (rule bspec)
  from all show "\<And>name c. entry_step ctx krate module entries name c \<Longrightarrow> c \<in> dom paths'" by (elim conjE) (simp only: simp_thms)
qed

lemma scope_grows_same:
  assumes grows: "scope_grows ctx krate module prefix E paths paths' new"
    and e: "\<forall>name c. entry_step ctx krate module {e} name c \<longrightarrow> c \<in> dom paths"
  shows "scope_grows ctx krate module prefix (insert e E) paths paths' new"
proof (rule scope_growsI)
  note g = scope_growsD [OF grows]
  show "set new \<inter> dom paths = {}" "dom paths' = dom paths \<union> set new" "distinct new" by (fact g)+
  show "paths' x = paths x" if "x \<in> dom paths" for x by (rule g(4) [OF that])
  show "\<exists>name. entry_step ctx krate module (insert e E) name c \<and>
      paths' c = Some (prefix @ [hir_display (ctx_sema ctx) (ctx_edition ctx) name])" if "c \<in> set new" for c
    using g(5) [OF that] entry_step_insert [of _ _ _ e E] by metis
  show "c \<in> dom paths'" if "entry_step ctx krate module (insert e E) name c" for name c
    using that e g(6) [of name c] g(2) entry_step_insert [of ctx krate module e E] by (metis UnI1)
qed

lemma scope_grows_new:
  assumes step: "entry_step ctx krate module {e} name c" and only: "\<forall>name' c'. entry_step ctx krate module {e} name' c' \<longrightarrow> c' = c"
    and c: "c \<notin> dom paths"
    and grows: "scope_grows ctx krate module prefix E (paths(c \<mapsto> prefix @ [hir_display (ctx_sema ctx) (ctx_edition ctx) name])) paths' new"
  shows "scope_grows ctx krate module prefix (insert e E) paths paths' (c # new)"
proof (rule scope_growsI)
  note g = scope_growsD [OF grows]
  from g(4) [of c] have at: "paths' c = Some (prefix @ [hir_display (ctx_sema ctx) (ctx_edition ctx) name])" by simp
  show "set (c # new) \<inter> dom paths = {}" "dom paths' = dom paths \<union> set (c # new)" "distinct (c # new)" using g(1-3) c by auto
  show "paths' x = paths x" if "x \<in> dom paths" for x using g(4) [of x] that c by auto
  show "\<exists>name. entry_step ctx krate module (insert e E) name d \<and>
      paths' d = Some (prefix @ [hir_display (ctx_sema ctx) (ctx_edition ctx) name])" if "d \<in> set (c # new)" for d
    using g(5) [of d] that at step entry_step_insert [of _ _ _ e E] by (metis set_ConsD)
  show "d \<in> dom paths'" if "entry_step ctx krate module (insert e E) name' d" for name' d
    using that only g(6) [of name' d] at entry_step_insert [of ctx krate module e E] by (metis domI)
qed

lemma fold_visit_grows:
  "\<exists>new. snd (fold (visit_scope_entry ctx krate module prefix) entries (paths, queue)) = queue @ new \<and>
     scope_grows ctx krate module prefix (set entries) paths
       (fst (fold (visit_scope_entry ctx krate module prefix) entries (paths, queue))) new"
proof (induction entries arbitrary: paths queue)
  case Nil
  then show ?case by (simp add: scope_grows_def entry_step_def)
next
  case (Cons entry entries)
  show ?case
  proof (cases rule: visit_entry_cases [of ctx krate module prefix entry paths queue])
    case same
    with Cons.IH [of paths queue] show ?thesis by (auto intro: scope_grows_same)
  next
    case (new name c)
    let ?paths = "paths(c \<mapsto> prefix @ [hir_display (ctx_sema ctx) (ctx_edition ctx) name])"
    from Cons.IH [of ?paths "queue @ [c]"] obtain cs where cs:
      "snd (fold (visit_scope_entry ctx krate module prefix) entries (?paths, queue @ [c])) = (queue @ [c]) @ cs"
      "scope_grows ctx krate module prefix (set entries) ?paths
         (fst (fold (visit_scope_entry ctx krate module prefix) entries (?paths, queue @ [c]))) cs" by blast
    show ?thesis using cs(1) scope_grows_new [OF new(1,3,2) cs(2)] by (intro exI [of _ "c # cs"]) (simp add: new(4))
  qed
qed

lemma visit_scope_grows:
  obtains new where "snd (visit_scope ctx krate module prefix (paths, queue)) = queue @ new"
    "scope_grows ctx krate module prefix (set (hir_scope (ctx_sema ctx) module (ctx_module ctx))) paths
       (fst (visit_scope ctx krate module prefix (paths, queue))) new"
  using fold_visit_grows [of ctx krate module prefix "hir_scope (ctx_sema ctx) module (ctx_module ctx)" paths queue]
  unfolding visit_scope_def by blast

section \<open>The walk gives the shortest paths\<close>

text \<open>
  The invariant: the queue holds modules with a path, nearest first, none of the modules found is
  more than one step further than the front, and each module no longer in the queue has all its
  children found, at most one step further.
\<close>

definition depth :: "'m module_paths \<Rightarrow> 'm \<Rightarrow> nat" where
  "depth paths m = length (the (paths m))"

definition walk_invar :: "('c, 'm, 'i, 'k, 'n, 't, 'f) decorate_ctx \<Rightarrow> 'c \<Rightarrow> 'm module_paths \<Rightarrow> 'm list \<Rightarrow> bool" where
  "walk_invar ctx krate paths queue \<longleftrightarrow>
     (\<forall>m p. paths m = Some p \<longrightarrow> public_chain ctx krate m p) \<and>
     set queue \<subseteq> dom paths \<and> sorted (map (depth paths) queue) \<and>
     (\<forall>x \<in> dom paths. \<forall>y \<in> set (take 1 queue). depth paths x \<le> Suc (depth paths y)) \<and>
     (\<forall>m \<in> dom paths - set queue. \<forall>name c. public_step ctx krate m name c \<longrightarrow> c \<in> dom paths \<and> depth paths c \<le> Suc (depth paths m)) \<and>
     paths (hir_root_module (ctx_sema ctx) krate) = Some []"

lemma walk_invar_init:
  "walk_invar ctx krate [hir_root_module (ctx_sema ctx) krate \<mapsto> []] [hir_root_module (ctx_sema ctx) krate]"
  by (simp add: walk_invar_def chain_root split: if_splits)

lemma walk_invar_step:
  assumes invar: "walk_invar ctx krate paths (m # rest)" and m: "paths m = Some prefix"
    and grows: "scope_grows ctx krate m prefix (set (hir_scope (ctx_sema ctx) m (ctx_module ctx))) paths paths' new"
  shows "walk_invar ctx krate paths' (rest @ new)"
proof -
  note g = scope_growsD [OF grows]
  let ?d = "depth paths" and ?d' = "depth paths'"
  note invars = invar [unfolded walk_invar_def]
  have chains: "\<And>m p. paths m = Some p \<Longrightarrow> public_chain ctx krate m p" and rest: "set rest \<subseteq> dom paths"
    and root: "paths (hir_root_module (ctx_sema ctx) krate) = Some []" and sorted: "sorted (map ?d (m # rest))"
    using invars by simp_all
  have near: "?d x \<le> Suc (?d m)" if "x \<in> dom paths" for x using invars that by simp
  have closed: "c \<in> dom paths \<and> ?d c \<le> Suc (?d x)"
    if "x \<in> dom paths" "x \<notin> set (m # rest)" "public_step ctx krate x name c" for x name c
    using invars that by (metis DiffI)
  have old: "?d' x = ?d x" if "x \<in> dom paths" for x using g(4) [OF that] by (simp add: depth_def)
  have fresh: "?d' c = Suc (?d m)" if "c \<in> set new" for c using g(5) [OF that] m by (auto simp: depth_def)
  have le: "?d' x \<le> Suc (?d m)" if "x \<in> dom paths'" for x
    using that near [of x] old [of x] fresh [of x] unfolding g(2) by (metis UnE order_refl)
  have ge: "?d m \<le> ?d' y" if "y \<in> set (rest @ new)" for y
  proof (cases "y \<in> set new")
    case False
    with that have "y \<in> set rest" by simp
    with rest sorted old [of y] show ?thesis by (metis in_mono list.set_intros(1,2) list.simps(9) set_map image_eqI sorted_simps(2))
  qed (simp add: fresh)
  have chains': "public_chain ctx krate x p" if "paths' x = Some p" for x p
  proof (cases "x \<in> set new")
    case True
    from g(5) [OF this] that obtain name where "public_step ctx krate m name x" "p = prefix @ [hir_display (ctx_sema ctx) (ctx_edition ctx) name]"
      by auto
    then show ?thesis using chain_step [OF chains [OF m]] by simp
  next
    case False
    with that g(2) g(4) [of x] chains show ?thesis by (metis UnE domI)
  qed
  have same: "map ?d' rest = map ?d rest" by (intro map_cong refl) (rule old, rule subsetD [OF rest])
  have flat: "map ?d' new = replicate (length new) (Suc (?d m))" using fresh by (simp add: map_replicate_const [symmetric])
  have "x \<le> Suc (?d m)" if "x \<in> set (map ?d rest)" for x using that near [OF subsetD [OF rest]] by auto
  then have sorted': "sorted (map ?d' (rest @ new))"
    using sorted unfolding map_append same flat by (simp add: sorted_append sorted_replicate)
  have closed': "c \<in> dom paths' \<and> ?d' c \<le> Suc (?d' x)" if x: "x \<in> dom paths'" "x \<notin> set (rest @ new)" and step: "public_step ctx krate x name c"
    for x name c
  proof (cases "x = m")
    case True
    with g(6) [of name c] le [of c] old [OF domI [of paths m, OF m]] step show ?thesis by simp
  next
    case False
    with x g(2) have "x \<in> dom paths" "x \<notin> set (m # rest)" by auto
    from closed [OF this step] have "c \<in> dom paths" "?d c \<le> Suc (?d x)" by blast+
    with old [of c] old [OF \<open>x \<in> dom paths\<close>] g(2) show ?thesis by simp
  qed
  have near': "?d' x \<le> Suc (?d' y)" if "x \<in> dom paths'" "y \<in> set (take 1 (rest @ new))" for x y
    using le [OF that(1)] ge [of y] that(2) set_take_subset [of 1 "rest @ new"] by fastforce
  have root': "paths' (hir_root_module (ctx_sema ctx) krate) = Some []" using g(4) root by (metis domI)
  have found: "set (rest @ new) \<subseteq> dom paths'" using g(2) rest by auto
  show ?thesis unfolding walk_invar_def
  proof (intro conjI ballI allI impI)
    fix x name c
    assume "x \<in> dom paths' - set (rest @ new)" "public_step ctx krate x name c"
    then have "c \<in> dom paths' \<and> ?d' c \<le> Suc (?d' x)" by (intro closed') blast+
    then show "c \<in> dom paths'" "?d' c \<le> Suc (?d' x)" by blast+
  qed (fact chains' found sorted' root' near')+
qed

lemma walk_invar_final:
  assumes "walk_invar ctx krate paths []"
  shows "shortest_paths ctx krate paths"
proof -
  from assms have chains: "\<And>m p. paths m = Some p \<Longrightarrow> public_chain ctx krate m p"
    and root: "paths (hir_root_module (ctx_sema ctx) krate) = Some []"
    and closed: "\<And>x name c. x \<in> dom paths \<Longrightarrow> public_step ctx krate x name c \<Longrightarrow> c \<in> dom paths \<and> depth paths c \<le> Suc (depth paths x)"
    unfolding walk_invar_def by auto
  have "m \<in> dom paths \<and> depth paths m \<le> length names" if "public_chain ctx krate m names" for m names
    using that
  proof induction
    case chain_root
    then show ?case using root by (simp add: depth_def domI)
  next
    case (chain_step m names name c)
    then show ?case using closed [of m name c] by auto
  qed
  then show ?thesis unfolding shortest_paths_def public_modules_def depth_def using chains by fastforce
qed

lemma walk_modules_total:
  assumes "finite (public_modules ctx krate)" "walk_invar ctx krate paths queue"
  shows "\<exists>paths'. walk_modules ctx krate paths queue = Some paths' \<and> walk_invar ctx krate paths' []"
  using assms(2)
proof (induction "card (public_modules ctx krate - dom paths) + length queue" arbitrary: paths queue rule: less_induct)
  case less
  show ?case
  proof (cases queue)
    case Nil
    with less.prems show ?thesis by (subst walk_modules.simps) simp
  next
    case (Cons m rest)
    with less.prems obtain prefix where m: "paths m = Some prefix" by (auto simp: walk_invar_def)
    obtain new where v: "snd (visit_scope ctx krate m prefix (paths, rest)) = rest @ new"
      "scope_grows ctx krate m prefix (set (hir_scope (ctx_sema ctx) m (ctx_module ctx))) paths
         (fst (visit_scope ctx krate m prefix (paths, rest))) new" by (rule visit_scope_grows)
    let ?paths = "fst (visit_scope ctx krate m prefix (paths, rest))"
    note invar = walk_invar_step [OF less.prems [unfolded Cons] m v(2)] and g = scope_growsD [OF v(2)]
    have "x \<in> public_modules ctx krate" if "x \<in> dom ?paths" for x
      using that invar unfolding walk_invar_def public_modules_def dom_def by blast
    then have "set new \<subseteq> public_modules ctx krate - dom paths" using g(1,2) by blast
    moreover have left: "public_modules ctx krate - dom ?paths = public_modules ctx krate - dom paths - set new" using g(2) by blast
    ultimately have "card (public_modules ctx krate - dom ?paths) + length new = card (public_modules ctx krate - dom paths)"
      using card_Diff_subset [of "set new" "public_modules ctx krate - dom paths"] card_mono [of "public_modules ctx krate - dom paths" "set new"]
        distinct_card [OF g(3)] assms(1) by (simp add: left)
    then have "card (public_modules ctx krate - dom ?paths) + length (rest @ new) < card (public_modules ctx krate - dom paths) + length queue"
      by (simp add: Cons)
    from less.hyps [OF this invar] show ?thesis by (subst walk_modules.simps) (simp add: Cons m v(1))
  qed
qed

lemma public_module_paths_found:
  assumes "finite (public_modules ctx krate)"
  obtains paths where "public_module_paths ctx krate = Some paths" "shortest_paths ctx krate paths"
  using walk_modules_total [OF assms walk_invar_init] walk_invar_final
  unfolding public_module_paths_def Let_def by metis

text \<open>
  C21: The walk of a dependency ends and finds the shortest public path to each module. When the modules
  a crate offers from its root are finitely many, the loop ends, gives a path for exactly these
  modules, and each path it gives is a chain of offered steps from the root that no other such chain to
  the same module is shorter than.
\<close>

theorem public_module_paths_shortest:
  assumes "finite (public_modules ctx krate)"
  shows "\<exists>paths. public_module_paths ctx krate = Some paths \<and> dom paths = public_modules ctx krate \<and>
     (\<forall>m p. paths m = Some p \<longrightarrow> public_chain ctx krate m p \<and> (\<forall>names. public_chain ctx krate m names \<longrightarrow> length p \<le> length names))"
  using public_module_paths_found [OF assms] unfolding shortest_paths_def by metis

section \<open>What a dependency exposes\<close>

text \<open>Every path through a dependency to an item: a public chain to a module that exposes it, and its name there.\<close>

definition exposed_segments ::
  "('c, 'm, 'i, 'k, 'n, 't, 'f) decorate_ctx \<Rightarrow> 'c \<Rightarrow> 'k \<Rightarrow> 'c crate_dependency \<Rightarrow> string list set" where
  "exposed_segments ctx defining key dep =
     {names @ [hir_display (ctx_sema ctx) (ctx_edition ctx) (info_name info)] | names info infos.
        dep_krate dep \<noteq> defining \<and> dep_krate dep \<in> set (hir_transitive_reverse_dependencies (ctx_sema ctx) defining) \<and>
        hir_import_info (ctx_sema ctx) (dep_krate dep) key = Some infos \<and> info \<in> set infos \<and> \<not> info_is_doc_hidden info \<and>
        public_chain ctx (dep_krate dep) (info_container info) names}"

definition shortest_exposed ::
  "('c, 'm, 'i, 'k, 'n, 't, 'f) decorate_ctx \<Rightarrow> 'c \<Rightarrow> 'k \<Rightarrow> string list \<Rightarrow> 'c crate_dependency \<Rightarrow> public_path option \<Rightarrow> bool" where
  "shortest_exposed ctx defining key suffix dep found \<longleftrightarrow>
     (case found of
        None \<Rightarrow> exposed_segments ctx defining key dep = {}
      | Some p \<Rightarrow> pp_krate p = hir_display (ctx_sema ctx) (ctx_edition ctx) (dep_name dep) \<and>
          (\<exists>segments \<in> exposed_segments ctx defining key dep. pp_segments p = segments @ suffix \<and>
             (\<forall>other \<in> exposed_segments ctx defining key dep. length segments \<le> length other)))"

text \<open>A cache that holds what the walk would give.\<close>

definition cache_right :: "('c, 'm, 'i, 'k, 'n, 't, 'f) decorate_ctx \<Rightarrow> ('c, 'm) paths_by_crate \<Rightarrow> bool" where
  "cache_right ctx by_crate \<longleftrightarrow> (\<forall>krate paths. by_crate krate = Some paths \<longrightarrow> public_module_paths ctx krate = Some paths)"

lemma ModulePaths_of_right:
  assumes "finite (public_modules ctx krate)" "cache_right ctx by_crate"
  shows "\<exists>paths by_crate'. ModulePaths_of ctx krate by_crate = Some (paths, by_crate') \<and> shortest_paths ctx krate paths \<and>
     cache_right ctx by_crate'"
proof -
  from assms(1) obtain paths where paths: "public_module_paths ctx krate = Some paths" "shortest_paths ctx krate paths"
    by (rule public_module_paths_found)
  show ?thesis
  proof (cases "by_crate krate")
    case None
    then show ?thesis using paths assms(2) by (simp add: ModulePaths_of_def cache_right_def)
  next
    case (Some found)
    with assms(2) paths(1) have "found = paths" unfolding cache_right_def by fastforce
    then show ?thesis using Some paths assms(2) by (simp add: ModulePaths_of_def)
  qed
qed

text \<open>A computation whose answer a right cache does not change, and that leaves the cache right.\<close>

definition cache_steady ::
  "('c, 'm, 'i, 'k, 'n, 't, 'f) decorate_ctx \<Rightarrow>
   (('c, 'm) paths_by_crate \<Rightarrow> ('a \<times> ('c, 'm) paths_by_crate) option) \<Rightarrow> bool" where
  "cache_steady ctx F \<longleftrightarrow>
     (\<forall>c. cache_right ctx c \<longrightarrow> map_option fst (F c) = map_option fst (F Map.empty) \<and>
        (\<forall>x c'. F c = Some (x, c') \<longrightarrow> cache_right ctx c'))"

lemma cache_right_empty: "cache_right ctx Map.empty"
  by (simp add: cache_right_def)

lemma cache_steady_answer:
  assumes "cache_steady ctx F" "cache_right ctx c" "F c = Some (x, c')"
  shows "map_option fst (F Map.empty) = Some x \<and> cache_right ctx c'"
proof -
  from assms(1,2) have "map_option fst (F c) = map_option fst (F Map.empty)"
    and "\<forall>x c'. F c = Some (x, c') \<longrightarrow> cache_right ctx c'" unfolding cache_steady_def by blast+
  with assms(3) show ?thesis by simp
qed

lemma cache_steady_const: "cache_steady ctx (\<lambda>c. Some (a, c))"
  by (simp add: cache_steady_def)

lemma cache_steady_bind:
  assumes F: "cache_steady ctx F" and G: "\<And>a. cache_steady ctx (G a)"
  shows "cache_steady ctx (\<lambda>c. Option.bind (F c) (\<lambda>(a, c). G a c))"
  unfolding cache_steady_def
proof (intro allI impI)
  fix c assume right: "cache_right ctx c"
  have same: "map_option fst (F c) = map_option fst (F Map.empty)"
    and kept: "\<And>x c'. F c = Some (x, c') \<Longrightarrow> cache_right ctx c'" "\<And>x c'. F Map.empty = Some (x, c') \<Longrightarrow> cache_right ctx c'"
    using F right cache_right_empty unfolding cache_steady_def by blast+
  show "map_option fst (Option.bind (F c) (\<lambda>(a, c). G a c)) = map_option fst (Option.bind (F Map.empty) (\<lambda>(a, c). G a c)) \<and>
      (\<forall>x c'. Option.bind (F c) (\<lambda>(a, c). G a c) = Some (x, c') \<longrightarrow> cache_right ctx c')"
  proof (cases "F c")
    case None
    with same show ?thesis by simp
  next
    case (Some r)
    then obtain a c1 where c1: "F c = Some (a, c1)" by (cases r) auto
    with same obtain c2 where c2: "F Map.empty = Some (a, c2)" by (cases "F Map.empty") auto
    from G [of a] kept(1) [OF c1] kept(2) [OF c2]
    have "map_option fst (G a c1) = map_option fst (G a Map.empty)" "map_option fst (G a c2) = map_option fst (G a Map.empty)"
      "\<forall>x c'. G a c1 = Some (x, c') \<longrightarrow> cache_right ctx c'" unfolding cache_steady_def by blast+
    with c1 c2 show ?thesis by simp
  qed
qed

lemma cache_steady_map:
  assumes "cache_steady ctx F"
  shows "cache_steady ctx (\<lambda>c. map_option (\<lambda>(a, c). (g a, c)) (F c))"
proof -
  have "(\<lambda>c. map_option (\<lambda>(a, c). (g a, c)) (F c)) = (\<lambda>c. Option.bind (F c) (\<lambda>(a, c). Some (g a, c)))"
    by (auto simp: map_option_case bind_eq_Some_conv fun_eq_iff split: option.splits)
  then show ?thesis using cache_steady_bind [OF assms cache_steady_const, of g] by simp
qed

lemma ModulePaths_of_steady: "cache_steady ctx (ModulePaths_of ctx krate)"
  unfolding cache_steady_def
proof (intro allI impI conjI)
  fix c assume right: "cache_right ctx c"
  then show "map_option fst (ModulePaths_of ctx krate c) = map_option fst (ModulePaths_of ctx krate Map.empty)"
    by (cases "c krate") (simp_all add: ModulePaths_of_def cache_right_def option.map_comp o_def)
  fix x c' assume "ModulePaths_of ctx krate c = Some (x, c')"
  with right show "cache_right ctx c'"
    by (auto simp: ModulePaths_of_def cache_right_def split: option.splits if_splits)
qed

lemma path_through_steady: "cache_steady ctx (path_through ctx defining key suffix dep)"
proof (cases "dep_krate dep = defining \<or> dep_krate dep \<notin> set (hir_transitive_reverse_dependencies (ctx_sema ctx) defining)
    \<or> hir_import_info (ctx_sema ctx) (dep_krate dep) key = None")
  case True
  then have "path_through ctx defining key suffix dep = (\<lambda>c. Some (None, c))"
    by (auto simp: path_through_def fun_eq_iff)
  then show ?thesis by (simp add: cache_steady_const)
next
  case False
  then obtain infos where "hir_import_info (ctx_sema ctx) (dep_krate dep) key = Some infos" by auto
  with False show ?thesis
    unfolding path_through_def Let_def
    by (simp add: cache_steady_bind [OF ModulePaths_of_steady cache_steady_const])
qed

lemma paths_through_steady: "cache_steady ctx (paths_through ctx defining key suffix deps)"
proof (induction deps)
  case (Cons dep deps)
  have "cache_steady ctx (\<lambda>c. Option.bind (path_through ctx defining key suffix dep c) (\<lambda>(found, c).
      Option.bind (paths_through ctx defining key suffix deps c) (\<lambda>(paths, c).
        Some ((case found of None \<Rightarrow> [] | Some p \<Rightarrow> [p]) @ paths, c))))"
    by (intro cache_steady_bind path_through_steady Cons.IH cache_steady_const)
  then show ?case by simp
qed (simp add: cache_steady_const)

lemma segments_le_total: "segments_le a b \<or> segments_le b a" and segments_le_trans: "segments_le a b \<Longrightarrow> segments_le b c \<Longrightarrow> segments_le a c"
  by (auto simp: segments_le_def)

definition better :: "string list \<Rightarrow> string list \<Rightarrow> string list" where
  "better y best = (if segments_le best y then best else y)"

lemma better_le: "segments_le (better y best) best" "segments_le (better y best) y" "better y best = best \<or> better y best = y"
  using segments_le_total [of best y] by (auto simp: better_def segments_le_def)

lemma fold_better: "fold better xs x \<in> set (x # xs) \<and> (\<forall>z \<in> set (x # xs). segments_le (fold better xs x) z)"
proof (induction xs arbitrary: x)
  case Nil
  then show ?case by (simp add: segments_le_def)
next
  case (Cons y ys)
  from Cons.IH [of "better y x"] have best: "fold better ys (better y x) \<in> set (better y x # ys)"
    and le: "segments_le (fold better ys (better y x)) (better y x)" "\<forall>z \<in> set ys. segments_le (fold better ys (better y x)) z" by simp_all
  have "segments_le (fold better ys (better y x)) x" "segments_le (fold better ys (better y x)) y"
    by (rule segments_le_trans [OF le(1)], rule better_le)+
  with best le(2) better_le(3) [of y x] show ?case by auto
qed

lemma min_by_least:
  "min_by segments_le xs = None \<longleftrightarrow> xs = []"
  "min_by segments_le xs = Some s \<Longrightarrow> s \<in> set xs \<and> (\<forall>z \<in> set xs. length s \<le> length z)"
proof -
  show "min_by segments_le xs = None \<longleftrightarrow> xs = []" by (cases xs) simp_all
  assume found: "min_by segments_le xs = Some s"
  then obtain y ys where xs: "xs = y # ys" by (cases xs) simp_all
  with found have "s = fold better ys y" by (simp add: better_def [abs_def])
  with fold_better [of ys y] show "s \<in> set xs \<and> (\<forall>z \<in> set xs. length s \<le> length z)"
    unfolding xs by (auto simp: segments_le_def)
qed

lemma exposed_of_infos:
  assumes "shortest_paths ctx (dep_krate dep) modules" "hir_import_info (ctx_sema ctx) (dep_krate dep) key = Some infos"
    "dep_krate dep \<noteq> defining" "dep_krate dep \<in> set (hir_transitive_reverse_dependencies (ctx_sema ctx) defining)"
  defines "found \<equiv> set (List.map_filter (info_segments ctx modules) (filter (\<lambda>i. \<not> info_is_doc_hidden i) infos))"
  shows "found \<subseteq> exposed_segments ctx defining key dep"
    and "\<And>other. other \<in> exposed_segments ctx defining key dep \<Longrightarrow> \<exists>s \<in> found. length s \<le> length other"
proof -
  have found: "s \<in> found \<longleftrightarrow> (\<exists>info \<in> set infos. \<not> info_is_doc_hidden info \<and> info_segments ctx modules info = Some s)" for s
    by (auto simp: found_def)
  show "found \<subseteq> exposed_segments ctx defining key dep"
  proof
    fix s
    assume "s \<in> found"
    then obtain info names where "info \<in> set infos" "\<not> info_is_doc_hidden info" "modules (info_container info) = Some names"
      "s = names @ [hir_display (ctx_sema ctx) (ctx_edition ctx) (info_name info)]"
      unfolding found by (auto simp: info_segments_def)
    with assms(1) have "public_chain ctx (dep_krate dep) (info_container info) names" by (simp add: shortest_paths_def)
    then show "s \<in> exposed_segments ctx defining key dep"
      unfolding exposed_segments_def using assms(2-4) \<open>info \<in> set infos\<close> \<open>\<not> info_is_doc_hidden info\<close> \<open>s = _\<close> by blast
  qed
next
  fix other
  assume "other \<in> exposed_segments ctx defining key dep"
  then obtain names info where info: "info \<in> set infos" "\<not> info_is_doc_hidden info"
    and chain: "public_chain ctx (dep_krate dep) (info_container info) names"
    and other: "other = names @ [hir_display (ctx_sema ctx) (ctx_edition ctx) (info_name info)]"
    using assms(2) unfolding exposed_segments_def by auto
  from chain assms(1) obtain p where p: "modules (info_container info) = Some p" "length p \<le> length names"
    unfolding shortest_paths_def public_modules_def by blast
  then have "info_segments ctx modules info = Some (p @ [hir_display (ctx_sema ctx) (ctx_edition ctx) (info_name info)])"
    by (simp add: info_segments_def)
  with info have "p @ [hir_display (ctx_sema ctx) (ctx_edition ctx) (info_name info)] \<in> found"
    by (auto simp: found_def)
  with p(2) other show "\<exists>s \<in> found. length s \<le> length other" by force
qed

lemma path_through_right:
  assumes "finite (public_modules ctx (dep_krate dep))" "cache_right ctx by_crate"
  shows "\<exists>found by_crate'. path_through ctx defining key suffix dep by_crate = Some (found, by_crate') \<and>
     shortest_exposed ctx defining key suffix dep found \<and> cache_right ctx by_crate'"
proof (cases "dep_krate dep = defining \<or> dep_krate dep \<notin> set (hir_transitive_reverse_dependencies (ctx_sema ctx) defining)
    \<or> hir_import_info (ctx_sema ctx) (dep_krate dep) key = None")
  case True
  then show ?thesis using assms(2)
    by (auto simp: path_through_def shortest_exposed_def exposed_segments_def)
next
  case False
  then obtain infos where infos: "hir_import_info (ctx_sema ctx) (dep_krate dep) key = Some infos"
    and dep: "dep_krate dep \<noteq> defining" "dep_krate dep \<in> set (hir_transitive_reverse_dependencies (ctx_sema ctx) defining)" by auto
  from ModulePaths_of_right [OF assms] obtain modules by_crate' where
    modules: "ModulePaths_of ctx (dep_krate dep) by_crate = Some (modules, by_crate')" "shortest_paths ctx (dep_krate dep) modules"
      "cache_right ctx by_crate'" by blast
  note exposed = exposed_of_infos [OF modules(2) infos dep]
  let ?found = "List.map_filter (info_segments ctx modules) (filter (\<lambda>i. \<not> info_is_doc_hidden i) infos)"
  have "shortest_exposed ctx defining key suffix dep (map_option (\<lambda>segments.
      \<lparr>pp_krate = hir_display (ctx_sema ctx) (ctx_edition ctx) (dep_name dep), pp_segments = segments @ suffix\<rparr>) (min_by segments_le ?found))"
  proof (cases "min_by segments_le ?found")
    case None
    then have "?found = []" by (simp only: min_by_least)
    with exposed(2) show ?thesis by (auto simp: shortest_exposed_def None)
  next
    case (Some s)
    note least = min_by_least(2) [OF Some]
    then have "s \<in> exposed_segments ctx defining key dep" using exposed(1) by blast
    moreover have "length s \<le> length other" if "other \<in> exposed_segments ctx defining key dep" for other
      using exposed(2) [OF that] least by (meson le_trans)
    ultimately show ?thesis by (auto simp: shortest_exposed_def Some)
  qed
  with modules infos dep show ?thesis by (simp add: path_through_def Let_def)
qed

lemma paths_through_right:
  assumes "\<forall>dep \<in> set deps. finite (public_modules ctx (dep_krate dep))" "cache_right ctx by_crate"
  shows "\<exists>founds by_crate'. length founds = length deps \<and>
     paths_through ctx defining key suffix deps by_crate = Some (List.map_filter id founds, by_crate') \<and>
     list_all2 (shortest_exposed ctx defining key suffix) deps founds \<and> cache_right ctx by_crate'"
  using assms
proof (induction deps arbitrary: by_crate)
  case Nil
  then show ?case by (simp add: List.map_filter_def)
next
  case (Cons dep deps)
  from path_through_right [of ctx dep by_crate defining key suffix] Cons.prems obtain found c where
    one: "path_through ctx defining key suffix dep by_crate = Some (found, c)" "shortest_exposed ctx defining key suffix dep found"
      "cache_right ctx c" by auto
  from Cons.IH [OF _ one(3)] Cons.prems(1) obtain founds c' where
    rest: "length founds = length deps" "paths_through ctx defining key suffix deps c = Some (List.map_filter id founds, c')"
      "list_all2 (shortest_exposed ctx defining key suffix) deps founds" "cache_right ctx c'" by (metis list.set_intros(2))
  with one show ?case
    by (intro exI [of _ "found # founds"] exI [of _ c']) (simp add: List.map_filter_def split: option.splits)
qed

text \<open>The item whose paths are looked for: none for an associated item, for one of this crate, and for one no import map lists.\<close>

definition foreign_item :: "('c, 'm, 'i, 'k, 'n, 't, 'f) decorate_ctx \<Rightarrow> ('m, 'i) module_def \<Rightarrow> ('c \<times> 'k \<times> string list) option" where
  "foreign_item ctx def =
     (let (item, suffix) = item_and_suffix ctx def in
      case (defining_crate ctx item, hir_import_key (ctx_sema ctx) item) of
        (Some defining, Some key) \<Rightarrow>
          if hir_is_assoc_item (ctx_sema ctx) def \<or> defining = hir_krate (ctx_sema ctx) (ctx_module ctx) then None
          else Some (defining, key, suffix)
      | _ \<Rightarrow> None)"

lemma public_paths_foreign:
  "public_paths ctx by_crate def =
     (case foreign_item ctx def of
        None \<Rightarrow> Some ([], by_crate)
      | Some (defining, key, suffix) \<Rightarrow>
          paths_through ctx defining key suffix (hir_dependencies (ctx_sema ctx) (hir_krate (ctx_sema ctx) (ctx_module ctx))) by_crate)"
  by (simp add: public_paths_def foreign_item_def Let_def split: prod.splits option.splits)

lemma public_paths_steady: "cache_steady ctx (\<lambda>c. public_paths ctx c def)"
proof (cases "foreign_item ctx def")
  case (Some item)
  then show ?thesis by (cases item) (simp add: public_paths_foreign paths_through_steady)
qed (simp add: public_paths_foreign cache_steady_const)

lemma public_paths_found:
  assumes "\<forall>dep \<in> set (hir_dependencies (ctx_sema ctx) (hir_krate (ctx_sema ctx) (ctx_module ctx))).
      finite (public_modules ctx (dep_krate dep))"
    and "cache_right ctx by_crate"
  shows "\<exists>founds by_crate'. public_paths ctx by_crate def = Some (List.map_filter id founds, by_crate') \<and> cache_right ctx by_crate' \<and>
     (case foreign_item ctx def of
        None \<Rightarrow> founds = []
      | Some (defining, key, suffix) \<Rightarrow>
          list_all2 (shortest_exposed ctx defining key suffix)
            (hir_dependencies (ctx_sema ctx) (hir_krate (ctx_sema ctx) (ctx_module ctx))) founds)"
proof (cases "foreign_item ctx def")
  case None
  then show ?thesis using assms(2) by (intro exI [of _ "[]"]) (simp add: public_paths_foreign List.map_filter_def)
next
  case (Some item)
  then obtain defining key suffix where item: "foreign_item ctx def = Some (defining, key, suffix)" by (cases item) auto
  from paths_through_right [OF assms, of defining key suffix] show ?thesis
    by (auto simp: public_paths_foreign item)
qed

lemma public_paths_total:
  assumes "\<forall>dep \<in> set (hir_dependencies (ctx_sema ctx) (hir_krate (ctx_sema ctx) (ctx_module ctx))).
      finite (public_modules ctx (dep_krate dep))" "cache_right ctx by_crate"
  shows "\<exists>ps by_crate'. public_paths ctx by_crate def = Some (ps, by_crate') \<and> cache_right ctx by_crate'"
  using public_paths_found [OF assms] by blast

text \<open>
  C22: The public paths of an imported item are found, one at most per direct dependency and in their
  order, and each is a shortest one. For an item of another crate that an import map can list, each
  dependency either exposes no path to it and is passed over, or gives a path that starts at the name
  the dependency has here, follows public modules to one that exposes the item, is no longer than any
  other such path through that dependency, and ends in the variant's name for a variant. Other items
  give no path. The walks kept from earlier items of the file do not change this: a right cache stays
  right.
\<close>

theorem public_paths_shortest:
  assumes "\<forall>dep \<in> set (hir_dependencies (ctx_sema ctx) (hir_krate (ctx_sema ctx) (ctx_module ctx))).
      finite (public_modules ctx (dep_krate dep))"
    and "cache_right ctx by_crate"
  shows "\<exists>founds by_crate'. public_paths ctx by_crate def = Some (List.map_filter id founds, by_crate') \<and> cache_right ctx by_crate' \<and>
     (case foreign_item ctx def of
        None \<Rightarrow> founds = []
      | Some (defining, key, suffix) \<Rightarrow>
          list_all2 (shortest_exposed ctx defining key suffix)
            (hir_dependencies (ctx_sema ctx) (hir_krate (ctx_sema ctx) (ctx_module ctx))) founds)"
  by (rule public_paths_found [OF assms])

section \<open>A facade\<close>

text \<open>
  Crate 0 depends on crate 1, a facade, and on crate 2, which defines the enum 5 with the variant 6.
  The facade exposes the enum in its module \<open>shapes\<close>, whose own scope leads back to the root.
\<close>

lemma public_modules_finite:
  assumes "finite S" "\<And>m name c. public_step ctx krate m name c \<Longrightarrow> c \<in> S"
  shows "finite (public_modules ctx krate)"
proof (rule finite_subset)
  have "m \<in> insert (hir_root_module (ctx_sema ctx) krate) S" if "public_chain ctx krate m names" for m names
    using that by cases (auto dest: assms(2))
  then show "public_modules ctx krate \<subseteq> insert (hir_root_module (ctx_sema ctx) krate) S" by (auto simp: public_modules_def)
qed (simp add: assms(1))

type_synonym facade_ctx = "(nat, nat, nat, nat, nat, nat, nat) decorate_ctx"

definition facade_scope :: "nat \<Rightarrow> (string \<times> (nat, nat) scope_def) list" where
  "facade_scope m = (if m = 10 then [(''shapes'', ScopeModuleDef (DefModule 11))]
     else if m = 11 then [(''up'', ScopeModuleDef (DefModule 10))] else [])"

definition facade_info :: "nat \<Rightarrow> nat \<Rightarrow> nat import_info list option" where
  "facade_info krate key =
     (if krate = 1 \<and> key = 11 then Some [\<lparr>info_container = 10, info_name = ''shapes'', info_is_doc_hidden = False\<rparr>]
      else if krate = 1 \<and> key = 5 then Some [\<lparr>info_container = 11, info_name = ''Shape'', info_is_doc_hidden = False\<rparr>]
      else None)"

fun facade_key :: "(nat, nat) module_def \<Rightarrow> nat option" where
  "facade_key (DefModule m) = Some m"
| "facade_key (DefAdt (AdtEnum i)) = Some i"
| "facade_key def = None"

definition facade_hir :: "(nat, nat, nat, nat, nat, nat, nat) hir" where
  "facade_hir =
     \<lparr>hir_root_module = (\<lambda>c. 10 * c), hir_scope = (\<lambda>m v. facade_scope m), hir_import_key = facade_key,
      hir_import_info = facade_info, hir_display = (\<lambda>e n. n), hir_krate = (\<lambda>m. m div 10), hir_def_module = (\<lambda>d. Some 20),
      hir_is_assoc_item = (\<lambda>d. False), hir_parent_enum = (\<lambda>v. 5), hir_item_name = (\<lambda>i. ''Round''), hir_item_module = (\<lambda>i. 20),
      hir_path_segments = (\<lambda>m. []),
      hir_dependencies = (\<lambda>c. [\<lparr>dep_krate = 1, dep_name = ''facade''\<rparr>, \<lparr>dep_krate = 2, dep_name = ''shapes_core''\<rparr>]),
      hir_transitive_reverse_dependencies = (\<lambda>c. [1, 0]), hir_edition = (\<lambda>c. Edition2021), hir_display_name = (\<lambda>c. None),
      hir_core_result = (\<lambda>c. None), hir_core_option = (\<lambda>c. None), hir_is_non_exhaustive = (\<lambda>i. False), hir_is_async = (\<lambda>i. False),
      hir_async_ret_type = (\<lambda>i. None), hir_ret_type = (\<lambda>i. 0), ty_as_adt = (\<lambda>t. None), ty_as_adt_with_args = (\<lambda>t. None),
      ty_is_never = (\<lambda>t. False), ty_is_type_param = (\<lambda>t. False), ty_display = (\<lambda>t c. ''_''), ty_debug = (\<lambda>t. ''_''),
      sema_fn_to_def = (\<lambda>n. None), sema_type_of_expr = (\<lambda>n. None), sema_resolve_path = (\<lambda>n. Some (ResDef (DefEnumVariant 6))),
      sema_file_to_module_def = (\<lambda>f. Some 0), sema_parse_guess_edition = (\<lambda>f. 0),
      node_range = (\<lambda>n. \<lparr>range_start = 0, range_end = 9\<rparr>), node_covering_element = (\<lambda>n r. ElementNode n), node_ancestors = (\<lambda>n. [n]),
      node_is_fn = (\<lambda>n. False), node_is_expr = (\<lambda>n. False), node_is_use = (\<lambda>n. True), node_is_path = (\<lambda>n. True),
      node_is_use_tree = (\<lambda>n. True), use_use_tree = Some, tree_path = Some, tree_has_list = (\<lambda>n. False), tree_has_star = (\<lambda>n. False),
      path_qualifier = Some\<rparr>"

definition facade_ctx :: facade_ctx where
  "facade_ctx = \<lparr>ctx_sema = facade_hir, ctx_syntax = 0, ctx_module = 0, ctx_edition = Edition2021,
     ctx_core_result = None, ctx_core_option = None\<rparr>"

lemma facade_finite: "finite (public_modules facade_ctx krate)"
  by (rule public_modules_finite [of "{10, 11}"])
    (auto simp: entry_step_def facade_ctx_def facade_hir_def facade_scope_def split: if_splits)

lemma facade_shapes: "public_chain facade_ctx 1 11 [''shapes'']"
  using chain_step [OF chain_root [of facade_ctx 1], of "''shapes''" 11]
  by (simp add: entry_step_def step_offered_def facade_ctx_def facade_hir_def facade_scope_def facade_info_def)

theorem public_module_paths_shortest_witness:
  "\<exists>paths p. public_module_paths facade_ctx 1 = Some paths \<and> paths 11 = Some p \<and> length p \<le> 1"
proof -
  from public_module_paths_shortest [OF facade_finite, of 1] obtain paths where paths: "public_module_paths facade_ctx 1 = Some paths"
    "dom paths = public_modules facade_ctx 1" "\<And>m p names. paths m = Some p \<Longrightarrow> public_chain facade_ctx 1 m names \<Longrightarrow> length p \<le> length names"
    by blast
  from facade_shapes paths(2) obtain p where "paths 11 = Some p" by (auto simp: public_modules_def)
  with paths(1) paths(3) [OF _ facade_shapes] show ?thesis by force
qed

theorem public_paths_shortest_witness:
  "\<exists>founds by_crate. public_paths facade_ctx Map.empty (DefEnumVariant 6) = Some (List.map_filter id founds, by_crate) \<and>
     (\<exists>p. founds = [Some p, None] \<and> pp_krate p = ''facade'')"
proof -
  have item: "foreign_item facade_ctx (DefEnumVariant 6) = Some (2, 5, [''Round''])"
    by (simp add: foreign_item_def facade_ctx_def facade_hir_def)
  have cache: "cache_right facade_ctx Map.empty" by (simp add: cache_right_def)
  from public_paths_shortest [of facade_ctx Map.empty "DefEnumVariant 6"] facade_finite cache obtain founds by_crate where
    found: "public_paths facade_ctx Map.empty (DefEnumVariant 6) = Some (List.map_filter id founds, by_crate)"
    and all: "list_all2 (shortest_exposed facade_ctx 2 5 [''Round''])
       [\<lparr>dep_krate = 1, dep_name = ''facade''\<rparr>, \<lparr>dep_krate = 2, dep_name = ''shapes_core''\<rparr>] founds"
    unfolding item by (auto simp: facade_ctx_def facade_hir_def)
  have "[''shapes'', ''Shape''] \<in> exposed_segments facade_ctx 2 5 \<lparr>dep_krate = 1, dep_name = ''facade''\<rparr>"
    using facade_shapes unfolding exposed_segments_def
    by (intro CollectI exI [of _ "[''shapes'']"] exI [of _ "\<lparr>info_container = 11, info_name = ''Shape'', info_is_doc_hidden = False\<rparr>"])
      (simp add: facade_ctx_def facade_hir_def facade_info_def)
  moreover have "exposed_segments facade_ctx 2 5 \<lparr>dep_krate = 2, dep_name = ''shapes_core''\<rparr> = {}" by (simp add: exposed_segments_def)
  ultimately have "\<exists>p. founds = [Some p, None] \<and> pp_krate p = ''facade''"
    using all by (auto simp: list_all2_Cons1 shortest_exposed_def facade_ctx_def facade_hir_def split: option.splits)
  with found show ?thesis by blast
qed

end
