(* ===== verification/RustProvider.thy ===== *)
theory RustProvider
  imports Targets RustReexports
begin

text \<open>
  The Rust provider: \<open>crates/stiles-rust/src/provider.rs\<close> with the decorations it attaches. What
  rust-analyzer answers is the record \<open>hir\<close>, and the database it answers from is the map from files to
  their recorded text, so the analyzer is a function of that map. A step that can panic or not return
  has an option as its result: the walk of a dependency, and reading a file that has no recorded text.
\<close>

section \<open>Decorations\<close>

datatype adt_kind = AdtKindEnum | AdtKindOther
datatype never_kind = NeverKindNever | NeverKindOther
datatype result_kind = ResultKindResult | ResultKindOther
datatype option_kind = OptionKindOption | OptionKindOther
datatype exhaustiveness = Exhaustive | NonExhaustive
datatype return_mode = ReturnDirect | ReturnAwaited | ReturnOpaque
datatype rust_import_source = ImportModule | ImportEnum | ImportOther | ImportUnresolved

record type_path =
  tp_krate :: string
  tp_modules :: "string list"
  tp_name :: string

datatype error_type = ErrorNamed type_path | ErrorGeneric | ErrorUnnamed

record rust_resolved_type =
  rrt_display :: string
  rrt_adt_kind :: adt_kind
  rrt_never_kind :: never_kind
  rrt_result_kind :: result_kind
  rrt_option_kind :: option_kind

definition ResolvedType_new :: "string \<Rightarrow> rust_resolved_type" where
  "ResolvedType_new shown =
     \<lparr>rrt_display = shown, rrt_adt_kind = AdtKindOther, rrt_never_kind = NeverKindOther,
      rrt_result_kind = ResultKindOther, rrt_option_kind = OptionKindOther\<rparr>"

record rust_fn_signature =
  rfs_return_type :: "rust_resolved_type option"
  rfs_error_type :: "error_type option"
  rfs_return_mode :: return_mode

record adt_flags =
  flags_exhaustiveness :: exhaustiveness

record reexports =
  reexports_paths :: "public_path list"

definition through :: "reexports \<Rightarrow> string \<Rightarrow> public_path option" where
  "through r krate = find (\<lambda>p. pp_krate p = krate) (reexports_paths r)"

record 'e rust_types =
  R_fn_signature :: "(rust_fn_signature, 'e) decoration"
  R_resolved_type :: "(rust_resolved_type, 'e) decoration"
  R_adt_flags :: "(adt_flags, 'e) decoration"
  R_import_source :: "(rust_import_source, 'e) decoration"
  R_reexports :: "(reexports, 'e) decoration"

section \<open>Targets\<close>

datatype rust_target =
    TargetFunction nat text_range
  | TargetMatchScrutinee text_range nat
  | TargetIfElse text_range nat
  | TargetTryExpr text_range nat
  | TargetImport nat text_range
  | TargetImportPath nat text_range

definition text_range_from :: "nat \<Rightarrow> nat \<Rightarrow> text_range option" where
  "text_range_from s e =
     Option.bind (u32_try_from s) (\<lambda>s. Option.bind (u32_try_from e) (\<lambda>e. Some \<lparr>range_start = s, range_end = e\<rparr>))"

definition text_range_of :: "'e decorated_node \<Rightarrow> text_range option" where
  "text_range_of node = text_range_from (ts_start (dn_node node)) (ts_end (dn_node node))"

lemma dn_child_by_field_name_size:
  "dn_child_by_field_name n name = Some c \<Longrightarrow> size (dn_node c) < size (dn_node n)"
  using size_ts_children [of "dn_node n"] 
  by (auto simp: dn_child_by_field_name_def find_Some_iff dn_sibling_def dest!: nth_mem
      intro: le_less_trans [OF size_list_estimation'])

text \<open>\<open>collect_import_paths\<close> and its loop over the children of a list.\<close>

function collect_import_paths :: "'e decorated_node \<Rightarrow> rust_target list \<Rightarrow> rust_target list"
  and collect_import_list :: "'e decorated_node list \<Rightarrow> rust_target list \<Rightarrow> rust_target list" where
  "collect_import_paths node ts =
     (if dn_kind node = ''identifier'' \<or> dn_kind node = ''scoped_identifier''
      then (case text_range_of node of
          Some rng \<Rightarrow> ts @ [TargetImportPath (dn_id node) rng]
        | None \<Rightarrow> ts)
      else if dn_kind node = ''use_as_clause''
      then (case dn_child_by_field_name node ''path'' of
          Some path \<Rightarrow> collect_import_paths path ts
        | None \<Rightarrow> ts)
      else if dn_kind node = ''scoped_use_list''
      then (case dn_child_by_field_name node ''list'' of
          Some list \<Rightarrow> collect_import_paths list ts
        | None \<Rightarrow> ts)
      else if dn_kind node = ''use_list'' then collect_import_list (dn_named_children node) ts
      else ts)"
| "collect_import_list [] ts = ts"
| "collect_import_list (n # ns) ts = collect_import_list ns (collect_import_paths n ts)"
  by pat_completeness auto
termination
  by (relation "measure (\<lambda>x. case x of Inl (n, _) \<Rightarrow> 2 * size (dn_node n)
        | Inr (ns, _) \<Rightarrow> Suc (2 * size_list (\<lambda>c. size (dn_node c)) ns))")
    (auto simp: visit_measure dest: dn_child_by_field_name_size)

text \<open>What one node adds, before its children are visited.\<close>

definition add_rust_targets :: "'e decorated_node \<Rightarrow> rust_target list \<Rightarrow> rust_target list" where
  "add_rust_targets node ts =
     (if dn_kind node = ''function_item'' \<or> dn_kind node = ''function_signature_item''
      then (case text_range_of node of
          Some rng \<Rightarrow> ts @ [TargetFunction (dn_id node) rng]
        | None \<Rightarrow> ts)
      else if dn_kind node = ''match_expression''
      then (case dn_child_by_field_name node ''value'' of
          None \<Rightarrow> ts
        | Some scrutinee \<Rightarrow>
            (case text_range_of scrutinee of
               Some rng \<Rightarrow> ts @ [TargetMatchScrutinee rng (dn_id scrutinee)]
             | None \<Rightarrow> ts))
      else if dn_kind node = ''if_expression''
      then (case dn_child_by_field_name node ''alternative'' of
          None \<Rightarrow> ts
        | Some alt \<Rightarrow>
            (let block = (case dn_named_child alt 0 of Some block \<Rightarrow> block | None \<Rightarrow> alt) in
             case text_range_of block of
               Some rng \<Rightarrow> ts @ [TargetIfElse rng (dn_id alt)]
             | None \<Rightarrow> ts))
      else if dn_kind node = ''try_expression''
      then (case dn_named_child node 0 of
          None \<Rightarrow> ts
        | Some operand \<Rightarrow>
            (case text_range_of operand of
               Some rng \<Rightarrow> ts @ [TargetTryExpr rng (dn_id operand)]
             | None \<Rightarrow> ts))
      else if dn_kind node = ''use_declaration''
      then (let ts = (case text_range_of node of
                Some rng \<Rightarrow> ts @ [TargetImport (dn_id node) rng]
              | None \<Rightarrow> ts)
            in case dn_child_by_field_name node ''argument'' of
                 Some argument \<Rightarrow> collect_import_paths argument ts
               | None \<Rightarrow> ts)
      else ts)"

function collect_rust_targets :: "'e decorated_node \<Rightarrow> rust_target list \<Rightarrow> rust_target list"
  and collect_rust_children :: "'e decorated_node list \<Rightarrow> rust_target list \<Rightarrow> rust_target list" where
  "collect_rust_targets node ts = collect_rust_children (dn_named_children node) (add_rust_targets node ts)"
| "collect_rust_children [] ts = ts"
| "collect_rust_children (n # ns) ts = collect_rust_children ns (collect_rust_targets n ts)"
  by pat_completeness auto
termination
  by (relation "measure (\<lambda>x. case x of Inl (n, _) \<Rightarrow> 2 * size (dn_node n)
        | Inr (ns, _) \<Rightarrow> Suc (2 * size_list (\<lambda>c. size (dn_node c)) ns))")
    (auto simp: visit_measure)

declare collect_rust_targets.simps [simp del] collect_import_paths.simps [simp del]

section \<open>Resolving one target\<close>

definition display_type :: "('c, 'm, 'i, 'k, 'n, 't, 'f) decorate_ctx \<Rightarrow> 't \<Rightarrow> 'i \<Rightarrow> string" where
  "display_type ctx ty func =
     ty_display (ctx_sema ctx) ty (hir_krate (ctx_sema ctx) (hir_item_module (ctx_sema ctx) func))"

text \<open>\<open>TextRange::is_empty\<close> and \<open>TextRange::contains_range\<close>.\<close>

definition range_is_empty :: "text_range \<Rightarrow> bool" where
  "range_is_empty r = (range_start r = range_end r)"

definition contains_range :: "text_range \<Rightarrow> text_range \<Rightarrow> bool" where
  "contains_range outer r = (range_start outer \<le> range_start r \<and> range_end r \<le> range_end outer)"

definition covering_node :: "('c, 'm, 'i, 'k, 'n, 't, 'f) hir \<Rightarrow> 'n \<Rightarrow> text_range \<Rightarrow> 'n option" where
  "covering_node sema syntax rng =
     (if range_is_empty rng \<or> \<not> contains_range (node_range sema syntax) rng then None
      else case node_covering_element sema syntax rng of
        ElementNode node \<Rightarrow> Some node
      | ElementToken parent \<Rightarrow> parent)"

text \<open>The nearest node around a range, the covering one first, that has a kind.\<close>

definition enclosing ::
  "('c, 'm, 'i, 'k, 'n, 't, 'f) decorate_ctx \<Rightarrow> ('n \<Rightarrow> bool) \<Rightarrow> text_range \<Rightarrow> 'n option" where
  "enclosing ctx is_kind rng =
     Option.bind (covering_node (ctx_sema ctx) (ctx_syntax ctx) rng) (\<lambda>node.
       find is_kind (node_ancestors (ctx_sema ctx) node))"

definition find_enclosing_fn :: "('c, 'm, 'i, 'k, 'n, 't, 'f) decorate_ctx \<Rightarrow> text_range \<Rightarrow> 'i option" where
  "find_enclosing_fn ctx rng =
     Option.bind (enclosing ctx (node_is_fn (ctx_sema ctx)) rng) (sema_fn_to_def (ctx_sema ctx))"

definition find_expr_covering :: "('c, 'm, 'i, 'k, 'n, 't, 'f) decorate_ctx \<Rightarrow> text_range \<Rightarrow> 'n option" where
  "find_expr_covering ctx rng = enclosing ctx (node_is_expr (ctx_sema ctx)) rng"

definition effective_return_type :: "('c, 'm, 'i, 'k, 'n, 't, 'f) decorate_ctx \<Rightarrow> 'i \<Rightarrow> 't option \<times> return_mode" where
  "effective_return_type ctx func =
     (if hir_is_async (ctx_sema ctx) func
      then (case hir_async_ret_type (ctx_sema ctx) func of
          Some ty \<Rightarrow> (Some ty, ReturnAwaited)
        | None \<Rightarrow> (None, ReturnOpaque))
      else (Some (hir_ret_type (ctx_sema ctx) func), ReturnDirect))"

definition is_instance_of :: "('c, 'm, 'i, 'k, 'n, 't, 'f) hir \<Rightarrow> 't \<Rightarrow> 'i option \<Rightarrow> bool" where
  "is_instance_of sema ty adt =
     (case adt of
        None \<Rightarrow> False
      | Some adt \<Rightarrow>
          (case ty_as_adt sema ty of
             Some (AdtEnum actual) \<Rightarrow> actual = adt
           | Some (AdtStruct _) \<Rightarrow> False
           | Some (AdtUnion _) \<Rightarrow> False
           | None \<Rightarrow> False))"

definition result_kind_of :: "('c, 'm, 'i, 'k, 'n, 't, 'f) decorate_ctx \<Rightarrow> 't \<Rightarrow> result_kind" where
  "result_kind_of ctx ty =
     (if is_instance_of (ctx_sema ctx) ty (ctx_core_result ctx) then ResultKindResult else ResultKindOther)"

definition option_kind_of :: "('c, 'm, 'i, 'k, 'n, 't, 'f) decorate_ctx \<Rightarrow> 't \<Rightarrow> option_kind" where
  "option_kind_of ctx ty =
     (if is_instance_of (ctx_sema ctx) ty (ctx_core_option ctx) then OptionKindOption else OptionKindOther)"

definition never_kind_of :: "('c, 'm, 'i, 'k, 'n, 't, 'f) hir \<Rightarrow> 't \<Rightarrow> never_kind" where
  "never_kind_of sema ty = (if ty_is_never sema ty then NeverKindNever else NeverKindOther)"

fun adt_item :: "'i adt \<Rightarrow> 'i" where
  "adt_item (AdtStruct i) = i"
| "adt_item (AdtUnion i) = i"
| "adt_item (AdtEnum i) = i"

definition type_path_of :: "('c, 'm, 'i, 'k, 'n, 't, 'f) decorate_ctx \<Rightarrow> 't \<Rightarrow> type_path option" where
  "type_path_of ctx ty =
     (let sema = ctx_sema ctx in
      Option.bind (ty_as_adt sema ty) (\<lambda>adt.
        let module = hir_item_module sema (adt_item adt) in
        Option.bind (hir_display_name sema (hir_krate sema module)) (\<lambda>krate.
          Some \<lparr>tp_krate = krate,
            tp_modules = map (hir_display sema (ctx_edition ctx)) (hir_path_segments sema module),
            tp_name = hir_display sema (ctx_edition ctx) (hir_item_name sema (adt_item adt))\<rparr>)))"

definition classify_error :: "('c, 'm, 'i, 'k, 'n, 't, 'f) decorate_ctx \<Rightarrow> 't \<Rightarrow> error_type" where
  "classify_error ctx ty =
     (case type_path_of ctx ty of
        Some path \<Rightarrow> ErrorNamed path
      | None \<Rightarrow> if ty_is_type_param (ctx_sema ctx) ty then ErrorGeneric else ErrorUnnamed)"

definition result_error_type :: "('c, 'm, 'i, 'k, 'n, 't, 'f) decorate_ctx \<Rightarrow> 't \<Rightarrow> error_type option" where
  "result_error_type ctx ty =
     Option.bind (ctx_core_result ctx) (\<lambda>core_result.
       Option.bind (ty_as_adt_with_args (ctx_sema ctx) ty) (\<lambda>(adt, args).
         case adt of
           AdtEnum actual \<Rightarrow>
             if actual \<noteq> core_result then None
             else Option.bind (nth_opt args 1) (\<lambda>arg. Option.bind arg (\<lambda>error. Some (classify_error ctx error)))
         | _ \<Rightarrow> None))"

definition resolve_function :: "('c, 'm, 'i, 'k, 'n, 't, 'f) decorate_ctx \<Rightarrow> text_range \<Rightarrow> rust_fn_signature option" where
  "resolve_function ctx rng =
     Option.bind (find_enclosing_fn ctx rng) (\<lambda>func.
       let (ret_type, return_mode) = effective_return_type ctx func in
       case ret_type of
         None \<Rightarrow> Some \<lparr>rfs_return_type = None, rfs_error_type = None, rfs_return_mode = return_mode\<rparr>
       | Some ret_type \<Rightarrow>
           Some \<lparr>rfs_return_type = Some ((ResolvedType_new (display_type ctx ret_type func))
               \<lparr>rrt_result_kind := result_kind_of ctx ret_type, rrt_never_kind := never_kind_of (ctx_sema ctx) ret_type\<rparr>),
             rfs_error_type = result_error_type ctx ret_type,
             rfs_return_mode = return_mode\<rparr>)"

definition display_in :: "('c, 'm, 'i, 'k, 'n, 't, 'f) decorate_ctx \<Rightarrow> 't \<Rightarrow> 'i option \<Rightarrow> string" where
  "display_in ctx ty func = (case func of Some f \<Rightarrow> display_type ctx ty f | None \<Rightarrow> ty_debug (ctx_sema ctx) ty)"

definition resolve_match_scrutinee ::
  "('c, 'm, 'i, 'k, 'n, 't, 'f) decorate_ctx \<Rightarrow> text_range \<Rightarrow> (rust_resolved_type \<times> adt_flags option) option" where
  "resolve_match_scrutinee ctx rng =
     (let sema = ctx_sema ctx in
      Option.bind (find_expr_covering ctx rng) (\<lambda>expr.
        Option.bind (sema_type_of_expr sema expr) (\<lambda>ty.
          let adt_kind = (case ty_as_adt sema ty of Some (AdtEnum _) \<Rightarrow> AdtKindEnum | _ \<Rightarrow> AdtKindOther);
              func = find_enclosing_fn ctx rng;
              resolved = (ResolvedType_new (display_in ctx ty func))\<lparr>rrt_adt_kind := adt_kind\<rparr>;
              flags = (case ty_as_adt sema ty of
                  Some (AdtEnum e) \<Rightarrow>
                    (let krate = hir_krate sema (hir_item_module sema e);
                         is_external = (case func of
                             None \<Rightarrow> False
                           | Some f \<Rightarrow> hir_krate sema (hir_item_module sema f) \<noteq> krate)
                     in Some \<lparr>flags_exhaustiveness =
                          (if hir_is_non_exhaustive sema e \<and> is_external then NonExhaustive else Exhaustive)\<rparr>)
                | _ \<Rightarrow> None)
          in Some (resolved, flags))))"

definition resolve_expr_type :: "('c, 'm, 'i, 'k, 'n, 't, 'f) decorate_ctx \<Rightarrow> text_range \<Rightarrow> rust_resolved_type option" where
  "resolve_expr_type ctx rng =
     Option.bind (find_expr_covering ctx rng) (\<lambda>expr.
       Option.bind (sema_type_of_expr (ctx_sema ctx) expr) (\<lambda>ty.
         Some ((ResolvedType_new (display_in ctx ty (find_enclosing_fn ctx rng)))
           \<lparr>rrt_result_kind := result_kind_of ctx ty, rrt_option_kind := option_kind_of ctx ty,
            rrt_never_kind := never_kind_of (ctx_sema ctx) ty\<rparr>)))"

definition import_qualifier :: "('c, 'm, 'i, 'k, 'n, 't, 'f) hir \<Rightarrow> 'n \<Rightarrow> 'n option" where
  "import_qualifier sema tree =
     Option.bind (tree_path sema tree) (\<lambda>path.
       if tree_has_list sema tree \<or> tree_has_star sema tree then Some path else path_qualifier sema path)"

fun rust_import_source_of :: "('m, 'i) path_resolution \<Rightarrow> rust_import_source" where
  "rust_import_source_of (ResDef (DefModule _)) = ImportModule"
| "rust_import_source_of (ResDef (DefAdt (AdtEnum _))) = ImportEnum"
| "rust_import_source_of _ = ImportOther"

definition resolve_import :: "('c, 'm, 'i, 'k, 'n, 't, 'f) decorate_ctx \<Rightarrow> text_range \<Rightarrow> rust_import_source option" where
  "resolve_import ctx rng =
     Option.bind (enclosing ctx (node_is_use (ctx_sema ctx)) rng) (\<lambda>use_item.
       Option.bind (use_use_tree (ctx_sema ctx) use_item) (\<lambda>tree.
         Option.bind (import_qualifier (ctx_sema ctx) tree) (\<lambda>qualifier.
           case sema_resolve_path (ctx_sema ctx) qualifier of
             Some resolution \<Rightarrow> Some (rust_import_source_of resolution)
           | None \<Rightarrow> Some ImportUnresolved)))"

text \<open>The outer option is the walk of the dependencies, the inner one what the code returns.\<close>

definition resolve_reexports ::
  "('c, 'm, 'i, 'k, 'n, 't, 'f) decorate_ctx \<Rightarrow> ('c, 'm) paths_by_crate \<Rightarrow> text_range \<Rightarrow>
   (reexports option \<times> ('c, 'm) paths_by_crate) option" where
  "resolve_reexports ctx module_paths rng =
     (case enclosing ctx (node_is_path (ctx_sema ctx)) rng of
        None \<Rightarrow> Some (None, module_paths)
      | Some path \<Rightarrow>
          if node_range (ctx_sema ctx) path \<noteq> rng
             \<or> find (node_is_use_tree (ctx_sema ctx)) (node_ancestors (ctx_sema ctx) path) = None
          then Some (None, module_paths)
          else (case sema_resolve_path (ctx_sema ctx) path of
              Some (ResDef def) \<Rightarrow>
                map_option (\<lambda>(paths, module_paths). (Some \<lparr>reexports_paths = paths\<rparr>, module_paths))
                  (public_paths ctx module_paths def)
            | _ \<Rightarrow> Some (None, module_paths)))"

section \<open>Resolving the targets of a file\<close>

type_synonym ('c, 'm, 'e) resolve_state = "('c, 'm) paths_by_crate \<times> 'e decoration_map"

fun insert_found :: "('v, 'e) decoration \<Rightarrow> nat \<Rightarrow> 'v option \<Rightarrow> 'e decoration_map \<Rightarrow> 'e decoration_map" where
  "insert_found D k None m = m"
| "insert_found D k (Some v) m = map_insert D k v m"

text \<open>The body of the loop of \<open>resolve_targets\<close>.\<close>

fun resolve_target ::
  "'e rust_types \<Rightarrow> ('c, 'm, 'i, 'k, 'n, 't, 'f) decorate_ctx \<Rightarrow> rust_target \<Rightarrow> ('c, 'm, 'e) resolve_state \<Rightarrow>
   ('c, 'm, 'e) resolve_state option" where
  "resolve_target R ctx (TargetFunction k rng) (paths, m) =
     Some (paths, insert_found (R_fn_signature R) k (resolve_function ctx rng) m)"
| "resolve_target R ctx (TargetMatchScrutinee rng k) (paths, m) =
     Some (paths, case resolve_match_scrutinee ctx rng of
        None \<Rightarrow> m
      | Some (ty, flags) \<Rightarrow> insert_found (R_adt_flags R) k flags (map_insert (R_resolved_type R) k ty m))"
| "resolve_target R ctx (TargetIfElse rng k) (paths, m) =
     Some (paths, insert_found (R_resolved_type R) k (resolve_expr_type ctx rng) m)"
| "resolve_target R ctx (TargetTryExpr rng k) (paths, m) =
     Some (paths, insert_found (R_resolved_type R) k (resolve_expr_type ctx rng) m)"
| "resolve_target R ctx (TargetImport k rng) (paths, m) =
     Some (paths, insert_found (R_import_source R) k (resolve_import ctx rng) m)"
| "resolve_target R ctx (TargetImportPath k rng) (paths, m) =
     map_option (\<lambda>(found, paths). (paths, insert_found (R_reexports R) k found m)) (resolve_reexports ctx paths rng)"

fun resolve_loop ::
  "'e rust_types \<Rightarrow> ('c, 'm, 'i, 'k, 'n, 't, 'f) decorate_ctx \<Rightarrow> rust_target list \<Rightarrow> ('c, 'm, 'e) resolve_state \<Rightarrow>
   ('c, 'm, 'e) resolve_state option" where
  "resolve_loop R ctx [] st = Some st"
| "resolve_loop R ctx (t # ts) st = Option.bind (resolve_target R ctx t st) (resolve_loop R ctx ts)"

definition file_ctx :: "('c, 'm, 'i, 'k, 'n, 't, 'f) hir \<Rightarrow> 'f \<Rightarrow> 'm \<Rightarrow> ('c, 'm, 'i, 'k, 'n, 't, 'f) decorate_ctx" where
  "file_ctx sema file_id module =
     (let krate = hir_krate sema module in
      \<lparr>ctx_sema = sema, ctx_syntax = sema_parse_guess_edition sema file_id, ctx_module = module,
       ctx_edition = hir_edition sema krate, ctx_core_result = hir_core_result sema krate,
       ctx_core_option = hir_core_option sema krate\<rparr>)"

definition resolve_targets ::
  "'e rust_types \<Rightarrow> ('c, 'm, 'i, 'k, 'n, 't, 'f) hir \<Rightarrow> 'f \<Rightarrow> 'm \<Rightarrow> rust_target list \<Rightarrow> 'e decoration_map option" where
  "resolve_targets R sema file_id module ts =
     map_option snd (resolve_loop R (file_ctx sema file_id module) ts (Map.empty, map_new))"

section \<open>The provider\<close>

text \<open>The virtual file system: its files, and the file of a path with whether it is excluded.\<close>

record 'f vfs =
  vfs_iter :: "('f \<times> path option) list"
  vfs_file_id :: "string \<Rightarrow> ('f \<times> bool) option"

record 'f rust_provider =
  rp_texts :: "'f \<rightharpoonup> string"
  rp_poisoned :: bool
  rp_vfs :: "'f vfs"
  rp_root :: path

datatype 'r load_rust_error =
    UnreadableCurrentDirectory io_error
  | RustNotUtf8 path
  | Undiscovered path 'r
  | Unresolved path 'r
  | BuildScriptsFailed 'r
  | DatabaseFailed 'r

text \<open>The files to repair: under the root, readable, and not UTF-8. \<open>read\<close> is \<open>std::fs::read\<close> without its error.\<close>

definition lossy_text :: "(path \<Rightarrow> string option) \<Rightarrow> path \<Rightarrow> 'f \<times> path option \<Rightarrow> ('f \<times> string) option" where
  "lossy_text read root entry =
     (case snd entry of
        None \<Rightarrow> None
      | Some p \<Rightarrow>
          if \<not> path_starts_with p root then None
          else (case read p of
              None \<Rightarrow> None
            | Some bytes \<Rightarrow> if utf8_valid bytes then None else Some (fst entry, utf8_lossy bytes)))"

definition give_text_to_files_that_have_none ::
  "(path \<Rightarrow> string option) \<Rightarrow> 'f vfs \<Rightarrow> path \<Rightarrow> ('f \<rightharpoonup> string) \<Rightarrow> ('f \<rightharpoonup> string)" where
  "give_text_to_files_that_have_none read vfs root texts =
     (let lossy = List.map_filter (lossy_text read root) (vfs_iter vfs) in
      if lossy = [] then texts else fold (\<lambda>(file_id, t) db. db(file_id \<mapsto> t)) lossy texts)"

text \<open>The steps of rust-analyzer's loader.\<close>

record ('f, 'g, 'w, 'b, 'r) cargo_loader =
  cl_discover_single :: "path \<Rightarrow> ('g, 'r) result"
  cl_load :: "'g \<Rightarrow> ('w, 'r) result"
  cl_run_build_scripts :: "'w \<Rightarrow> ('b, 'r) result"
  cl_set_build_scripts :: "'b \<Rightarrow> 'w \<Rightarrow> 'w"
  cl_workspace_root :: "'w \<Rightarrow> path"
  cl_load_workspace :: "'w \<Rightarrow> (('f \<rightharpoonup> string) \<times> 'f vfs, 'r) result"

definition load_rust ::
  "('f, 'g, 'w, 'b, 'r) cargo_loader \<Rightarrow> (path \<Rightarrow> string option) \<Rightarrow> (path, io_error) result \<Rightarrow> path \<Rightarrow>
   ('f rust_provider, 'r load_rust_error) result" where
  "load_rust L read cwd workspace_root =
     result_bind (map_err UnreadableCurrentDirectory cwd) (\<lambda>cwd.
       let discover_from = path_join cwd workspace_root in
       if to_str discover_from = None then Err (RustNotUtf8 discover_from)
       else result_bind (map_err (Undiscovered workspace_root) (cl_discover_single L discover_from)) (\<lambda>manifest.
         result_bind (map_err (Unresolved workspace_root) (cl_load L manifest)) (\<lambda>workspace.
           result_bind (map_err BuildScriptsFailed (cl_run_build_scripts L workspace)) (\<lambda>build_scripts.
             let workspace = cl_set_build_scripts L build_scripts workspace;
                 root = cl_workspace_root L workspace
             in result_bind (map_err DatabaseFailed (cl_load_workspace L workspace)) (\<lambda>(texts, vfs).
                  Ok \<lparr>rp_texts = give_text_to_files_that_have_none read vfs root texts,
                    rp_poisoned = False, rp_vfs = vfs, rp_root = root\<rparr>)))))"

definition RustProvider_empty :: "'f rust_provider" where
  "RustProvider_empty =
     \<lparr>rp_texts = Map.empty, rp_poisoned = False, rp_vfs = \<lparr>vfs_iter = [], vfs_file_id = (\<lambda>_. None)\<rparr>, rp_root = ''.''\<rparr>"

definition rust_gap_for_unknown_file :: "'f rust_provider \<Rightarrow> path \<Rightarrow> coverage_gap" where
  "rust_gap_for_unknown_file prov file_path =
     (if path_starts_with file_path (rp_root prov) then Unreachable (rp_root prov) else OutsideRoot (rp_root prov))"

text \<open>
  The analyzer over a database: its answers, the files that the search for the module of a file reads
  (every sibling module that the crate declares), and the files that the questions about a file read
  once its module is known. Reading a file that has no recorded text panics.
\<close>

record ('c, 'm, 'i, 'k, 'n, 't, 'f) rust_analyzer =
  ra_hir :: "('f \<rightharpoonup> string) \<Rightarrow> ('c, 'm, 'i, 'k, 'n, 't, 'f) hir"
  ra_module_reads :: "('f \<rightharpoonup> string) \<Rightarrow> 'f \<Rightarrow> 'f list"
  ra_answer_reads :: "('f \<rightharpoonup> string) \<Rightarrow> 'f \<Rightarrow> 'f list"

definition reads_panic :: "('f \<rightharpoonup> string) \<Rightarrow> 'f list \<Rightarrow> bool" where
  "reads_panic texts files = list_ex (\<lambda>f. texts f = None) files"

definition rust_decorate ::
  "'e rust_types \<Rightarrow> ('c, 'm, 'i, 'k, 'n, 't, 'f) rust_analyzer \<Rightarrow> (path, io_error) result \<Rightarrow>
   'f rust_provider \<Rightarrow> 'e decorated_tree \<Rightarrow> ('e coverage, decorate_tree_error) result option" where
  "rust_decorate R an cwd prov tree =
     (case absolute_path cwd (as_path (dt_file tree)) of
        Inl e \<Rightarrow> Some (Err (UnresolvablePath (as_path (dt_file tree)) e))
      | Inr file_path \<Rightarrow>
          (case vfs_file_id (rp_vfs prov) (utf8_lossy file_path) of
             None \<Rightarrow> Some (Ok (NotCovered (rust_gap_for_unknown_file prov file_path)))
           | Some (file_id, excluded) \<Rightarrow>
               if excluded then Some (Ok (NotCovered (ExcludedByToolchain (rp_root prov))))
               else if rp_poisoned prov then Some (Err PoisonedDatabase)
               else
                 let ts = collect_rust_targets (dt_root_node tree) [];
                     db = rp_texts prov;
                     sema = ra_hir an db
                 in if reads_panic db (ra_module_reads an db file_id) then None
                    else case sema_file_to_module_def sema file_id of
                      None \<Rightarrow> Some (Ok (NotCovered (Unreachable (rp_root prov))))
                    | Some module \<Rightarrow>
                        (case db file_id of
                           None \<Rightarrow> None
                         | Some db_text \<Rightarrow>
                             if db_text \<noteq> dt_source tree then Some (Ok (NotCovered StaleSource))
                             else if reads_panic db (ra_answer_reads an db file_id) then None
                             else map_option (\<lambda>m. Ok (Covered m)) (resolve_targets R sema file_id module ts))))"

section \<open>The provider answers\<close>

definition finite_modules :: "('c, 'm, 'i, 'k, 'n, 't, 'f) hir \<Rightarrow> bool" where
  "finite_modules sema \<longleftrightarrow> (\<forall>ctx krate. ctx_sema ctx = sema \<longrightarrow> finite (public_modules ctx krate))"

lemma resolve_reexports_total:
  assumes "finite_modules (ctx_sema ctx)" "cache_right ctx paths"
  shows "\<exists>found paths'. resolve_reexports ctx paths rng = Some (found, paths') \<and> cache_right ctx paths'"
proof -
  have deps: "\<forall>dep \<in> set (hir_dependencies (ctx_sema ctx) (hir_krate (ctx_sema ctx) (ctx_module ctx))).
      finite (public_modules ctx (dep_krate dep))"
    using assms(1) by (simp add: finite_modules_def)
  have "\<exists>ps paths'. public_paths ctx paths def = Some (ps, paths') \<and> cache_right ctx paths'" for def
    using public_paths_total [OF deps assms(2)] .
  then show ?thesis
    using assms(2) by (auto simp: resolve_reexports_def split: option.splits path_resolution.splits) blast+
qed

lemma resolve_loop_total:
  assumes "finite_modules (ctx_sema ctx)" "cache_right ctx (fst st)"
  shows "\<exists>st'. resolve_loop R ctx ts st = Some st'"
  using assms(2)
proof (induction ts arbitrary: st)
  case (Cons t ts)
  obtain paths m where st: "st = (paths, m)" by (cases st)
  with Cons.prems have right: "cache_right ctx paths" by simp
  have "\<exists>st'. resolve_target R ctx t st = Some st' \<and> cache_right ctx (fst st')"
    using right resolve_reexports_total [OF assms(1) right] unfolding st by (cases t) (auto, blast)
  with Cons.IH show ?case by auto
qed simp

text \<open>
  What rust-analyzer's loader documents of its result: a file it answers for is among the files it
  lists, under the name it was asked by, and a listed file lacks text only when it was not UTF-8.
\<close>

definition well_interned :: "(path \<Rightarrow> string option) \<Rightarrow> ('f \<rightharpoonup> string) \<Rightarrow> 'f vfs \<Rightarrow> bool" where
  "well_interned read texts vfs \<longleftrightarrow>
     (\<forall>name f. vfs_file_id vfs name = Some (f, False) \<longrightarrow> (f, Some name) \<in> set (vfs_iter vfs)) \<and>
     (\<forall>f p. (f, Some p) \<in> set (vfs_iter vfs) \<longrightarrow> texts f = None \<longrightarrow> (\<exists>bytes. read p = Some bytes \<and> \<not> utf8_valid bytes))"

lemma fold_update_dom: "dom (fold (\<lambda>(k, v) db. db(k \<mapsto> v)) xs m) = dom m \<union> fst ` set xs"
  by (induction xs arbitrary: m) auto

lemma give_text_dom:
  "dom (give_text_to_files_that_have_none read vfs root texts)
   = dom texts \<union> fst ` set (List.map_filter (lossy_text read root) (vfs_iter vfs))"
  by (simp add: give_text_to_files_that_have_none_def Let_def fold_update_dom)

lemma give_text_complete:
  assumes "well_interned read texts vfs" "(f, Some name) \<in> set (vfs_iter vfs)"
    and "path_starts_with name root \<or> (\<forall>bytes. read name = Some bytes \<longrightarrow> utf8_valid bytes)"
  shows "f \<in> dom (give_text_to_files_that_have_none read vfs root texts)"
proof (cases "texts f")
  case None
  with assms(1,2) obtain bytes where bytes: "read name = Some bytes" "\<not> utf8_valid bytes"
    unfolding well_interned_def by blast
  with assms(3) have "lossy_text read root (f, Some name) = Some (f, utf8_lossy bytes)" by (auto simp: lossy_text_def)
  with assms(2) have "(f, utf8_lossy bytes) \<in> set (List.map_filter (lossy_text read root) (vfs_iter vfs))" by auto
  then show ?thesis unfolding give_text_dom by force
next
  case (Some t)
  then show ?thesis unfolding give_text_dom by (simp add: domI)
qed

text \<open>
  What the repair relies on: a question reads files the loader lists, and those outside of the root,
  the sysroot and the dependencies, hold UTF-8.
\<close>

definition reads_listed ::
  "(path \<Rightarrow> string option) \<Rightarrow> 'f rust_provider \<Rightarrow> ('c, 'm, 'i, 'k, 'n, 't, 'f) rust_analyzer \<Rightarrow> bool" where
  "reads_listed read prov an \<longleftrightarrow>
     (\<forall>f p. (f, Some p) \<in> set (vfs_iter (rp_vfs prov)) \<longrightarrow>
        (\<forall>g \<in> set (ra_module_reads an (rp_texts prov) f) \<union> set (ra_answer_reads an (rp_texts prov) f).
           \<exists>name. (g, Some name) \<in> set (vfs_iter (rp_vfs prov)) \<and>
             (path_starts_with name (rp_root prov) \<or> (\<forall>bytes. read name = Some bytes \<longrightarrow> utf8_valid bytes))))"

text \<open>
  C35: Once a workspace is loaded, the provider answers for every file under its root, without a panic
  and without an error, whatever the bytes of that file and of every other file under the root are.
  The answer is one of three gaps or a covered file, and a file is covered only when the text in the
  database is the text that was parsed. The loader leaves a file that is not UTF-8 without text, and
  the analyzer panics when it reads such a file, which it does while it answers for a sibling; the
  repair at the end of the load gives these files text. Outside of the root there is no repair, so
  what the analyzer reads there has to be UTF-8.
\<close>

theorem rust_decorate_answers:
  assumes load: "load_rust L read cwd workspace_root = Ok prov"
    and interned: "\<forall>workspace texts vfs. cl_load_workspace L workspace = Ok (texts, vfs) \<longrightarrow> well_interned read texts vfs"
    and reads: "reads_listed read prov an"
    and modules: "\<forall>texts. finite_modules (ra_hir an texts)"
    and absolute: "absolute_path cwd (as_path (dt_file tree)) = Ok p" and utf8: "utf8_valid p"
    and under: "path_starts_with p (rp_root prov)"
  shows "\<exists>coverage. rust_decorate R an cwd prov tree = Some (Ok coverage) \<and>
     (case coverage of
        Covered m \<Rightarrow> \<exists>f. vfs_file_id (rp_vfs prov) p = Some (f, False) \<and> rp_texts prov f = Some (dt_source tree)
      | NotCovered gap \<Rightarrow> gap \<in> {Unreachable (rp_root prov), ExcludedByToolchain (rp_root prov), StaleSource})"
proof -
  from load obtain workspace texts vfs where loaded: "cl_load_workspace L workspace = Ok (texts, vfs)" "rp_vfs prov = vfs"
    "rp_texts prov = give_text_to_files_that_have_none read vfs (rp_root prov) texts" "\<not> rp_poisoned prov"
    by (auto simp: load_rust_def result_bind_eq_Ok Let_def split: if_splits)
  with interned have wf: "well_interned read texts vfs" by blast
  have known: "\<exists>t. rp_texts prov f = Some t" if "vfs_file_id vfs p = Some (f, False)" for f
    using give_text_complete [OF wf, of f p "rp_root prov"] wf that under loaded(3) by (auto simp: well_interned_def)
  have fine: "\<not> reads_panic (rp_texts prov) (ra_module_reads an (rp_texts prov) f)"
    "\<not> reads_panic (rp_texts prov) (ra_answer_reads an (rp_texts prov) f)" if "vfs_file_id vfs p = Some (f, False)" for f
  proof -
    from wf that have "(f, Some p) \<in> set (vfs_iter vfs)" by (auto simp: well_interned_def)
    with reads have "\<forall>g \<in> set (ra_module_reads an (rp_texts prov) f) \<union> set (ra_answer_reads an (rp_texts prov) f). g \<in> dom (rp_texts prov)"
      using give_text_complete [OF wf, of _ _ "rp_root prov"] unfolding reads_listed_def loaded(2) loaded(3) [symmetric] by blast
    then show "\<not> reads_panic (rp_texts prov) (ra_module_reads an (rp_texts prov) f)"
      "\<not> reads_panic (rp_texts prov) (ra_answer_reads an (rp_texts prov) f)"
      by (auto simp: reads_panic_def list_ex_iff dom_def)
  qed
  have lossy: "utf8_lossy p = p" using utf8 by (rule utf8_lossy_valid)
  have resolved: "\<exists>m. resolve_targets R sema f module ts = Some m" if "sema = ra_hir an t" for sema t f module ts
    using resolve_loop_total [of "file_ctx sema f module" "(Map.empty, map_new)" R ts] modules that
    by (auto simp: resolve_targets_def file_ctx_def Let_def cache_right_def)
  show ?thesis
  proof (cases "vfs_file_id vfs p")
    case None
    with loaded absolute under lossy show ?thesis
      by (auto simp: rust_decorate_def rust_gap_for_unknown_file_def intro!: exI [of _ "NotCovered (Unreachable (rp_root prov))"])
  next
    case (Some found)
    obtain f excluded where found: "found = (f, excluded)" by (cases found)
    let ?sema = "ra_hir an (rp_texts prov)" and ?ts = "collect_rust_targets (dt_root_node tree) []"
    show ?thesis
    proof (cases excluded)
      case True
      with loaded absolute lossy Some found show ?thesis
        by (auto simp: rust_decorate_def intro!: exI [of _ "NotCovered (ExcludedByToolchain (rp_root prov))"])
    next
      case False
      with known Some found obtain t where t: "rp_texts prov f = Some t" by auto
      have step: "rust_decorate R an cwd prov tree =
          (case sema_file_to_module_def ?sema f of
             None \<Rightarrow> Some (Ok (NotCovered (Unreachable (rp_root prov))))
           | Some module \<Rightarrow> if t \<noteq> dt_source tree then Some (Ok (NotCovered StaleSource))
               else map_option (\<lambda>m. Ok (Covered m)) (resolve_targets R ?sema f module ?ts))"
        using loaded absolute lossy Some found False t fine by (simp add: rust_decorate_def Let_def split: option.splits)
      have gap: "t \<noteq> dt_source tree \<or> sema_file_to_module_def ?sema f = None \<Longrightarrow> ?thesis"
        unfolding step by (auto split: option.splits)
      show ?thesis
      proof (cases "sema_file_to_module_def ?sema f")
        case (Some module)
        from resolved [OF refl, of "rp_texts prov" f module ?ts] obtain m where
          "resolve_targets R ?sema f module ?ts = Some m" by blast
        with Some \<open>vfs_file_id vfs p = Some found\<close> found False t loaded(2) gap show ?thesis
          by (cases "t = dt_source tree") (auto simp: step)
      qed (use gap in blast)
    qed
  qed
qed

section \<open>Signatures\<close>

text \<open>
  C37: A signature is consistent with itself. It has no return type exactly when the mode is opaque, which
  is an \<open>async\<close> function whose output the analyzer cannot name; and it has an error type only when its
  return type is marked as a result, that is the enum of \<open>core\<close> and not one that is spelled like it.
\<close>

theorem resolve_function_consistent:
  assumes "\<forall>ty adt args. ty_as_adt_with_args (ctx_sema ctx) ty = Some (adt, args) \<longrightarrow> ty_as_adt (ctx_sema ctx) ty = Some adt"
    and "resolve_function ctx rng = Some sig"
  shows "(rfs_return_type sig = None \<longleftrightarrow> rfs_return_mode sig = ReturnOpaque) \<and>
     (rfs_error_type sig \<noteq> None \<longrightarrow>
        (\<exists>rt. rfs_return_type sig = Some rt \<and> rrt_result_kind rt = ResultKindResult))"
proof -
  have "result_kind_of ctx ty = ResultKindResult" if "result_error_type ctx ty \<noteq> None" for ty
  proof -
    from that obtain core adt args where core: "ctx_core_result ctx = Some core"
      and args: "ty_as_adt_with_args (ctx_sema ctx) ty = Some (adt, args)"
      by (cases "ctx_core_result ctx"; cases "ty_as_adt_with_args (ctx_sema ctx) ty") (auto simp: result_error_type_def)
    with that have "adt = AdtEnum core" by (cases adt) (auto simp: result_error_type_def split: if_splits)
    with assms(1) args have "ty_as_adt (ctx_sema ctx) ty = Some (AdtEnum core)" by blast
    with core show ?thesis by (simp add: result_kind_of_def is_instance_of_def)
  qed
  with assms(2) show ?thesis
    by (auto simp: resolve_function_def effective_return_type_def bind_eq_Some_conv Let_def split: option.splits if_splits)
qed

section \<open>What is attached where\<close>

definition rust_keys :: "'e rust_types \<Rightarrow> decoration_key list" where
  "rust_keys R = [deco_key (R_fn_signature R), deco_key (R_resolved_type R), deco_key (R_adt_flags R),
     deco_key (R_import_source R), deco_key (R_reexports R)]"

definition rust_stable :: "'e rust_types \<Rightarrow> bool" where
  "rust_stable R \<longleftrightarrow> distinct (rust_keys R) \<and> stable_downcast (R_fn_signature R) \<and> stable_downcast (R_resolved_type R) \<and>
     stable_downcast (R_adt_flags R) \<and> stable_downcast (R_import_source R) \<and> stable_downcast (R_reexports R)"

lemma collect_import_list_append:
  assumes "\<And>n ts. n \<in> set ns \<Longrightarrow> collect_import_paths n ts = ts @ collect_import_paths n []"
  shows "collect_import_list ns ts = ts @ collect_import_list ns []"
  using assms
proof (induction ns arbitrary: ts)
  case (Cons n ns)
  have tail: "collect_import_list ns ts = ts @ collect_import_list ns []" for ts by (rule Cons.IH) (rule Cons.prems, simp)
  have "collect_import_list (n # ns) ts = (ts @ collect_import_paths n []) @ collect_import_list ns []"
    unfolding collect_import_list.simps Cons.prems [of n ts, OF list.set_intros(1)] by (rule tail)
  then show ?case unfolding collect_import_list.simps tail [of "collect_import_paths n []"] by simp
qed simp

lemma collect_import_append: "collect_import_paths n ts = ts @ collect_import_paths n []"
proof (induction "size (dn_node n)" arbitrary: n ts rule: less_induct)
  case less
  have field: "collect_import_paths c ts = ts @ collect_import_paths c []" if "dn_child_by_field_name n name = Some c" for c name
    by (rule less) (rule dn_child_by_field_name_size [OF that])
  have "collect_import_list (dn_named_children n) ts = ts @ collect_import_list (dn_named_children n) []"
    by (rule collect_import_list_append, rule less) (rule dn_named_child_size)
  then show ?case
    by (subst (1 2) collect_import_paths.simps) (auto dest: field split: option.splits)
qed

lemma add_rust_targets_append: "add_rust_targets n ts = ts @ add_rust_targets n []"
  by (simp add: add_rust_targets_def Let_def collect_import_append [of _ "ts @ _"] collect_import_append [of _ ts]
      collect_import_append [of _ "[_]"] split: option.splits)

lemma collect_rust_targets_nodes:
  fixes n :: "'e decorated_node" and ns :: "'e decorated_node list"
  shows "collect_rust_targets n ts = ts @ concat (map (\<lambda>n. add_rust_targets n []) (visited_nodes n))"
    "collect_rust_children ns ts = ts @ concat (map (\<lambda>n. add_rust_targets n []) (concat (map visited_nodes ns)))"
proof (induction n ts and ns ts rule: collect_rust_targets_collect_rust_children.induct)
  case (1 node ts)
  then show ?case
    by (subst visited_nodes.simps) (simp add: collect_rust_targets.simps add_rust_targets_append [of node ts])
qed simp_all

text \<open>What is re-exported through the dependencies at a range, as the first import of a file finds it.\<close>

definition reexports_at :: "('c, 'm, 'i, 'k, 'n, 't, 'f) decorate_ctx \<Rightarrow> text_range \<Rightarrow> reexports option" where
  "reexports_at ctx rng = Option.bind (resolve_reexports ctx Map.empty rng) fst"

lemma resolve_reexports_steady: "cache_steady ctx (\<lambda>c. resolve_reexports ctx c rng)"
proof (cases "enclosing ctx (node_is_path (ctx_sema ctx)) rng")
  case (Some path)
  show ?thesis
  proof (cases "node_range (ctx_sema ctx) path \<noteq> rng
      \<or> find (node_is_use_tree (ctx_sema ctx)) (node_ancestors (ctx_sema ctx) path) = None
      \<or> (\<forall>def. sema_resolve_path (ctx_sema ctx) path \<noteq> Some (ResDef def))")
    case True
    then have "(\<lambda>c. resolve_reexports ctx c rng) = (\<lambda>c. Some (None, c))"
      by (auto simp: resolve_reexports_def Some fun_eq_iff split: option.splits path_resolution.splits)
    then show ?thesis by (simp add: cache_steady_const)
  next
    case False
    then obtain tree def where "find (node_is_use_tree (ctx_sema ctx)) (node_ancestors (ctx_sema ctx) path) = Some tree"
      "sema_resolve_path (ctx_sema ctx) path = Some (ResDef def)" by auto
    with False Some have "(\<lambda>c. resolve_reexports ctx c rng) =
        (\<lambda>c. map_option (\<lambda>(paths, c). (Some \<lparr>reexports_paths = paths\<rparr>, c)) (public_paths ctx c def))"
      by (simp add: resolve_reexports_def)
    then show ?thesis using cache_steady_map [OF public_paths_steady] by simp
  qed
qed (simp add: resolve_reexports_def cache_steady_const)

lemma reexports_found:
  assumes "cache_right ctx c" "resolve_reexports ctx c rng = Some (found, c')"
  shows "found = reexports_at ctx rng \<and> cache_right ctx c'"
  using cache_steady_answer [OF resolve_reexports_steady assms]
  by (cases "resolve_reexports ctx Map.empty rng") (auto simp: reexports_at_def)

text \<open>The entries of one target.\<close>

definition entries_for :: "('v, 'e) decoration \<Rightarrow> nat \<Rightarrow> 'v option \<Rightarrow> 'e entry list" where
  "entries_for D k v = (case v of None \<Rightarrow> [] | Some x \<Rightarrow> [Entry_new D k x])"

fun target_entries :: "'e rust_types \<Rightarrow> ('c, 'm, 'i, 'k, 'n, 't, 'f) decorate_ctx \<Rightarrow> rust_target \<Rightarrow> 'e entry list" where
  "target_entries R ctx (TargetFunction k rng) = entries_for (R_fn_signature R) k (resolve_function ctx rng)"
| "target_entries R ctx (TargetMatchScrutinee rng k) =
     entries_for (R_resolved_type R) k (map_option fst (resolve_match_scrutinee ctx rng))
     @ entries_for (R_adt_flags R) k (Option.bind (resolve_match_scrutinee ctx rng) snd)"
| "target_entries R ctx (TargetIfElse rng k) = entries_for (R_resolved_type R) k (resolve_expr_type ctx rng)"
| "target_entries R ctx (TargetTryExpr rng k) = entries_for (R_resolved_type R) k (resolve_expr_type ctx rng)"
| "target_entries R ctx (TargetImport k rng) = entries_for (R_import_source R) k (resolve_import ctx rng)"
| "target_entries R ctx (TargetImportPath k rng) = entries_for (R_reexports R) k (reexports_at ctx rng)"

lemma insert_entries: "map_entries (map_insert D k v m) = map_entries m @ [Entry_new D k v]"
  by (simp add: map_insert_def)

lemma insert_found_entries: "map_entries (insert_found D k v m) = map_entries m @ entries_for D k v"
  by (cases v) (simp_all add: insert_entries entries_for_def)

lemma insert_found_invar: "map_invar m \<Longrightarrow> map_invar (insert_found D k v m)"
  by (cases v) simp_all

lemma resolve_target_entries:
  assumes "resolve_target R ctx t st = Some st'" "cache_right ctx (fst st)" "map_invar (snd st)"
  shows "map_entries (snd st') = map_entries (snd st) @ target_entries R ctx t \<and> cache_right ctx (fst st') \<and> map_invar (snd st')"
proof -
  obtain paths m where st: "st = (paths, m)" by (cases st)
  show ?thesis
    using assms unfolding st
    by (cases t) (auto simp: insert_found_entries insert_entries insert_found_invar entries_for_def
        dest: reexports_found split: option.splits)
qed

lemma resolve_loop_entries:
  assumes "resolve_loop R ctx ts st = Some st'" "cache_right ctx (fst st)" "map_invar (snd st)"
  shows "map_entries (snd st') = map_entries (snd st) @ concat (map (target_entries R ctx) ts) \<and> map_invar (snd st')"
  using assms
proof (induction ts arbitrary: st)
  case (Cons t ts)
  then obtain mid where mid: "resolve_target R ctx t st = Some mid" "resolve_loop R ctx ts mid = Some st'"
    by (auto simp: bind_eq_Some_conv)
  from resolve_target_entries [OF mid(1) Cons.prems(2,3)] Cons.IH [OF mid(2)] show ?case by simp
qed simp

text \<open>
  What the analyzer answers for a node, said of the syntax and not of the targets: where each answer
  is attached, and which range it is asked for. A range that does not fit 32 bits is asked for nothing.
\<close>

definition answer_for :: "'e decorated_node \<Rightarrow> 'e decorated_node \<Rightarrow> (text_range \<Rightarrow> 'v option) \<Rightarrow> (nat \<times> 'v) list" where
  "answer_for node ranged ask =
     (case Option.bind (text_range_of ranged) ask of None \<Rightarrow> [] | Some v \<Rightarrow> [(dn_id node, v)])"

definition signature_answers :: "('c, 'm, 'i, 'k, 'n, 't, 'f) decorate_ctx \<Rightarrow> 'e decorated_node \<Rightarrow> (nat \<times> rust_fn_signature) list" where
  "signature_answers ctx n =
     (if dn_kind n \<in> {''function_item'', ''function_signature_item''} then answer_for n n (resolve_function ctx) else [])"

definition type_answers :: "('c, 'm, 'i, 'k, 'n, 't, 'f) decorate_ctx \<Rightarrow> 'e decorated_node \<Rightarrow> (nat \<times> rust_resolved_type) list" where
  "type_answers ctx n =
     (if dn_kind n = ''match_expression''
      then (case dn_child_by_field_name n ''value'' of
          None \<Rightarrow> []
        | Some s \<Rightarrow> answer_for s s (\<lambda>r. map_option fst (resolve_match_scrutinee ctx r)))
      else if dn_kind n = ''if_expression''
      then (case dn_child_by_field_name n ''alternative'' of
          None \<Rightarrow> []
        | Some alt \<Rightarrow> answer_for alt (case dn_named_child alt 0 of None \<Rightarrow> alt | Some block \<Rightarrow> block) (resolve_expr_type ctx))
      else if dn_kind n = ''try_expression''
      then (case dn_named_child n 0 of None \<Rightarrow> [] | Some operand \<Rightarrow> answer_for operand operand (resolve_expr_type ctx))
      else [])"

definition flags_answers :: "('c, 'm, 'i, 'k, 'n, 't, 'f) decorate_ctx \<Rightarrow> 'e decorated_node \<Rightarrow> (nat \<times> adt_flags) list" where
  "flags_answers ctx n =
     (if dn_kind n = ''match_expression''
      then (case dn_child_by_field_name n ''value'' of
          None \<Rightarrow> []
        | Some s \<Rightarrow> answer_for s s (\<lambda>r. Option.bind (resolve_match_scrutinee ctx r) snd))
      else [])"

definition import_answers :: "('c, 'm, 'i, 'k, 'n, 't, 'f) decorate_ctx \<Rightarrow> 'e decorated_node \<Rightarrow> (nat \<times> rust_import_source) list" where
  "import_answers ctx n = (if dn_kind n = ''use_declaration'' then answer_for n n (resolve_import ctx) else [])"

text \<open>The paths that the argument of a \<open>use\<close> imports, through renamings and nested lists.\<close>

function imported_nodes :: "'e decorated_node \<Rightarrow> 'e decorated_node list" where
  "imported_nodes n =
     (if dn_kind n \<in> {''identifier'', ''scoped_identifier''} then [n]
      else if dn_kind n = ''use_as_clause''
      then (case dn_child_by_field_name n ''path'' of None \<Rightarrow> [] | Some p \<Rightarrow> imported_nodes p)
      else if dn_kind n = ''scoped_use_list''
      then (case dn_child_by_field_name n ''list'' of None \<Rightarrow> [] | Some l \<Rightarrow> imported_nodes l)
      else if dn_kind n = ''use_list'' then concat (map imported_nodes (dn_named_children n))
      else [])"
  by pat_completeness auto
termination
  by (relation "measure (\<lambda>n. size (dn_node n))") (auto dest: dn_child_by_field_name_size dn_named_child_size)

declare imported_nodes.simps [simp del]

definition reexport_answers :: "('c, 'm, 'i, 'k, 'n, 't, 'f) decorate_ctx \<Rightarrow> 'e decorated_node \<Rightarrow> (nat \<times> reexports) list" where
  "reexport_answers ctx n =
     (if dn_kind n = ''use_declaration''
      then (case dn_child_by_field_name n ''argument'' of
          None \<Rightarrow> []
        | Some a \<Rightarrow> concat (map (\<lambda>q. answer_for q q (reexports_at ctx)) (imported_nodes a)))
      else [])"

lemma concat_map_concat: "concat (map g (concat (map f ns))) = concat (map (\<lambda>n. concat (map g (f n))) ns)"
  by (induction ns) simp_all

text \<open>The targets of the code ask for exactly these.\<close>

definition import_path_targets :: "'e decorated_node \<Rightarrow> rust_target list" where
  "import_path_targets q = (case text_range_of q of None \<Rightarrow> [] | Some rng \<Rightarrow> [TargetImportPath (dn_id q) rng])"

lemma collect_import_nodes:
  fixes n :: "'e decorated_node" and ns :: "'e decorated_node list"
  shows "collect_import_paths n ts = ts @ concat (map import_path_targets (imported_nodes n))"
    "collect_import_list ns ts = ts @ concat (map import_path_targets (concat (map imported_nodes ns)))"
proof (induction n ts and ns ts rule: collect_import_paths_collect_import_list.induct)
  case (1 node ts)
  then show ?case
    by (subst collect_import_paths.simps, subst imported_nodes.simps)
      (auto simp: import_path_targets_def [of node] split: option.splits)
qed simp_all

abbreviation of_key :: "decoration_key \<Rightarrow> 'e entry list \<Rightarrow> 'e entry list" where
  "of_key key es \<equiv> filter (\<lambda>e. entry_key e = key) es"

definition answer_entries :: "('v, 'e) decoration \<Rightarrow> (nat \<times> 'v) list \<Rightarrow> 'e entry list" where
  "answer_entries D answers = map (\<lambda>(k, v). Entry_new D k v) answers"

lemma of_key_entries: "of_key key (entries_for D k v) = (if deco_key D = key then entries_for D k v else [])"
  by (simp add: entries_for_def Entry_new_def split: option.splits)

lemma answer_entries_simps [simp]:
  "answer_entries D [] = []"
  "answer_entries D (answer_for node ranged ask) =
     (case text_range_of ranged of None \<Rightarrow> [] | Some r \<Rightarrow> entries_for D (dn_id node) (ask r))"
  by (simp_all add: answer_entries_def answer_for_def entries_for_def split: option.splits)

lemma answer_entries_append: "answer_entries D (xs @ ys) = answer_entries D xs @ answer_entries D ys"
  by (simp add: answer_entries_def)

lemma import_targets_entries:
  "concat (map (target_entries R ctx) (concat (map import_path_targets qs))) =
     answer_entries (R_reexports R) (concat (map (\<lambda>q. answer_for q q (reexports_at ctx)) qs))"
  proof (induction qs)
  case (Cons q qs)
  then show ?case by (simp add: answer_entries_append import_path_targets_def [of q] split: option.splits)
qed simp

abbreviation node_entries :: "'e rust_types \<Rightarrow> ('c, 'm, 'i, 'k, 'n, 't, 'f) decorate_ctx \<Rightarrow> 'e decorated_node \<Rightarrow> 'e entry list" where
  "node_entries R ctx n \<equiv> concat (map (target_entries R ctx) (add_rust_targets n []))"

lemma node_entries_kinds:
  "node_entries R ctx n =
     (if dn_kind n \<in> {''function_item'', ''function_signature_item''} then answer_entries (R_fn_signature R) (signature_answers ctx n)
      else if dn_kind n = ''match_expression''
      then answer_entries (R_resolved_type R) (type_answers ctx n) @ answer_entries (R_adt_flags R) (flags_answers ctx n)
      else if dn_kind n \<in> {''if_expression'', ''try_expression''} then answer_entries (R_resolved_type R) (type_answers ctx n)
      else if dn_kind n = ''use_declaration''
      then answer_entries (R_import_source R) (import_answers ctx n) @ answer_entries (R_reexports R) (reexport_answers ctx n)
      else [])"
  by (auto simp: add_rust_targets_def signature_answers_def type_answers_def flags_answers_def import_answers_def reexport_answers_def
      Let_def collect_import_nodes(1) [of _ "_ # _"] collect_import_nodes(1) [of _ "[]"] import_targets_entries
      split: option.splits)

lemma of_key_answers: "of_key key (answer_entries D answers) = (if deco_key D = key then answer_entries D answers else [])"
  by (induction answers) (auto simp: answer_entries_def Entry_new_def)

lemma node_answers:
  assumes keys: "distinct (rust_keys R)"
  shows "of_key (deco_key (R_fn_signature R)) (node_entries R ctx n) = answer_entries (R_fn_signature R) (signature_answers ctx n)"
    "of_key (deco_key (R_resolved_type R)) (node_entries R ctx n) = answer_entries (R_resolved_type R) (type_answers ctx n)"
    "of_key (deco_key (R_adt_flags R)) (node_entries R ctx n) = answer_entries (R_adt_flags R) (flags_answers ctx n)"
    "of_key (deco_key (R_import_source R)) (node_entries R ctx n) = answer_entries (R_import_source R) (import_answers ctx n)"
    "of_key (deco_key (R_reexports R)) (node_entries R ctx n) = answer_entries (R_reexports R) (reexport_answers ctx n)"
  using keys unfolding node_entries_kinds
  by (auto simp: rust_keys_def of_key_answers signature_answers_def type_answers_def flags_answers_def import_answers_def
      reexport_answers_def simp del: answer_entries_simps(2))

lemma node_entry_keys: "e \<in> set (node_entries R ctx n) \<Longrightarrow> entry_key e \<in> set (rust_keys R)"
  unfolding node_entries_kinds
  by (auto simp: rust_keys_def answer_entries_def Entry_new_def split: if_splits)

lemma read_answers:
  assumes invar: "map_invar m" and stable: "stable_downcast D"
    and entries: "of_key (deco_key D) (map_entries m) = answer_entries D answers"
  shows "fst (map_get D k m) = map_of answers k"
proof -
  have "filter (on_node k (deco_key D)) (map_entries m) = filter (\<lambda>e. entry_node_id e = k) (answer_entries D answers)"
    unfolding entries [symmetric] by (simp add: conj_commute)
  moreover have "(case filter (\<lambda>e. entry_node_id e = k) (answer_entries D answers) of [] \<Rightarrow> None | e # _ \<Rightarrow> entry_read D e) = map_of answers k"
    using stable by (induction answers) (auto simp: answer_entries_def Entry_new_def entry_read_def stable_downcast_def)
  ultimately show ?thesis by (simp add: map_get_entries [OF invar])
qed

lemma of_key_nodes:
  assumes "\<And>n. of_key (deco_key D) (node_entries R ctx n) = answer_entries D (g n)"
  shows "of_key (deco_key D) (concat (map (node_entries R ctx) ns)) = answer_entries D (concat (map g ns))"
  by (induction ns) (simp_all add: assms answer_entries_append)

text \<open>
  C36: What the Rust provider attaches is what the analyzer answers, for every node and with nothing
  else. A covered file is the one the virtual file system holds at the absolute path of the tree, its
  text is the text that was parsed, and its module is the one the analyzer names. Reading at a node
  identity yields the first answer that the syntax asks for there: the signature of the function at a
  function item; the type of the value of a \<open>match\<close>, of the alternative of an \<open>if\<close> and of the operand
  of a \<open>?\<close>; the flags of the enum that a \<open>match\<close> is on; what a \<open>use\<close> declaration imports; and the
  re-exports of every path that the declaration imports, through renamings and nested lists, each
  answered as if it were the first of the file. Where the syntax asks for nothing, or the range does
  not fit 32 bits, or the analyzer has no answer, nothing is read; and the map holds no other keys.
\<close>

theorem rust_decorate_reads:
  assumes covered: "rust_decorate R an cwd prov tree = Some (Ok (Covered m))" and stable: "rust_stable R"
  shows "\<exists>p f module. let sema = ra_hir an (rp_texts prov); ctx = file_ctx sema f module;
       ns = visited_nodes (dt_root_node tree) in
     absolute_path cwd (as_path (dt_file tree)) = Ok p \<and> vfs_file_id (rp_vfs prov) (utf8_lossy p) = Some (f, False) \<and>
     sema_file_to_module_def sema f = Some module \<and> rp_texts prov f = Some (dt_source tree) \<and>
     (\<forall>k. fst (map_get (R_fn_signature R) k m) = map_of (concat (map (signature_answers ctx) ns)) k \<and>
          fst (map_get (R_resolved_type R) k m) = map_of (concat (map (type_answers ctx) ns)) k \<and>
          fst (map_get (R_adt_flags R) k m) = map_of (concat (map (flags_answers ctx) ns)) k \<and>
          fst (map_get (R_import_source R) k m) = map_of (concat (map (import_answers ctx) ns)) k \<and>
          fst (map_get (R_reexports R) k m) = map_of (concat (map (reexport_answers ctx) ns)) k) \<and>
     entry_key ` set (map_entries m) \<subseteq> set (rust_keys R)"
proof -
  let ?sema = "ra_hir an (rp_texts prov)" and ?ns = "visited_nodes (dt_root_node tree)"
  from covered obtain p f module where located: "absolute_path cwd (as_path (dt_file tree)) = Ok p"
      "vfs_file_id (rp_vfs prov) (utf8_lossy p) = Some (f, False)"
      "sema_file_to_module_def ?sema f = Some module" "rp_texts prov f = Some (dt_source tree)"
    and resolved: "resolve_targets R ?sema f module (collect_rust_targets (dt_root_node tree) []) = Some m"
    by (auto simp: rust_decorate_def Let_def split: sum.splits option.splits if_splits)
  let ?ctx = "file_ctx ?sema f module"
  from resolved obtain paths where
    loop: "resolve_loop R ?ctx (concat (map (\<lambda>n. add_rust_targets n []) ?ns)) (Map.empty, map_new) = Some (paths, m)"
    by (auto simp: resolve_targets_def collect_rust_targets_nodes)
  have "map_entries map_new = []" by (simp add: map_new_def)
  with resolve_loop_entries [OF loop] have invar: "map_invar m"
    and entries: "map_entries m = concat (map (node_entries R ?ctx) ?ns)"
    by (simp_all add: cache_right_empty concat_map_concat)
  from stable have keys: "distinct (rust_keys R)"
    and stables: "stable_downcast (R_fn_signature R)" "stable_downcast (R_resolved_type R)" "stable_downcast (R_adt_flags R)"
      "stable_downcast (R_import_source R)" "stable_downcast (R_reexports R)"
    by (simp_all add: rust_stable_def)
  have "entry_key ` set (map_entries m) \<subseteq> set (rust_keys R)"
    unfolding entries using node_entry_keys [of _ R ?ctx] by fastforce
  moreover have "fst (map_get (R_fn_signature R) k m) = map_of (concat (map (signature_answers ?ctx) ?ns)) k"
    "fst (map_get (R_resolved_type R) k m) = map_of (concat (map (type_answers ?ctx) ?ns)) k"
    "fst (map_get (R_adt_flags R) k m) = map_of (concat (map (flags_answers ?ctx) ?ns)) k"
    "fst (map_get (R_import_source R) k m) = map_of (concat (map (import_answers ?ctx) ?ns)) k"
    "fst (map_get (R_reexports R) k m) = map_of (concat (map (reexport_answers ?ctx) ?ns)) k" for k
    by (rule read_answers [OF invar], rule stables, subst entries, rule of_key_nodes, rule node_answers [OF keys])+
  ultimately show ?thesis
    unfolding Let_def using located by (intro exI [of _ p] exI [of _ f] exI [of _ module]) simp
qed

text \<open>The text the database holds for the file of a tree.\<close>

definition rust_held_text :: "(path, io_error) result \<Rightarrow> 'f rust_provider \<Rightarrow> 'e decorated_tree \<Rightarrow> string option" where
  "rust_held_text cwd prov tree =
     (case absolute_path cwd (as_path (dt_file tree)) of
        Inl _ \<Rightarrow> None
      | Inr p \<Rightarrow> Option.bind (vfs_file_id (rp_vfs prov) (utf8_lossy p)) (\<lambda>(f, excluded). rp_texts prov f))"

interpretation rsd: decoration_source "rust_decorate R an cwd prov" "rust_held_text cwd prov"
proof
  fix tree m
  assume covered: "rust_decorate R an cwd prov tree = Some (Ok (Covered m))"
  then show "rust_held_text cwd prov tree = Some (dt_source tree)"
    by (auto simp: rust_decorate_def rust_held_text_def Let_def split: option.splits if_splits sum.splits)
  from covered obtain f module where
    "resolve_targets R (ra_hir an (rp_texts prov)) f module (collect_rust_targets (dt_root_node tree) []) = Some m"
    by (auto simp: rust_decorate_def Let_def split: sum.splits option.splits if_splits)
  then show "map_invar m" by (auto simp: resolve_targets_def cache_right_empty dest: resolve_loop_entries)
qed

section \<open>A small workspace\<close>

text \<open>
  A workspace \<open>/p\<close> with the files \<open>a.rs\<close> and \<open>b.rs\<close>, the second of which is not UTF-8, on the
  analyzer of the facade with one function around every range, which returns a \<open>Result\<close>.
\<close>

type_synonym rust_erased = "rust_fn_signature + rust_resolved_type + adt_flags + rust_import_source + reexports"

definition example_rust_types :: "rust_erased rust_types" where
  "example_rust_types =
     \<lparr>R_fn_signature = \<lparr>deco_key = DecorationKey ''fn'', deco_erase = Inl, deco_downcast = (\<lambda>e. case e of Inl v \<Rightarrow> Some v | _ \<Rightarrow> None)\<rparr>,
      R_resolved_type = \<lparr>deco_key = DecorationKey ''type'', deco_erase = Inr \<circ> Inl,
        deco_downcast = (\<lambda>e. case e of Inr (Inl v) \<Rightarrow> Some v | _ \<Rightarrow> None)\<rparr>,
      R_adt_flags = \<lparr>deco_key = DecorationKey ''adt'', deco_erase = Inr \<circ> Inr \<circ> Inl,
        deco_downcast = (\<lambda>e. case e of Inr (Inr (Inl v)) \<Rightarrow> Some v | _ \<Rightarrow> None)\<rparr>,
      R_import_source = \<lparr>deco_key = DecorationKey ''import'', deco_erase = Inr \<circ> Inr \<circ> Inr \<circ> Inl,
        deco_downcast = (\<lambda>e. case e of Inr (Inr (Inr (Inl v))) \<Rightarrow> Some v | _ \<Rightarrow> None)\<rparr>,
      R_reexports = \<lparr>deco_key = DecorationKey ''reexports'', deco_erase = Inr \<circ> Inr \<circ> Inr \<circ> Inr,
        deco_downcast = (\<lambda>e. case e of Inr (Inr (Inr (Inr v))) \<Rightarrow> Some v | _ \<Rightarrow> None)\<rparr>\<rparr>"

definition example_hir :: "(nat, nat, nat, nat, nat, nat, nat) hir" where
  "example_hir = facade_hir
     \<lparr>node_is_fn := (\<lambda>_. True), sema_fn_to_def := Some, hir_core_result := (\<lambda>_. Some 7),
      ty_as_adt := (\<lambda>_. Some (AdtEnum 7)), ty_as_adt_with_args := (\<lambda>_. Some (AdtEnum 7, [Some 0, Some 0]))\<rparr>"

definition example_analyzer :: "(nat, nat, nat, nat, nat, nat, nat) rust_analyzer" where
  "example_analyzer = \<lparr>ra_hir = (\<lambda>_. example_hir), ra_module_reads = (\<lambda>_ _. [0, 1]), ra_answer_reads = (\<lambda>_ _. [0])\<rparr>"

definition example_read :: "path \<Rightarrow> string option" where
  "example_read p = (if p = ''/p/b.rs'' then Some [CHR 0xFF] else None)"

definition example_vfs :: "nat vfs" where
  "example_vfs = \<lparr>vfs_iter = [(0, Some ''/p/a.rs''), (1, Some ''/p/b.rs'')],
     vfs_file_id = (\<lambda>name. if name = ''/p/a.rs'' then Some (0, False) else if name = ''/p/b.rs'' then Some (1, False) else None)\<rparr>"

definition example_loader :: "(nat, unit, unit, unit, unit) cargo_loader" where
  "example_loader =
     \<lparr>cl_discover_single = (\<lambda>_. Ok ()), cl_load = (\<lambda>_. Ok ()), cl_run_build_scripts = (\<lambda>_. Ok ()),
      cl_set_build_scripts = (\<lambda>_ w. w), cl_workspace_root = (\<lambda>_. ''/p''),
      cl_load_workspace = (\<lambda>_. Ok ([0 \<mapsto> ''fn f() {}''], example_vfs))\<rparr>"

definition example_rust_provider :: "nat rust_provider" where
  "example_rust_provider =
     \<lparr>rp_texts = give_text_to_files_that_have_none example_read example_vfs ''/p'' [0 \<mapsto> ''fn f() {}''],
      rp_poisoned = False, rp_vfs = example_vfs, rp_root = ''/p''\<rparr>"

definition example_rust_tree :: "path \<Rightarrow> rust_erased decorated_tree" where
  "example_rust_tree p = DecoratedTree_new (TsNode 1 ''source_file'' 0 9 True None [TsNode 2 ''function_item'' 0 9 True None []])
     Rust ''fn f() {}'' p"

lemma example_finite: "finite_modules example_hir"
  unfolding finite_modules_def
proof (intro allI impI)
  fix ctx :: facade_ctx and krate
  assume "ctx_sema ctx = example_hir"
  then show "finite (public_modules ctx krate)"
    by (intro public_modules_finite [of "{10, 11}"])
      (auto simp: entry_step_def example_hir_def facade_hir_def facade_scope_def split: if_splits)
qed

lemma example_loaded: "load_rust example_loader example_read (Ok ''/'') ''p'' = Ok example_rust_provider"
proof -
  have "to_str (path_join ''/'' ''p'') \<noteq> None" by code_simp
  then show ?thesis by (auto simp: load_rust_def example_loader_def example_rust_provider_def Let_def)
qed

lemma example_interned: "cl_load_workspace example_loader w = Ok (texts, vfs) \<Longrightarrow> well_interned example_read texts vfs"
proof -
  have bad: "\<not> utf8_valid [CHR 0xFF]" by code_simp
  assume "cl_load_workspace example_loader w = Ok (texts, vfs)"
  then show ?thesis using bad by (auto simp: example_loader_def well_interned_def example_vfs_def example_read_def split: if_splits)
qed

lemma example_reads: "reads_listed example_read example_rust_provider example_analyzer"
proof -
  have "path_starts_with ''/p/a.rs'' ''/p''" "path_starts_with ''/p/b.rs'' ''/p''" by code_simp+
  then show ?thesis by (auto simp: reads_listed_def example_rust_provider_def example_vfs_def example_analyzer_def)
qed

theorem rust_decorate_answers_witness:
  "\<exists>coverage. rust_decorate example_rust_types example_analyzer (Ok ''/'') example_rust_provider (example_rust_tree ''/p/b.rs'')
     = Some (Ok coverage)"
proof -
  have p: "absolute_path (Ok ''/'') (as_path (dt_file (example_rust_tree ''/p/b.rs''))) = Ok ''/p/b.rs''" by code_simp
  have utf8: "utf8_valid ''/p/b.rs''" by code_simp
  have under: "path_starts_with ''/p/b.rs'' (rp_root example_rust_provider)"
    by (simp add: example_rust_provider_def) code_simp
  have interned: "\<forall>w texts vfs. cl_load_workspace example_loader w = Ok (texts, vfs) \<longrightarrow> well_interned example_read texts vfs"
    using example_interned by blast
  have modules: "\<forall>texts. finite_modules (ra_hir example_analyzer texts)" by (simp add: example_analyzer_def example_finite)
  from rust_decorate_answers [OF example_loaded interned example_reads modules p utf8 under, of example_rust_types]
  show ?thesis by blast
qed

theorem resolve_function_consistent_witness:
  "\<exists>sig rt. resolve_function (file_ctx example_hir 0 0) \<lparr>range_start = 0, range_end = 9\<rparr> = Some sig \<and>
     rfs_return_type sig = Some rt \<and> rrt_result_kind rt = ResultKindResult"
proof -
  let ?rng = "\<lparr>range_start = 0, range_end = 9\<rparr>"
  obtain sig where sig: "resolve_function (file_ctx example_hir 0 0) ?rng = Some sig" "rfs_error_type sig \<noteq> None"
    by (simp add: resolve_function_def find_enclosing_fn_def enclosing_def covering_node_def file_ctx_def range_is_empty_def
        contains_range_def example_hir_def facade_hir_def effective_return_type_def result_error_type_def nth_opt_def Let_def)
  have args: "\<forall>ty adt args. ty_as_adt_with_args (ctx_sema (file_ctx example_hir 0 0)) ty = Some (adt, args) \<longrightarrow>
      ty_as_adt (ctx_sema (file_ctx example_hir 0 0)) ty = Some adt"
    by (simp add: file_ctx_def example_hir_def Let_def)
  from resolve_function_consistent [OF args sig(1)] sig show ?thesis by blast
qed

lemma example_rust_nodes:
  "visited_nodes (dt_root_node (example_rust_tree p)) =
     [dt_root_node (example_rust_tree p), dn_sibling (dt_root_node (example_rust_tree p)) (TsNode 2 ''function_item'' 0 9 True None [])]"
  by (simp add: visited_nodes.simps dn_named_children_eq example_rust_tree_def DecoratedTree_new_def dt_root_node_def
      dn_named_child_count_def ts_named_children_def dn_sibling_def)

lemma example_rust_covered:
  "\<exists>m. rust_decorate example_rust_types example_analyzer (Ok ''/'') example_rust_provider (example_rust_tree ''/p/a.rs'') = Some (Ok (Covered m))"
proof -
  have p: "absolute_path (Ok ''/'') (as_path (dt_file (example_rust_tree ''/p/a.rs''))) = Ok ''/p/a.rs''" by code_simp
  have lossy: "utf8_lossy ''/p/a.rs'' = ''/p/a.rs''" by code_simp
  have t: "rp_texts example_rust_provider 0 = Some ''fn f() {}''" by code_simp
  have "\<exists>m. resolve_targets example_rust_types example_hir 0 0 ts = Some m" for ts
    using resolve_loop_total [of "file_ctx example_hir 0 0" "(Map.empty, map_new)" example_rust_types ts] example_finite
    by (auto simp: resolve_targets_def file_ctx_def Let_def cache_right_def)
  moreover have "sema_file_to_module_def example_hir 0 = Some 0" by (simp add: example_hir_def facade_hir_def)
  moreover have "dt_source (example_rust_tree ''/p/a.rs'') = ''fn f() {}''" by (simp add: example_rust_tree_def DecoratedTree_new_def)
  moreover have "rp_texts example_rust_provider 1 \<noteq> None" by code_simp
  moreover have "vfs_file_id (rp_vfs example_rust_provider) ''/p/a.rs'' = Some (0, False)" "\<not> rp_poisoned example_rust_provider"
    by (simp_all add: example_rust_provider_def example_vfs_def)
  ultimately show ?thesis
    using p lossy t by (auto simp: rust_decorate_def example_analyzer_def reads_panic_def Let_def)
qed

theorem rust_decorate_reads_witness:
  "\<exists>m. rust_decorate example_rust_types example_analyzer (Ok ''/'') example_rust_provider (example_rust_tree ''/p/a.rs'')
       = Some (Ok (Covered m)) \<and> fst (map_get (R_fn_signature example_rust_types) 2 m) \<noteq> None"
proof -
  let ?tree = "example_rust_tree ''/p/a.rs''"
  let ?n = "dn_sibling (dt_root_node ?tree) (TsNode 2 ''function_item'' 0 9 True None [])"
  obtain m where m: "rust_decorate example_rust_types example_analyzer (Ok ''/'') example_rust_provider ?tree = Some (Ok (Covered m))"
    using example_rust_covered by blast
  have stable: "rust_stable example_rust_types" by (simp add: rust_stable_def rust_keys_def example_rust_types_def stable_downcast_def)
  from rust_decorate_reads [OF m stable] obtain f module where
    read: "fst (map_get (R_fn_signature example_rust_types) 2 m) =
      map_of (concat (map (signature_answers (file_ctx example_hir f module)) (visited_nodes (dt_root_node ?tree)))) 2"
    by (auto simp: Let_def example_analyzer_def)
  have "text_range_of ?n = Some \<lparr>range_start = 0, range_end = 9\<rparr>"
    by (simp add: text_range_of_def text_range_from_def u32_try_from_def dn_sibling_def ts_end_def)
  moreover have "resolve_function (file_ctx example_hir f module) \<lparr>range_start = 0, range_end = 9\<rparr> \<noteq> None"
    by (simp add: resolve_function_def find_enclosing_fn_def enclosing_def covering_node_def file_ctx_def range_is_empty_def
        contains_range_def example_hir_def facade_hir_def effective_return_type_def Let_def)
  ultimately have "signature_answers (file_ctx example_hir f module) ?n \<noteq> []"
      "fst ` set (signature_answers (file_ctx example_hir f module) ?n) \<subseteq> {2}"
    by (auto simp: signature_answers_def answer_for_def dn_kind_def dn_id_def dn_sibling_def)
  moreover have "signature_answers (file_ctx example_hir f module) (dt_root_node ?tree) = []"
    by (simp add: signature_answers_def dn_kind_def dt_root_node_def example_rust_tree_def DecoratedTree_new_def)
  ultimately have "map_of (concat (map (signature_answers (file_ctx example_hir f module)) (visited_nodes (dt_root_node ?tree)))) 2 \<noteq> None"
    unfolding example_rust_nodes map_of_eq_None_iff by (cases "signature_answers (file_ctx example_hir f module) ?n") auto
  with m read show ?thesis by auto
qed

end
