(* ===== verification/RustDecorations.thy ===== *)
theory RustDecorations
  imports RustProvider
begin

text \<open>
  What a rule asks of the Rust decorations it reads: the types of \<open>crates/stiles-rust/src/decorations\<close>
  (\<open>type_path.rs\<close>, \<open>type_path_ref.rs\<close>, \<open>error_type.rs\<close>, \<open>resolved_type.rs\<close>, \<open>adt_flags.rs\<close>,
  \<open>public_path.rs\<close>).
\<close>

section \<open>Paths\<close>

record type_path_ref =
  tpr_krate :: string
  tpr_modules :: "string list"
  tpr_name :: string

definition TypePath_new :: "string \<Rightarrow> string list \<Rightarrow> string \<Rightarrow> type_path" where
  "TypePath_new krate modules name = \<lparr>tp_krate = krate, tp_modules = modules, tp_name = name\<rparr>"

definition type_path_display :: "type_path \<Rightarrow> string" where
  "type_path_display p = fold (\<lambda>segment out. out @ ''::'' @ segment) (tp_modules p) (tp_krate p) @ ''::'' @ tp_name p"

definition type_path_eq :: "type_path \<Rightarrow> type_path_ref \<Rightarrow> bool" where
  "type_path_eq p other =
     (tp_krate p = tpr_krate other \<and> tp_name p = tpr_name other \<and> length (tp_modules p) = length (tpr_modules other) \<and>
      list_all (\<lambda>(lhs, rhs). lhs = rhs) (zip (tp_modules p) (tpr_modules other)))"

fun error_type_is :: "error_type \<Rightarrow> type_path_ref \<Rightarrow> bool" where
  "error_type_is (ErrorNamed actual) p = type_path_eq actual p"
| "error_type_is ErrorGeneric p = False"
| "error_type_is ErrorUnnamed p = False"

definition PublicPath_new :: "string \<Rightarrow> string list \<Rightarrow> public_path" where
  "PublicPath_new krate segments = \<lparr>pp_krate = krate, pp_segments = segments\<rparr>"

definition public_path_display :: "public_path \<Rightarrow> string" where
  "public_path_display p = fold (\<lambda>segment out. out @ ''::'' @ segment) (pp_segments p) (pp_krate p)"

section \<open>Types\<close>

definition with_adt_kind :: "adt_kind \<Rightarrow> rust_resolved_type \<Rightarrow> rust_resolved_type" where
  "with_adt_kind kind t = t\<lparr>rrt_adt_kind := kind\<rparr>"

definition with_never_kind :: "never_kind \<Rightarrow> rust_resolved_type \<Rightarrow> rust_resolved_type" where
  "with_never_kind kind t = t\<lparr>rrt_never_kind := kind\<rparr>"

definition with_result_kind :: "result_kind \<Rightarrow> rust_resolved_type \<Rightarrow> rust_resolved_type" where
  "with_result_kind kind t = t\<lparr>rrt_result_kind := kind\<rparr>"

definition with_option_kind :: "option_kind \<Rightarrow> rust_resolved_type \<Rightarrow> rust_resolved_type" where
  "with_option_kind kind t = t\<lparr>rrt_option_kind := kind\<rparr>"

definition is_enum :: "rust_resolved_type \<Rightarrow> bool" where
  "is_enum t = (case rrt_adt_kind t of AdtKindEnum \<Rightarrow> True | AdtKindOther \<Rightarrow> False)"

definition is_never :: "rust_resolved_type \<Rightarrow> bool" where
  "is_never t = (case rrt_never_kind t of NeverKindNever \<Rightarrow> True | NeverKindOther \<Rightarrow> False)"

definition is_result :: "rust_resolved_type \<Rightarrow> bool" where
  "is_result t = (case rrt_result_kind t of ResultKindResult \<Rightarrow> True | ResultKindOther \<Rightarrow> False)"

definition is_option :: "rust_resolved_type \<Rightarrow> bool" where
  "is_option t = (case rrt_option_kind t of OptionKindOption \<Rightarrow> True | OptionKindOther \<Rightarrow> False)"

definition non_exhaustive_external :: "adt_flags \<Rightarrow> bool" where
  "non_exhaustive_external f = (case flags_exhaustiveness f of Exhaustive \<Rightarrow> False | NonExhaustive \<Rightarrow> True)"

section \<open>Comparing and printing paths\<close>

text \<open>An error type is the one a rule names exactly when it is named by the same crate, modules and name.\<close>

theorem error_type_is_iff:
  "error_type_is e p \<longleftrightarrow> e = ErrorNamed (TypePath_new (tpr_krate p) (tpr_modules p) (tpr_name p))"
proof (cases e)
  case (ErrorNamed t)
  have "list_all (\<lambda>(a, b). a = b) (zip xs ys) \<longleftrightarrow> xs = ys" if "length xs = length ys" for xs ys :: "string list"
    using that by (induction xs ys rule: list_induct2) auto
  with ErrorNamed show ?thesis by (cases t) (auto simp: type_path_eq_def TypePath_new_def)
qed simp_all

text \<open>Segments behind colons are told apart by the text, when no segment has a colon itself.\<close>

definition joined :: "string \<Rightarrow> string list \<Rightarrow> string" where
  "joined krate segments = krate @ concat (map (\<lambda>s. ''::'' @ s) segments)"

lemma fold_segments: "fold (\<lambda>segment out. out @ ''::'' @ segment) segments out = joined out segments"
  by (induction segments arbitrary: out) (simp_all add: joined_def)

lemma joined_snoc: "joined krate segments @ ''::'' @ s = joined krate (segments @ [s])"
  by (simp add: joined_def)

lemma colon_split:
  fixes a b x y :: string
  assumes "CHR '':'' \<notin> set a" "CHR '':'' \<notin> set b" "x = [] \<or> hd x = CHR '':''" "y = [] \<or> hd y = CHR '':''" "a @ x = b @ y"
  shows "a = b \<and> x = y"
proof -
  have "takeWhile (\<lambda>c. c \<noteq> CHR '':'') (s @ z) = s" if "CHR '':'' \<notin> set s" "z = [] \<or> hd z = CHR '':''" for s z :: string
  proof -
    from that(1) have "takeWhile (\<lambda>c. c \<noteq> CHR '':'') (s @ z) = s @ takeWhile (\<lambda>c. c \<noteq> CHR '':'') z"
      by (subst takeWhile_append2) auto
    with that(2) show ?thesis by (cases z) auto
  qed
  from this [of a x] this [of b y] assms have "a = b" by metis
  with assms show ?thesis by simp
qed

lemma colon_head: "concat (map (\<lambda>s. ''::'' @ s) ss) = [] \<or> hd (concat (map (\<lambda>s. ''::'' @ s) ss)) = CHR '':''"
  by (cases ss) simp_all

lemma segments_inject:
  assumes "\<forall>s \<in> set ss. CHR '':'' \<notin> set s" "\<forall>s \<in> set ts. CHR '':'' \<notin> set s"
    and "concat (map (\<lambda>s. ''::'' @ s) ss) = concat (map (\<lambda>s. ''::'' @ s) ts)"
  shows "ss = ts"
  using assms
proof (induction ss arbitrary: ts)
  case Nil
  then show ?case by (cases ts) simp_all
next
  case (Cons s ss)
  from Cons.prems(3) obtain t ts' where ts: "ts = t # ts'" by (cases ts) simp_all
  with Cons.prems colon_split [of s t "concat (map (\<lambda>s. ''::'' @ s) ss)" "concat (map (\<lambda>s. ''::'' @ s) ts')"] colon_head
  have "s = t \<and> concat (map (\<lambda>s. ''::'' @ s) ss) = concat (map (\<lambda>s. ''::'' @ s) ts')" by simp
  with Cons.IH [of ts'] Cons.prems ts show ?case by simp
qed

definition plain_segments :: "string \<Rightarrow> string list \<Rightarrow> bool" where
  "plain_segments krate ss \<longleftrightarrow> (\<forall>s \<in> set (krate # ss). CHR '':'' \<notin> set s)"

lemma joined_inject:
  assumes "plain_segments k ss" "plain_segments l ts"
    and "joined k ss = joined l ts"
  shows "k = l \<and> ss = ts"
proof -
  from assms colon_split [of k l "concat (map (\<lambda>s. ''::'' @ s) ss)" "concat (map (\<lambda>s. ''::'' @ s) ts)"] colon_head
  have "k = l" "concat (map (\<lambda>s. ''::'' @ s) ss) = concat (map (\<lambda>s. ''::'' @ s) ts)" by (simp_all add: plain_segments_def joined_def)
  with assms segments_inject [of ss ts] show ?thesis by (simp add: plain_segments_def)
qed

text \<open>Two paths of plain segments that print alike are equal, for the types of errors and for public paths.\<close>

theorem type_path_display_inject:
  assumes "plain_segments (tp_krate p) (tp_modules p @ [tp_name p])" "plain_segments (tp_krate q) (tp_modules q @ [tp_name q])"
    and "type_path_display p = type_path_display q"
  shows "p = q"
  using joined_inject [OF assms(1,2)] assms(3) unfolding type_path_display_def fold_segments joined_snoc by (auto intro: type_path.equality)

theorem public_path_display_inject:
  assumes "plain_segments (pp_krate p) (pp_segments p)" "plain_segments (pp_krate q) (pp_segments q)"
    and "public_path_display p = public_path_display q"
  shows "p = q"
  using joined_inject [OF assms(1,2)] assms(3) unfolding public_path_display_def fold_segments by (auto intro: public_path.equality)

end
