(* ===== verification/Codegen.thy ===== *)
theory Codegen
  imports Walker
begin

text \<open>
  Generated lint passes: \<open>crates/stiles-codegen/src\<close> (\<open>merge.rs\<close>, \<open>visitor.rs\<close>) and the adapter of
  \<open>crates/stiles-types/src/lint_pass_adapter.rs\<close>. The entries of \<open>node-types.json\<close> are records; serde
  reads and writes them and is an argument. The generated code is two things: its text, as the
  function writes it, and what it does when compiled, which is the record \<open>visitor\<close> of its match arms.
  The recursion through the supertypes ends only when no supertype contains itself, so it is a partial
  function.
\<close>

section \<open>Node types\<close>

record subtype_ref =
  sub_kind :: string
  sub_named :: bool

record node_type =
  nt_kind :: string
  nt_named :: bool
  nt_subtypes :: "subtype_ref list"

section \<open>Merging grammars\<close>

definition add_subtype :: "subtype_ref \<Rightarrow> subtype_ref list \<Rightarrow> subtype_ref list" where
  "add_subtype r refs = (if r \<in> set refs then refs else refs @ [r])"

text \<open>The body of the inner loop: the entry found is extended in place, or a new one is pushed.\<close>

fun merge_entry :: "node_type \<Rightarrow> node_type list \<Rightarrow> node_type list" where
  "merge_entry node [] = [node]"
| "merge_entry node (entry # merged) =
     (if nt_kind entry = nt_kind node \<and> nt_named entry = nt_named node
      then entry\<lparr>nt_subtypes := fold add_subtype (nt_subtypes node) (nt_subtypes entry)\<rparr> # merged
      else entry # merge_entry node merged)"

fun merge_grammars ::
  "(string \<Rightarrow> (node_type list, 'j) result) \<Rightarrow> string list \<Rightarrow> node_type list \<Rightarrow> (node_type list, 'j) result" where
  "merge_grammars from_str [] merged = Ok merged"
| "merge_grammars from_str (grammar # grammars) merged =
     result_bind (from_str grammar) (\<lambda>node_types. merge_grammars from_str grammars (fold merge_entry node_types merged))"

definition merge_node_types ::
  "(string \<Rightarrow> (node_type list, 'j) result) \<Rightarrow> (node_type list \<Rightarrow> (string, 'j) result) \<Rightarrow> string list \<Rightarrow> (string, 'j) result" where
  "merge_node_types from_str to_string grammars = result_bind (merge_grammars from_str grammars []) to_string"

section \<open>The visitor\<close>

definition method_name :: "string \<Rightarrow> string" where
  "method_name kind = ''check_'' @ (case kind of [] \<Rightarrow> kind | c # cs \<Rightarrow> if c = CHR ''_'' then cs else kind)"

definition concrete_nodes :: "node_type list \<Rightarrow> node_type list" where
  "concrete_nodes types = filter (\<lambda>n. nt_named n \<and> nt_subtypes n = []) types"

definition supertypes :: "node_type list \<Rightarrow> node_type list" where
  "supertypes types = filter (\<lambda>n. nt_named n \<and> nt_subtypes n \<noteq> []) types"

definition named_entry :: "node_type list \<Rightarrow> subtype_ref \<Rightarrow> node_type option" where
  "named_entry types r = (if sub_named r then find (\<lambda>n. nt_kind n = sub_kind r \<and> nt_named n) types else None)"

text \<open>\<open>leaves.retain(|kind| seen.insert(*kind))\<close>.\<close>

fun retain_new :: "'a set \<Rightarrow> 'a list \<Rightarrow> 'a list" where
  "retain_new seen [] = []"
| "retain_new seen (x # xs) = (if x \<in> seen then retain_new seen xs else x # retain_new (insert x seen) xs)"

text \<open>The loop over the references; the recursive call is on the references of the entry one names.\<close>

partial_function (option) leaf_loop :: "node_type list \<Rightarrow> subtype_ref list \<Rightarrow> string list option" where
  "leaf_loop types refs =
     (case refs of
        [] \<Rightarrow> Some []
      | r # rs \<Rightarrow>
          Option.bind
            (case named_entry types r of
               None \<Rightarrow> Some []
             | Some sub_node \<Rightarrow>
                 if nt_subtypes sub_node = [] then Some [nt_kind sub_node]
                 else Option.bind (leaf_loop types (nt_subtypes sub_node)) (\<lambda>leaves. Some (retain_new {} leaves)))
            (\<lambda>here. Option.bind (leaf_loop types rs) (\<lambda>later. Some (here @ later))))"

definition collect_leaf_subtypes :: "node_type list \<Rightarrow> node_type \<Rightarrow> string list option" where
  "collect_leaf_subtypes types supertype = map_option (retain_new {}) (leaf_loop types (nt_subtypes supertype))"

text \<open>
  The match arms of the generated \<open>dispatch\<close>: one match over the concrete kinds, then one match per
  supertype that has leaves.
\<close>

record visitor =
  vis_arms :: "(string \<times> string) list"
  vis_supertypes :: "(string list \<times> string) list"

fun supertype_matches :: "node_type list \<Rightarrow> node_type list \<Rightarrow> (string list \<times> string) list option" where
  "supertype_matches types [] = Some []"
| "supertype_matches types (s # ss) =
     Option.bind (collect_leaf_subtypes types s) (\<lambda>subtype_kinds.
       Option.bind (supertype_matches types ss) (\<lambda>rest.
         Some (if subtype_kinds = [] then rest else (subtype_kinds, method_name (nt_kind s)) # rest)))"

definition visitor_of :: "node_type list \<Rightarrow> visitor option" where
  "visitor_of types =
     map_option (\<lambda>matches. \<lparr>vis_arms = map (\<lambda>n. (nt_kind n, method_name (nt_kind n))) (concrete_nodes types), vis_supertypes = matches\<rparr>)
       (supertype_matches types (supertypes types))"

section \<open>The text\<close>

definition text_lines :: "string list \<Rightarrow> string" where
  "text_lines ls = concat (map (\<lambda>l. l @ newline) ls)"

definition trait_head :: "string \<Rightarrow> string \<Rightarrow> string" where
  "trait_head language trait_name = text_lines
     [''use stiles_types::{DecoratedNode, Diagnostic, RuleOptions};'', [],
      ''/// Trait for '' @ language @ '' lint rules'',
      ''///'',
      ''/// Generated from the '' @ language @ '' tree-sitter grammar's `node-types.json`.'',
      ''/// Each method corresponds to a named node type in the grammar and'',
      ''/// defaults to returning no diagnostics.'',
      ''///'',
      ''/// `Send + Sync` comes from `LintPass`, which every pass reaches the'',
      ''/// pipeline as. Requiring it here reports a pass that cannot cross'',
      ''/// threads at the pass, rather than where it is wrapped.'',
      ''pub trait '' @ trait_name @ '': Send + Sync {'',
      ''    /// Applies the project's options to this pass'',
      ''    ///'',
      ''    /// A rule that reads no options leaves this alone. A rule that'',
      ''    /// reads one looks it up under its own id, because the table'',
      ''    /// covers every rule the project configured.'',
      ''    fn configure(&mut self, _options: &RuleOptions) {}'', []]"

definition trait_method :: "string \<Rightarrow> string \<Rightarrow> string" where
  "trait_method doc kind = text_lines
     [''    /// Checks '' @ doc,
      ''    fn '' @ method_name kind @ ''(&mut self, _node: &DecoratedNode<'_>) -> Vec<Diagnostic> {'',
      ''        Vec::new()'',
      ''    }'', []]"

definition dispatch_head :: "string \<Rightarrow> string" where
  "dispatch_head trait_name = text_lines
     [''/// Dispatches a node to the appropriate method on the lint pass'',
      ''///'',
      ''/// Calls the concrete node method and, if the node is a subtype of'',
      ''/// any supertype, also calls the supertype method.'',
      ''pub fn dispatch(pass: &mut dyn '' @ trait_name @ '', node: &DecoratedNode<'_>) -> Vec<Diagnostic> {'',
      ''    let mut diagnostics = Vec::new();'',
      ''    let kind = node.kind();'', [],
      ''    match kind {'']"

definition quoted :: "string \<Rightarrow> string" where
  "quoted s = CHR 0x22 # s @ [CHR 0x22]"

text \<open>Every pattern is followed by a bar and a line break, the last two bytes of which are cut off again.\<close>

definition supertype_text :: "string list \<times> string \<Rightarrow> string" where
  "supertype_text m =
     (let patterns = concat (map (\<lambda>k. ''        '' @ quoted k @ '' |'' @ newline) (fst m)) in
      text_lines [''    match kind {''] @ take (length patterns - 2) patterns
      @ text_lines ['' => diagnostics.extend(pass.'' @ snd m @ ''(node)),'', ''        _ => {}'', ''    }'', []])"

definition render_visitor :: "string \<Rightarrow> node_type list \<Rightarrow> visitor \<Rightarrow> string" where
  "render_visitor language types v =
     (let trait_name = language @ ''LintPass'' in
      trait_head language trait_name
      @ concat (map (\<lambda>n. trait_method (''a `'' @ nt_kind n @ ''` node'') (nt_kind n)) (concrete_nodes types))
      @ concat (map (\<lambda>n. trait_method (''any `'' @ nt_kind n @ ''` node (supertype)'') (nt_kind n)) (supertypes types))
      @ text_lines [''}'', []]
      @ dispatch_head trait_name
      @ concat (map (\<lambda>a. ''        '' @ quoted (fst a) @ '' => diagnostics.extend(pass.'' @ snd a @ ''(node)),'' @ newline) (vis_arms v))
      @ text_lines [''        _ => {}'', ''    }'', []]
      @ concat (map supertype_text (vis_supertypes v))
      @ text_lines [''    diagnostics'', ''}''])"

definition generate_visitor ::
  "(string \<Rightarrow> (node_type list, 'j) result) \<Rightarrow> string \<Rightarrow> string \<Rightarrow> (string, 'j) result option" where
  "generate_visitor from_str node_types_json language =
     (case from_str node_types_json of
        Inl e \<Rightarrow> Some (Err e)
      | Inr types \<Rightarrow> map_option (\<lambda>v. Ok (render_visitor language types v)) (visitor_of types))"

section \<open>The generated code and its adapter\<close>

text \<open>The methods the generated \<open>dispatch\<close> calls on a node of a kind, in order.\<close>

definition dispatch_methods :: "visitor \<Rightarrow> string \<Rightarrow> string list" where
  "dispatch_methods v kind =
     (case map_of (vis_arms v) kind of None \<Rightarrow> [] | Some m \<Rightarrow> [m])
     @ map snd (filter (\<lambda>m. kind \<in> set (fst m)) (vis_supertypes v))"

text \<open>A pass of a language: one function per method of its trait, and its configuration. Each may panic.\<close>

record ('s, 'e) language_pass =
  lp_state :: 's
  lp_configure :: "'s \<Rightarrow> rule_options \<Rightarrow> (unit, panic) result \<times> 's"
  lp_method :: "string \<Rightarrow> 's \<Rightarrow> 'e decorated_node \<Rightarrow> (diagnostic list, panic) result \<times> 's"

fun run_methods ::
  "('s, 'e) language_pass \<Rightarrow> 'e decorated_node \<Rightarrow> string list \<Rightarrow> 's \<Rightarrow> diagnostic list \<Rightarrow> (diagnostic list, panic) result \<times> 's" where
  "run_methods p node [] s diagnostics = (Ok diagnostics, s)"
| "run_methods p node (m # ms) s diagnostics =
     (case lp_method p m s node of
        (Inl e, s') \<Rightarrow> (Err e, s')
      | (Inr found, s') \<Rightarrow> run_methods p node ms s' (diagnostics @ found))"

definition lint_pass_adapter :: "visitor \<Rightarrow> language \<Rightarrow> ('s, 'e) language_pass \<Rightarrow> ('s, 'e) lint_pass" where
  "lint_pass_adapter v language p =
     \<lparr>pass_state = lp_state p, pass_language = (\<lambda>_. language), pass_configure = lp_configure p,
      pass_check_node = (\<lambda>s node. run_methods p node (dispatch_methods v (dn_kind node)) s [])\<rparr>"

section \<open>The merge keeps everything once\<close>

lemma retain_new_set: "set (retain_new seen xs) = set xs - seen"
  by (induction xs arbitrary: seen) auto

lemma retain_new_distinct: "distinct (retain_new seen xs)"
  by (induction xs arbitrary: seen) (auto simp: retain_new_set)

lemma retain_new_append: "retain_new seen (xs @ ys) = retain_new seen xs @ retain_new (seen \<union> set xs) ys"
  by (induction xs arbitrary: seen) (auto simp: insert_absorb)

definition entry_of :: "node_type \<Rightarrow> string \<times> bool" where
  "entry_of n = (nt_kind n, nt_named n)"

definition subtypes_in :: "node_type list \<Rightarrow> string \<times> bool \<Rightarrow> subtype_ref set" where
  "subtypes_in types k = (\<Union>n \<in> {n \<in> set types. entry_of n = k}. set (nt_subtypes n))"

lemma set_fold_add_subtype: "set (fold add_subtype rs refs) = set refs \<union> set rs"
  by (induction rs arbitrary: refs) (auto simp: add_subtype_def)

lemma merge_entry_keys:
  "map entry_of (merge_entry n ms) = (if entry_of n \<in> entry_of ` set ms then map entry_of ms else map entry_of ms @ [entry_of n])"
  by (induction ms) (auto simp: entry_of_def)

lemma subtypes_in_Cons: "subtypes_in (n # ns) k = (if entry_of n = k then set (nt_subtypes n) else {}) \<union> subtypes_in ns k"
  by (auto simp: subtypes_in_def)

lemma subtypes_in_Nil [simp]: "subtypes_in [] k = {}"
  by (simp add: subtypes_in_def)

lemma merge_entry_subtypes: "subtypes_in (merge_entry n ms) k = subtypes_in ms k \<union> subtypes_in [n] k"
proof (induction ms)
  case Nil
  then show ?case by (simp add: subtypes_in_def)
next
  case (Cons e ms)
  then show ?case
    by (auto simp: subtypes_in_Cons set_fold_add_subtype entry_of_def)
qed

lemma fold_merge_entry:
  "map entry_of (fold merge_entry ns ms) = map entry_of ms @ retain_new (set (map entry_of ms)) (map entry_of ns)"
  "subtypes_in (fold merge_entry ns ms) k = subtypes_in ms k \<union> subtypes_in ns k"
proof -
  show "map entry_of (fold merge_entry ns ms) = map entry_of ms @ retain_new (set (map entry_of ms)) (map entry_of ns)"
    by (induction ns arbitrary: ms) (auto simp: merge_entry_keys simp flip: set_map)
  show "subtypes_in (fold merge_entry ns ms) k = subtypes_in ms k \<union> subtypes_in ns k"
    by (induction ns arbitrary: ms) (auto simp: merge_entry_subtypes subtypes_in_Cons)
qed

lemma merge_grammars_parsed:
  assumes "merge_grammars from_str gs ms = Ok merged"
  shows "\<exists>parsed. list_all2 (\<lambda>g ts. from_str g = Ok ts) gs parsed \<and> merged = fold merge_entry (concat parsed) ms"
  using assms
proof (induction gs arbitrary: ms)
  case (Cons g gs)
  then obtain ts where ts: "from_str g = Ok ts" "merge_grammars from_str gs (fold merge_entry ts ms) = Ok merged"
    by (auto simp: result_bind_eq_Ok)
  from Cons.IH [OF this(2)] obtain parsed where
    "list_all2 (\<lambda>g ts. from_str g = Ok ts) gs parsed" "merged = fold merge_entry (concat parsed) (fold merge_entry ts ms)" by blast
  with ts(1) show ?case by (intro exI [of _ "ts # parsed"]) simp
qed simp

text \<open>
  Merging the grammars of a language keeps every kind once and loses no subtype. The merged entries
  are the entries of all grammars in the order in which each kind first appears, no kind with the same
  naming twice, and the subtypes of a kind are all that any grammar gives it, and no others.
\<close>

theorem merge_node_types_complete:
  assumes "merge_node_types from_str to_string grammars = Ok merged_json"
  shows "\<exists>parsed merged. list_all2 (\<lambda>g ts. from_str g = Ok ts) grammars parsed \<and> to_string merged = Ok merged_json \<and>
     distinct (map entry_of merged) \<and> map entry_of merged = retain_new {} (map entry_of (concat parsed)) \<and>
     (\<forall>k. subtypes_in merged k = subtypes_in (concat parsed) k)"
proof -
  from assms obtain merged where merged: "merge_grammars from_str grammars [] = Ok merged" "to_string merged = Ok merged_json"
    by (auto simp: merge_node_types_def result_bind_eq_Ok)
  from merge_grammars_parsed [OF merged(1)] obtain parsed where
    parsed: "list_all2 (\<lambda>g ts. from_str g = Ok ts) grammars parsed" "merged = fold merge_entry (concat parsed) []" by blast
  from fold_merge_entry(1) [of "concat parsed" "[]"] have keys: "map entry_of merged = retain_new {} (map entry_of (concat parsed))"
    by (simp add: parsed(2))
  moreover have "distinct (map entry_of merged)" unfolding keys by (rule retain_new_distinct)
  moreover have "subtypes_in merged k = subtypes_in (concat parsed) k" for k
    using fold_merge_entry(2) [of "concat parsed" "[]" k] by (simp add: parsed(2) subtypes_in_def)
  ultimately show ?thesis using parsed(1) merged(2) by blast
qed

section \<open>The leaves of a supertype\<close>

definition supertype_rel :: "node_type list \<Rightarrow> (node_type \<times> node_type) set" where
  "supertype_rel types = {(t, s). nt_subtypes t \<noteq> [] \<and> (\<exists>r \<in> set (nt_subtypes s). named_entry types r = Some t)}"

inductive leaf :: "node_type list \<Rightarrow> node_type \<Rightarrow> string \<Rightarrow> bool" for types where
  leaf_here: "r \<in> set (nt_subtypes s) \<Longrightarrow> named_entry types r = Some t \<Longrightarrow> nt_subtypes t = [] \<Longrightarrow> leaf types s (nt_kind t)"
| leaf_below: "r \<in> set (nt_subtypes s) \<Longrightarrow> named_entry types r = Some t \<Longrightarrow> nt_subtypes t \<noteq> [] \<Longrightarrow> leaf types t k \<Longrightarrow> leaf types s k"

inductive_simps leaf_iff: "leaf types s k"

definition leaf_of_ref :: "node_type list \<Rightarrow> subtype_ref \<Rightarrow> string set" where
  "leaf_of_ref types r = (case named_entry types r of None \<Rightarrow> {}
     | Some t \<Rightarrow> if nt_subtypes t = [] then {nt_kind t} else {k. leaf types t k})"

lemma leaves_of_refs: "{k. leaf types s k} = (\<Union>r \<in> set (nt_subtypes s). leaf_of_ref types r)"
  by (auto simp: leaf_iff [of types s] leaf_of_ref_def split: option.splits if_splits)

lemma leaf_loop_refs:
  assumes "\<And>r t. r \<in> set refs \<Longrightarrow> named_entry types r = Some t \<Longrightarrow> nt_subtypes t \<noteq> [] \<Longrightarrow>
      \<exists>ls. leaf_loop types (nt_subtypes t) = Some ls \<and> set ls = {k. leaf types t k}"
  shows "\<exists>ls. leaf_loop types refs = Some ls \<and> set ls = (\<Union>r \<in> set refs. leaf_of_ref types r)"
  using assms
proof (induction refs)
  case Nil
  then show ?case by (simp add: leaf_loop.simps)
next
  case (Cons r rs)
  from Cons obtain later where later: "leaf_loop types rs = Some later" "set later = (\<Union>r \<in> set rs. leaf_of_ref types r)"
    by (metis list.set_intros(2))
  have "\<exists>here. (case named_entry types r of None \<Rightarrow> Some [] | Some sub_node \<Rightarrow>
      if nt_subtypes sub_node = [] then Some [nt_kind sub_node]
      else Option.bind (leaf_loop types (nt_subtypes sub_node)) (\<lambda>leaves. Some (retain_new {} leaves))) = Some here \<and>
      set here = leaf_of_ref types r"
    using Cons.prems [of r] by (auto simp: leaf_of_ref_def retain_new_set split: option.splits)
  then obtain here where "(case named_entry types r of None \<Rightarrow> Some [] | Some sub_node \<Rightarrow>
      if nt_subtypes sub_node = [] then Some [nt_kind sub_node]
      else Option.bind (leaf_loop types (nt_subtypes sub_node)) (\<lambda>leaves. Some (retain_new {} leaves))) = Some here"
    "set here = leaf_of_ref types r" by blast
  with later show ?case by (subst leaf_loop.simps) simp
qed

lemma leaf_loop_acc:
  assumes "s \<in> Wellfounded.acc (supertype_rel types)"
  shows "\<exists>ls. leaf_loop types (nt_subtypes s) = Some ls \<and> set ls = {k. leaf types s k}"
  using assms
proof (induction rule: acc.induct)
  case (accI s)
  then show ?case unfolding leaves_of_refs [of types s] by (intro leaf_loop_refs) (auto simp: supertype_rel_def)
qed

lemma leaf_loop_Some_acc:
  assumes "leaf_loop types refs = Some ls"
  shows "\<forall>r \<in> set refs. \<forall>t. named_entry types r = Some t \<longrightarrow> nt_subtypes t \<noteq> [] \<longrightarrow> t \<in> Wellfounded.acc (supertype_rel types)"
proof (rule leaf_loop.raw_induct [where P = "\<lambda>types refs ls. \<forall>r \<in> set refs. \<forall>t.
    named_entry types r = Some t \<longrightarrow> nt_subtypes t \<noteq> [] \<longrightarrow> t \<in> Wellfounded.acc (supertype_rel types)", OF _ assms], intro ballI allI impI)
  fix loop :: "node_type list \<Rightarrow> subtype_ref list \<Rightarrow> string list option" and types refs ls r t
  let ?ok = "\<lambda>refs. \<forall>r \<in> set refs. \<forall>t. named_entry types r = Some t \<longrightarrow> nt_subtypes t \<noteq> [] \<longrightarrow> t \<in> Wellfounded.acc (supertype_rel types)"
  assume "\<And>types refs y. loop types refs = Some y \<Longrightarrow> \<forall>r \<in> set refs. \<forall>t.
      named_entry types r = Some t \<longrightarrow> nt_subtypes t \<noteq> [] \<longrightarrow> t \<in> Wellfounded.acc (supertype_rel types)"
  then have IH: "\<And>refs y. loop types refs = Some y \<Longrightarrow> ?ok refs" by blast
  assume body: "(case refs of [] \<Rightarrow> Some [] | r # rs \<Rightarrow> Option.bind (case named_entry types r of None \<Rightarrow> Some []
       | Some sub_node \<Rightarrow> if nt_subtypes sub_node = [] then Some [nt_kind sub_node]
           else Option.bind (loop types (nt_subtypes sub_node)) (\<lambda>leaves. Some (retain_new {} leaves)))
      (\<lambda>here. Option.bind (loop types rs) (\<lambda>later. Some (here @ later)))) = Some ls"
  assume r: "r \<in> set refs" and t: "named_entry types r = Some t" "nt_subtypes t \<noteq> []"
  then obtain r' rs where refs: "refs = r' # rs" by (cases refs) auto
  show "t \<in> Wellfounded.acc (supertype_rel types)"
  proof (cases "r \<in> set rs")
    case True
    from body refs obtain later where "loop types rs = Some later" by (auto simp: bind_eq_Some_conv)
    with IH True t show ?thesis by blast
  next
    case False
    with r refs body t obtain leaves where leaves: "loop types (nt_subtypes t) = Some leaves" by (auto simp: bind_eq_Some_conv)
    show ?thesis by (rule Wellfounded.acc.intros) (use IH [OF leaves] in \<open>auto simp: supertype_rel_def\<close>)
  qed
qed

lemma collect_leaf_subtypes_cases:
  "case collect_leaf_subtypes types s of
     None \<Rightarrow> s \<notin> Wellfounded.acc (supertype_rel types)
   | Some leaves \<Rightarrow> s \<in> Wellfounded.acc (supertype_rel types) \<and> distinct leaves \<and> set leaves = {k. leaf types s k}"
proof (cases "leaf_loop types (nt_subtypes s)")
  case None
  then show ?thesis using leaf_loop_acc [of s types] by (auto simp: collect_leaf_subtypes_def)
next
  case (Some ls)
  have acc: "s \<in> Wellfounded.acc (supertype_rel types)"
    by (rule Wellfounded.acc.intros) (use leaf_loop_Some_acc [OF Some] in \<open>auto simp: supertype_rel_def\<close>)
  from leaf_loop_acc [OF this] Some have "set ls = {k. leaf types s k}" by simp
  with Some acc show ?thesis by (simp add: collect_leaf_subtypes_def retain_new_set retain_new_distinct)
qed

text \<open>
  C30: The search for the leaves of a supertype ends exactly when no chain of supertypes below it goes on
  for ever, and then it gives the concrete kinds that can be reached through its subtypes, each once.
\<close>

theorem collect_leaf_subtypes_leaves:
  "case collect_leaf_subtypes types s of
     None \<Rightarrow> s \<notin> Wellfounded.acc (supertype_rel types)
   | Some leaves \<Rightarrow> s \<in> Wellfounded.acc (supertype_rel types) \<and> distinct leaves \<and> set leaves = {k. leaf types s k}"
  by (rule collect_leaf_subtypes_cases)

lemma supertype_matches_leaves:
  assumes "wf (supertype_rel types)"
  shows "\<exists>ms. supertype_matches types ss = Some ms \<and> (\<forall>m \<in> set ms. distinct (fst m) \<and> fst m \<noteq> []) \<and>
     (\<forall>kind. map snd (filter (\<lambda>m. kind \<in> set (fst m)) ms) = map (method_name \<circ> nt_kind) (filter (\<lambda>s. leaf types s kind) ss))"
proof (induction ss)
  case (Cons s ss)
  have "s \<in> Wellfounded.acc (supertype_rel types)" using assms by (simp add: wf_iff_acc)
  with collect_leaf_subtypes_cases [where types = types and s = s] obtain leaves where
    leaves: "collect_leaf_subtypes types s = Some leaves" "distinct leaves" "set leaves = {k. leaf types s k}"
    by (auto split: option.splits)
  with Cons.IH show ?case by (auto simp: set_eq_iff)
qed simp

text \<open>
  C29: The generated dispatch routes a node to its own method and to the method of every supertype it
  belongs to. When no supertype contains itself, the code is generated, and what it calls for a node of
  a kind is the method of that kind, if it is a named kind without subtypes, and then, in the order of
  the grammar, the methods of exactly the supertypes from which the kind can be reached. No pattern of
  a match is repeated.
\<close>

theorem dispatch_methods_complete:
  assumes "wf (supertype_rel types)"
  shows "\<exists>v. visitor_of types = Some v \<and> (\<forall>m \<in> set (vis_supertypes v). distinct (fst m) \<and> fst m \<noteq> []) \<and>
     (\<forall>kind. dispatch_methods v kind =
        (if kind \<in> nt_kind ` set (concrete_nodes types) then [method_name kind] else [])
        @ map (method_name \<circ> nt_kind) (filter (\<lambda>s. leaf types s kind) (supertypes types)))"
proof -
  have arms: "map_of (map (\<lambda>n. (nt_kind n, method_name (nt_kind n))) ns) kind =
      (if kind \<in> nt_kind ` set ns then Some (method_name kind) else None)" for ns kind
    by (induction ns) auto
  from supertype_matches_leaves [OF assms, of "supertypes types"] show ?thesis
    by (auto simp: visitor_of_def dispatch_methods_def arms)
qed

section \<open>A small grammar\<close>

text \<open>Supertypes that go down by a rank do not contain themselves.\<close>

lemma supertype_rel_wf:
  fixes rank :: "node_type \<Rightarrow> nat"
  assumes "\<And>s t. s \<in> set types \<Longrightarrow> (t, s) \<in> supertype_rel types \<Longrightarrow> rank t < rank s"
  shows "wf (supertype_rel types)"
proof -
  have entry: "t \<in> set types" if "(t, s) \<in> supertype_rel types" for s t
    using that by (auto simp: supertype_rel_def named_entry_def find_Some_iff split: if_splits)
  have "t \<in> Wellfounded.acc (supertype_rel types)" if "t \<in> set types" for t
    using that
  proof (induction "rank t" arbitrary: t rule: less_induct)
    case less
    show ?case
    proof (rule Wellfounded.acc.intros)
      fix u
      assume "(u, t) \<in> supertype_rel types"
      with less assms entry show "u \<in> Wellfounded.acc (supertype_rel types)" by blast
    qed
  qed
  then have "s \<in> Wellfounded.acc (supertype_rel types)" for s using entry by (blast intro: Wellfounded.acc.intros)
  then show ?thesis by (simp add: wf_iff_acc)
qed

definition sample_types :: "node_type list" where
  "sample_types =
     [\<lparr>nt_kind = ''_expression'', nt_named = True, nt_subtypes = [\<lparr>sub_kind = ''_literal'', sub_named = True\<rparr>, \<lparr>sub_kind = ''call'', sub_named = True\<rparr>]\<rparr>,
      \<lparr>nt_kind = ''_literal'', nt_named = True, nt_subtypes = [\<lparr>sub_kind = ''integer'', sub_named = True\<rparr>]\<rparr>,
      \<lparr>nt_kind = ''call'', nt_named = True, nt_subtypes = []\<rparr>,
      \<lparr>nt_kind = ''integer'', nt_named = True, nt_subtypes = []\<rparr>]"

lemma sample_types_wf: "wf (supertype_rel sample_types)"
  by (rule supertype_rel_wf [of _ "\<lambda>n. if nt_kind n = ''_expression'' then 2 else if nt_kind n = ''_literal'' then 1 else 0"])
    (auto simp: sample_types_def supertype_rel_def named_entry_def)

theorem dispatch_methods_complete_witness:
  "\<exists>v. visitor_of sample_types = Some v \<and>
     dispatch_methods v ''integer'' = [''check_integer'', ''check_expression'', ''check_literal'']"
proof -
  have literal: "leaf sample_types (sample_types ! 1) ''integer''"
    using leaf_here [of "\<lparr>sub_kind = ''integer'', sub_named = True\<rparr>" "sample_types ! 1" sample_types "sample_types ! 3"]
    by (simp add: sample_types_def named_entry_def)
  moreover have "leaf sample_types (sample_types ! 0) ''integer''"
    using leaf_below [OF _ _ _ literal, of "\<lparr>sub_kind = ''_literal'', sub_named = True\<rparr>" "sample_types ! 0"]
    by (simp add: sample_types_def named_entry_def)
  ultimately have "map (method_name \<circ> nt_kind) (filter (\<lambda>s. leaf sample_types s ''integer'') (supertypes sample_types))
      = [''check_expression'', ''check_literal'']"
    by (simp add: sample_types_def supertypes_def method_name_def)
  moreover have "''integer'' \<in> nt_kind ` set (concrete_nodes sample_types)" by (simp add: sample_types_def concrete_nodes_def)
  moreover have "method_name ''integer'' = ''check_integer''" by (simp add: method_name_def)
  moreover obtain v where "visitor_of sample_types = Some v" "dispatch_methods v ''integer'' =
      (if ''integer'' \<in> nt_kind ` set (concrete_nodes sample_types) then [method_name ''integer''] else [])
      @ map (method_name \<circ> nt_kind) (filter (\<lambda>s. leaf sample_types s ''integer'') (supertypes sample_types))"
    using dispatch_methods_complete [OF sample_types_wf] by blast
  ultimately show ?thesis by simp
qed

theorem merge_node_types_complete_witness:
  "\<exists>parsed (merged :: node_type list). list_all2 (\<lambda>g ts. Ok (drop (length g) sample_types) = (Ok ts :: (node_type list, unit) result)) [''a'', []] parsed \<and>
     map nt_kind merged = [''_literal'', ''call'', ''integer'', ''_expression'']"
proof -
  let ?from = "\<lambda>g. Ok (drop (length g) sample_types) :: (node_type list, unit) result"
  have "merge_node_types ?from (\<lambda>ts. Ok []) [''a'', []] = Ok []"
    by (simp add: merge_node_types_def)
  from merge_node_types_complete [OF this] obtain parsed merged where
    parsed: "list_all2 (\<lambda>g ts. ?from g = Ok ts) [''a'', []] parsed"
    and keys: "map entry_of merged = retain_new {} (map entry_of (concat parsed))" by blast
  from parsed have "parsed = [drop 1 sample_types, sample_types]" by (auto simp: list_all2_Cons1)
  with keys have "map entry_of merged = [(''_literal'', True), (''call'', True), (''integer'', True), (''_expression'', True)]"
    by (simp add: sample_types_def entry_of_def)
  then have "map fst (map entry_of merged) = [''_literal'', ''call'', ''integer'', ''_expression'']" by simp
  then have "map nt_kind merged = [''_literal'', ''call'', ''integer'', ''_expression'']" by (simp add: entry_of_def o_def)
  with parsed show ?thesis by (intro exI [of _ parsed] exI [of _ merged] conjI)
qed

end
