(* ===== verification/Fingerprint.thy ===== *)
theory Fingerprint
  imports Abi Pipeline Codegen
begin

text \<open>
  Fingerprints of source trees and the build script of a language crate:
  \<open>crates/stiles-codegen/src/fingerprint.rs\<close> and \<open>language.rs\<close>. A directory is a tree in which each
  listing, entry and file may fail to be read, with its entries in the order the system lists them.
\<close>

section \<open>The hash\<close>

type_synonym fingerprint = "64 word"

definition Fingerprint_new :: fingerprint where
  "Fingerprint_new = fnv_offset"

definition fingerprint_fold :: "fingerprint \<Rightarrow> string \<Rightarrow> fingerprint" where
  "fingerprint_fold fp bytes = fnv_mix fp (map of_char bytes)"

definition add_bytes :: "fingerprint \<Rightarrow> string \<Rightarrow> fingerprint" where
  "add_bytes fp bytes = fingerprint_fold (fnv_mix fp (to_le_bytes (of_nat (length bytes)))) bytes"

definition fingerprint_display :: "fingerprint \<Rightarrow> string" where
  "fingerprint_display fp = hex_pad 16 (unat fp)"

section \<open>Source trees\<close>

datatype source_entry =
    SourceFile "(string, io_error) result"
  | SourceDirectory "(source_item list, io_error) result"
and source_item =
    ItemFailed io_error
  | Item string source_entry

text \<open>\<open>collect_files\<close>, below the root by the names that lead to the directory, and its loop over a listing.\<close>

fun collect_files :: "string list \<Rightarrow> source_entry \<Rightarrow> (string \<times> string) list \<Rightarrow> ((string \<times> string) list, io_error) result"
  and collect_items :: "string list \<Rightarrow> source_item list \<Rightarrow> (string \<times> string) list \<Rightarrow> ((string \<times> string) list, io_error) result"
  where
  "collect_files at (SourceFile contents) files =
     result_bind contents (\<lambda>bytes. Ok (files @ [(join ''/'' (map utf8_lossy at), bytes)]))"
| "collect_files at (SourceDirectory (Inl e)) files = Err e"
| "collect_files at (SourceDirectory (Inr items)) files = collect_items at items files"
| "collect_items at [] files = Ok files"
| "collect_items at (ItemFailed e # items) files = Err e"
| "collect_items at (Item name entry # items) files =
     result_bind (collect_files (at @ [name]) entry files) (\<lambda>files. collect_items at items files)"

definition add_directory :: "fingerprint \<Rightarrow> (source_item list, io_error) result \<Rightarrow> (fingerprint, io_error) result" where
  "add_directory fp root =
     result_bind (collect_files [] (SourceDirectory root) []) (\<lambda>files.
       Ok (foldl (\<lambda>fp (name, contents). add_bytes (add_bytes fp name) contents) fp (sort files)))"

section \<open>The build script\<close>

definition lint_pass_file :: string where "lint_pass_file = ''lint_pass.rs''"
definition fingerprint_file :: string where "fingerprint_file = ''visitor_fingerprint.rs''"

datatype 'j build_error = BuildIo io_error | BuildInvalidData 'j

definition fingerprint_source :: "string \<Rightarrow> string" where
  "fingerprint_source code =
     ''pub const VISITOR_FINGERPRINT: u64 = 0x'' @ fingerprint_display (add_bytes Fingerprint_new code) @ '';'' @ newline"

text \<open>
  The files written, in order, and how it ended. \<open>write_file\<close> is \<open>fs::write\<close>; \<open>None\<close> is a generator
  that does not return.
\<close>

definition write_language ::
  "(string \<Rightarrow> (node_type list, 'j) result) \<Rightarrow> (node_type list \<Rightarrow> (string, 'j) result) \<Rightarrow>
   (path \<Rightarrow> string \<Rightarrow> (unit, io_error) result) \<Rightarrow> string \<Rightarrow> string list \<Rightarrow> path \<Rightarrow>
   ((path \<times> string) list \<times> (unit, 'j build_error) result) option" where
  "write_language from_str to_string write_file language grammars out_dir =
     (case merge_node_types from_str to_string grammars of
        Inl e \<Rightarrow> Some ([], Err (BuildInvalidData e))
      | Inr node_types \<Rightarrow>
          Option.bind (generate_visitor from_str node_types language) (\<lambda>generated. Some (
            case generated of
              Inl e \<Rightarrow> ([], Err (BuildInvalidData e))
            | Inr code \<Rightarrow>
                (let lint_pass = path_join out_dir lint_pass_file;
                     visitor_fingerprint = path_join out_dir fingerprint_file
                 in case write_file lint_pass code of
                      Inl e \<Rightarrow> ([], Err (BuildIo e))
                    | Inr _ \<Rightarrow>
                        (case write_file visitor_fingerprint (fingerprint_source code) of
                           Inl e \<Rightarrow> ([(lint_pass, code)], Err (BuildIo e))
                         | Inr _ \<Rightarrow> ([(lint_pass, code), (visitor_fingerprint, fingerprint_source code)], Ok ()))))))"

definition cargo_directory :: "(string \<Rightarrow> path option) \<Rightarrow> string \<Rightarrow> (path, io_error) result" where
  "cargo_directory env name = ok_or (name @ '' is not set; call this from a build script'') (env name)"

text \<open>The loop over the grammars: a directive to cargo, then the text of the file.\<close>

fun read_grammars ::
  "(string \<Rightarrow> (unit, io_error) result) \<Rightarrow> (path \<Rightarrow> (string, io_error) result) \<Rightarrow> path \<Rightarrow> string list \<Rightarrow> (string list, io_error) result" where
  "read_grammars directive read_to_string manifest_dir [] = Ok []"
| "read_grammars directive read_to_string manifest_dir (relative # rest) =
     result_bind (directive (''cargo::rerun-if-changed='' @ relative @ newline)) (\<lambda>_.
       let p = path_join manifest_dir relative in
       result_bind (map_err (\<lambda>e. ''read '' @ display p @ '': '' @ e) (read_to_string p)) (\<lambda>grammar.
         result_bind (read_grammars directive read_to_string manifest_dir rest) (\<lambda>grammars. Ok (grammar # grammars))))"

definition build_language ::
  "(string \<Rightarrow> path option) \<Rightarrow> (string \<Rightarrow> (unit, io_error) result) \<Rightarrow> (path \<Rightarrow> (string, io_error) result) \<Rightarrow>
   (string \<Rightarrow> (node_type list, 'j) result) \<Rightarrow> (node_type list \<Rightarrow> (string, 'j) result) \<Rightarrow>
   (path \<Rightarrow> string \<Rightarrow> (unit, io_error) result) \<Rightarrow> string \<Rightarrow> string list \<Rightarrow>
   ((path \<times> string) list \<times> (unit, 'j build_error) result) option" where
  "build_language env directive read_to_string from_str to_string write_file language node_types =
     (case result_bind (cargo_directory env ''CARGO_MANIFEST_DIR'') (\<lambda>manifest_dir.
             result_bind (cargo_directory env ''OUT_DIR'') (\<lambda>out_dir.
               result_bind (read_grammars directive read_to_string manifest_dir node_types) (\<lambda>grammars. Ok (out_dir, grammars)))) of
        Inl e \<Rightarrow> Some ([], Err (BuildIo e))
      | Inr (out_dir, grammars) \<Rightarrow> write_language from_str to_string write_file language grammars out_dir)"

section \<open>What is hashed\<close>

definition run_stream :: "string list \<Rightarrow> nat list" where
  "run_stream runs = concat (map (\<lambda>bytes. to_le_bytes (of_nat (length bytes)) @ map of_char bytes) runs)"

definition file_runs :: "(string \<times> string) list \<Rightarrow> string list" where
  "file_runs files = concat (map (\<lambda>(name, contents). [name, contents]) files)"

lemma add_bytes_stream: "add_bytes fp bytes = fnv_mix fp (run_stream [bytes])"
  by (simp add: add_bytes_def fingerprint_fold_def run_stream_def fnv_mix_append)

lemma files_stream:
  "foldl (\<lambda>fp (name, contents). add_bytes (add_bytes fp name) contents) fp files = fnv_mix fp (run_stream (file_runs files))"
proof (induction files arbitrary: fp)
  case Nil
  then show ?case by (simp add: run_stream_def file_runs_def fnv_mix_def)
next
  case (Cons f files)
  then show ?case
    by (cases f) (simp add: add_bytes_stream run_stream_def file_runs_def fnv_mix_append)
qed

text \<open>The eight bytes of a length give it back.\<close>

lemma to_le_bytes_inject: "to_le_bytes a = to_le_bytes b \<longleftrightarrow> a = b"
proof
  assume same: "to_le_bytes a = to_le_bytes b"
  have "bit a n = bit b n" if "n < 64" for n
  proof -
    let ?i = "n div 8"
    from that have "?i < 8" by simp
    with same have "drop_bit (8 * ?i) a AND 255 = drop_bit (8 * ?i) b AND (255 :: 64 word)"
      unfolding to_le_bytes_def by (metis (no_types, lifting) atLeastLessThan_iff map_eq_conv set_upt unsigned_word_eqI zero_le)
    then have "bit (drop_bit (8 * ?i) a AND mask 8) (n mod 8) = bit (drop_bit (8 * ?i) b AND (mask 8 :: 64 word)) (n mod 8)"
      by (simp add: mask_eq_exp_minus_1)
    moreover have "n mod 8 < 64" by (rule less_trans [of _ 8]) simp_all
    ultimately show ?thesis by (simp add: bit_simps)
  qed
  then show "a = b" by (intro bit_word_eqI) simp
qed simp

lemma length_to_le_bytes [simp]: "length (to_le_bytes w) = 8"
  by (simp add: to_le_bytes_def)

lemma run_stream_Nil_iff: "run_stream runs = [] \<longleftrightarrow> runs = []"
  by (cases runs) (auto simp: run_stream_def simp flip: length_0_conv)

lemma run_stream_inject:
  assumes "\<forall>r \<in> set xs. length r < 2 ^ 64" "\<forall>r \<in> set ys. length r < 2 ^ 64" "run_stream xs = run_stream ys"
  shows "xs = ys"
  using assms
proof (induction xs arbitrary: ys)
  case Nil
  then show ?case using run_stream_Nil_iff [of ys] by (simp add: run_stream_def)
next
  case (Cons x xs)
  then obtain y ys' where ys: "ys = y # ys'" using run_stream_Nil_iff [of "x # xs"] by (cases ys) (auto simp: run_stream_def)
  have stream: "run_stream (z # zs) = to_le_bytes (of_nat (length z)) @ (map of_char z @ run_stream zs)" for z zs
    by (simp add: run_stream_def)
  from Cons.prems(3) have "to_le_bytes (of_nat (length x)) = to_le_bytes (of_nat (length y))"
    and rest: "map of_char x @ run_stream xs = map of_char y @ run_stream ys'"
    unfolding ys stream by simp_all
  then have "(of_nat (length x) :: 64 word) = of_nat (length y)" by (simp add: to_le_bytes_inject)
  then have "unat (of_nat (length x) :: 64 word) = unat (of_nat (length y) :: 64 word)" by simp
  with Cons.prems(1,2) have "length x = length y" by (simp add: ys unsigned_of_nat take_bit_nat_eq_self)
  with rest have "map (of_char :: char \<Rightarrow> nat) x = map of_char y" "run_stream xs = run_stream ys'" by simp_all
  moreover from this(1) have "x = y" by (simp add: inj_map_eq_map inj_of_char)
  ultimately show ?case using Cons.IH [of ys'] Cons.prems ys by simp
qed

lemma file_runs_inject: "file_runs fs = file_runs gs \<longleftrightarrow> fs = gs"
proof
  show "file_runs fs = file_runs gs \<Longrightarrow> fs = gs"
  proof (induction fs arbitrary: gs)
    case Nil
    then show ?case by (cases gs) (auto simp: file_runs_def)
  next
    case (Cons f fs)
    then show ?case by (cases gs) (auto simp: file_runs_def split: prod.splits)
  qed
qed simp

lemma sort_eq_iff_mset: "sort xs = sort ys \<longleftrightarrow> mset xs = mset (ys :: 'a :: linorder list)"
  by (metis mset_sort properties_for_sort sorted_sort)

text \<open>
  The fingerprint of a directory is the hash of a stream that stands for its files and for nothing
  else. Whatever order the system lists the entries in, two directories give the same stream exactly
  when they hold the same files, by relative name and contents, each as often; bytes that fall
  differently across names and files give different streams.
\<close>

theorem add_directory_files:
  assumes files: "collect_files [] (SourceDirectory a) [] = Ok fs" "collect_files [] (SourceDirectory b) [] = Ok gs"
    and small: "\<forall>(name, contents) \<in> set fs \<union> set gs. length name < 2 ^ 64 \<and> length contents < 2 ^ 64"
  shows "add_directory fp a = Ok (fnv_mix fp (run_stream (file_runs (sort fs)))) \<and>
     add_directory fp b = Ok (fnv_mix fp (run_stream (file_runs (sort gs)))) \<and>
     (run_stream (file_runs (sort fs)) = run_stream (file_runs (sort gs)) \<longleftrightarrow> mset fs = mset gs)"
proof -
  have "\<forall>r \<in> set (file_runs (sort hs)). length r < 2 ^ 64" if "set hs \<subseteq> set fs \<union> set gs" for hs
    using that small by (auto simp: file_runs_def)
  from run_stream_inject [OF this this] have "run_stream (file_runs (sort fs)) = run_stream (file_runs (sort gs)) \<longleftrightarrow> sort fs = sort gs"
    by (auto simp: file_runs_inject)
  with files show ?thesis by (simp add: add_directory_def files_stream sort_eq_iff_mset)
qed

theorem add_directory_files_witness:
  "\<exists>fp. add_directory Fingerprint_new (Ok [Item ''b'' (SourceFile (Ok ''1'')), Item ''a'' (SourceFile (Ok []))]) = Ok fp \<and>
     add_directory Fingerprint_new (Ok [Item ''a'' (SourceFile (Ok [])), Item ''b'' (SourceFile (Ok ''1''))]) = Ok fp"
proof -
  have names: "utf8_lossy ''a'' = ''a''" "utf8_lossy ''b'' = ''b''" by code_simp+
  have "collect_files [] (SourceDirectory (Ok [Item ''b'' (SourceFile (Ok ''1'')), Item ''a'' (SourceFile (Ok []))])) [] = Ok [(''b'', ''1''), (''a'', [])]"
    "collect_files [] (SourceDirectory (Ok [Item ''a'' (SourceFile (Ok [])), Item ''b'' (SourceFile (Ok ''1''))])) [] = Ok [(''a'', []), (''b'', ''1'')]"
    by (simp_all add: names)
  from add_directory_files [OF this, of Fingerprint_new] show ?thesis by simp
qed

end
