(* ===== verification/PluginExport.thy ===== *)
theory PluginExport
  imports LintLoading Codegen
begin

text \<open>
  The plugin's side of the boundary: \<open>export_lints!\<close> of \<open>crates/stiles-plugin/src/export_lints.rs\<close> with
  \<open>DeclaresRules\<close>, and the derivation of \<open>Decoration\<close> in \<open>crates/stiles-macros/src/decoration.rs\<close>. A
  lint a plugin lists is an expression, evaluated each time a pass is constructed; it and the code that
  names its rules are the plugin's and may panic. The parsed item and its tokens are syn's and quote's.
\<close>

section \<open>Exporting lints\<close>

record ('s, 'e) written_lint =
  wl_pass :: "(('s, 'e) language_pass, panic) result"
  wl_rules :: "('s, 'e) language_pass \<Rightarrow> (rule_id list, panic) result"

text \<open>
  One push of \<open>__stiles_load\<close>: the factory catches a panic of the expression, the rules are read from a
  pass of their own, under the catch of the whole function. \<open>dispatch_of\<close> is the generated code of a
  language.
\<close>

definition export_lint ::
  "(language \<Rightarrow> visitor) \<Rightarrow> language \<times> ('s, 'e) written_lint \<Rightarrow> (('s, 'e) exported_lint, panic) result" where
  "export_lint dispatch_of entry =
     (case entry of (language, l) \<Rightarrow>
        result_bind (wl_pass l) (\<lambda>p.
          result_bind (wl_rules l p) (\<lambda>rules.
            Ok \<lparr>exported_factory = result_bind (wl_pass l) (\<lambda>p. Ok (lint_pass_adapter (dispatch_of language) language p)),
              exported_language = language, exported_rules = rules\<rparr>)))"

definition export_lints ::
  "abi_identity \<Rightarrow> (language \<Rightarrow> visitor) \<Rightarrow> (language \<times> ('s, 'e) written_lint) list \<Rightarrow> ('s, 'e) plugin_declaration" where
  "export_lints identity dispatch_of lints =
     \<lparr>decl_identity = identity, decl_load = collect_results (map (export_lint dispatch_of) lints)\<rparr>"

lemma collect_results_all2:
  "list_all2 (\<lambda>r x. r = Ok x) rs xs \<Longrightarrow> collect_results rs = Ok xs"
  by (induction rs xs rule: list_all2_induct) simp_all

lemma handshake_self: "validate_handshake host host = Ok ()"
  by (simp add: validate_handshake_def abi_accepts_def abi_floor_def less_eq_abi_version_def)

text \<open>
  C34: A plugin built against the host's own crates loads with what it lists. When no expression and no
  list of rules panics, each lint names a rule and there is a lint at all, the host gets one lint per
  entry, in the order they are listed, for the language they are listed under, with the rules they
  declare, and its factory gives the listed pass behind the generated dispatch of that language.
\<close>

theorem export_lints_load:
  assumes opens: "open_library library = Ok (export_lints host dispatch_of lints)" and some: "lints \<noteq> []"
    and listed: "list_all2 (\<lambda>(language, l) (p, rules). wl_pass l = Ok p \<and> wl_rules l p = Ok rules \<and> rules \<noteq> []) lints given"
  shows "load_library open_library library host = Ok (map2 (\<lambda>(language, l) (p, rules).
      \<lparr>loaded_factory = Ok (lint_pass_adapter (dispatch_of language) language p), loaded_language = language,
       loaded_rules = rules, loaded_library = library\<rparr>) lints given)"
proof -
  let ?export = "\<lambda>(language, l) (p, rules). \<lparr>exported_factory = Ok (lint_pass_adapter (dispatch_of language) language p),
      exported_language = language, exported_rules = rules\<rparr>"
  from listed have "list_all2 (\<lambda>r x. r = Ok x) (map (export_lint dispatch_of) lints) (map2 ?export lints given)"
    by (induction rule: list_all2_induct) (auto simp: export_lint_def)
  then have "decl_load (export_lints host dispatch_of lints) = Ok (map2 ?export lints given)"
    by (simp add: export_lints_def collect_results_all2)
  moreover from listed some have "map2 ?export lints given \<noteq> []" by (auto simp: list_all2_conv_all_nth)
  moreover from listed have "list_all (\<lambda>x. exported_rules x \<noteq> []) (map2 ?export lints given)"
    by (induction rule: list_all2_induct) auto
  moreover have "decl_identity (export_lints host dispatch_of lints) = host" by (simp add: export_lints_def)
  ultimately have "load_library open_library library host = Ok (map (\<lambda>x. \<lparr>loaded_factory = exported_factory x,
      loaded_language = exported_language x, loaded_rules = exported_rules x, loaded_library = library\<rparr>) (map2 ?export lints given))"
    using opens handshake_self by (subst load_library_Ok) auto
  then show ?thesis by (simp add: split_beta o_def)
qed

definition quiet_pass :: "(unit, unit) language_pass" where
  "quiet_pass = \<lparr>lp_state = (), lp_configure = (\<lambda>s _. (Ok (), s)), lp_method = (\<lambda>m s _. (Ok [], s))\<rparr>"

definition quiet_lint :: "(unit, unit) written_lint" where
  "quiet_lint = \<lparr>wl_pass = Ok quiet_pass, wl_rules = (\<lambda>_. Ok [RuleId ''custom.quiet''])\<rparr>"

definition no_arms :: "language \<Rightarrow> visitor" where
  "no_arms language = \<lparr>vis_arms = [], vis_supertypes = []\<rparr>"

theorem export_lints_load_witness:
  "\<exists>l. load_library (\<lambda>_. Ok (export_lints (sample_identity 1 2) no_arms [(Rust, quiet_lint)])) ''p.so'' (sample_identity 1 2) = Ok [l] \<and>
     loaded_rules l = [RuleId ''custom.quiet'']"
  using export_lints_load [of "\<lambda>_. Ok (export_lints (sample_identity 1 2) no_arms [(Rust, quiet_lint)])" "''p.so''" "sample_identity 1 2" no_arms
      "[(Rust, quiet_lint)]" "[(quiet_pass, [RuleId ''custom.quiet''])]"]
  by (simp add: quiet_lint_def)

section \<open>Deriving decorations\<close>

datatype cardinality = Many | One

text \<open>An attribute: the identifier of its path and its nested options, each of which syn may fail to parse.\<close>

record 'p nested_meta =
  meta_path :: string
  meta_value :: "(string, 'p) result"

record 'p attribute =
  attr_path :: string
  attr_metas :: "('p nested_meta, 'p) result list"

record 'p derive_input =
  in_params :: "string list"
  in_ident :: string
  in_attrs :: "'p attribute list"
  in_tokens :: string

datatype 'p derive_error =
    GenericDecoration string
  | ExpectedCardinality
  | UnknownCardinality string
  | DeclaredTwice
  | MissingCardinality
  | Malformed 'p

definition definition_hash :: "'p derive_input \<Rightarrow> string" where
  "definition_hash input = hex_pad 16 (unat (fnv_mix fnv_offset (map of_char (in_tokens input))))"

fun parse_cardinality :: "string \<Rightarrow> (cardinality, 'p derive_error) result" where
  "parse_cardinality value =
     (if value = ''many'' then Ok Many else if value = ''one'' then Ok One else Err (UnknownCardinality value))"

text \<open>The closure handed to \<open>parse_nested_meta\<close>, and its calls over the options of an attribute.\<close>

fun read_metas ::
  "('p nested_meta, 'p) result list \<Rightarrow> cardinality option \<Rightarrow> (cardinality option, 'p derive_error) result" where
  "read_metas [] found = Ok found"
| "read_metas (Inl e # metas) found = Err (Malformed e)"
| "read_metas (Inr meta # metas) found =
     (if meta_path meta \<noteq> ''cardinality'' then Err ExpectedCardinality
      else result_bind (map_err Malformed (meta_value meta)) (\<lambda>value.
        result_bind (parse_cardinality value) (\<lambda>parsed.
          if found \<noteq> None then Err DeclaredTwice else read_metas metas (Some parsed))))"

fun read_attrs :: "'p attribute list \<Rightarrow> cardinality option \<Rightarrow> (cardinality option, 'p derive_error) result" where
  "read_attrs [] found = Ok found"
| "read_attrs (attr # attrs) found =
     (if attr_path attr \<noteq> ''decoration'' then read_attrs attrs found
      else result_bind (read_metas (attr_metas attr) found) (read_attrs attrs))"

definition cardinality_of :: "'p derive_input \<Rightarrow> (cardinality, 'p derive_error) result" where
  "cardinality_of input = result_bind (read_attrs (in_attrs input) None) (ok_or MissingCardinality)"

text \<open>The implementation that is generated: its key, which the module of the type completes, and its lookup.\<close>

record derived =
  derived_name :: string
  derived_hash :: string
  derived_cardinality :: cardinality

definition derived_key :: "string \<Rightarrow> derived \<Rightarrow> decoration_key" where
  "derived_key module_path d = DecorationKey (module_path @ ''::'' @ derived_name d @ ''#'' @ derived_hash d)"

definition derived_lookup :: "derived \<Rightarrow> ('v, 'e) decoration \<Rightarrow> 'e decorated_node \<Rightarrow> 'v list + 'v option" where
  "derived_lookup d D node =
     (case derived_cardinality d of Many \<Rightarrow> Inl (dn_decorations_of_type D node) | One \<Rightarrow> Inr (dn_decoration D node))"

definition derive_expand :: "'p derive_input \<Rightarrow> (derived, 'p derive_error) result" where
  "derive_expand input =
     (case in_params input of
        parameter # _ \<Rightarrow> Err (GenericDecoration parameter)
      | [] \<Rightarrow> result_bind (cardinality_of input) (\<lambda>c.
          Ok \<lparr>derived_name = in_ident input, derived_hash = definition_hash input, derived_cardinality = c\<rparr>))"

definition decoration_metas :: "'p attribute list \<Rightarrow> ('p nested_meta, 'p) result list" where
  "decoration_metas attrs = concat (map attr_metas (filter (\<lambda>a. attr_path a = ''decoration'') attrs))"

lemma read_metas_append:
  "read_metas (xs @ ys) found = result_bind (read_metas xs found) (read_metas ys)"
proof (induction xs arbitrary: found)
  case (Cons x xs)
  then show ?case
    by (cases x) (auto simp: result_bind_def split: sum.splits)
qed simp

lemma read_attrs_metas: "read_attrs attrs found = read_metas (decoration_metas attrs) found"
  by (induction attrs arbitrary: found) (auto simp: decoration_metas_def read_metas_append result_bind_def split: sum.splits)

lemma read_metas_Some: "read_metas metas (Some c) = Ok r \<longleftrightarrow> metas = [] \<and> r = Some c"
  by (cases metas; cases "hd metas") (auto simp: result_bind_eq_Ok)

lemma read_metas_None:
  "read_metas metas None = Ok (Some c) \<longleftrightarrow>
     (\<exists>value. metas = [Inr \<lparr>meta_path = ''cardinality'', meta_value = Ok value\<rparr>] \<and>
        (value = ''many'' \<and> c = Many \<or> value = ''one'' \<and> c = One))"
proof (cases metas)
  case (Cons m ms)
  show ?thesis
  proof (cases m)
    case (Inr meta)
    have "read_metas metas None = Ok (Some c) \<longleftrightarrow> meta_path meta = ''cardinality'' \<and>
        (\<exists>value. meta_value meta = Ok value \<and> parse_cardinality value = (Ok c :: (cardinality, 'a derive_error) result)) \<and> ms = []"
      by (cases "meta_value meta") (auto simp: Cons Inr result_bind_eq_Ok read_metas_Some)
    also have "\<dots> \<longleftrightarrow> (\<exists>value. meta = \<lparr>meta_path = ''cardinality'', meta_value = Ok value\<rparr> \<and> ms = [] \<and>
        (value = ''many'' \<and> c = Many \<or> value = ''one'' \<and> c = One))"
      by (cases meta) (auto split: if_splits)
    finally show ?thesis by (auto simp: Cons Inr)
  qed (simp add: Cons)
qed simp

lemma last_colon:
  assumes "xs @ CHR '':'' # a = ys @ CHR '':'' # b" "CHR '':'' \<notin> set a" "CHR '':'' \<notin> set b"
  shows "xs = ys \<and> a = b"
proof -
  have suffix: "takeWhile (\<lambda>c. c \<noteq> CHR '':'') (rev (zs @ CHR '':'' # c)) = rev c" if "CHR '':'' \<notin> set c" for zs c
  proof -
    have "takeWhile (\<lambda>c. c \<noteq> CHR '':'') (rev c @ CHR '':'' # rev zs) = rev c @ takeWhile (\<lambda>c. c \<noteq> CHR '':'') (CHR '':'' # rev zs)"
      by (rule takeWhile_append2) (use that in auto)
    then show ?thesis by simp
  qed
  from arg_cong [OF assms(1), of "\<lambda>s. takeWhile (\<lambda>c. c \<noteq> CHR '':'') (rev s)"] have "a = b"
    unfolding suffix [OF assms(2)] suffix [OF assms(3)] by simp
  with assms(1) show ?thesis by simp
qed

lemma key_inject:
  assumes "m @ ''::'' @ n @ ''#'' @ h = m' @ ''::'' @ n' @ ''#'' @ h'" "length h = length h'"
    and "CHR '':'' \<notin> set n" "CHR '':'' \<notin> set n'"
  shows "m = m' \<and> n = n' \<and> h = h'"
proof -
  have "(m @ ''::'' @ n @ ''#'') @ h = (m' @ ''::'' @ n' @ ''#'') @ h'" using assms(1) by simp
  then have "m @ ''::'' @ n @ ''#'' = m' @ ''::'' @ n' @ ''#'' \<and> h = h'"
    unfolding append_eq_append_conv [OF disjI2 [OF assms(2)]] .
  then have "((m @ '':'') @ CHR '':'' # n) @ ''#'' = ((m' @ '':'') @ CHR '':'' # n') @ ''#'' \<and> h = h'" by simp
  then show ?thesis using last_colon [of "m @ '':''" n "m' @ '':''" n'] assms(3,4) by simp
qed

lemma cardinality_of_Ok: "cardinality_of i = Ok c \<longleftrightarrow> read_metas (decoration_metas (in_attrs i)) None = Ok (Some c)"
  by (auto simp: cardinality_of_def read_attrs_metas result_bind_eq_Ok ok_or_def split: option.splits)

lemma derive_expand_Ok:
  "derive_expand i = Ok d \<longleftrightarrow> in_params i = [] \<and> cardinality_of i = Ok (derived_cardinality d) \<and>
     derived_name d = in_ident i \<and> derived_hash d = definition_hash i"
  by (cases "in_params i"; cases d) (auto simp: derive_expand_def result_bind_eq_Ok)

text \<open>
  A decoration is derived exactly for a type that is not generic and declares its cardinality once,
  as \<open>one\<close> or \<open>many\<close>, with no other option; what is derived carries its name and the hash of its
  definition.
\<close>

theorem derive_expand_accepts:
  "derive_expand input = Ok d \<longleftrightarrow>
     in_params input = [] \<and> derived_name d = in_ident input \<and> derived_hash d = definition_hash input \<and>
     (\<exists>value. decoration_metas (in_attrs input) = [Inr \<lparr>meta_path = ''cardinality'', meta_value = Ok value\<rparr>] \<and>
        (value = ''many'' \<and> derived_cardinality d = Many \<or> value = ''one'' \<and> derived_cardinality d = One))"
  unfolding derive_expand_Ok cardinality_of_Ok read_metas_None by blast

text \<open>The keys of two derived types are equal only when module, name and hash of the definition are.\<close>

theorem derived_key_inject:
  assumes "derive_expand input = Ok d" "derive_expand other = Ok d'" "derived_key m d = derived_key m' d'"
    and "CHR '':'' \<notin> set (in_ident input)" "CHR '':'' \<notin> set (in_ident other)"
  shows "m = m' \<and> in_ident input = in_ident other \<and> definition_hash input = definition_hash other"
proof (rule key_inject)
  show "m @ ''::'' @ in_ident input @ ''#'' @ definition_hash input = m' @ ''::'' @ in_ident other @ ''#'' @ definition_hash other"
    using assms(1-3) unfolding derive_expand_Ok derived_key_def decoration_key.inject by (elim conjE) (simp only:)
qed (use assms(4,5) in \<open>simp_all add: definition_hash_def\<close>)

end
