(* ===== verification/Testing.thy ===== *)
theory Testing
  imports Pipeline "HOL-Library.Sublist"
begin

text \<open>
  The helpers that a lint author tests a pass with: \<open>crates/stiles-testing/src/lib.rs\<close>. A panic is an
  error value, so a test that fails is a branch. Tree-sitter and the file system are arguments. The
  text of a failed assertion is not modelled; which assertion failed is.
\<close>

section \<open>Trees and passes\<close>

datatype assertion =
    HasRuleId string
  | HasSeverity severity
  | MessageContains string
  | HasSpan path nat nat
  | HasOriginCount nat
  | HasRelatedCount nat
  | HasSuggestionCount nat
  | NoDiagnostics

datatype test_panic =
    LanguageNotSet
  | NothingParsed
  | PassFailed walk_lints_error
  | InvertedSpan
  | AssertionFailed assertion
  | UnreadableDirectory path
  | NoFileName path
  | UnreadableFixture path

definition test_grammar :: "'g \<Rightarrow> 'g \<Rightarrow> language \<Rightarrow> 'g" where
  "test_grammar rust typescript lang = (case lang of Rust \<Rightarrow> rust | TypeScript \<Rightarrow> typescript)"

definition parse_test ::
  "('g \<Rightarrow> (unit, 'l) result) \<Rightarrow> ('g \<Rightarrow> string \<Rightarrow> ts_node option) \<Rightarrow> (language \<Rightarrow> 'g) \<Rightarrow> string \<Rightarrow> language \<Rightarrow>
   ('e decorated_tree, test_panic) result" where
  "parse_test set_language parse grammars source lang =
     result_bind (map_err (\<lambda>_. LanguageNotSet) (set_language (grammars lang)))
       (\<lambda>_. result_bind (ok_or NothingParsed (parse (grammars lang) source))
         (\<lambda>t. Ok (DecoratedTree_new t lang source ''<test>'')))"

definition decorate_test :: "'e decorated_tree \<Rightarrow> 'e decoration_map \<Rightarrow> 'e decorated_tree" where
  "decorate_test tree decorations = tree\<lparr>dt_decorations := decorations\<rparr>"

definition execute ::
  "'e decorated_tree \<Rightarrow> ('s, 'e) lint_pass list \<Rightarrow> (diagnostic list, test_panic) result \<times> ('s, 'e) lint_pass list" where
  "execute tree passes = (let (r, passes') = walk tree passes in (map_err PassFailed r, passes'))"

section \<open>Assertions\<close>

definition assert_that :: "bool \<Rightarrow> assertion \<Rightarrow> diagnostic \<Rightarrow> (diagnostic, test_panic) result" where
  "assert_that holds a d = (if holds then Ok d else Err (AssertionFailed a))"

definition has_rule_id :: "string \<Rightarrow> diagnostic \<Rightarrow> (diagnostic, test_panic) result" where
  "has_rule_id expected d = assert_that (rule_name (diag_rule_id d) = expected) (HasRuleId expected) d"

definition has_severity :: "severity \<Rightarrow> diagnostic \<Rightarrow> (diagnostic, test_panic) result" where
  "has_severity expected d = assert_that (diag_severity d = expected) (HasSeverity expected) d"

definition message_contains :: "string \<Rightarrow> diagnostic \<Rightarrow> (diagnostic, test_panic) result" where
  "message_contains sub d = assert_that (sublist sub (diag_message d)) (MessageContains sub) d"

definition has_span :: "path \<Rightarrow> nat \<Rightarrow> nat \<Rightarrow> diagnostic \<Rightarrow> (diagnostic, test_panic) result" where
  "has_span p start end d =
     result_bind (ok_or InvertedSpan (Span_new (FilePath_from p) start end))
       (\<lambda>expected. assert_that (diag_span d = expected) (HasSpan p start end) d)"

definition has_origin_count :: "nat \<Rightarrow> diagnostic \<Rightarrow> (diagnostic, test_panic) result" where
  "has_origin_count expected d = assert_that (length (diag_origins d) = expected) (HasOriginCount expected) d"

definition has_related_count :: "nat \<Rightarrow> diagnostic \<Rightarrow> (diagnostic, test_panic) result" where
  "has_related_count expected d = assert_that (length (diag_related d) = expected) (HasRelatedCount expected) d"

definition has_suggestion_count :: "nat \<Rightarrow> diagnostic \<Rightarrow> (diagnostic, test_panic) result" where
  "has_suggestion_count expected d = assert_that (length (diag_suggestions d) = expected) (HasSuggestionCount expected) d"

definition assert_no_diagnostics :: "diagnostic list \<Rightarrow> (unit, test_panic) result" where
  "assert_no_diagnostics ds = (if ds = [] then Ok () else Err (AssertionFailed NoDiagnostics))"

section \<open>Fixtures\<close>

text \<open>The entries of a directory are listed one by one; one that cannot be listed is passed over.\<close>

fun read_fixtures ::
  "(path \<Rightarrow> (string, io_error) result) \<Rightarrow> language \<Rightarrow> (path, io_error) result list \<Rightarrow> (string \<times> string) list \<Rightarrow>
   ((string \<times> string) list, test_panic) result" where
  "read_fixtures read lang [] cases = Ok cases"
| "read_fixtures read lang (Inl _ # es) cases = read_fixtures read lang es cases"
| "read_fixtures read lang (Inr p # es) cases =
     (case Option.bind (extension p) to_str of
        None \<Rightarrow> read_fixtures read lang es cases
      | Some ext \<Rightarrow>
          (if from_extension ext \<noteq> Some lang then read_fixtures read lang es cases
           else result_bind (ok_or (NoFileName p) (file_name p))
             (\<lambda>name. result_bind (map_err (\<lambda>_. UnreadableFixture p) (read p))
               (\<lambda>source. read_fixtures read lang es (cases @ [(utf8_lossy name, source)])))))"

definition fixtures ::
  "(path \<Rightarrow> ((path, io_error) result list, io_error) result) \<Rightarrow> (path \<Rightarrow> (string, io_error) result) \<Rightarrow> path \<Rightarrow> language \<Rightarrow>
   ((string \<times> string) list, test_panic) result" where
  "fixtures read_dir read dir lang =
     result_bind (map_err (\<lambda>_. UnreadableDirectory dir) (read_dir dir))
       (\<lambda>es. result_bind (read_fixtures read lang es [])
         (\<lambda>cases. Ok (sort_key fst cases)))"

section \<open>A test sees what a check reports\<close>

lemma merge_into_new: "map_invar m \<Longrightarrow> fst (map_lookup (map_merge map_new m)) = fst (map_lookup m)"
  by (auto simp: map_lookup_def map_merge_def map_new_def map_invar_def Let_def split: option.splits)

lemma walk_lints_root:
  "dt_root_node t = dt_root_node t' \<Longrightarrow> dt_language t = dt_language t' \<Longrightarrow> walk_lints t lints = walk_lints t' lints"
  by (simp add: walk_lints_def)

text \<open>
  C31: A pass that is executed on a test tree reports what the pipeline reports for the same source, at the
  same path, with a provider that covers it with the same decorations: the diagnostics and the state of
  the passes are equal, and a failure of one is the failure of the other.
\<close>

theorem execute_is_pipeline:
  fixes m :: "'e decoration_map" and passes :: "('s, 'e) lint_pass list"
  assumes parsed: "parse_test set_language parse grammars source lang = Ok tree"
    and m: "map_invar m"
    and pipe: "Pipeline_new set_language lang (grammars lang) = Ok pipe"
    and covers: "\<forall>t. prov_decorate provider t = Ok (Covered m)"
  defines "run \<equiv> run_on_source parse pipe source ''<test>'' [provider] (map Lint_unchecked passes)"
    and "test \<equiv> execute (decorate_test tree m) passes"
  shows "(fst run = Ok ds \<longleftrightarrow> fst test = Ok ds) \<and> (fst run = Err (LintsFailed e) \<longleftrightarrow> fst test = Err (PassFailed e)) \<and>
     map lint_pass (snd run) = snd test"
proof -
  from parsed obtain t where t: "parse (grammars lang) source = Some t" "tree = DecoratedTree_new t lang source ''<test>''"
    by (auto simp: parse_test_def result_bind_eq_Ok ok_or_def split: option.splits)
  from pipe have "pipe = \<lparr>pipe_language = lang, pipe_parser = grammars lang\<rparr>"
    by (auto simp: Pipeline_new_def result_bind_eq_Ok)
  moreover have "walk_lints (dt_merge_decorations m tree) lints = walk_lints (decorate_test tree m) lints" for lints :: "('s, 'e) lint list"
    using merge_into_new [OF m]
    by (intro walk_lints_root) (simp_all add: t dt_root_node_def dt_merge_decorations_def decorate_test_def DecoratedTree_new_def)
  ultimately show ?thesis
    using t covers
    by (auto simp: run_def test_def run_on_source_def execute_def walk_def Let_def case_prod_unfold map_err_def split: sum.splits)
qed

theorem execute_is_pipeline_witness:
  "\<exists>d. fst (run_on_source (\<lambda>(_ :: unit) _. Some (TsNode 1 ''fn'' 0 2 True None [])) \<lparr>pipe_language = Rust, pipe_parser = ()\<rparr>
       ''fn'' ''<test>'' [claiming sample_map] (map Lint_unchecked [\<lparr>pass_state = (), pass_language = (\<lambda>_. Rust),
         pass_configure = (\<lambda>_ _. (Ok (), ())), pass_check_node = (\<lambda>s n. (Ok [sample_diag n], s))\<rparr>])) = Ok [d]"
proof -
  let ?parse = "\<lambda>(_ :: unit) _. Some (TsNode 1 ''fn'' 0 2 True None [])"
  let ?tree = "DecoratedTree_new (TsNode 1 ''fn'' 0 2 True None []) Rust ''fn'' ''<test>''"
  let ?passes = "[\<lparr>pass_state = (), pass_language = (\<lambda>_. Rust), pass_configure = (\<lambda>_ _. (Ok (), ())),
    pass_check_node = (\<lambda>s n. (Ok [sample_diag n], s))\<rparr>]"
  have parsed: "parse_test (\<lambda>_. Ok ()) ?parse (\<lambda>_. ()) ''fn'' Rust = Ok ?tree" by (simp add: parse_test_def)
  have pipe: "Pipeline_new (\<lambda>_. Ok ()) Rust () = Ok \<lparr>pipe_language = Rust, pipe_parser = ()\<rparr>" by (simp add: Pipeline_new_def)
  have invar: "map_invar sample_map" by (rule map_reachable_invar [OF sample_map_reachable])
  have small: "ts_small (dn_node (dt_root_node (decorate_test ?tree sample_map)))"
    by (simp add: DecoratedTree_new_def decorate_test_def dt_root_node_def)
  have "\<exists>d. fst (execute (decorate_test ?tree sample_map) ?passes) = Ok [d]"
    unfolding execute_def walk_def walk_lints_def Let_def case_prod_unfold visit_run named_nodes_preorder [OF small]
    by (simp add: lint_language_def Lint_unchecked_def dt_root_node_def decorate_test_def DecoratedTree_new_def ts_preorder.simps
        ts_named_children_def lint_check_node_def)
  with execute_is_pipeline [OF parsed invar pipe, of "claiming sample_map" ?passes] show ?thesis
    by (auto simp: claiming_def)
qed

section \<open>Assertions and fixtures\<close>

lemmas assertion_defs = has_rule_id_def has_severity_def message_contains_def has_span_def has_origin_count_def
  has_related_count_def has_suggestion_count_def assert_that_def

text \<open>A chain of all assertions passes exactly for a diagnostic with these properties, and hands it back.\<close>

theorem assertions_pass:
  "result_bind (has_rule_id rule d) (\<lambda>d. result_bind (has_severity sev d) (\<lambda>d. result_bind (message_contains sub d)
     (\<lambda>d. result_bind (has_span p start end d) (\<lambda>d. result_bind (has_origin_count i d)
     (\<lambda>d. result_bind (has_related_count j d) (has_suggestion_count k)))))) = Ok d' \<longleftrightarrow>
   d' = d \<and> diag_rule_id d = RuleId rule \<and> diag_severity d = sev \<and> sublist sub (diag_message d) \<and>
   start \<le> end \<and> diag_span d = \<lparr>span_file = FilePath_from p, span_start = start, span_end = end\<rparr> \<and>
   length (diag_origins d) = i \<and> length (diag_related d) = j \<and> length (diag_suggestions d) = k"
  by (cases "diag_rule_id d") (auto simp: assertion_defs result_bind_eq_Ok Span_new_def)

lemma extension_has_name: "Option.bind (extension p) to_str = Some ext \<Longrightarrow> \<exists>name. file_name p = Some name"
  by (auto simp: extension_def split: option.splits)

definition is_fixture :: "language \<Rightarrow> path \<Rightarrow> bool" where
  "is_fixture lang p = (Option.bind (Option.bind (extension p) to_str) from_extension = Some lang)"

definition fixture_of :: "(path \<Rightarrow> (string, io_error) result) \<Rightarrow> language \<Rightarrow> (path, io_error) result \<Rightarrow> (string \<times> string) list" where
  "fixture_of read lang e =
     (case e of
        Inr p \<Rightarrow> (case (file_name p, read p) of (Some name, Inr source) \<Rightarrow> if is_fixture lang p then [(utf8_lossy name, source)] else []
                                         | _ \<Rightarrow> [])
      | Inl _ \<Rightarrow> [])"

lemma read_fixtures_spec:
  "read_fixtures read lang es cases = Ok found \<longleftrightarrow>
     found = cases @ concat (map (fixture_of read lang) es) \<and> (\<forall>p. Inr p \<in> set es \<and> is_fixture lang p \<longrightarrow> is_ok (read p))"
proof (induction es arbitrary: cases)
  case (Cons e es)
  show ?case
  proof (cases e)
    case (Inr p)
    show ?thesis
    proof (cases "is_fixture lang p")
      case True
      then obtain ext name where "Option.bind (extension p) to_str = Some ext" "from_extension ext = Some lang" "file_name p = Some name"
        using extension_has_name by (fastforce simp: is_fixture_def bind_eq_Some_conv)
      with Inr True show ?thesis by (cases "read p") (auto simp: Cons.IH fixture_of_def)
    next
      case False
      then have "read_fixtures read lang (e # es) cases = read_fixtures read lang es cases"
        by (auto simp: Inr is_fixture_def bind_eq_Some_conv split: option.splits)
      with Inr False show ?thesis by (auto simp: Cons.IH fixture_of_def split: option.splits sum.splits)
    qed
  qed (simp add: Cons.IH fixture_of_def)
qed auto

text \<open>
  The fixtures of a language are the listed files with one of its extensions, each with its name and its
  text, by name and in the order of the listing where two names are equal. Loading succeeds exactly when
  the directory is listed and each of these files is read.
\<close>

theorem fixtures_complete:
  "fixtures read_dir read dir lang = Ok found \<longleftrightarrow>
     (\<exists>es. read_dir dir = Ok es \<and> found = sort_key fst (concat (map (fixture_of read lang) es)) \<and>
        (\<forall>p. Inr p \<in> set es \<and> is_fixture lang p \<longrightarrow> is_ok (read p)))"
  by (cases "read_dir dir") (auto simp: fixtures_def result_bind_eq_Ok read_fixtures_spec)

end
