(* ===== verification/Spec2Isabelle.thy ===== *)
theory Spec2Isabelle
  imports CheckCommand TypeScriptProvider TsDynamic BundleManifest RustDecorations Fingerprint PluginExport Testing
begin

text \<open>
  Stiles lints Rust and TypeScript with rules that a project names in its configuration. A rule is a pass
  of a plugin; stiles builds or fetches the plugin, loads it, parses each file with tree-sitter, decorates
  the tree with what the language's own toolchain knows, walks the tree with the passes and reports what
  they find. This development models that path from the configuration to the exit code, and proves what
  each part promises to the next. Beside the path it models how the bundled TypeScript checker reads paths, and
  the tool that bundles it. File names below are relative to \<open>crates/\<close>.

  \<^bold>\<open>How the parts interact.\<close> The command (\<open>CheckCommand\<close>) reads the configuration (\<open>Config\<close>), resolves its
  sources to libraries (\<open>LintSources\<close>, over \<open>GitSource\<close>, \<open>Prebuilt\<close>, \<open>LintBuild\<close>, \<open>LintCache\<close>, \<open>Storage\<close>),
  loads them (\<open>LintLoading\<close>, \<open>Abi\<close>; the plugin's side is \<open>PluginExport\<close> and \<open>Codegen\<close>), finds the files
  (\<open>Discovery\<close>), loads one provider per project (\<open>Projects\<close>, \<open>TypeScriptProvider\<close>, \<open>RustProvider\<close>) and runs
  the pipeline on each file (\<open>Pipeline\<close>, \<open>Walker\<close>, \<open>Syntax\<close>, \<open>Decorations\<close>). The findings are positioned and
  rendered by \<open>Findings\<close> and \<open>Reporting\<close>. The checker behind \<open>TypeScriptProvider\<close> finds its files by the
  paths of \<open>TsPath\<close> and the theories on it; \<open>BundleManifest\<close> and \<open>BundleRewrite\<close> are how its crates become one.

  \<^bold>\<open>Theories and sources.\<close>
    \<^item> \<open>Prelude\<close>: results as sums, slices, lemma collections. \<open>Text\<close>: UTF-8 bytes, paths and their components.
    \<^item> \<open>Vocabulary\<close>, \<open>RuleOptions\<close>: the values of \<open>stiles-types/src\<close> (spans, diagnostics, severities, rules).
    \<^item> \<open>Decorations\<close>, \<open>Syntax\<close>: \<open>decoration_map.rs\<close>, \<open>decoration_lookup.rs\<close>, \<open>decorated_tree.rs\<close>,
      \<open>decorated_node.rs\<close>. The locales \<open>decoration_store\<close> and \<open>decoration_builder\<close> state what the map promises
      its clients; \<open>dm\<close> interprets them on the map of the code.
    \<^item> \<open>Walker\<close>, \<open>Pipeline\<close>: \<open>lint_pass.rs\<close>, \<open>stiles-core/src/tree_walker.rs\<close>, \<open>lint.rs\<close>, \<open>pipeline.rs\<close>.
    \<^item> \<open>Config\<close>, \<open>Abi\<close>, \<open>LintLoading\<close>: \<open>stiles/src/config.rs\<close>, \<open>stiles-types/src/plugin\<close>,
      \<open>stiles/src/custom_lints.rs\<close> with \<open>handshake.rs\<close> and \<open>abi_tag.rs\<close>.
    \<^item> \<open>Storage\<close>: the operations of \<open>std::fs\<close> on a world, as the locale \<open>storage\<close> with its interpretation \<open>fs\<close>, and
      \<open>storage_moves\<close>, which adds that a new directory is empty and that a rename leaves every other path alone.
      \<open>LintCache\<close>, \<open>Prebuilt\<close>, \<open>GitSource\<close> (locale \<open>git_store\<close>), \<open>LintBuild\<close>, \<open>LintSources\<close>: the modules of
      \<open>stiles/src/custom_lints\<close>.
    \<^item> \<open>Discovery\<close>, \<open>Projects\<close>, \<open>Reporting\<close>, \<open>Findings\<close>, \<open>CheckCommand\<close>: \<open>stiles/src/discovery.rs\<close>,
      \<open>stiles/src/commands\<close> with its modules, \<open>stiles-reporting/src\<close>.
    \<^item> \<open>Targets\<close>, \<open>TypeScriptProvider\<close>: \<open>stiles-typescript/src/provider.rs\<close>, \<open>queries.rs\<close> and \<open>decorations\<close>. The
      locale \<open>decoration_source\<close> is the contract of a provider backed by a toolchain; both providers interpret it.
    \<^item> \<open>RustAnalyzer\<close>, \<open>RustReexports\<close>, \<open>RustProvider\<close>, \<open>RustDecorations\<close>: \<open>stiles-rust/src/provider.rs\<close> and
      \<open>decorations\<close>.
    \<^item> \<open>Codegen\<close>, \<open>Fingerprint\<close>, \<open>PluginExport\<close>: \<open>stiles-codegen/src\<close>, \<open>stiles-plugin/src\<close>, \<open>stiles-macros/src\<close>.
    \<^item> \<open>Testing\<close>: \<open>stiles-testing/src/lib.rs\<close>.
    \<^item> \<open>TsPathScan\<close>, \<open>TsPath\<close>, \<open>TsNormalize\<close>, \<open>TsNormalForm\<close>, \<open>TsRelative\<close>, \<open>TsDynamic\<close>: \<open>tspath\<close> and
      \<open>stringutil/compare.rs\<close> of \<open>stiles-tsrs/tsrs_core/src\<close>: the scan for segments, roots and components, the
      normal form and its text, comparison and relative paths, the names of documents that are not files.
    \<^item> \<open>BundleRewrite\<close>, \<open>BundleManifest\<close>: \<open>tools/bundle-tsrs/src\<close>: the edits to a source file, the crates that
      are bundled, their merged dependencies and the manifest.

  \<^bold>\<open>State and operations.\<close> A struct is a record or a datatype with the fields of the code, an enum a datatype,
  \<open>Result\<close> a sum with the error on the left. Code that mutates returns its state: \<open>walk_lints\<close> the passes,
  \<open>check_file\<close> the \<open>walk_state\<close> of the loop over the files, the installers a world. Text is the list of its
  UTF-8 bytes, so offsets are byte offsets. A panic is an error value or \<open>None\<close>. Hashes, versions and symbol
  flags are words of the width of the code; sizes are natural numbers, with the bounds that the code checks
  (offsets that must fit 32 bits, the 64-bit length prefix of a fingerprint) written out. \<open>Providers_loads\<close>
  returns, beside the result of \<open>Providers::load\<close>, which projects it loaded and in which order.

  \<^bold>\<open>What the lemmas show.\<close> For the decoration map: lookups by binary search equal a scan, and insertions are
  read back. For the walk and the pipeline: document order, isolation of lints, refusal of any rule that a lint itself did not
  declare, which outcome a file has, and whose decoration a rule reads. For loading: what passes the handshake, that
  the lints are those of every configured source in order, that they share no rule, that options reach the lints that declare them. For fetching: an install
  moves a complete and verified directory into place or leaves none, an extraction writes exactly the plain files
  of the archive directly in its directory, tokens stay on their host,
  a checkout is at its pin, places in the cache do not collide, printed URLs are redacted. For projects and
  files: discovery finds each file once, every file has the provider of its nearest project, and each
  project is loaded once, when it is first needed. For the
  providers: what a rule reads at each node under each key is what the toolchain answers for it, the walk of re-exports ends
  and gives shortest paths, the Rust provider answers for every file under its root. For generated code:
  every node kind reaches its hook, merged grammars keep every kind and subtype, an exported plugin loads as written.
  For the paths of the checker: the scan of eight bytes at a time finds what the segments have, the text of a
  normalized path is what its reduced components spell, a relative path leads to its target, containment on
  text is containment of components, an encoded name reads back and stays below its directory. For bundling:
  an edited file keeps every byte between the edits, and the crates are exactly those the named ones need.
  For the command: its exit code, its report and the order of it as functions of what each file is on its
  own, the text each finding is positioned in, and that keep-going visits every file. At the end of this theory, all of it together: what is reported was
  analyzed in the text that was read.

  \<^bold>\<open>Termination.\<close> Recursion is structural or has a measure. Two work lists have no bound in the code and are
  \<open>partial_function\<close>s: \<open>walk_modules\<close> (the breadth-first walk of a dependency) and \<open>leaf_loop\<close> (the subtypes of
  a node kind). Both are proved to return: the first for a dependency with finitely many modules, the second
  always, since a kind is expanded at most once. No fuel is used.

  \<^bold>\<open>Arguments.\<close> Code outside the repository is an argument: tree-sitter (a parse function; trees are a
  datatype), codespan's emitter, clawless' presenter, the \<open>ignore\<close> walker, gitoxide, HTTP, cargo, the dynamic
  loader, the file system, rust-analyzer (the record \<open>hir\<close>; \<open>rust_analyzer\<close> adds which files its questions read, and
  they panic on one without text), the TypeScript checker (the record \<open>tsrs\<close>), serde's
  tables, the trees of syn, the lexer of proc_macro2, the folding of case in the checker's comparisons and the
  packages that \<open>cargo metadata\<close> lists. What a theorem needs of them is a named hypothesis, with a witness; of the
  folding of case it is reflexivity alone.

  \<^bold>\<open>Bounds of the file system.\<close> The interpretation \<open>fs\<close> finds a file by the text of its path: \<open>..\<close> and links are
  not resolved. So what must hold on every file system is stated without it: the names that an extraction
  writes are single plain components, whatever the file system makes of others. The installers assume no
  other writer between a test and the operation that follows it. The Rust provider repairs the texts of the files under
  its root only, so its theorem asks that what the analyzer reads outside of the root is UTF-8.

  \<^bold>\<open>Not modelled.\<close> The TypeScript checker in \<open>stiles-tsrs\<close> is a port of the TypeScript compiler, copied from
  its own repository by \<open>tools/bundle-tsrs\<close>; the provider asks it single questions. Of it only the paths are
  modelled, without \<open>to_path\<close>, the common parents and the rewriting of extensions. Of the bundling the calls of
  cargo and git, the copying of files and the text of the README are left out; \<open>tools/rakko\<close> runs the chores of
  the repository. The entry point (\<open>stiles/src/main.rs\<close>) hands the command line to clap. The C layout of plugin
  declarations, threads (there are none in the checked code) and the wording of derived \<open>Debug\<close> text are left out,
  and so is \<open>DecoratedNode::parent\<close>: a tree is a datatype without back pointers, and no modelled code calls it.
\<close>

section \<open>A file is analyzed in the text that is linted\<close>

text \<open>A step of the check that records diagnostics read the file and ran the lints on what it read.\<close>

lemma check_file_recorded:
  fixes lints :: "('s, 'e) custom_lints"
  assumes "check_file host listening w lints config providers recovery p st = (r, st')" "ws_diagnostics st' \<noteq> ws_diagnostics st"
  obtains source g pipe ds and passes :: "('s, 'e) lint list" where "host_read host w p = Ok source" "Grammar_of p = Some g"
    "fst (run_on_source (host_parse host) pipe source p
       (for_file (host_analyzers host w) providers p (grammar_language g)) passes) = Ok ds"
    "ws_sources st' = path_insert p source (ws_sources st)"
proof -
  note defs = check_file_def fail_file_with_def record_failure_def Let_def
  obtain source where source: "host_read host w p = Ok source"
    using assms by (cases "host_read host w p") (auto simp: defs split: sum.splits)
  obtain passes where passes: "instantiate lints (config_options config) = Ok passes"
    using assms source by (cases "instantiate lints (config_options config)") (auto simp: defs split: sum.splits)
  obtain g where g: "Grammar_of p = Some g"
    using assms source passes by (cases "Grammar_of p") (auto simp: defs split: sum.splits)
  obtain pipe pipelines where pipe: "pipeline_for host g (ws_pipelines st) = Ok (pipe, pipelines)"
    using assms source passes g by (cases "pipeline_for host g (ws_pipelines st)") (auto simp: defs split: sum.splits)
  let ?run = "fst (run_on_source (host_parse host) pipe source p (for_file (host_analyzers host w) providers p (grammar_language g)) passes)"
  obtain ds where ds: "?run = Ok ds"
    using assms source passes g pipe
    by (cases ?run) (auto simp: defs record_uncovered_def split: sum.splits run_pipeline_error.splits)
  with assms source passes g pipe have "ws_sources st' = path_insert p source (ws_sources st)"
    by (auto simp: defs split: sum.splits if_splits)
  with source g ds show thesis by (rule that)
qed

text \<open>A run over one provider is a run over the provider that covers the file; with none, it is an error.\<close>

lemma run_on_source_needs_provider: "fst (run_on_source parse pipe source p [] passes) \<noteq> Ok ds"
  by (auto simp: run_on_source_def ok_or_def Let_def split: option.splits)

lemma run_on_source_not_declined:
  "fst (run_on_source parse pipe source p [no_typescript_project] passes) \<noteq> Ok ds"
  by (auto simp: run_on_source_def ok_or_def no_typescript_project_def Let_def split: option.splits)

text \<open>What a toolchain holds for a tree is what it holds for the file of the tree.\<close>

lemma held_text_of_file:
  "dt_file t = dt_file t' \<Longrightarrow> ts_held_text cwd tp t = ts_held_text cwd tp t'"
  "dt_file t = dt_file t' \<Longrightarrow> rust_held_text cwd rp t = rust_held_text cwd rp t'"
  by (simp_all add: ts_held_text_def rust_held_text_def)

text \<open>
  C5: Whenever a step of the check records a diagnostic for a file, the toolchain that is responsible
  for the file held exactly the text that was read, parsed and linted, and that text is the one kept for
  rendering. For a TypeScript file it is the project at the root the search finds, for a Rust file the
  one workspace. The hypotheses say that the loaded providers are the two of this program; the Rust one
  answers, since its resolution ends.
\<close>

theorem findings_on_analyzed_text:
  fixes lints :: "('s, 'e) custom_lints" and T :: "'e ts_types"
  assumes ts: "\<forall>root pr. path_get (prov_typescript providers) root = Some pr \<longrightarrow> (\<exists>tp :: ('f, 'n, 't, 'y) typescript_provider. pr = typescript_decoration_provider T cwd tp)"
    and rust: "\<forall>pr. prov_rust providers = Some pr \<longrightarrow>
       (\<exists>rp. \<forall>t. rust_decorate R analyzer cwd rp t = Some (prov_decorate pr t))"
    and step: "check_file host listening w lints config providers recovery p st = (r, st')"
    and recorded: "ws_diagnostics st' \<noteq> ws_diagnostics st"
  shows "\<exists>source g. host_read host w p = Ok source \<and> Grammar_of p = Some g \<and>
     ws_sources st' = path_insert p source (ws_sources st) \<and>
     (case grammar_language g of
        TypeScript \<Rightarrow> \<exists>root (tp :: ('f, 'n, 't, 'y) typescript_provider).
          project_root (an_cwd (host_analyzers host w)) (an_is_file (host_analyzers host w)) p = Some root \<and>
          path_get (prov_typescript providers) root = Some (typescript_decoration_provider T cwd tp) \<and>
          (\<forall>t :: 'e decorated_tree. dt_file t = FilePath_from p \<longrightarrow> ts_held_text cwd tp t = Some source)
      | Rust \<Rightarrow> \<exists>pr rp.
          prov_rust providers = Some pr \<and> (\<forall>t. rust_decorate R analyzer cwd rp t = Some (prov_decorate pr t)) \<and>
          (\<forall>t :: 'e decorated_tree. dt_file t = FilePath_from p \<longrightarrow> rust_held_text cwd rp t = Some source))"
proof -
  from step recorded obtain source g pipe ds and passes :: "('s, 'e) lint list" where seen: "host_read host w p = Ok source" "Grammar_of p = Some g"
      "ws_sources st' = path_insert p source (ws_sources st)"
    and run: "fst (run_on_source (host_parse host) pipe source p
      (for_file (host_analyzers host w) providers p (grammar_language g)) passes) = Ok ds"
    by (rule check_file_recorded)
  let ?tree = "\<lambda>t. DecoratedTree_new t (pipe_language pipe) source p :: 'e decorated_tree"
  let ?an = "host_analyzers host w"
  have of_file: "dt_file (?tree t) = FilePath_from p" for t by (simp add: DecoratedTree_new_def)
  from run obtain passes' where run': "run_on_source (host_parse host) pipe source p
      (for_file ?an providers p (grammar_language g)) passes = (Ok ds, passes')"
    by (metis prod.collapse)
  show ?thesis
  proof (cases "grammar_language g")
    case Rust
    with run run_on_source_needs_provider obtain pr where pr: "prov_rust providers = Some pr"
      by (fastforce simp: for_file_def)
    with rust obtain rp where answers: "\<And>t. rust_decorate R analyzer cwd rp t = Some (prov_decorate pr t)" by blast
    from Rust pr run' have "run_on_source (host_parse host) pipe source p [pr] passes = (Ok ds, passes')" by (simp add: for_file_def)
    from rsd.linted_is_fresh [OF answers this] obtain t where "rust_held_text cwd rp (?tree t) = Some source" by blast
    with held_text_of_file(2) [of _ "?tree t"] of_file have "\<forall>t :: 'e decorated_tree. dt_file t = FilePath_from p \<longrightarrow> rust_held_text cwd rp t = Some source" by metis
    with seen pr answers Rust show ?thesis by auto
  next
    case TypeScript
    with run run_on_source_needs_provider run_on_source_not_declined obtain root pr
      where root: "project_root (an_cwd ?an) (an_is_file ?an) p = Some root" "path_get (prov_typescript providers) root = Some pr"
      by (fastforce simp: for_file_def split: option.splits)
    with ts obtain tp :: "('f, 'n, 't, 'y) typescript_provider" where tp: "pr = typescript_decoration_provider T cwd tp" by blast
    from TypeScript root run' have "run_on_source (host_parse host) pipe source p [pr] passes = (Ok ds, passes')" by (simp add: for_file_def)
    from tsd.linted_is_fresh [OF _ this, of T cwd tp] tp obtain t where "ts_held_text cwd tp (?tree t) = Some source"
      by (auto simp: typescript_decoration_provider_def)
    with held_text_of_file(1) [of _ "?tree t"] of_file have "\<forall>t :: 'e decorated_tree. dt_file t = FilePath_from p \<longrightarrow> ts_held_text cwd tp t = Some source" by metis
    with seen root tp TypeScript show ?thesis by auto
  qed
qed

section \<open>A checked TypeScript file\<close>

text \<open>A project \<open>/p\<close> of the small TypeScript program and a lint that warns about every node.\<close>

definition example_pass :: "(unit, example_erased) lint_pass" where
  "example_pass = \<lparr>pass_state = (), pass_language = (\<lambda>_. TypeScript), pass_configure = (\<lambda>_ _. (Ok (), ())),
     pass_check_node = (\<lambda>s n. (Ok [sample_diag n], s))\<rparr>"

definition example_lint :: "(unit, example_erased) loaded_lint" where
  "example_lint = \<lparr>loaded_factory = Ok example_pass, loaded_language = TypeScript, loaded_rules = [RuleId ''r''],
     loaded_library = ''/t/l.so''\<rparr>"

definition example_providers :: "example_erased providers" where
  "example_providers = \<lparr>prov_rust = None,
     prov_typescript = [(''/p'', typescript_decoration_provider example_types (Ok ''/'') example_ts_provider)]\<rparr>"

definition example_analyzers :: "(example_erased, unit) analyzers" where
  "example_analyzers =
     \<lparr>an_cwd = Some ''/'', an_is_file = (\<lambda>p. p = ''/p/tsconfig.json''), an_load_rust = (\<lambda>_. Err (Cause ())),
      an_load_typescript = (\<lambda>_. Ok (typescript_decoration_provider example_types (Ok ''/'') example_ts_provider))\<rparr>"

definition example_host :: "(fs, unit, unit, unit, example_erased, unit, unit) host" where
  "example_host =
     \<lparr>host_machine = path_machine, host_opener = (\<lambda>_. Ok \<lparr>decl_identity = sample_identity 1 2, decl_load = Ok []\<rparr>),
      host_identity = sample_identity 1 3, host_target = ''t'', host_exists = (\<lambda>_ _. True), host_project = (\<lambda>_ _. Ok (''/p'', ''c'', None)),
      host_gix_parse = (\<lambda>_. None), host_ignore = (\<lambda>_. sample_ignore), host_analyzers = (\<lambda>_. example_analyzers),
      host_read = (\<lambda>_ p. Ok ''x''), host_grammars = (\<lambda>_. ()), host_set_language = (\<lambda>_. Ok ()),
      host_parse = (\<lambda>_ _. Some (TsNode 1 ''program'' 0 1 True None [TsNode 2 ''identifier'' 0 1 True None []])),
      host_emit = (\<lambda>_ _. Ok []), host_show = (\<lambda>_. []), host_exit = (\<lambda>_. \<lparr>exit_code = 1, exit_text = None\<rparr>)\<rparr>"

definition example_state :: "(unit, unit, unit) walk_state" where
  "example_state = \<lparr>ws_pipelines = Map.empty, ws_diagnostics = [], ws_sources = [], ws_remedies = [], ws_failures = [], ws_log = []\<rparr>"

lemma example_grammar: "Grammar_of ''/p/x.ts'' = Some TypeScriptGrammar" by code_simp

lemma example_root: "project_root (Some ''/'') (\<lambda>p. p = ''/p/tsconfig.json'') ''/p/x.ts'' = Some ''/p''" by code_simp

lemma example_walk:
  "\<exists>ds. ds \<noteq> [] \<and> (\<forall>d \<in> set ds. diag_rule_id d = RuleId ''r'') \<and>
     fst (walk_lints (dt_merge_decorations m example_ts_tree) [Lint_new example_pass [RuleId ''r'']]) = Ok ds"
proof -
  have small: "ts_small (dn_node (dt_root_node (dt_merge_decorations m example_ts_tree)))"
    by (simp add: example_ts_tree_def DecoratedTree_new_def dt_merge_decorations_def dt_root_node_def)
  show ?thesis
    unfolding walk_lints_def Let_def visit_run named_nodes_preorder [OF small]
    by (simp add: lint_language_def Lint_new_def example_pass_def example_ts_tree_def dt_root_node_def
        dt_merge_decorations_def DecoratedTree_new_def ts_preorder.simps ts_named_children_def lint_check_node_def
        sample_diag_def Diagnostic_new_def dn_sibling_def)
qed

lemma example_step:
  "\<exists>st'. check_file example_host (\<lambda>_. True) path_fs [example_lint] path_config example_providers Continue ''/p/x.ts'' example_state
     = (Ok WalkContinue, st') \<and> ws_diagnostics st' \<noteq> []"
proof -
  obtain m where m: "ts_decorate example_types (Ok ''/'') example_ts_provider example_ts_tree = Ok (Covered m)"
    using example_ts_covered by blast
  obtain ds ls where walk: "walk_lints (dt_merge_decorations m example_ts_tree) [Lint_new example_pass [RuleId ''r'']] = (Ok ds, ls)"
    "ds \<noteq> []" "\<forall>d \<in> set ds. diag_rule_id d = RuleId ''r''"
    using example_walk [of m] by (metis prod.collapse)
  have passes: "instantiate [example_lint] (config_options path_config) = Ok [Lint_new example_pass [RuleId ''r'']]"
    by (simp add: instantiate_def instantiate_lint_def example_lint_def example_pass_def Let_def)
  have own: "for_file example_analyzers example_providers ''/p/x.ts'' TypeScript =
      [typescript_decoration_provider example_types (Ok ''/'') example_ts_provider]"
    by (simp add: for_file_def example_analyzers_def example_root example_providers_def path_get_def)
  have "fst (run_on_source (host_parse example_host) \<lparr>pipe_language = TypeScript, pipe_parser = ()\<rparr> ''x'' ''/p/x.ts''
      [typescript_decoration_provider example_types (Ok ''/'') example_ts_provider] [Lint_new example_pass [RuleId ''r'']]) = Ok ds"
    using m walk(1) by (simp add: run_on_source_def example_host_def typescript_decoration_provider_def Let_def del: One_nat_def flip: example_ts_tree_def)
  moreover have "filter (\<lambda>d. admits (config_rules path_config) (diag_rule_id d)) ds = ds"
    using walk(3) by (simp add: filter_id_conv path_config_def)
  moreover have "pipeline_for example_host TypeScriptGrammar Map.empty =
      Ok (\<lparr>pipe_language = TypeScript, pipe_parser = ()\<rparr>, [TypeScriptGrammar \<mapsto> \<lparr>pipe_language = TypeScript, pipe_parser = ()\<rparr>])"
    by (simp add: pipeline_for_def grammar_pipeline_def Pipeline_new_def example_host_def)
  moreover have "host_read example_host path_fs ''/p/x.ts'' = Ok ''x''" "host_analyzers example_host path_fs = example_analyzers"
    by (simp_all add: example_host_def)
  ultimately show ?thesis
    using walk(2) by (simp add: check_file_def present_event_def passes own example_grammar example_state_def)
qed

theorem findings_on_analyzed_text_witness:
  "\<exists>st' :: (unit, unit, unit) walk_state. check_file example_host (\<lambda>_. True) path_fs [example_lint] path_config example_providers
       Continue ''/p/x.ts'' example_state = (Ok WalkContinue, st') \<and> ws_diagnostics st' \<noteq> [] \<and>
     ws_sources st' = [(''/p/x.ts'', ''x'')]"
proof -
  obtain st' where step: "check_file example_host (\<lambda>_. True) path_fs [example_lint] path_config example_providers Continue ''/p/x.ts''
      example_state = (Ok WalkContinue, st')" and found: "ws_diagnostics st' \<noteq> []"
    using example_step by blast
  have ts: "\<forall>root pr. path_get (prov_typescript example_providers) root = Some pr \<longrightarrow>
      (\<exists>tp :: (unit, nat, unit, unit) typescript_provider. pr = typescript_decoration_provider example_types (Ok ''/'') tp)"
    by (auto simp: example_providers_def path_get_def split: if_splits)
  from found have recorded: "ws_diagnostics st' \<noteq> ws_diagnostics example_state" by (simp add: example_state_def)
  from findings_on_analyzed_text [OF ts _ step recorded, of _ example_analyzer] step found show ?thesis
    by (auto simp: example_providers_def example_host_def example_state_def)
qed

end
